(* ===== verification/Prelude.thy ===== *)
theory Prelude
  imports Complex_Main "HOL-Library.AList"
begin

section \<open>Shared notation, error values and list lemmas\<close>

text \<open>
  The base of the development: the Python exceptions of the modelled code as one datatype,
  results as a sum type with the error on the left, the combinators that thread a result
  through a call, a loop or a list, and the query shapes that the services use on a table
  (\<open>scalar_one_or_none\<close>, \<open>scalar_one\<close>, \<open>first\<close>, an in-place update of the matching rows).

  A Python \<open>dict\<close> is an association list in insertion order (\<open>AList.update\<close> overwrites in
  place or appends, as assignment to a key does), a tenant or row identifier is a number.
\<close>

named_theorems result_simps \<open>unfolding of results: bind, guards, loops\<close>
named_theorems table_simps \<open>effect of the table operations on the tables they touch\<close>

type_synonym uuid = nat
type_synonym date = int \<comment> \<open>proleptic Gregorian ordinal, as \<open>date.toordinal()\<close>\<close>
type_synonym timestamp = int \<comment> \<open>microseconds\<close>
type_synonym dec = rat \<comment> \<open>the numeric value of a finite \<open>decimal.Decimal\<close>\<close>
type_synonym pyfloat = rat \<comment> \<open>the numeric value of a finite \<open>float\<close>\<close>

subsection \<open>Exceptions\<close>

datatype exn =
    ValueError string
  | KeyError
  | IndexError
  | TypeError
  | AttributeError
  | RuntimeError string
  | RecursionError
  | InvalidOperation
  | ZeroDivisionError
  | NoResultFound
  | MultipleResultsFound
  | IntegrityError
  | DataError
  | ZeroSumViolation dec dec dec
  | SingleSidedViolation string dec dec
  | NegativeAmountViolation dec dec
  | PeriodLockedError date int int
  | AutonomyCeilingExceeded dec dec string
  | SalesPostingConfigurationError
  | DAGRecoveryConflict string
  | ArbitrationUnavailable

type_synonym 'a result = "exn + 'a"

text \<open>
  The subclasses of Python's \<open>ValueError\<close> among them, for the \<open>except ValueError\<close> clauses.
\<close>

fun is_value_error :: "exn \<Rightarrow> bool" where
  "is_value_error (ValueError m) = True"
| "is_value_error SalesPostingConfigurationError = True"
| "is_value_error (DAGRecoveryConflict m) = True"
| "is_value_error e = False"

subsection \<open>Results\<close>

primrec ebind :: "'e + 'a \<Rightarrow> ('a \<Rightarrow> 'e + 'b) \<Rightarrow> 'e + 'b" where
  "ebind (Inl e) f = Inl e"
| "ebind (Inr x) f = f x"

definition ensure :: "bool \<Rightarrow> 'e \<Rightarrow> 'e + unit" where
  "ensure b e = (if b then Inr () else Inl e)"

text \<open>A loop whose body may raise: the first error ends it.\<close>

fun efold :: "('s \<Rightarrow> 'a \<Rightarrow> 'e + 's) \<Rightarrow> 's \<Rightarrow> 'a list \<Rightarrow> 'e + 's" where
  "efold f s [] = Inr s"
| "efold f s (x # xs) = ebind (f s x) (\<lambda>s'. efold f s' xs)"

fun emap :: "('a \<Rightarrow> 'e + 'b) \<Rightarrow> 'a list \<Rightarrow> 'e + 'b list" where
  "emap f [] = Inr []"
| "emap f (x # xs) = ebind (f x) (\<lambda>y. ebind (emap f xs) (\<lambda>ys. Inr (y # ys)))"

definition is_ok :: "'e + 'a \<Rightarrow> bool" where
  "is_ok r = (case r of Inl _ \<Rightarrow> False | Inr _ \<Rightarrow> True)"

lemma is_ok_simps [simp]: "is_ok (Inr x)" "\<not> is_ok (Inl e)"
  by (simp_all add: is_ok_def)

lemma ebind_eq_Inr [result_simps]:
  "ebind r f = Inr y \<longleftrightarrow> (\<exists>x. r = Inr x \<and> f x = Inr y)"
  by (cases r) auto

lemma ebind_eq_Inl [result_simps]:
  "ebind r f = Inl e \<longleftrightarrow> r = Inl e \<or> (\<exists>x. r = Inr x \<and> f x = Inl e)"
  by (cases r) auto

lemma ensure_eq_Inr [simp]: "ensure b e = Inr u \<longleftrightarrow> b"
  by (simp add: ensure_def)

lemma ensure_eq_Inl [simp]: "ensure b e = Inl e' \<longleftrightarrow> \<not> b \<and> e' = e"
  by (auto simp: ensure_def)

lemma ensure_True [simp]: "ensure True e = Inr ()"
  by (simp add: ensure_def)

lemma ensure_False [simp]: "ensure False e = Inl e"
  by (simp add: ensure_def)

text \<open>In evaluation the continuation is not entered before the result it needs is known.\<close>

lemma ebind_case [code_unfold]:
  "ebind r f = (case r of Inl e \<Rightarrow> Inl e | Inr x \<Rightarrow> f x)"
  by (cases r) simp_all

lemma ebind_assoc: "ebind (ebind r f) g = ebind r (\<lambda>x. ebind (f x) g)"
  by (cases r) simp_all

lemma ebind_cong [fundef_cong]:
  "r = r' \<Longrightarrow> (\<And>x. r' = Inr x \<Longrightarrow> f x = f' x) \<Longrightarrow> ebind r f = ebind r' f'"
  by (cases r') simp_all

lemma emap_cong [fundef_cong]:
  "xs = ys \<Longrightarrow> (\<And>x. x \<in> set ys \<Longrightarrow> f x = g x) \<Longrightarrow> emap f xs = emap g ys"
  by (induction ys arbitrary: xs) (auto intro!: ebind_cong)

lemma efold_append: "efold f s (xs @ ys) = ebind (efold f s xs) (\<lambda>s'. efold f s' ys)"
  by (induction xs arbitrary: s) (simp_all add: ebind_assoc)

text \<open>The loop rule: what one iteration keeps, a loop that does not raise keeps.\<close>

lemma efold_invariant:
  assumes "efold f s xs = Inr s'" and "P s"
    and "\<And>s x s'. x \<in> set xs \<Longrightarrow> P s \<Longrightarrow> f s x = Inr s' \<Longrightarrow> P s'"
  shows "P s'"
  using assms
proof (induction xs arbitrary: s)
  case Nil
  then show ?case by simp
next
  case (Cons x xs)
  then obtain t where t: "f s x = Inr t" "efold f t xs = Inr s'"
    by (auto simp: ebind_eq_Inr)
  have "P t" using Cons.prems(2,3) t(1) by auto
  with t(2) Cons.prems(3) show ?case by (intro Cons.IH [of t]) auto
qed

lemma efold_each: "efold f s xs = Inr s' \<Longrightarrow> x \<in> set xs \<Longrightarrow> \<exists>u v. f u x = Inr v"
  by (induction xs arbitrary: s) (auto simp: ebind_eq_Inr)

lemma efold_pure: "efold (\<lambda>s x. Inr (f s x)) s xs = Inr (foldl f s xs)"
  by (induction xs arbitrary: s) simp_all

lemma emap_length: "emap f xs = Inr ys \<Longrightarrow> length ys = length xs"
  by (induction xs arbitrary: ys) (auto simp: ebind_eq_Inr)

lemma emap_nth:
  "emap f xs = Inr ys \<Longrightarrow> i < length xs \<Longrightarrow> f (xs ! i) = Inr (ys ! i)"
proof (induction xs arbitrary: ys i)
  case Nil
  then show ?case by simp
next
  case (Cons x xs)
  then show ?case by (cases i) (auto simp: ebind_eq_Inr)
qed

lemma emap_set:
  "emap f xs = Inr ys \<Longrightarrow> y \<in> set ys \<Longrightarrow> \<exists>x \<in> set xs. f x = Inr y"
  by (induction xs arbitrary: ys) (auto simp: ebind_eq_Inr)

lemma emap_pure: "emap (\<lambda>x. Inr (f x)) xs = Inr (map f xs)"
  by (induction xs) simp_all

lemma emap_Inl: "emap f xs = Inl e \<Longrightarrow> \<exists>x \<in> set xs. f x = Inl e"
  by (induction xs) (auto simp: ebind_eq_Inl)

lemma emap_map: "emap f xs = Inr ys \<Longrightarrow> (\<And>x y. f x = Inr y \<Longrightarrow> k y = h x) \<Longrightarrow> map k ys = map h xs"
  by (induction xs arbitrary: ys) (auto simp: ebind_eq_Inr)

lemma emap_Inr_in: "emap f xs = Inr ys \<Longrightarrow> x \<in> set xs \<Longrightarrow> \<exists>y. f x = Inr y"
  by (induction xs arbitrary: ys) (auto simp: ebind_eq_Inr)

lemma emap_mono:
  "(\<And>x y. x \<in> set xs \<Longrightarrow> f x = Inr y \<Longrightarrow> g x = Inr y) \<Longrightarrow> emap f xs = Inr ys \<Longrightarrow> emap g xs = Inr ys"
  by (induction xs arbitrary: ys) (auto simp: ebind_eq_Inr)

lemma emap_total:
  "(\<And>x. x \<in> set xs \<Longrightarrow> \<exists>y. f x = Inr y \<and> P y) \<Longrightarrow> \<exists>ys. emap f xs = Inr ys \<and> list_all P ys"
proof (induction xs)
  case (Cons x xs)
  then obtain y ys where "f x = Inr y" "P y" "emap f xs = Inr ys" "list_all P ys" by (metis list.set_intros)
  then show ?case by simp
qed simp

lemma efold_emap:
  assumes "\<And>g x. F g x = ebind (D x) (\<lambda>ds. Inr (foldl f g ds))"
  shows "efold F g xs = ebind (emap D xs) (\<lambda>dss. Inr (foldl f g (concat dss)))"
proof (induction xs arbitrary: g)
  case (Cons x xs)
  then show ?case by (cases "D x") (simp_all add: assms ebind_assoc)
qed simp

subsection \<open>Query shapes\<close>

text \<open>
  \<open>scalar_one_or_none\<close> raises when a query matches several rows; \<open>scalar_one\<close> also when it
  matches none. A query without \<open>ORDER BY\<close> is read in the order of insertion.
\<close>

fun one_or_none :: "'a list \<Rightarrow> 'a option result" where
  "one_or_none [] = Inr None"
| "one_or_none [x] = Inr (Some x)"
| "one_or_none (x # y # zs) = Inl MultipleResultsFound"

fun scalar_one :: "'a list \<Rightarrow> 'a result" where
  "scalar_one [] = Inl NoResultFound"
| "scalar_one [x] = Inr x"
| "scalar_one (x # y # zs) = Inl MultipleResultsFound"

definition or_else :: "'a option \<Rightarrow> 'a \<Rightarrow> 'a" where
  "or_else x d = (case x of None \<Rightarrow> d | Some v \<Rightarrow> v)"

fun first_row :: "'a list \<Rightarrow> 'a option" where
  "first_row [] = None"
| "first_row (x # xs) = Some x"

definition update_where :: "('r \<Rightarrow> bool) \<Rightarrow> ('r \<Rightarrow> 'r) \<Rightarrow> 'r list \<Rightarrow> 'r list" where
  "update_where P f rows = map (\<lambda>r. if P r then f r else r) rows"

lemma one_or_none_Some: "one_or_none xs = Inr (Some x) \<longleftrightarrow> xs = [x]"
  by (cases xs rule: one_or_none.cases) auto

lemma one_or_none_None: "one_or_none xs = Inr None \<longleftrightarrow> xs = []"
  by (cases xs rule: one_or_none.cases) auto

lemma scalar_one_Inr: "scalar_one xs = Inr x \<longleftrightarrow> xs = [x]"
  by (cases xs rule: scalar_one.cases) auto

lemma first_row_Some_in: "first_row xs = Some x \<Longrightarrow> x \<in> set xs"
  by (cases xs) auto

lemma one_or_none_filter:
  "one_or_none (filter P xs) = Inr (Some x) \<Longrightarrow> x \<in> set xs \<and> P x"
  by (auto simp: one_or_none_Some filter_eq_Cons_iff)

lemma one_or_none_distinct:
  assumes "distinct (map f xs)"
  shows "\<exists>r. one_or_none (filter (\<lambda>x. f x = k) xs) = Inr r"
proof -
  have "filter (\<lambda>x. f x = k) xs = [] \<or> (\<exists>x. filter (\<lambda>x. f x = k) xs = [x])"
    using assms
  proof (induction xs)
    case (Cons x xs)
    then show ?case by (cases "f x = k") (auto simp: filter_empty_conv image_iff)
  qed simp
  then show ?thesis by auto
qed

lemma update_where_Nil [simp]: "update_where P f [] = []"
  by (simp add: update_where_def)

lemma update_where_Cons [simp]:
  "update_where P f (r # rs) = (if P r then f r else r) # update_where P f rs"
  by (simp add: update_where_def)

lemma length_update_where [simp]: "length (update_where P f rows) = length rows"
  by (simp add: update_where_def)

lemma update_where_append:
  "update_where P f (xs @ ys) = update_where P f xs @ update_where P f ys"
  by (simp add: update_where_def)

lemma set_update_where:
  "r \<in> set (update_where P f rows) \<longleftrightarrow>
     (\<exists>q \<in> set rows. (P q \<and> r = f q) \<or> (\<not> P q \<and> r = q))"
  by (auto simp: update_where_def)

lemma list_all_update_where:
  "(\<And>y. P (f y) = P y) \<Longrightarrow> list_all P (update_where Q f ys) = list_all P ys"
  by (induction ys) auto

lemma map_update_where:
  "(\<And>r. P r \<Longrightarrow> g (f r) = g r) \<Longrightarrow> map g (update_where P f rows) = map g rows"
  by (simp add: update_where_def)

lemma update_where_none: "(\<And>r. r \<in> set rows \<Longrightarrow> \<not> P r) \<Longrightarrow> update_where P f rows = rows"
  by (induction rows) auto

lemma filter_update_where:
  "(\<And>r. P r \<Longrightarrow> Q (f r) = Q r) \<Longrightarrow>
   filter Q (update_where P f rows) = update_where P f (filter Q rows)"
  by (induction rows) auto

lemma found_eq_Inr:
  "ebind q (\<lambda>r. case r of None \<Rightarrow> Inl x | Some a \<Rightarrow> f a) = Inr y \<longleftrightarrow> (\<exists>a. q = Inr (Some a) \<and> f a = Inr y)"
  by (cases q) (auto split: option.splits)

subsection \<open>Sums over lists\<close>

lemma sum_list_map_append [simp]:
  "(\<Sum>x\<leftarrow>xs @ ys. f x) = (\<Sum>x\<leftarrow>xs. f x) + (\<Sum>x\<leftarrow>ys. (f x :: rat))"
  by simp

lemma sum_list_nonneg_map:
  "(\<And>x. x \<in> set xs \<Longrightarrow> 0 \<le> f x) \<Longrightarrow> 0 \<le> (\<Sum>x\<leftarrow>xs. (f x :: rat))"
  by (induction xs) auto

lemma sum_list_member_le:
  "(\<And>x. x \<in> set xs \<Longrightarrow> 0 \<le> f x) \<Longrightarrow> y \<in> set xs \<Longrightarrow> (f y :: rat) \<le> (\<Sum>x\<leftarrow>xs. f x)"
proof (induction xs)
  case Nil
  then show ?case by simp
next
  case (Cons x xs)
  have "0 \<le> (\<Sum>x\<leftarrow>xs. f x)" using Cons.prems(1) by (intro sum_list_nonneg_map) simp
  with Cons show ?case by (cases "y = x") (auto intro: order_trans)
qed

lemma foldl_add_sum_list: "foldl (\<lambda>a x. a + f x) s xs = s + (\<Sum>x\<leftarrow>xs. (f x :: rat))"
  by (induction xs arbitrary: s) simp_all

lemma foldl_conditional_sum: "foldl (\<lambda>a x. if P x then a + f x else a) s xs = s + (\<Sum>x\<leftarrow>filter P xs. (f x :: rat))"
  by (induction xs arbitrary: s) simp_all

text \<open>\<open>GROUP BY\<close>: the keys that occur, each with its rows in their order.\<close>

definition group_by :: "('a \<Rightarrow> 'k) \<Rightarrow> 'a list \<Rightarrow> ('k \<times> 'a list) list" where
  "group_by key xs = map (\<lambda>k. (k, filter (\<lambda>x. key x = k) xs)) (remdups (map key xs))"

lemma sum_absent: "k \<notin> set ks \<Longrightarrow> (\<Sum>j\<leftarrow>ks. if k = j then c else 0) = (0 :: rat)"
  by (induction ks) auto

lemma sum_present: "distinct ks \<Longrightarrow> k \<in> set ks \<Longrightarrow> (\<Sum>j\<leftarrow>ks. if k = j then c else 0) = (c :: rat)"
  by (induction ks) (auto simp: sum_absent)

lemma sum_by_key:
  assumes "distinct ks" "\<forall>x \<in> set xs. key x \<in> set ks"
  shows "(\<Sum>k\<leftarrow>ks. \<Sum>x\<leftarrow>filter (\<lambda>x. key x = k) xs. f x) = (\<Sum>x\<leftarrow>xs. (f x :: rat))"
  using assms(2)
proof (induction xs)
  case (Cons x xs)
  have "(\<Sum>k\<leftarrow>ks. if key x = k then f x else 0) = f x" if "key x \<in> set ks"
    using sum_present [OF assms(1) that] .
  moreover have "(\<Sum>k\<leftarrow>ks. \<Sum>x\<leftarrow>filter (\<lambda>x. key x = k) (x # xs). f x) =
      (\<Sum>k\<leftarrow>ks. if key x = k then f x else 0) + (\<Sum>k\<leftarrow>ks. \<Sum>x\<leftarrow>filter (\<lambda>x. key x = k) xs. f x)"
    by (simp flip: sum_list_addf add: if_distrib cong: if_cong) (auto intro!: arg_cong [of _ _ sum_list])
  ultimately show ?case using Cons by simp
qed simp

lemma group_keys: "map fst (group_by key xs) = remdups (map key xs)"
  by (simp add: group_by_def comp_def)

lemma group_sum: "(\<Sum>g\<leftarrow>group_by key xs. \<Sum>x\<leftarrow>snd g. f x) = (\<Sum>x\<leftarrow>xs. (f x :: rat))"
  using sum_by_key [of "remdups (map key xs)" xs key f] by (simp add: group_by_def comp_def)

lemma group_rows: "(k, ys) \<in> set (group_by key xs) \<Longrightarrow> ys = filter (\<lambda>x. key x = k) xs \<and> ys \<noteq> []"
  by (auto simp: group_by_def filter_empty_conv)

end
