(* ===== verification/Decimals.thy ===== *)
theory Decimals
  imports Prelude
begin

section \<open>Decimal and binary floating-point arithmetic\<close>

text \<open>
  Python's \<open>decimal\<close> and \<open>float\<close> as functions on rational numbers. A finite \<open>Decimal\<close> is its
  numeric value (its exponent, that is its trailing zeros, is not represented; NaN and the
  infinities are left out) and every operation rounds to the 28 significant digits of the default
  context, half to even; \<open>quantize\<close> rounds to a fixed number of places and raises
  \<open>InvalidOperation\<close> when the result needs more than 28 digits. A \<open>float\<close> is the same with
  53 binary digits (overflow and subnormal numbers are left out). Both are instances of one
  rounding function \<open>sig_round\<close>, and of the locale \<open>rounding\<close>, which states what the code relies
  on: rounding is monotone, odd and does nothing to a number it has produced.
\<close>

subsection \<open>Rounding to an integer\<close>

definition round_even :: "rat \<Rightarrow> int" where
  "round_even x =
     (let f = \<lfloor>x\<rfloor>; d = x - of_int f
      in if d < 1 / 2 then f else if d > 1 / 2 then f + 1 else if even f then f else f + 1)"

text \<open>\<open>ROUND_HALF_UP\<close>: to the nearest integer, ties away from zero.\<close>

definition round_half_up :: "rat \<Rightarrow> int" where
  "round_half_up x = (if 0 \<le> x then \<lfloor>x + 1 / 2\<rfloor> else - \<lfloor>1 / 2 - x\<rfloor>)"

lemma round_even_of_int [simp]: "round_even (of_int k) = k"
  by (simp add: round_even_def)

lemma round_even_0 [simp]: "round_even 0 = 0"
  using round_even_of_int [of 0] by simp

lemma round_even_cases: "round_even x = \<lfloor>x\<rfloor> \<or> round_even x = \<lfloor>x\<rfloor> + 1"
  by (simp add: round_even_def Let_def)

lemma round_even_close: "\<bar>of_int (round_even x) - x\<bar> \<le> 1 / 2"
proof -
  define f where "f = \<lfloor>x\<rfloor>"
  have "of_int f \<le> x" "x < of_int f + 1" unfolding f_def by linarith+
  then show ?thesis
    unfolding round_even_def Let_def f_def [symmetric] by (simp add: abs_if)
qed

lemma round_even_mono:
  assumes "x \<le> y"
  shows "round_even x \<le> round_even y"
proof (cases "\<lfloor>x\<rfloor> = \<lfloor>y\<rfloor>")
  case True
  with assms show ?thesis by (auto simp: round_even_def Let_def)
next
  case False
  with assms have "\<lfloor>x\<rfloor> + 1 \<le> \<lfloor>y\<rfloor>" using floor_mono [of x y] by linarith
  with round_even_cases [of x] round_even_cases [of y] show ?thesis by linarith
qed

lemma floor_minus_non_int: "x \<noteq> of_int \<lfloor>x\<rfloor> \<Longrightarrow> \<lfloor>- x\<rfloor> = - \<lfloor>x\<rfloor> - 1" for x :: rat
  by linarith

lemma round_even_minus: "round_even (- x) = - round_even x"
proof (cases "x = of_int \<lfloor>x\<rfloor>")
  case True
  then obtain k where "x = of_int k" by blast
  then show ?thesis using round_even_of_int [of "- k"] by simp
next
  case False
  then have f: "\<lfloor>- x\<rfloor> = - \<lfloor>x\<rfloor> - 1" by (rule floor_minus_non_int)
  show ?thesis unfolding round_even_def Let_def f
    by (auto simp: algebra_simps)
qed

lemma round_half_up_of_int [simp]: "round_half_up (of_int k) = k"
  by (simp add: round_half_up_def) linarith

lemma round_half_up_0 [simp]: "round_half_up 0 = 0"
  using round_half_up_of_int [of 0] by simp

lemma round_half_up_mono: "x \<le> y \<Longrightarrow> round_half_up x \<le> round_half_up y"
  unfolding round_half_up_def by (auto intro: floor_mono; linarith)

lemma floor_half [simp]: "\<lfloor>1 / 2 :: rat\<rfloor> = 0"
  by linarith

lemma round_half_up_minus: "round_half_up (- x) = - round_half_up x"
  by (cases "x = 0") (auto simp: round_half_up_def add.commute)

lemma round_half_up_close: "\<bar>of_int (round_half_up x) - x\<bar> \<le> 1 / 2"
  unfolding round_half_up_def abs_if by (cases "0 \<le> x"; simp; linarith)

subsection \<open>Rounding to a number of significant digits\<close>

function ndigits :: "int \<Rightarrow> int \<Rightarrow> nat" where
  "ndigits b n = (if b \<le> 1 \<or> n \<le> 0 then 0 else Suc (ndigits b (n div b)))"
  by pat_completeness auto
termination
  by (relation "measure (\<lambda>(b, n). nat n)") (auto simp: int_div_less_self)

declare ndigits.simps [simp del]

text \<open>\<open>ilog b x\<close> is the integer part of the logarithm of a positive \<open>x\<close> to the base \<open>b\<close>.\<close>

definition ilog :: "int \<Rightarrow> rat \<Rightarrow> int" where
  "ilog b x =
     (let (n, d) = quotient_of x; k = int (ndigits b n) - int (ndigits b d)
      in if of_int b powi k \<le> x then k else k - 1)"

definition sig_unit :: "int \<Rightarrow> nat \<Rightarrow> rat \<Rightarrow> rat" where
  "sig_unit b p x = of_int b powi (ilog b \<bar>x\<bar> - int p + 1)"

definition sig_round :: "int \<Rightarrow> nat \<Rightarrow> rat \<Rightarrow> rat" where
  "sig_round b p x =
     (if x = 0 then 0 else let u = sig_unit b p x in of_int (round_even (x / u)) * u)"

lemma ndigits_bounds:
  assumes "1 < b" "0 < n"
  shows "b ^ (ndigits b n - 1) \<le> n \<and> n < b ^ ndigits b n"
  using assms
proof (induction b n rule: ndigits.induct)
  case (1 b n)
  define q where "q = n div b"
  have n: "n = b * q + n mod b" by (simp add: q_def)
  have m: "0 \<le> n mod b" "n mod b < b" using 1 by simp_all
  have nd: "ndigits b n = Suc (ndigits b q)"
    using 1 by (subst ndigits.simps) (simp add: q_def)
  show ?case
  proof (cases "q = 0")
    case True
    then show ?thesis using nd n m 1 by (simp add: ndigits.simps)
  next
    case False
    have "0 \<le> q" using 1 by (simp add: q_def pos_imp_zdiv_nonneg_iff)
    with False have q: "0 < q" by simp
    have ih: "b ^ (ndigits b q - 1) \<le> q \<and> q < b ^ ndigits b q"
      using 1 q by (auto simp: q_def)
    have pos: "0 < ndigits b q" using q 1 by (subst ndigits.simps) simp
    have "b ^ ndigits b q = b * b ^ (ndigits b q - 1)"
      using pos by (cases "ndigits b q") simp_all
    also have "\<dots> \<le> b * q" using ih 1 by simp
    also have "\<dots> \<le> n" using n m by linarith
    finally have lo: "b ^ ndigits b q \<le> n" .
    have "n < b * (q + 1)" using n m by (simp add: algebra_simps)
    also have "\<dots> \<le> b * b ^ ndigits b q" using ih 1 by (intro mult_left_mono) auto
    finally show ?thesis using lo nd by simp
  qed
qed

lemma ilog_bounds:
  assumes b: "1 < b" and x: "0 < x"
  shows "of_int b powi ilog b x \<le> x \<and> x < of_int b powi (ilog b x + 1)"
proof -
  obtain n d where nd: "quotient_of x = (n, d)" by fastforce
  have d: "0 < d" using nd by (rule quotient_of_denom_pos)
  have xnd: "x = of_int n / of_int d" using nd by (rule quotient_of_div)
  with x d have n: "0 < n" by (simp add: zero_less_divide_iff)
  let ?B = "of_int b :: rat"
  have B: "1 < ?B" "0 < ?B" using b by simp_all
  define k where "k = int (ndigits b n) - int (ndigits b d)"
  have pn: "0 < ndigits b n" "0 < ndigits b d"
    using n d b by (simp_all add: ndigits.simps)
  have un: "of_int n < ?B ^ ndigits b n" "?B ^ (ndigits b n - 1) \<le> of_int n"
    using ndigits_bounds [OF b n] by (simp_all flip: of_int_power)
  have ud: "of_int d < ?B ^ ndigits b d" "?B ^ (ndigits b d - 1) \<le> of_int d"
    using ndigits_bounds [OF b d] by (simp_all flip: of_int_power)
  have "x \<le> of_int n / ?B ^ (ndigits b d - 1)"
    unfolding xnd using ud n B d by (intro divide_left_mono) auto
  also have "\<dots> < ?B ^ ndigits b n / ?B ^ (ndigits b d - 1)"
    using un B by (intro divide_strict_right_mono) auto
  also have "\<dots> = ?B powi (k + 1)"
    using B pn by (simp add: k_def power_int_diff power_int_add field_simps of_nat_diff
        flip: power_Suc)
      (cases "ndigits b d"; simp)
  finally have hi: "x < ?B powi (k + 1)" .
  have "?B powi (k - 1) = ?B ^ (ndigits b n - 1) / ?B ^ ndigits b d"
    using B pn by (simp add: k_def power_int_diff power_int_add field_simps
        flip: power_Suc)
      (cases "ndigits b n"; simp)
  also have "\<dots> \<le> of_int n / ?B ^ ndigits b d"
    using un B by (intro divide_right_mono) auto
  also have "\<dots> \<le> x"
    unfolding xnd using ud n B d by (intro divide_left_mono) auto
  finally have lo: "?B powi (k - 1) \<le> x" .
  have "ilog b x = (if ?B powi k \<le> x then k else k - 1)"
    by (simp add: ilog_def nd k_def)
  with hi lo show ?thesis by auto
qed

lemma sig_unit_pos: "1 < b \<Longrightarrow> 0 < sig_unit b p x"
  by (simp add: sig_unit_def)

lemma sig_round_scaled:
  assumes b: "1 < b" and p: "0 < p" and x: "0 < x"
  shows "of_int b ^ (p - 1) \<le> x / sig_unit b p x" "x / sig_unit b p x < of_int b ^ p"
proof -
  let ?B = "of_int b :: rat" and ?e = "ilog b x"
  have B: "0 < ?B" using b by simp
  have u: "sig_unit b p x = ?B powi (?e - int p + 1)" using x by (simp add: sig_unit_def)
  have pos: "0 < sig_unit b p x" using b by (rule sig_unit_pos)
  have "?B ^ (p - 1) * sig_unit b p x = ?B powi int (p - 1) * ?B powi (?e - int p + 1)"
    by (simp add: u)
  also have "\<dots> = ?B powi ?e"
    using B p by (subst power_int_add [symmetric]) (auto simp: of_nat_diff)
  finally show "?B ^ (p - 1) \<le> x / sig_unit b p x"
    using ilog_bounds [OF b x] pos by (simp add: pos_le_divide_eq)
  have "?B ^ p * sig_unit b p x = ?B powi int p * ?B powi (?e - int p + 1)"
    by (simp add: u)
  also have "\<dots> = ?B powi (?e + 1)"
    using B by (subst power_int_add [symmetric]) auto
  finally show "x / sig_unit b p x < ?B ^ p"
    using ilog_bounds [OF b x] pos by (simp add: pos_divide_less_eq)
qed

lemma sig_round_in_binade:
  assumes b: "1 < b" and p: "0 < p" and x: "0 < x"
  shows "of_int b powi ilog b x \<le> sig_round b p x"
    and "sig_round b p x \<le> of_int b powi (ilog b x + 1)"
proof -
  let ?B = "of_int b :: rat" and ?u = "sig_unit b p x"
  have B: "0 < ?B" using b by simp
  have pos: "0 < ?u" using b by (rule sig_unit_pos)
  have eq: "sig_round b p x = of_int (round_even (x / ?u)) * ?u"
    using x by (simp add: sig_round_def Let_def)
  have "b ^ (p - 1) \<le> round_even (x / ?u)"
    using round_even_mono [OF sig_round_scaled(1) [OF b p x]]
      round_even_of_int [of "b ^ (p - 1)"] by simp
  then have lo: "?B ^ (p - 1) \<le> of_int (round_even (x / ?u))"
    by (simp flip: of_int_power)
  have "round_even (x / ?u) \<le> b ^ p"
    using round_even_mono [OF less_imp_le [OF sig_round_scaled(2) [OF b p x]]]
      round_even_of_int [of "b ^ p"] by simp
  then have hi: "of_int (round_even (x / ?u)) \<le> ?B ^ p"
    by (simp flip: of_int_power)
  have u: "?u = ?B powi (ilog b x - int p + 1)" using x by (simp add: sig_unit_def)
  have "?B powi ilog b x = ?B ^ (p - 1) * ?u"
    using B p unfolding u power_int_of_nat [symmetric]
    by (subst power_int_add [symmetric]) (auto simp: of_nat_diff)
  then show "?B powi ilog b x \<le> sig_round b p x"
    using lo pos by (simp add: eq)
  have "?B powi (ilog b x + 1) = ?B ^ p * ?u"
    using B unfolding u power_int_of_nat [symmetric]
    by (subst power_int_add [symmetric]) auto
  then show "sig_round b p x \<le> ?B powi (ilog b x + 1)"
    using hi pos by (simp add: eq)
qed

lemma sig_round_minus: "sig_round b p (- x) = - sig_round b p x"
  by (simp add: sig_round_def sig_unit_def Let_def round_even_minus)

lemma sig_round_0 [simp]: "sig_round b p 0 = 0"
  by (simp add: sig_round_def)

lemma ilog_mono:
  assumes b: "1 < b" and "0 < x" "x \<le> y"
  shows "ilog b x \<le> ilog b y"
proof (rule ccontr)
  assume "\<not> ilog b x \<le> ilog b y"
  then have "of_int b powi (ilog b y + 1) \<le> (of_int b :: rat) powi ilog b x"
    using b by (intro power_int_increasing) auto
  with ilog_bounds [OF b, of x] ilog_bounds [OF b, of y] assms show False by linarith
qed

lemma sig_round_pos_mono:
  assumes b: "1 < b" and p: "0 < p" and x: "0 < x" and xy: "x \<le> y"
  shows "sig_round b p x \<le> sig_round b p y"
proof (cases "ilog b x = ilog b y")
  case True
  then have u: "sig_unit b p y = sig_unit b p x"
    using x xy by (simp add: sig_unit_def)
  have "x / sig_unit b p x \<le> y / sig_unit b p x"
    using xy sig_unit_pos [OF b, of p x] by (simp add: divide_right_mono)
  then have "round_even (x / sig_unit b p x) \<le> round_even (y / sig_unit b p x)"
    by (rule round_even_mono)
  then show ?thesis
    using x xy sig_unit_pos [OF b, of p x] by (simp add: sig_round_def u Let_def)
next
  case False
  with ilog_mono [OF b x xy] have "ilog b x + 1 \<le> ilog b y" by simp
  then have "(of_int b :: rat) powi (ilog b x + 1) \<le> of_int b powi ilog b y"
    using b by (intro power_int_increasing) auto
  with sig_round_in_binade(2) [OF b p x] sig_round_in_binade(1) [OF b p, of y] x xy
  show ?thesis by linarith
qed

lemma sig_round_pos: "1 < b \<Longrightarrow> 0 < p \<Longrightarrow> 0 < x \<Longrightarrow> 0 < sig_round b p x"
  by (rule less_le_trans [OF _ sig_round_in_binade(1)]) simp_all

lemma sig_round_mono:
  assumes b: "1 < b" and p: "0 < p" and xy: "x \<le> y"
  shows "sig_round b p x \<le> sig_round b p y"
proof (cases "0 < x \<or> y < 0")
  case True
  then show ?thesis
  proof
    assume "0 < x"
    then show ?thesis using sig_round_pos_mono [OF b p _ xy] by simp
  next
    assume "y < 0"
    then have "sig_round b p (- y) \<le> sig_round b p (- x)"
      using xy by (intro sig_round_pos_mono [OF b p]) auto
    then show ?thesis by (simp add: sig_round_minus)
  qed
next
  case False
  have "sig_round b p x \<le> 0"
    using False sig_round_pos [OF b p, of "- x"] by (cases "x = 0") (auto simp: sig_round_minus)
  moreover have "0 \<le> sig_round b p y"
    using False sig_round_pos [OF b p, of y] by (cases "y = 0") auto
  ultimately show ?thesis by linarith
qed

lemma sig_round_zero_iff: "1 < b \<Longrightarrow> 0 < p \<Longrightarrow> sig_round b p x = 0 \<longleftrightarrow> x = 0"
  using sig_round_pos [of b p x] sig_round_pos [of b p "- x"]
  by (cases "0 < x"; cases "x = 0") (auto simp: sig_round_minus)

text \<open>A number with at most \<open>p\<close> digits is not changed.\<close>

lemma sig_round_exact:
  assumes b: "1 < b" and p: "0 < p" and m: "\<bar>m\<bar> < b ^ p"
  shows "sig_round b p (of_int m * of_int b powi e) = of_int m * of_int b powi e"
proof (cases "m = 0")
  case False
  let ?B = "of_int b :: rat"
  define x where "x = of_int m * ?B powi e"
  have B: "0 < ?B" "1 < ?B" using b by simp_all
  have ax: "\<bar>x\<bar> = of_int \<bar>m\<bar> * ?B powi e" using B by (simp add: x_def abs_mult)
  have x: "0 < \<bar>x\<bar>" using B False by (simp add: ax)
  have "?B powi ilog b \<bar>x\<bar> \<le> \<bar>x\<bar>" using ilog_bounds [OF b x] by simp
  also have "\<dots> < of_int (b ^ p) * ?B powi e"
    unfolding ax using m B by (intro mult_strict_right_mono) (simp_all only: of_int_less_iff zero_less_power_int)
  also have "\<dots> = ?B powi (int p + e)" using B by (simp add: power_int_add)
  finally have "ilog b \<bar>x\<bar> < int p + e"
    using power_int_increasing [of "int p + e" "ilog b \<bar>x\<bar>" ?B] B by force
  then have le: "ilog b \<bar>x\<bar> - int p + 1 \<le> e" by simp
  define j where "j = nat (e - (ilog b \<bar>x\<bar> - int p + 1))"
  have "x / sig_unit b p x = of_int m * ?B powi (e - (ilog b \<bar>x\<bar> - int p + 1))"
    using B by (simp add: x_def sig_unit_def power_int_diff)
  also have "\<dots> = of_int m * ?B powi int j" using le by (simp add: j_def)
  also have "\<dots> = of_int (m * b ^ j)" by simp
  finally have q: "x / sig_unit b p x = of_int (m * b ^ j)" .
  have "sig_round b p x = x / sig_unit b p x * sig_unit b p x"
    using x unfolding sig_round_def Let_def q round_even_of_int by simp
  then show ?thesis using sig_unit_pos [OF b, of p x] by (simp add: x_def)
qed simp

lemma sig_round_idem:
  assumes b: "1 < b" and p: "0 < p"
  shows "sig_round b p (sig_round b p x) = sig_round b p x"
proof -
  have pos: "sig_round b p (sig_round b p y) = sig_round b p y" if y: "0 < y" for y
  proof -
    let ?u = "sig_unit b p y" and ?r = "round_even (y / sig_unit b p y)"
    have eq: "sig_round b p y = of_int ?r * of_int b powi (ilog b y - int p + 1)"
      using y by (simp add: sig_round_def sig_unit_def Let_def)
    have "y / ?u < of_int (b ^ p)" using sig_round_scaled(2) [OF b p y] by simp
    then have le: "?r \<le> b ^ p"
      using round_even_mono [OF less_imp_le] round_even_of_int by metis
    have "0 \<le> y / ?u" using y sig_unit_pos [OF b, of p y] by simp
    then have ge: "0 \<le> ?r" using round_even_mono [of 0] by fastforce
    show ?thesis
    proof (cases "?r = b ^ p")
      case False
      with le ge have "\<bar>?r\<bar> < b ^ p" by simp
      then show ?thesis unfolding eq by (rule sig_round_exact [OF b p])
    next
      case True
      have "sig_round b p y = of_int 1 * of_int b powi (ilog b y + 1)"
        using b unfolding eq True
        by (simp flip: power_int_of_nat) (subst power_int_add [symmetric]; simp)
      moreover have "\<bar>1\<bar> < b ^ p" using b p by simp
      ultimately show ?thesis using sig_round_exact [OF b p, of 1] by metis
    qed
  qed
  show ?thesis
    using pos [of x] pos [of "- x"] by (cases "0 < x"; cases "x = 0") (auto simp: sig_round_minus)
qed

subsection \<open>Rounding as an interface\<close>

text \<open>
  What the code relies on of every rounding it meets: it is monotone, odd and idempotent. A value
  the rounding keeps is called exact; comparisons against an exact bound survive the rounding.
\<close>

locale rounding =
  fixes rnd :: "rat \<Rightarrow> rat"
  assumes rnd_mono: "x \<le> y \<Longrightarrow> rnd x \<le> rnd y"
    and rnd_minus: "rnd (- x) = - rnd x"
    and rnd_idem: "rnd (rnd x) = rnd x"
begin

lemma rnd_zero [simp]: "rnd 0 = 0"
  using rnd_minus [of 0] by simp

lemma rnd_nonneg: "0 \<le> x \<Longrightarrow> 0 \<le> rnd x"
  using rnd_mono [of 0 x] by simp

lemma rnd_nonpos: "x \<le> 0 \<Longrightarrow> rnd x \<le> 0"
  using rnd_mono [of x 0] by simp

lemma rnd_abs: "\<bar>rnd x\<bar> = rnd \<bar>x\<bar>"
  by (cases "0 \<le> x") (use rnd_nonneg [of x] rnd_nonpos [of x] in \<open>auto simp: abs_if rnd_minus\<close>)

lemma le_exact: "rnd c = c \<Longrightarrow> x \<le> c \<Longrightarrow> rnd x \<le> c"
  using rnd_mono [of x c] by simp

lemma ge_exact: "rnd c = c \<Longrightarrow> c \<le> x \<Longrightarrow> c \<le> rnd x"
  using rnd_mono [of c x] by simp

lemma less_exactD: "rnd c = c \<Longrightarrow> rnd x < c \<Longrightarrow> x < c"
  using rnd_mono [of c x] by force

lemma greater_exactD: "rnd c = c \<Longrightarrow> c < rnd x \<Longrightarrow> c < x"
  using rnd_mono [of x c] by force

lemma pos_if_rnd_pos: "0 < rnd x \<Longrightarrow> 0 < x"
  using greater_exactD [of 0 x] by simp

end

text \<open>Rounding to significant digits never rounds a nonzero value to zero.\<close>

locale significant = rounding +
  assumes rnd_zeroD: "rnd x = 0 \<Longrightarrow> x = 0"
begin

lemma rnd_eq_0_iff [simp]: "rnd x = 0 \<longleftrightarrow> x = 0"
  using rnd_zeroD by auto

lemma rnd_pos_iff [simp]: "0 < rnd x \<longleftrightarrow> 0 < x"
  using rnd_nonneg [of x] rnd_eq_0_iff [of x] pos_if_rnd_pos [of x]
  by (auto simp: less_le)

lemma rnd_neg_iff [simp]: "rnd x < 0 \<longleftrightarrow> x < 0"
  using rnd_pos_iff [of "- x"] by (simp add: rnd_minus)

end

subsection \<open>The contexts of the code\<close>

definition ctx :: "rat \<Rightarrow> dec" where
  "ctx x = sig_round 10 28 x"

definition fl :: "rat \<Rightarrow> pyfloat" where
  "fl x = sig_round 2 53 x"

definition quant :: "(rat \<Rightarrow> int) \<Rightarrow> nat \<Rightarrow> rat \<Rightarrow> rat" where
  "quant r k x = of_int (r (x * 10 ^ k)) / 10 ^ k"

interpretation ctx: significant ctx
  by unfold_locales
    (simp_all add: ctx_def sig_round_mono sig_round_minus sig_round_idem sig_round_zero_iff)

interpretation fl: significant fl
  by unfold_locales
    (simp_all add: fl_def sig_round_mono sig_round_minus sig_round_idem sig_round_zero_iff)

interpretation quant_even: rounding "quant round_even k" for k
  by unfold_locales
    (simp_all add: quant_def divide_right_mono round_even_mono round_even_minus)

interpretation quant_up: rounding "quant round_half_up k" for k
  by unfold_locales
    (simp_all add: quant_def divide_right_mono round_half_up_mono round_half_up_minus)

subsection \<open>Decimal operations\<close>

definition dadd :: "dec \<Rightarrow> dec \<Rightarrow> dec" where
  "dadd a b = ctx (a + b)"

definition dsub :: "dec \<Rightarrow> dec \<Rightarrow> dec" where
  "dsub a b = ctx (a - b)"

definition dmul :: "dec \<Rightarrow> dec \<Rightarrow> dec" where
  "dmul a b = ctx (a * b)"

definition dneg :: "dec \<Rightarrow> dec" where
  "dneg a = ctx (- a)"

definition dabs :: "dec \<Rightarrow> dec" where
  "dabs a = ctx \<bar>a\<bar>"

text \<open>\<open>x / 0\<close> raises \<open>DivisionByZero\<close>, a \<open>ZeroDivisionError\<close>; \<open>0 / 0\<close> is \<open>InvalidOperation\<close>.\<close>

definition ddiv :: "dec \<Rightarrow> dec \<Rightarrow> dec result" where
  "ddiv a b =
     (if b = 0 then Inl (if a = 0 then InvalidOperation else ZeroDivisionError)
      else Inr (ctx (a / b)))"

definition dsum :: "dec list \<Rightarrow> dec" where
  "dsum xs = foldl dadd 0 xs"

definition quantize :: "(rat \<Rightarrow> int) \<Rightarrow> nat \<Rightarrow> dec \<Rightarrow> dec result" where
  "quantize r k x =
     (if \<bar>r (x * 10 ^ k)\<bar> < 10 ^ 28 then Inr (quant r k x) else Inl InvalidOperation)"

text \<open>\<open>places k x\<close>: \<open>x\<close> has at most \<open>k\<close> decimal places.\<close>

definition places :: "nat \<Rightarrow> rat \<Rightarrow> bool" where
  "places k x \<longleftrightarrow> of_int \<lfloor>x * 10 ^ k\<rfloor> = x * 10 ^ k"

lemma placesI: "x * 10 ^ k = of_int m \<Longrightarrow> places k x"
  by (simp add: places_def)

lemma placesE: "places k x \<Longrightarrow> \<exists>m. x = of_int m / 10 ^ k"
  by (auto simp: places_def field_simps intro!: exI [of _ "\<lfloor>x * 10 ^ k\<rfloor>"])

lemma places_Ints: "places k x \<longleftrightarrow> x * 10 ^ k \<in> \<int>"
  unfolding places_def by (metis Ints_cases Ints_of_int floor_of_int)

lemma places_0 [simp]: "places k 0"
  by (simp add: places_def)

lemma places_add [intro]: "places k x \<Longrightarrow> places k y \<Longrightarrow> places k (x + y)"
  by (simp add: places_Ints distrib_right)

lemma places_minus [intro]: "places k x \<Longrightarrow> places k (- x)"
  by (simp add: places_Ints)

lemma places_diff [intro]: "places k x \<Longrightarrow> places k y \<Longrightarrow> places k (x - y)"
  by (simp add: places_Ints left_diff_distrib)

lemma places_mult:
  assumes "places j x" "places k y"
  shows "places (j + k) (x * y)"
proof -
  have "(x * 10 ^ j) * (y * 10 ^ k) \<in> \<int>"
    using assms unfolding places_Ints by (rule Ints_mult)
  then show ?thesis unfolding places_Ints by (simp add: power_add mult_ac)
qed

lemma places_mono:
  assumes "places j x" "j \<le> k"
  shows "places k x"
proof -
  obtain m where m: "x = of_int m / 10 ^ j" using placesE [OF assms(1)] by blast
  have "(10 :: rat) ^ k = 10 ^ (k - j) * 10 ^ j"
    using assms(2) by (simp flip: power_add)
  then have "x * 10 ^ k = of_int (m * 10 ^ (k - j))" by (simp add: m)
  then show ?thesis by (rule placesI)
qed

lemma places_sum_list: "(\<And>x. x \<in> set xs \<Longrightarrow> places k (f x)) \<Longrightarrow> places k (\<Sum>x\<leftarrow>xs. f x)"
  by (induction xs) auto

lemma places_quant [simp]: "places k (quant r k x)"
  by (auto simp: quant_def intro: placesI)

text \<open>An operation whose result fits in 28 digits is exact.\<close>

lemma ctx_exact:
  assumes "places k x" "\<bar>x\<bar> * 10 ^ k < 10 ^ 28"
  shows "ctx x = x"
proof -
  obtain m where m: "x = of_int m / 10 ^ k" using placesE [OF assms(1)] by blast
  have "rat_of_int \<bar>m\<bar> < of_int (10 ^ 28)" using assms(2) by (simp add: m)
  then have "\<bar>m\<bar> < 10 ^ 28" by (simp only: of_int_less_iff)
  then have "sig_round 10 28 (of_int m * of_int 10 powi (- int k)) = of_int m * of_int 10 powi (- int k)"
    by (intro sig_round_exact) simp_all
  then show ?thesis by (simp add: ctx_def m power_int_minus divide_inverse)
qed

lemma dadd_exact: "places k a \<Longrightarrow> places k b \<Longrightarrow> \<bar>a + b\<bar> * 10 ^ k < 10 ^ 28 \<Longrightarrow> dadd a b = a + b"
  unfolding dadd_def by (rule ctx_exact) auto

lemma dsub_exact: "places k a \<Longrightarrow> places k b \<Longrightarrow> \<bar>a - b\<bar> * 10 ^ k < 10 ^ 28 \<Longrightarrow> dsub a b = a - b"
  unfolding dsub_def by (rule ctx_exact) auto

text \<open>How \<open>code_simp\<close> computes: on numerators and denominators, without counting digits where nothing is rounded.\<close>

lemma quotient_of_eq: "quotient_of x = (p, q) \<Longrightarrow> x = of_int p / of_int q \<and> 0 < q"
  by (simp add: quotient_of_div quotient_of_denom_pos)

lemma floor_quotient: "0 < q \<Longrightarrow> \<lfloor>rat_of_int p / of_int q\<rfloor> = p div q"
  by (simp add: floor_divide_of_int_eq)

lemma round_even_code [code]:
  "round_even x =
     (let (p, q) = quotient_of x; f = p div q; d = 2 * (p mod q)
      in if d < q then f else if d > q then f + 1 else if even f then f else f + 1)"
proof -
  obtain p q where q: "quotient_of x = (p, q)" by fastforce
  then have x: "x = of_int p / of_int q" "0 < q" by (simp_all add: quotient_of_eq)
  have "rat_of_int p = of_int q * of_int (p div q) + of_int (p mod q)"
    by (metis mult_div_mod_eq of_int_add of_int_mult)
  then have d: "x - of_int (p div q) = of_int (p mod q) / of_int q" using x by (simp add: field_simps)
  define r where "r = p mod q"
  have "rat_of_int r / of_int q < 1 / 2 \<longleftrightarrow> rat_of_int (2 * r) < of_int q"
    "1 / 2 < rat_of_int r / of_int q \<longleftrightarrow> rat_of_int q < of_int (2 * r)"
    using x(2) by (simp_all add: divide_less_eq less_divide_eq mult.commute)
  then have "x - of_int (p div q) < 1 / 2 \<longleftrightarrow> 2 * (p mod q) < q" "1 / 2 < x - of_int (p div q) \<longleftrightarrow> q < 2 * (p mod q)"
    unfolding d r_def of_int_less_iff by simp_all
  then show ?thesis using q x by (simp add: round_even_def floor_divide_of_int_eq Let_def)
qed

lemma round_half_up_code [code]:
  "round_half_up x =
     (let (p, q) = quotient_of x in if 0 \<le> p then (2 * p + q) div (2 * q) else - ((q - 2 * p) div (2 * q)))"
proof -
  obtain p q where q: "quotient_of x = (p, q)" by fastforce
  then have x: "x = of_int p / of_int q" "0 < q" by (simp_all add: quotient_of_eq)
  have "x + 1 / 2 = of_int (2 * p + q) / of_int (2 * q)" "1 / 2 - x = of_int (q - 2 * p) / of_int (2 * q)"
    using x by (simp_all add: field_simps)
  moreover have "0 \<le> x \<longleftrightarrow> 0 \<le> p" using x by (simp add: zero_le_divide_iff)
  ultimately show ?thesis by (simp add: round_half_up_def q floor_divide_of_int_eq del: of_int_add of_int_mult of_int_diff)
qed

text \<open>A number of few places is not rounded.\<close>

lemma quotient_places: "quotient_of x = (p, q) \<Longrightarrow> 10 ^ k mod q = 0 \<Longrightarrow> places k x"
proof -
  assume q: "quotient_of x = (p, q)" "10 ^ k mod q = 0"
  then obtain c where "10 ^ k = q * c" by (auto simp: mod_eq_0_iff_dvd elim: dvdE)
  then have "(10 :: rat) ^ k = of_int q * of_int c" by (metis of_int_mult of_int_numeral of_int_power)
  then have "x = of_int (p * c) / 10 ^ k" using quotient_of_eq [OF q(1)] by (auto simp: field_simps)
  then show "places k x" by (intro placesI [of _ _ "p * c"]) simp
qed

lemma ctx_code [code]:
  "ctx x = (let (p, q) = quotient_of x in if 10 ^ 4 mod q = 0 \<and> \<bar>p\<bar> < 10 ^ 24 then x else sig_round 10 28 x)"
proof -
  obtain p q where q: "quotient_of x = (p, q)" by fastforce
  have "ctx x = x" if "10 ^ 4 mod q = 0" "\<bar>p\<bar> < 10 ^ 24"
  proof (rule ctx_exact)
    show "places 4 x" using quotient_places [OF q that(1)] .
    have "1 \<le> rat_of_int q" "x = of_int p / of_int q" using quotient_of_eq [OF q] by simp_all
    then have "\<bar>x\<bar> \<le> of_int \<bar>p\<bar>" by (simp add: abs_divide pos_divide_le_eq mult_le_cancel_left1)
    also have "rat_of_int \<bar>p\<bar> < of_int (10 ^ 24)" using that(2) by (simp only: of_int_less_iff)
    finally show "\<bar>x\<bar> * 10 ^ 4 < 10 ^ 28" by simp
  qed
  then show ?thesis by (simp add: q ctx_def)
qed

lemma quantize_Inr:
  "quantize r k x = Inr y \<longleftrightarrow> \<bar>r (x * 10 ^ k)\<bar> < 10 ^ 28 \<and> y = quant r k x"
  by (auto simp: quantize_def)

lemma quantize_places: "quantize r k x = Inr y \<Longrightarrow> places k y"
  by (simp add: quantize_Inr)

lemma quantize_fits: "quantize r k x = Inr y \<Longrightarrow> \<bar>y\<bar> * 10 ^ k < 10 ^ 28"
  by (simp add: quantize_Inr quant_def flip: of_int_abs)

lemma quantize_ctx: "quantize r k x = Inr y \<Longrightarrow> ctx y = y"
  by (rule ctx_exact [OF quantize_places quantize_fits])

lemma quant_exact: "(\<And>m. r (of_int m) = m) \<Longrightarrow> places k x \<Longrightarrow> quant r k x = x"
  by (auto simp: quant_def dest!: placesE)

lemma quant_close:
  assumes "\<And>x. \<bar>of_int (r x) - x\<bar> \<le> 1 / 2"
  shows "\<bar>quant r k x - x\<bar> \<le> 1 / (2 * 10 ^ k)"
proof -
  have "quant r k x - x = (of_int (r (x * 10 ^ k)) - x * 10 ^ k) / 10 ^ k"
    by (simp add: quant_def field_simps)
  then have "\<bar>quant r k x - x\<bar> = \<bar>of_int (r (x * 10 ^ k)) - x * 10 ^ k\<bar> / 10 ^ k"
    by (simp add: abs_divide)
  also have "\<dots> \<le> (1 / 2) / 10 ^ k"
    using assms by (intro divide_right_mono) auto
  finally show ?thesis by simp
qed

lemma foldl_dadd_exact:
  assumes "list_all (\<lambda>x. places k x \<and> 0 \<le> x) xs" "places k a" "0 \<le> a"
    and "(a + sum_list xs) * 10 ^ k < 10 ^ 28"
  shows "foldl dadd a xs = a + sum_list xs"
  using assms
proof (induction xs arbitrary: a)
  case (Cons x xs)
  have nn: "0 \<le> sum_list xs" using Cons.prems(1) by (intro sum_list_nonneg) (auto simp: list_all_iff)
  have "(a + x) * 10 ^ k \<le> (a + x + sum_list xs) * 10 ^ k" using nn by (intro mult_right_mono) auto
  also have "\<dots> < 10 ^ 28" using Cons.prems(4) by (simp add: add.assoc)
  finally have "dadd a x = a + x"
    using Cons.prems by (intro dadd_exact [of k]) auto
  moreover have "foldl dadd (a + x) xs = a + x + sum_list xs"
    using Cons.prems by (intro Cons.IH) (auto simp: add.assoc)
  ultimately show ?case by (simp add: add.assoc)
qed simp

text \<open>A sum of nonnegative amounts that fits in 28 digits is exact.\<close>

lemma dsum_exact:
  assumes "list_all (\<lambda>x. places k x \<and> 0 \<le> x) xs" "sum_list xs * 10 ^ k < 10 ^ 28"
  shows "dsum xs = sum_list xs"
  using foldl_dadd_exact [of k xs 0] assms by (simp add: dsum_def)

subsection \<open>Exact sums\<close>

text \<open>\<open>small w x\<close>: an amount of four places within \<open>w\<close>. Sums of such amounts are exact below \<open>10 ^ 24\<close>.\<close>

definition small :: "rat \<Rightarrow> dec \<Rightarrow> bool" where
  "small w x \<longleftrightarrow> places 4 x \<and> \<bar>x\<bar> \<le> w"

lemma small_nonneg: "small w x \<Longrightarrow> 0 \<le> w"
  unfolding small_def using abs_ge_zero order_trans by blast

lemma small_mono: "small v x \<Longrightarrow> v \<le> w \<Longrightarrow> small w x"
  by (simp add: small_def)

lemma small_plus: "small v a \<Longrightarrow> small w b \<Longrightarrow> small (v + w) (a + b)"
  by (auto simp: small_def)

lemma small_minus: "small v a \<Longrightarrow> small w b \<Longrightarrow> small (v + w) (a - b)"
  by (auto simp: small_def)

lemma small_uminus [simp]: "small v (- a) = small v a"
  by (auto simp: small_def dest: places_minus)

lemma small_abs [simp]: "small v \<bar>a\<bar> = small v a"
  by (cases "0 \<le> a") (auto simp: abs_if)

lemma small_0: "0 \<le> v \<Longrightarrow> small v 0"
  by (simp add: small_def)

lemma small_ctx: "small w x \<Longrightarrow> w < 10 ^ 24 \<Longrightarrow> ctx x = x"
  by (rule ctx_exact [of 4]) (auto simp: small_def)

lemma dadd_small: "small v a \<Longrightarrow> small w b \<Longrightarrow> v + w < 10 ^ 24 \<Longrightarrow> dadd a b = a + b"
  unfolding dadd_def by (rule small_ctx [OF small_plus])

lemma dsub_small: "small v a \<Longrightarrow> small w b \<Longrightarrow> v + w < 10 ^ 24 \<Longrightarrow> dsub a b = a - b"
  unfolding dsub_def by (rule small_ctx [OF small_minus])

lemma dneg_small: "small v a \<Longrightarrow> v < 10 ^ 24 \<Longrightarrow> dneg a = - a"
  unfolding dneg_def by (rule small_ctx) simp_all

lemma dabs_small: "small v a \<Longrightarrow> v < 10 ^ 24 \<Longrightarrow> dabs a = \<bar>a\<bar>"
  unfolding dabs_def by (rule small_ctx) simp_all

lemma small_sum: "(\<And>x. x \<in> set xs \<Longrightarrow> small (w x) (f x)) \<Longrightarrow> small (\<Sum>x\<leftarrow>xs. w x) (\<Sum>x\<leftarrow>xs. f x)"
  by (induction xs) (auto intro: small_0 small_plus)

lemma foldl_dadd_small:
  "small v a \<Longrightarrow> (\<And>x. x \<in> set xs \<Longrightarrow> small (w x) (f x)) \<Longrightarrow> v + (\<Sum>x\<leftarrow>xs. w x) < 10 ^ 24 \<Longrightarrow>
     foldl dadd a (map f xs) = a + (\<Sum>x\<leftarrow>xs. f x)"
proof (induction xs arbitrary: v a)
  case (Cons x xs)
  have x: "small (w x) (f x)" using Cons.prems(2) by simp
  have "0 \<le> (\<Sum>x\<leftarrow>xs. w x)" using Cons.prems(2) small_nonneg by (intro sum_list_nonneg_map) auto
  then have "dadd a (f x) = a + f x" using Cons.prems(3) by (intro dadd_small [OF Cons.prems(1) x]) simp
  moreover have "foldl dadd (a + f x) (map f xs) = a + f x + (\<Sum>x\<leftarrow>xs. f x)"
    by (rule Cons.IH [OF small_plus [OF Cons.prems(1) x]]) (use Cons.prems in auto)
  ultimately show ?case by (simp add: add.assoc)
qed simp

lemma sum_small:
  assumes "\<And>x. x \<in> set xs \<Longrightarrow> small (w x) (f x)" "(\<Sum>x\<leftarrow>xs. w x) < 10 ^ 24"
  shows "foldl dadd 0 (map f xs) = (\<Sum>x\<leftarrow>xs. f x)"
  using foldl_dadd_small [of 0 0 xs w f] assms by (simp add: small_0)

end
