(* ===== verification/Floats.thy ===== *)
theory Floats
  imports Decimals
begin

section \<open>Binary floating point and conversions\<close>

text \<open>
  The float operations of the modelled code: arithmetic rounded to 53 bits, \<open>math.sqrt\<close>
  (correctly rounded), \<open>round(x, n)\<close>, \<open>int(x)\<close>, \<open>math.ceil\<close>, \<open>float(d)\<close>, and \<open>Decimal(str(x))\<close>,
  which goes through the shortest decimal string that reads back as the same float.
\<close>

definition fadd :: "pyfloat \<Rightarrow> pyfloat \<Rightarrow> pyfloat" where
  "fadd a b = fl (a + b)"

definition fmul :: "pyfloat \<Rightarrow> pyfloat \<Rightarrow> pyfloat" where
  "fmul a b = fl (a * b)"

definition fdiv :: "pyfloat \<Rightarrow> pyfloat \<Rightarrow> pyfloat result" where
  "fdiv a b = (if b = 0 then Inl ZeroDivisionError else Inr (fl (a / b)))"

definition float_of :: "dec \<Rightarrow> pyfloat" where
  "float_of d = fl d"

definition int_of :: "rat \<Rightarrow> int" where
  "int_of x = (if 0 \<le> x then \<lfloor>x\<rfloor> else \<lceil>x\<rceil>)"

definition fround :: "nat \<Rightarrow> pyfloat \<Rightarrow> pyfloat" where
  "fround k x = fl (quant round_even k x)"

text \<open>The shortest decimal of at most 17 digits that rounds to the float itself.\<close>

fun shortest :: "nat list \<Rightarrow> pyfloat \<Rightarrow> dec" where
  "shortest [] x = x"
| "shortest (n # ns) x =
     (if fl (sig_round 10 n x) = x then sig_round 10 n x else shortest ns x)"

definition dec_of_repr :: "pyfloat \<Rightarrow> dec" where
  "dec_of_repr x = shortest [1..<18] x"

subsection \<open>Square root\<close>

function isqrt :: "int \<Rightarrow> int" where
  "isqrt n = (if n \<le> 0 then 0 else let r = 2 * isqrt (n div 4) in if (r + 1) * (r + 1) \<le> n then r + 1 else r)"
  by pat_completeness auto
termination
  by (relation "measure nat") (auto simp: int_div_less_self)

declare isqrt.simps [simp del]

text \<open>
  The argument is scaled by a power of four until the integer root has at least 55 digits; a
  root that is not exact is replaced by the midpoint of its unit interval, which lies on the same
  side of every rounding boundary as the true root.
\<close>

definition fsqrt :: "pyfloat \<Rightarrow> pyfloat result" where
  "fsqrt x =
     (if x < 0 then Inl (ValueError ''math domain error'')
      else if x = 0 then Inr 0
      else let t = 60 - ilog 2 x div 2; n = \<lfloor>x * 4 powi t\<rfloor>; s = isqrt n;
               exact = (of_int s * of_int s = x * 4 powi t)
           in Inr (fl ((of_int s + (if exact then 0 else 1 / 2)) / 2 powi t)))"

lemma isqrt_bounds: "0 \<le> n \<Longrightarrow> 0 \<le> isqrt n \<and> isqrt n * isqrt n \<le> n \<and> n < (isqrt n + 1) * (isqrt n + 1)"
proof (induction n rule: isqrt.induct)
  case (1 n)
  show ?case
  proof (cases "n \<le> 0")
    case True
    with 1 show ?thesis by (simp add: isqrt.simps)
  next
    case False
    define q where "q = isqrt (n div 4)"
    have ih: "0 \<le> q" "q * q \<le> n div 4" "n div 4 < (q + 1) * (q + 1)"
      using 1(1) False by (simp_all add: q_def)
    have "n = 4 * (n div 4) + n mod 4" "0 \<le> n mod 4" "n mod 4 < 4" by simp_all
    then have "4 * (q * q) \<le> n" "n < 4 * ((q + 1) * (q + 1))" using ih by linarith+
    then show ?thesis using False ih
      by (subst (1 2 3 4 5) isqrt.simps) (simp add: q_def [symmetric] Let_def algebra_simps)
  qed
qed

lemma fsqrt_nonneg: "fsqrt x = Inr y \<Longrightarrow> 0 \<le> y"
proof (cases "x \<le> 0")
  case False
  assume "fsqrt x = Inr y"
  moreover have "0 \<le> isqrt \<lfloor>x * 4 powi (60 - ilog 2 x div 2)\<rfloor>"
    using False isqrt_bounds [of "\<lfloor>x * 4 powi (60 - ilog 2 x div 2)\<rfloor>"] by simp
  ultimately show ?thesis
    using False by (auto simp: fsqrt_def Let_def intro!: fl.rnd_nonneg divide_nonneg_nonneg add_nonneg_nonneg)
qed (auto simp: fsqrt_def split: if_splits)

lemma fsqrt_total: "0 \<le> x \<Longrightarrow> \<exists>y. fsqrt x = Inr y"
  by (auto simp: fsqrt_def Let_def)

lemma shortest_nonneg: "0 \<le> x \<Longrightarrow> \<forall>n \<in> set ns. 0 < n \<Longrightarrow> 0 \<le> shortest ns x"
  using sig_round_mono [of 10 _ 0 x] by (induction ns) auto

lemma dec_of_repr_nonneg: "0 \<le> x \<Longrightarrow> 0 \<le> dec_of_repr x"
  by (simp add: dec_of_repr_def shortest_nonneg)

lemma float_of_nonneg: "0 \<le> d \<Longrightarrow> 0 \<le> float_of d"
  by (simp add: float_of_def fl.rnd_nonneg)

lemma float_of_pos: "0 < d \<Longrightarrow> 0 < float_of d"
  by (simp add: float_of_def)

lemma fl_exact:
  assumes "\<bar>m\<bar> < 2 ^ 53"
  shows "fl (of_int m) = of_int m"
  using sig_round_exact [of 2 53 m 0] assms by (simp add: fl_def)

lemma int_of_nonneg: "0 \<le> x \<Longrightarrow> 0 \<le> int_of x"
  by (simp add: int_of_def)

lemma int_of_of_int [simp]: "int_of (of_int k) = k"
  by (simp add: int_of_def)

end
