(* ===== verification/PyLib.thy ===== *)
theory PyLib
  imports Floats
begin

section \<open>The standard library: strings, dates, JSON\<close>

text \<open>
  What the modelled code uses of Python's \<open>str\<close>, \<open>datetime.date\<close> and \<open>json\<close> modules. Strings
  are lists of ASCII characters; a date is its proleptic Gregorian ordinal, so that comparison and
  \<open>timedelta\<close> arithmetic are those of integers, and its year and month are computed the way
  \<open>datetime\<close> computes them; \<open>dumps\<close> is \<open>json.dumps(\<dots>, sort_keys=True)\<close>.
\<close>

subsection \<open>Strings\<close>

definition chr_upper :: "char \<Rightarrow> char" where
  "chr_upper c =
     (let n = of_char c :: int in if 97 \<le> n \<and> n \<le> 122 then char_of (n - 32) else c)"

definition chr_lower :: "char \<Rightarrow> char" where
  "chr_lower c =
     (let n = of_char c :: int in if 65 \<le> n \<and> n \<le> 90 then char_of (n + 32) else c)"

definition chr_alpha :: "char \<Rightarrow> bool" where
  "chr_alpha c =
     (let n = of_char c :: int in 65 \<le> n \<and> n \<le> 90 \<or> 97 \<le> n \<and> n \<le> 122)"

definition upper :: "string \<Rightarrow> string" where
  "upper s = map chr_upper s"

definition lower :: "string \<Rightarrow> string" where
  "lower s = map chr_lower s"

fun title_from :: "bool \<Rightarrow> string \<Rightarrow> string" where
  "title_from prev [] = []"
| "title_from prev (c # cs) =
     (if prev then chr_lower c else chr_upper c) # title_from (chr_alpha c) cs"

definition title :: "string \<Rightarrow> string" where
  "title s = title_from False s"

text \<open>\<open>str.strip()\<close>.\<close>

definition chr_space :: "char \<Rightarrow> bool" where
  "chr_space c =
     (let k = (of_char c :: int) in 9 \<le> k \<and> k \<le> 13 \<or> 28 \<le> k \<and> k \<le> 32 \<or> k = 133 \<or> k = 160)"

definition strip :: "string \<Rightarrow> string" where
  "strip s = rev (dropWhile chr_space (rev (dropWhile chr_space s)))"

definition replace_char :: "char \<Rightarrow> char \<Rightarrow> string \<Rightarrow> string" where
  "replace_char a b s = map (\<lambda>c. if c = a then b else c) s"

fun startswith :: "string \<Rightarrow> string \<Rightarrow> bool" where
  "startswith s [] = True"
| "startswith [] (p # ps) = False"
| "startswith (c # cs) (p # ps) = (c = p \<and> startswith cs ps)"

fun contains :: "string \<Rightarrow> string \<Rightarrow> bool" where
  "contains [] sub = (sub = [])"
| "contains (c # cs) sub = (startswith (c # cs) sub \<or> contains cs sub)"

fun join :: "string \<Rightarrow> string list \<Rightarrow> string" where
  "join sep [] = []"
| "join sep [s] = s"
| "join sep (s # t # ts) = s @ sep @ join sep (t # ts)"

lemma startswith_append: "startswith (p @ s) p"
  by (induction p) simp_all

function show_digits :: "int \<Rightarrow> string" where
  "show_digits n =
     (if n < 10 then [char_of (48 + n)] else show_digits (n div 10) @ [char_of (48 + n mod 10)])"
  by pat_completeness auto
termination
  by (relation "measure nat") auto

declare show_digits.simps [simp del]

definition show_int :: "int \<Rightarrow> string" where
  "show_int k = (if k < 0 then CHR ''-'' # show_digits (- k) else show_digits k)"

definition pad_left :: "nat \<Rightarrow> string \<Rightarrow> string" where
  "pad_left n s = replicate (n - length s) (CHR ''0'') @ s"

text \<open>A decimal number printed with exactly \<open>k\<close> places, for values that have at most \<open>k\<close>.\<close>

definition show_fixed :: "nat \<Rightarrow> rat \<Rightarrow> string" where
  "show_fixed k x =
     (let m = \<lfloor>\<bar>x\<bar> * 10 ^ k\<rfloor>; s = pad_left (k + 1) (show_digits m); cut = length s - k
      in (if x < 0 then ''-'' else []) @ take cut s @ (if k = 0 then [] else ''.'' @ drop cut s))"

text \<open>The formats \<open>.2f\<close> and \<open>,.2f\<close> of a \<open>Decimal\<close>.\<close>

fun group_digits :: "nat \<Rightarrow> string \<Rightarrow> string" where
  "group_digits n [] = []"
| "group_digits n (d # ds) =
     d # (if ds \<noteq> [] \<and> (n - 1) mod 3 = 0 then [CHR '',''] else []) @ group_digits (n - 1) ds"

definition format_2f :: "dec \<Rightarrow> string" where
  "format_2f x = show_fixed 2 (quant round_even 2 x)"

definition format_money :: "dec \<Rightarrow> string" where
  "format_money x =
     (let s = show_fixed 2 \<bar>quant round_even 2 x\<bar>; n = length s - 3
      in (if quant round_even 2 x < 0 then ''-'' else []) @ group_digits n (take n s) @ drop n s)"

definition quoted :: "string \<Rightarrow> string" where
  "quoted s = [char_of (39 :: int)] @ s @ [char_of (39 :: int)]"

lemma format_examples:
  "format_money (12345678901 / 1000) = ''12,345,678.90''" "format_2f (1 / 3) = ''0.33''"
  by code_simp+

subsection \<open>Dates\<close>

definition days_before_month :: "int \<Rightarrow> int" where
  "days_before_month m = [0, 0, 31, 59, 90, 120, 151, 181, 212, 243, 273, 304, 334] ! nat m"

definition days_in_month :: "int \<Rightarrow> int" where
  "days_in_month m = [0, 31, 28, 31, 30, 31, 30, 31, 31, 30, 31, 30, 31] ! nat m"

definition is_leap :: "int \<Rightarrow> bool" where
  "is_leap y \<longleftrightarrow> y mod 4 = 0 \<and> (y mod 100 \<noteq> 0 \<or> y mod 400 = 0)"

definition date_of :: "int \<Rightarrow> int \<Rightarrow> int \<Rightarrow> date" where
  "date_of y m d =
     (let p = y - 1 in p * 365 + p div 4 - p div 100 + p div 400
        + days_before_month m + (if 2 < m \<and> is_leap y then 1 else 0) + d)"

definition ymd :: "date \<Rightarrow> int \<times> int \<times> int" where
  "ymd ord =
     (let n = ord - 1;
          n400 = n div 146097; n = n mod 146097;
          n100 = n div 36524; n = n mod 36524;
          n4 = n div 1461; n = n mod 1461;
          n1 = n div 365; n = n mod 365;
          y = n400 * 400 + 1 + n100 * 100 + n4 * 4 + n1
      in if n1 = 4 \<or> n100 = 4 then (y - 1, 12, 31)
         else let leap = (n1 = 3 \<and> (n4 \<noteq> 24 \<or> n100 = 3));
                  m = (n + 50) div 32;
                  prior = days_before_month m + (if 2 < m \<and> leap then 1 else 0)
              in if n < prior
                 then let m' = m - 1;
                          prior' = prior - (days_in_month m' + (if m' = 2 \<and> leap then 1 else 0))
                      in (y, m', n - prior' + 1)
                 else (y, m, n - prior + 1))"

definition year_of :: "date \<Rightarrow> int" where
  "year_of d = fst (ymd d)"

definition month_of :: "date \<Rightarrow> int" where
  "month_of d = fst (snd (ymd d))"

definition iso_date :: "date \<Rightarrow> string" where
  "iso_date d =
     (let (y, m, k) = ymd d
      in pad_left 4 (show_digits y) @ ''-'' @ pad_left 2 (show_digits m) @ ''-'' @ pad_left 2 (show_digits k))"

lemma ymd_examples:
  "ymd (date_of 2024 2 29) = (2024, 2, 29)" "ymd (date_of 2000 12 31) = (2000, 12, 31)"
  "ymd (date_of 2026 7 1) = (2026, 7, 1)"
  by code_simp+

subsection \<open>JSON\<close>

datatype json =
    JNull
  | JBool bool
  | JInt int
  | JFloat pyfloat
  | JStr string
  | JArr "json list"
  | JObj "(string \<times> json) list"

text \<open>The \<open>repr\<close> of a float: shortest digits, exponent form outside \<open>1e-4 .. 1e16\<close>.\<close>

fun strip_zeros :: "string \<Rightarrow> string" where
  "strip_zeros s = rev (dropWhile (\<lambda>c. c = CHR ''0'') (rev s))"

definition show_float :: "pyfloat \<Rightarrow> string" where
  "show_float x =
     (if x = 0 then ''0.0''
      else let d = \<bar>dec_of_repr x\<bar>; e = ilog 10 d;
               digs = strip_zeros (show_digits \<lfloor>d * 10 powi (17 - e)\<rfloor>);
               n = int (length digs); pt = e + 1
           in (if x < 0 then ''-'' else []) @
              (if pt \<le> - 4 \<or> 16 < pt
               then take 1 digs @ (if n = 1 then [] else ''.'' @ drop 1 digs) @ ''e'' @
                    (if e < 0 then ''-'' else ''+'') @ pad_left 2 (show_digits \<bar>e\<bar>)
               else if pt \<le> 0 then ''0.'' @ replicate (nat (- pt)) (CHR ''0'') @ digs
               else if n \<le> pt then digs @ replicate (nat (pt - n)) (CHR ''0'') @ ''.0''
               else take (nat pt) digs @ ''.'' @ drop (nat pt) digs))"

definition hex_digit :: "int \<Rightarrow> char" where
  "hex_digit n = (if n < 10 then char_of (48 + n) else char_of (87 + n))"

text \<open>The escapes of \<open>json.encoder\<close>: quote, backslash and the control characters.\<close>

definition json_char :: "char \<Rightarrow> string" where
  "json_char c =
     (let n = of_char c :: int
      in if n = 34 then [char_of (92 :: int), c]
         else if n = 92 then [c, c]
         else if n = 10 then [char_of (92 :: int), CHR ''n'']
         else if n = 13 then [char_of (92 :: int), CHR ''r'']
         else if n = 9 then [char_of (92 :: int), CHR ''t'']
         else if n = 12 then [char_of (92 :: int), CHR ''f'']
         else if n = 8 then [char_of (92 :: int), CHR ''b'']
         else if n < 32 \<or> 127 \<le> n
         then [char_of (92 :: int)] @ ''u00'' @ [hex_digit (n div 16), hex_digit (n mod 16)]
         else [c])"

definition json_string :: "string \<Rightarrow> string" where
  "json_string s = [char_of (34 :: int)] @ concat (map json_char s) @ [char_of (34 :: int)]"

fun str_le :: "string \<Rightarrow> string \<Rightarrow> bool" where
  "str_le [] t = True"
| "str_le (c # cs) [] = False"
| "str_le (c # cs) (d # ds) =
     ((of_char c :: int) < of_char d \<or> c = d \<and> str_le cs ds)"

fun insert_member :: "string \<times> 'a \<Rightarrow> (string \<times> 'a) list \<Rightarrow> (string \<times> 'a) list" where
  "insert_member p [] = [p]"
| "insert_member p (q # qs) = (if str_le (fst p) (fst q) then p # q # qs else q # insert_member p qs)"

definition sort_members :: "(string \<times> 'a) list \<Rightarrow> (string \<times> 'a) list" where
  "sort_members ps = foldr insert_member ps []"

fun dumps :: "json \<Rightarrow> string" where
  "dumps JNull = ''null''"
| "dumps (JBool b) = (if b then ''true'' else ''false'')"
| "dumps (JInt k) = show_int k"
| "dumps (JFloat x) = show_float x"
| "dumps (JStr s) = json_string s"
| "dumps (JArr xs) = ''['' @ join '', '' (map dumps xs) @ '']''"
| "dumps (JObj ps) =
     ''{'' @ join '', '' (map (\<lambda>(k, v). json_string k @ '': '' @ v)
        (sort_members (map (\<lambda>p. (fst p, dumps (snd p))) ps))) @ ''}''"

subsection \<open>JSONB\<close>

text \<open>
  What a \<open>JSONB\<close> column of PostgreSQL gives back: the members of an object ordered by the length of
  their keys and then bytewise, the last of several members with one key, and numbers as decimals
  printed without an exponent, so that a float from \<open>1e16\<close> on, which \<open>json.dumps\<close> prints with an
  exponent, comes back as an integer.
\<close>

definition key_le :: "string \<Rightarrow> string \<Rightarrow> bool" where
  "key_le k l \<longleftrightarrow> length k < length l \<or> length k = length l \<and> str_le k l"

fun put_member :: "string \<times> 'a \<Rightarrow> (string \<times> 'a) list \<Rightarrow> (string \<times> 'a) list" where
  "put_member p [] = [p]"
| "put_member p (q # qs) =
     (if fst p = fst q then p # qs
      else if key_le (fst p) (fst q) then p # q # qs else q # put_member p qs)"

definition jsonb_members :: "(string \<times> 'a) list \<Rightarrow> (string \<times> 'a) list" where
  "jsonb_members ps = foldl (\<lambda>qs p. put_member p qs) [] ps"

fun jsonb :: "json \<Rightarrow> json" where
  "jsonb (JFloat x) =
     (if \<bar>dec_of_repr x\<bar> < 10 ^ 16 then JFloat x else JInt \<lfloor>dec_of_repr x\<rfloor>)"
| "jsonb (JArr xs) = JArr (map jsonb xs)"
| "jsonb (JObj ps) = JObj (jsonb_members (map (\<lambda>p. (fst p, jsonb (snd p))) ps))"
| "jsonb j = j"

text \<open>A Python value whose canonical text survives: no such float (and, as in every dictionary,
  no key twice).\<close>

fun jsonb_safe :: "json \<Rightarrow> bool" where
  "jsonb_safe (JFloat x) = (\<bar>dec_of_repr x\<bar> < 10 ^ 16)"
| "jsonb_safe (JArr xs) = list_all jsonb_safe xs"
| "jsonb_safe (JObj ps) = (distinct (map fst ps) \<and> list_all (\<lambda>p. jsonb_safe (snd p)) ps)"
| "jsonb_safe j = True"

lemma str_le_refl [simp]: "str_le s s"
  by (induction s) simp_all

lemma of_char_eq: "(of_char c :: int) = of_char d \<longleftrightarrow> c = d"
  by (simp add: of_char_eq_iff)

lemma str_le_antisym: "str_le s t \<Longrightarrow> str_le t s \<Longrightarrow> s = t"
  by (induction s t rule: str_le.induct) (auto elim: str_le.elims)

lemma str_le_total: "str_le s t \<or> str_le t s"
proof (induction s t rule: str_le.induct)
  case (3 c cs d ds)
  then show ?case using of_char_eq [of c d] by auto
qed simp_all

lemma str_le_trans: "str_le s t \<Longrightarrow> str_le t u \<Longrightarrow> str_le s u"
proof (induction s arbitrary: t u)
  case (Cons c cs)
  then show ?case by (cases t; cases u) (auto dest: less_trans)
qed simp

lemma insert_member_set: "set (insert_member p ps) = insert p (set ps)"
  by (induction ps) auto

lemma insert_member_sorted:
  "sorted_wrt (\<lambda>p q. str_le (fst p) (fst q)) ps \<Longrightarrow>
   sorted_wrt (\<lambda>p q. str_le (fst p) (fst q)) (insert_member p ps)"
proof (induction ps)
  case (Cons q qs)
  then show ?case using str_le_total [of "fst p" "fst q"] by (auto simp: insert_member_set intro: str_le_trans)
qed simp

lemma insert_member_keys: "distinct (map fst (insert_member p ps)) \<longleftrightarrow> distinct (map fst (p # ps))"
  by (induction ps) (auto simp: insert_member_set)

lemma sort_members_set: "set (sort_members ps) = set ps"
  by (induction ps) (simp_all add: sort_members_def insert_member_set)

lemma sort_members_sorted: "sorted_wrt (\<lambda>p q. str_le (fst p) (fst q)) (sort_members ps)"
  by (induction ps) (simp_all add: sort_members_def insert_member_sorted)

lemma sort_members_keys: "distinct (map fst (sort_members ps)) \<longleftrightarrow> distinct (map fst ps)"
proof (induction ps)
  case (Cons p ps)
  have "fst ` set (sort_members ps) = fst ` set ps" by (simp add: sort_members_set)
  with Cons show ?case by (simp add: sort_members_def insert_member_keys)
qed (simp add: sort_members_def)

text \<open>Two sorted lists of members with one set and no key twice are equal.\<close>

lemma sorted_members_unique:
  assumes "sorted_wrt (\<lambda>p q. str_le (fst p) (fst q)) ps" "sorted_wrt (\<lambda>p q. str_le (fst p) (fst q)) qs"
    and "distinct (map fst ps)" "distinct (map fst qs)" "set ps = set qs"
  shows "ps = qs"
  using assms
proof (induction ps arbitrary: qs)
  case (Cons p ps)
  then obtain q rs where qs: "qs = q # rs" by (cases qs) auto
  have "str_le (fst p) (fst q)" "str_le (fst q) (fst p)" using Cons.prems by (auto simp: qs)
  then have k: "fst p = fst q" by (rule str_le_antisym)
  have "p = q"
  proof (rule ccontr)
    assume "p \<noteq> q"
    then have "p \<in> set rs" using Cons.prems(5) by (auto simp: qs)
    then have "fst q \<in> fst ` set rs" unfolding k [symmetric] by (rule imageI)
    then show False using Cons.prems(4) by (simp add: qs)
  qed
  moreover have "ps = rs"
  proof (rule Cons.IH)
    have "p \<notin> set ps" "p \<notin> set rs" using Cons.prems(3,4) \<open>p = q\<close> by (auto simp: qs)
    then show "set ps = set rs" using Cons.prems(5) \<open>p = q\<close> by (auto simp: qs)
  qed (use Cons.prems in \<open>auto simp: qs\<close>)
  ultimately show ?case by (simp add: qs)
qed simp

lemma put_member_new:
  assumes "fst p \<notin> fst ` set ps"
  shows "set (put_member p ps) = insert p (set ps)"
    and "distinct (map fst ps) \<Longrightarrow> distinct (map fst (put_member p ps))"
  using assms by (induction ps) auto

lemma jsonb_members_distinct:
  assumes "distinct (map fst ps)"
  shows "set (jsonb_members ps) = set ps \<and> distinct (map fst (jsonb_members ps))"
  using assms
proof (induction ps rule: rev_induct)
  case (snoc p ps)
  then have "fst p \<notin> fst ` set (jsonb_members ps)" by auto
  from put_member_new [OF this] snoc show ?case by (simp add: jsonb_members_def)
qed (simp add: jsonb_members_def)

lemma sort_members_jsonb:
  assumes "distinct (map fst ps)"
  shows "sort_members (map (\<lambda>p. (fst p, f (snd p))) (jsonb_members ps)) =
    sort_members (map (\<lambda>p. (fst p, f (snd p))) ps)"
proof (rule sorted_members_unique)
  have keys: "map fst (map (\<lambda>p. (fst p, f (snd p))) qs) = map fst qs" for qs :: "(string \<times> 'a) list" by simp
  show "distinct (map fst (sort_members (map (\<lambda>p. (fst p, f (snd p))) (jsonb_members ps))))"
    "distinct (map fst (sort_members (map (\<lambda>p. (fst p, f (snd p))) ps)))"
    unfolding sort_members_keys keys using jsonb_members_distinct [OF assms] assms by blast+
  show "set (sort_members (map (\<lambda>p. (fst p, f (snd p))) (jsonb_members ps))) =
    set (sort_members (map (\<lambda>p. (fst p, f (snd p))) ps))"
    using jsonb_members_distinct [OF assms] by (simp add: sort_members_set)
qed (rule sort_members_sorted)+

lemma dumps_jsonb: "jsonb_safe j \<Longrightarrow> dumps (jsonb j) = dumps j"
proof (induction j)
  case (JArr xs)
  then have "map dumps (map jsonb xs) = map dumps xs" by (simp add: list_all_iff)
  then show ?case by (simp del: map_map)
next
  case (JObj ps)
  have "dumps (jsonb (snd p)) = dumps (snd p)" if "p \<in> set ps" for p
    by (rule JObj.IH [of p "snd p"]) (use JObj.prems that in \<open>auto simp: list_all_iff intro: snds.intros\<close>)
  then have m: "map (\<lambda>p. (fst p, dumps (jsonb (snd p)))) ps = map (\<lambda>p. (fst p, dumps (snd p))) ps"
    by simp
  with sort_members_jsonb [of "map (\<lambda>p. (fst p, jsonb (snd p))) ps" dumps] JObj.prems show ?case
    by (simp add: comp_def m)
qed simp_all

end
