(* ===== verification/Tables.thy ===== *)
theory Tables
  imports PyLib
begin

section \<open>The database\<close>

text \<open>
  One record per table row (\<open>src/src/erp/db/models\<close>), with the columns the modelled code reads
  or writes, and the database as a record of tables in insertion order. A service method takes the
  database and returns the new one; when it raises, the surrounding transaction is rolled back and
  only the exception is left. Primary keys come from a counter that stands for \<open>uuid4()\<close>, which
  is assumed never to repeat; the wall clock is an argument of the operations that read it.
\<close>

subsection \<open>Ledger\<close>

datatype party_type = CUSTOMER | SUPPLIER
datatype against_type = SALES_INVOICE | SUPPLIER_INVOICE

record gl_entry =
  gl_id :: uuid
  gl_tenant :: uuid
  gl_transaction :: uuid
  gl_date :: date
  gl_year :: int
  gl_period :: int
  gl_account :: string
  gl_cost_center :: string
  gl_debit :: dec
  gl_credit :: dec
  gl_currency :: string
  gl_rate :: dec
  gl_source_type :: string
  gl_source_id :: uuid
  gl_purpose :: "string option"
  gl_warehouse :: "uuid option"
  gl_item :: "uuid option"
  gl_party :: "(party_type \<times> uuid \<times> string) option"
  gl_against :: "(against_type \<times> uuid) option"
  gl_locked :: bool

record account =
  ac_tenant :: uuid
  ac_code :: string
  ac_name :: string
  ac_type :: string
  ac_currency :: string
  ac_active :: bool

record cost_center_row =
  cc_tenant :: uuid
  cc_code :: string
  cc_name :: string
  cc_active :: bool

record fiscal_period_row =
  fp_tenant :: uuid
  fp_year :: int
  fp_period :: int
  fp_start :: date
  fp_end :: date
  fp_locked :: bool

subsection \<open>Audit log and outbox\<close>

record audit_log =
  au_id :: uuid
  au_tenant :: uuid
  au_trace :: string
  au_agent :: string
  au_subagent :: "string option"
  au_session :: string
  au_provider :: string
  au_model :: string
  au_prompt :: string
  au_function :: string
  au_payload :: json
  au_output :: string
  au_parsed :: json
  au_rules :: json
  au_human :: bool
  au_approved_by :: "uuid option"
  au_db_txn :: "uuid option"
  au_duration :: int
  au_prev_hash :: "string option"
  au_hash :: string
  au_time :: timestamp

record outbox_row =
  ob_id :: uuid
  ob_tenant :: uuid
  ob_aggregate_type :: string
  ob_aggregate_id :: string
  ob_event_type :: string
  ob_payload :: "(string \<times> json) list"
  ob_trace :: json
  ob_created :: timestamp
  ob_processed :: "timestamp option"

subsection \<open>Master data\<close>

record item_row =
  it_tenant :: uuid
  it_id :: uuid
  it_code :: string
  it_name :: string
  it_uom :: string
  it_rate :: dec
  it_group :: "uuid option"
  it_weight :: dec
  it_purchase :: bool
  it_sales :: bool
  it_active :: bool

record warehouse_row =
  wh_tenant :: uuid
  wh_id :: uuid
  wh_code :: string
  wh_name :: string
  wh_quarantine :: bool
  wh_active :: bool

record customer_row =
  cu_tenant :: uuid
  cu_id :: uuid
  cu_name :: string

record supplier_row =
  su_tenant :: uuid
  su_id :: uuid
  su_code :: string
  su_name :: string

record workstation_row =
  ws_tenant :: uuid
  ws_id :: uuid
  ws_code :: string
  ws_status :: string

subsection \<open>Buying and selling\<close>

record sales_invoice_row =
  si_tenant :: uuid
  si_id :: uuid
  si_number :: string
  si_customer :: uuid
  si_due :: date
  si_currency :: string
  si_total :: dec
  si_status :: string

datatype po_status = PO_DRAFT | PO_SUBMITTED | PO_PARTIALLY_RECEIVED | PO_OTHER string

record po_row =
  po_tenant :: uuid
  po_id :: uuid
  po_number :: string
  po_supplier :: uuid
  po_date :: date
  po_currency :: string
  po_subtotal :: dec
  po_tax :: dec
  po_total :: dec
  po_status :: po_status

record po_item =
  pi_tenant :: uuid
  pi_po :: uuid
  pi_item :: uuid
  pi_qty :: dec
  pi_price :: dec
  pi_total :: dec

record grn_row =
  gr_tenant :: uuid
  gr_id :: uuid
  gr_po :: "uuid option"
  gr_number :: string
  gr_created :: timestamp

record grn_item =
  gi_tenant :: uuid
  gi_id :: uuid
  gi_grn :: uuid
  gi_item :: uuid
  gi_qty :: dec
  gi_accepted :: dec
  gi_price :: dec

text \<open>Blanket orders and landed cost vouchers with their lines.\<close>

record blanket_item =
  bl_item :: uuid
  bl_qty :: dec
  bl_price :: dec
  bl_ordered :: dec
  bl_total :: dec

record blanket_order =
  bk_tenant :: uuid
  bk_id :: uuid
  bk_number :: string
  bk_supplier :: uuid
  bk_from :: date
  bk_to :: date
  bk_total :: dec
  bk_status :: string
  bk_items :: "blanket_item list"

record landed_charge =
  lc_account :: string
  lc_text :: string
  lc_amount :: dec

record landed_item =
  li_grn :: uuid
  li_grn_item :: uuid
  li_item :: uuid
  li_qty :: dec
  li_rate :: dec
  li_amount :: dec
  li_charges :: dec
  li_new_rate :: dec

record landed_voucher =
  lv_tenant :: uuid
  lv_id :: uuid
  lv_number :: string
  lv_date :: date
  lv_company :: string
  lv_basis :: string
  lv_total :: dec
  lv_status :: string
  lv_notes :: "string option"
  lv_charges :: "landed_charge list"
  lv_items :: "landed_item list"

record dunning_type =
  dt_tenant :: uuid
  dt_id :: uuid
  dt_name :: string
  dt_days :: int
  dt_fee :: dec
  dt_rate :: dec
  dt_text :: string

record dunning_notice =
  du_id :: uuid
  du_tenant :: uuid
  du_number :: string
  du_invoice :: uuid
  du_customer :: uuid
  du_type :: uuid
  du_date :: date
  du_days :: int
  du_outstanding :: dec
  du_fee :: dec
  du_interest :: dec
  du_total :: dec

datatype match_status = UNMATCHED | MATCHED | DISPUTED | STAGED | POSTED

record tax_row =
  tx_valuation :: bool
  tx_amount :: dec
  tx_deduct :: bool
  tx_account :: string

record supplier_invoice =
  pv_tenant :: uuid
  pv_id :: uuid
  pv_number :: string
  pv_supplier :: uuid
  pv_po :: "uuid option"
  pv_grn :: "uuid option"
  pv_currency :: string
  pv_taxes :: "tax_row list"
  pv_total :: dec
  pv_status :: match_status
  pv_variance :: dec
  pv_reason :: "string option"

record supplier_invoice_item =
  pvi_tenant :: uuid
  pvi_invoice :: uuid
  pvi_code :: string
  pvi_qty :: dec
  pvi_price :: dec

subsection \<open>Stock\<close>

record stock_level =
  sl_tenant :: uuid
  sl_item :: uuid
  sl_warehouse :: uuid
  sl_current :: dec
  sl_reserved :: dec
  sl_available :: dec
  sl_rate :: dec
  sl_lot :: "string option"
  sl_quarantined :: bool

record stock_ledger_entry =
  sle_tenant :: uuid
  sle_time :: "date \<times> timestamp"
  sle_item :: uuid
  sle_warehouse :: uuid
  sle_actual :: dec
  sle_after :: dec
  sle_in_rate :: dec
  sle_out_rate :: dec
  sle_rate :: dec
  sle_value :: dec
  sle_source_type :: string
  sle_source_id :: uuid
  sle_lot :: "string option"
  sle_serial :: "string option"

datatype stock_entry_type =
  MATERIAL_RECEIPT | MATERIAL_ISSUE | MATERIAL_TRANSFER | MANUFACTURE | REPACK

datatype doc_status = DRAFT | SUBMITTED | CANCELLED

record stock_entry_item =
  sei_item :: uuid
  sei_source :: "uuid option"
  sei_target :: "uuid option"
  sei_qty :: dec
  sei_uom :: string
  sei_rate :: dec
  sei_amount :: dec
  sei_batch :: "string option"
  sei_serial :: "string option"

record stock_entry =
  se_tenant :: uuid
  se_id :: uuid
  se_number :: string
  se_type :: stock_entry_type
  se_date :: date
  se_time :: timestamp
  se_purpose :: "string option"
  se_from :: "uuid option"
  se_to :: "uuid option"
  se_total :: dec
  se_status :: doc_status
  se_notes :: "string option"
  se_items :: "stock_entry_item list"

datatype serial_status = SERIAL_ACTIVE | SERIAL_DELIVERED | SERIAL_OTHER string

record serial_row =
  sn_tenant :: uuid
  sn_number :: string
  sn_warehouse :: "uuid option"
  sn_status :: serial_status

datatype reservation_status = RES_ACTIVE | RES_FULFILLED | RES_CANCELLED

record reservation =
  rs_tenant :: uuid
  rs_id :: uuid
  rs_item :: uuid
  rs_warehouse :: uuid
  rs_voucher_type :: string
  rs_voucher :: uuid
  rs_voucher_item :: "uuid option"
  rs_qty :: dec
  rs_consumed :: dec
  rs_status :: reservation_status

text \<open>Physical counts (\<open>StockReconciliation\<close>) with their lines.\<close>

record count_line =
  cl_item :: uuid
  cl_warehouse :: uuid
  cl_current :: dec
  cl_counted :: dec
  cl_diff :: dec
  cl_book_rate :: dec
  cl_rate :: dec
  cl_amount :: dec

record stock_count =
  ct_tenant :: uuid
  ct_id :: uuid
  ct_number :: string
  ct_date :: date
  ct_time :: timestamp
  ct_purpose :: string
  ct_account :: string
  ct_status :: doc_status
  ct_variance :: dec
  ct_lines :: "count_line list"

subsection \<open>Manufacturing\<close>

record operation_row =
  op_tenant :: uuid
  op_id :: uuid
  op_name :: string
  op_workstation :: "uuid option"
  op_active :: bool

text \<open>A step of a routing or of a bill of materials; its cost is only kept in the latter.\<close>

record step_row =
  st_operation :: uuid
  st_workstation :: "uuid option"
  st_sequence :: int
  st_mins :: dec
  st_hourly :: dec
  st_cost :: dec
  st_batch :: dec

record routing_row =
  rt_tenant :: uuid
  rt_id :: uuid
  rt_name :: string
  rt_active :: bool
  rt_steps :: "step_row list"

record bom_item =
  bi_id :: uuid
  bi_item :: uuid
  bi_sub :: "uuid option"
  bi_operation :: "uuid option"
  bi_qty :: dec
  bi_rate :: dec
  bi_amount :: dec
  bi_scrap :: dec

record bom_scrap =
  bs_item :: uuid
  bs_qty :: dec
  bs_rate :: dec
  bs_amount :: dec

record bom_row =
  bm_tenant :: uuid
  bm_id :: uuid
  bm_number :: string
  bm_item :: uuid
  bm_routing :: "uuid option"
  bm_qty :: dec
  bm_material :: dec
  bm_operating :: dec
  bm_scrap :: dec
  bm_total :: dec
  bm_with_steps :: bool
  bm_default :: bool
  bm_active :: bool
  bm_items :: "bom_item list"
  bm_steps :: "step_row list"
  bm_scraps :: "bom_scrap list"

record plan_item =
  pli_item :: uuid
  pli_bom :: "uuid option"
  pli_order :: "uuid option"
  pli_qty :: dec
  pli_produced :: dec

record production_plan =
  pl_tenant :: uuid
  pl_id :: uuid
  pl_number :: string
  pl_date :: date
  pl_status :: string
  pl_qty :: dec
  pl_items :: "plan_item list"

record work_order =
  wo_tenant :: uuid
  wo_id :: uuid
  wo_number :: string
  wo_plan :: "uuid option"
  wo_item :: uuid
  wo_bom :: "uuid option"
  wo_workstation :: "uuid option"
  wo_source :: "uuid option"
  wo_wip :: "uuid option"
  wo_fg :: "uuid option"
  wo_scrap :: "uuid option"
  wo_planned :: dec
  wo_produced :: dec
  wo_start :: "timestamp option"
  wo_end :: "timestamp option"
  wo_lead :: dec
  wo_staged :: bool
  wo_status :: string

record time_log =
  tg_employee :: "uuid option"
  tg_from :: timestamp
  tg_to :: timestamp
  tg_mins :: dec
  tg_done :: dec
  tg_scrap :: dec

record job_card =
  jc_tenant :: uuid
  jc_id :: uuid
  jc_number :: string
  jc_order :: uuid
  jc_operation :: uuid
  jc_workstation :: "uuid option"
  jc_employee :: "uuid option"
  jc_sequence :: int
  jc_planned :: dec
  jc_done :: dec
  jc_scrap :: dec
  jc_status :: string
  jc_started :: "timestamp option"
  jc_timer :: "timestamp option"
  jc_mins :: dec
  jc_logs :: "time_log list"

subsection \<open>Currency\<close>

record fx_rate =
  fx_tenant :: uuid
  fx_from :: string
  fx_to :: string
  fx_value :: dec
  fx_date :: date

record fx_revaluation =
  fr_tenant :: uuid
  fr_id :: uuid
  fr_number :: string
  fr_date :: date
  fr_gain :: dec
  fr_journal :: "uuid option"
  fr_notes :: "string option"

subsection \<open>Fixed assets\<close>

record asset_category =
  ca_tenant :: uuid
  ca_id :: uuid
  ca_name :: string
  ca_method :: string
  ca_periods :: int
  ca_months :: int
  ca_asset_account :: string
  ca_accumulated_account :: string
  ca_expense_account :: string

record asset_location =
  lo_tenant :: uuid
  lo_id :: uuid
  lo_name :: string
  lo_parent :: "uuid option"

record asset_row =
  as_tenant :: uuid
  as_id :: uuid
  as_code :: string
  as_name :: string
  as_category :: uuid
  as_location :: "uuid option"
  as_custodian :: "uuid option"
  as_purchased :: date
  as_available :: date
  as_gross :: dec
  as_salvage :: dec
  as_book :: dec
  as_accumulated :: dec
  as_status :: string
  as_notes :: "string option"

record depreciation_row =
  dp_tenant :: uuid
  dp_id :: uuid
  dp_asset :: uuid
  dp_date :: date
  dp_amount :: dec
  dp_accumulated :: dec
  dp_book :: dec
  dp_posted :: bool
  dp_posted_at :: "timestamp option"
  dp_journal :: "uuid option"

record asset_movement =
  mv_tenant :: uuid
  mv_asset :: uuid
  mv_from_location :: "uuid option"
  mv_to_location :: "uuid option"
  mv_from_custodian :: "uuid option"
  mv_to_custodian :: "uuid option"
  mv_date :: date
  mv_purpose :: "string option"

record asset_repair =
  rp_tenant :: uuid
  rp_id :: uuid
  rp_asset :: uuid
  rp_date :: date
  rp_cost :: dec
  rp_text :: string
  rp_capitalized :: bool
  rp_journal :: "uuid option"

record asset_adjustment =
  aj_tenant :: uuid
  aj_id :: uuid
  aj_asset :: uuid
  aj_date :: date
  aj_previous :: dec
  aj_new :: dec
  aj_amount :: dec
  aj_reason :: string
  aj_journal :: "uuid option"

record asset_team =
  tm_tenant :: uuid
  tm_name :: string
  tm_text :: "string option"
  tm_members :: "(uuid \<times> string option) list"

subsection \<open>Leave\<close>

record leave_type =
  lt_tenant :: uuid
  lt_id :: uuid
  lt_name :: string
  lt_max :: int
  lt_carry :: bool
  lt_lwp :: bool

record leave_allocation =
  lq_tenant :: uuid
  lq_employee :: uuid
  lq_type :: uuid
  lq_year :: int
  lq_days :: dec
  lq_carry :: dec
  lq_from :: date
  lq_to :: date

record leave_application =
  la_tenant :: uuid
  la_id :: uuid
  la_number :: string
  la_employee :: uuid
  la_type :: uuid
  la_from :: date
  la_to :: date
  la_days :: dec
  la_half :: bool
  la_reason :: string
  la_status :: string
  la_approver :: "uuid option"

subsection \<open>The state\<close>

record db =
  next_id :: uuid
  gl_entries :: "gl_entry list"
  accounts :: "account list"
  cost_centers :: "cost_center_row list"
  fiscal_periods :: "fiscal_period_row list"
  audit_logs :: "audit_log list"
  outbox :: "outbox_row list"
  items :: "item_row list"
  warehouses :: "warehouse_row list"
  customers :: "customer_row list"
  suppliers :: "supplier_row list"
  workstations :: "workstation_row list"
  sales_invoices :: "sales_invoice_row list"
  pos :: "po_row list"
  po_items :: "po_item list"
  grns :: "grn_row list"
  grn_items :: "grn_item list"
  supplier_invoices :: "supplier_invoice list"
  invoice_items :: "supplier_invoice_item list"
  stock_levels :: "stock_level list"
  stock_ledger :: "stock_ledger_entry list"
  stock_entries :: "stock_entry list"
  serials :: "serial_row list"
  reservations :: "reservation list"
  fx_rates :: "fx_rate list"
  fx_revaluations :: "fx_revaluation list"
  stock_counts :: "stock_count list"
  operation_rows :: "operation_row list"
  routings :: "routing_row list"
  boms :: "bom_row list"
  production_plans :: "production_plan list"
  work_orders :: "work_order list"
  job_cards :: "job_card list"
  asset_categories :: "asset_category list"
  asset_locations :: "asset_location list"
  assets_table :: "asset_row list"
  depreciations :: "depreciation_row list"
  asset_movements :: "asset_movement list"
  asset_repairs :: "asset_repair list"
  asset_adjustments :: "asset_adjustment list"
  asset_teams :: "asset_team list"
  blanket_orders :: "blanket_order list"
  landed_vouchers :: "landed_voucher list"
  dunning_types :: "dunning_type list"
  dunning_notices :: "dunning_notice list"
  leave_types :: "leave_type list"
  leave_allocations :: "leave_allocation list"
  leave_applications :: "leave_application list"

definition empty_db :: db where
  "empty_db =
     \<lparr>next_id = 0, gl_entries = [], accounts = [], cost_centers = [], fiscal_periods = [],
      audit_logs = [], outbox = [], items = [], warehouses = [], customers = [], suppliers = [],
      workstations = [], sales_invoices = [], pos = [], po_items = [], grns = [], grn_items = [],
      supplier_invoices = [], invoice_items = [], stock_levels = [], stock_ledger = [],
      stock_entries = [], serials = [], reservations = [], fx_rates = [], fx_revaluations = [], stock_counts = [],
      operation_rows = [], routings = [], boms = [], production_plans = [], work_orders = [],
      job_cards = [], asset_categories = [], asset_locations = [], assets_table = [], depreciations = [],
      asset_movements = [], asset_repairs = [], asset_adjustments = [], asset_teams = [],
      blanket_orders = [], landed_vouchers = [], dunning_types = [], dunning_notices = [],
      leave_types = [], leave_allocations = [], leave_applications = []\<rparr>"

definition uuid4 :: "db \<Rightarrow> uuid \<times> db" where
  "uuid4 s = (next_id s, s\<lparr>next_id := Suc (next_id s)\<rparr>)"

text \<open>
  What the modelled code takes from outside: the wall clock, SHA-256 as \<open>hashlib\<close> computes it,
  the text of a \<open>Decimal\<close> (which depends on its exponent, see \<open>Decimals\<close>) and of an instant, and the two ledger
  ceilings of \<open>erp.config.settings\<close>.
\<close>

record env =
  today :: date
  now :: timestamp
  sha256 :: "string \<Rightarrow> string"
  dec_str :: "dec \<Rightarrow> string"
  time_str :: "timestamp \<Rightarrow> string"
  cfg_tier1 :: dec
  cfg_tier2 :: dec

text \<open>
  A \<open>Numeric(p, k)\<close> column: PostgreSQL rounds a value to \<open>k\<close> places, ties away from zero, and
  rejects one with more than \<open>p - k\<close> digits before the point.
\<close>

definition numeric :: "nat \<Rightarrow> nat \<Rightarrow> dec \<Rightarrow> dec result" where
  "numeric p k x =
     (let y = quant round_half_up k x in if \<bar>y\<bar> < 10 ^ (p - k) then Inr y else Inl DataError)"

lemma numeric_Inr: "numeric p k x = Inr y \<longleftrightarrow> y = quant round_half_up k x \<and> \<bar>y\<bar> < 10 ^ (p - k)"
  by (auto simp: numeric_def Let_def)

text \<open>An amount as a \<open>Numeric(18, 4)\<close> column holds it.\<close>

definition column_amount :: "dec \<Rightarrow> bool" where
  "column_amount x \<longleftrightarrow> places 4 x \<and> \<bar>x\<bar> < 10 ^ 14"

lemma column_0 [simp]: "column_amount 0"
  by (simp add: column_amount_def)

lemma dsub_column: "column_amount a \<Longrightarrow> column_amount b \<Longrightarrow> dsub a b = a - b"
  by (rule dsub_exact [of 4]) (auto simp: column_amount_def abs_if split: if_splits)

lemma dadd_column: "column_amount a \<Longrightarrow> column_amount b \<Longrightarrow> dadd a b = a + b"
  by (rule dadd_exact [of 4]) (auto simp: column_amount_def abs_if split: if_splits)

lemma quant_places: "places k x \<Longrightarrow> quant round_half_up k x = x"
  by (rule quant_exact) simp_all

lemma numeric_code [code]:
  "numeric p k x =
     (let y = (if 10 ^ k mod snd (quotient_of x) = 0 then x else quant round_half_up k x)
      in if \<bar>y\<bar> < 10 ^ (p - k) then Inr y else Inl DataError)"
proof (cases "10 ^ k mod snd (quotient_of x) = 0")
  case True
  then have "quant round_half_up k x = x" by (intro quant_places quotient_places [of x "fst (quotient_of x)"]) simp_all
  then show ?thesis using True by (simp add: numeric_def)
qed (simp add: numeric_def)

lemma numeric_column: "numeric 18 4 x = Inr y \<Longrightarrow> column_amount y"
  by (auto simp: numeric_Inr column_amount_def)

lemma numeric_keeps: "places 4 x \<Longrightarrow> numeric 18 4 x = Inr y \<Longrightarrow> y = x \<and> column_amount x"
  by (auto simp: numeric_Inr column_amount_def quant_places)

lemma numeric_column_id: "column_amount x \<Longrightarrow> numeric 18 4 x = Inr x"
  by (simp add: numeric_Inr column_amount_def quant_places)

text \<open>A running total of fewer than \<open>10 ^ 10\<close> amounts is exact.\<close>

lemma dadd_total:
  assumes "places 4 a" "\<bar>a\<bar> \<le> of_nat m * 10 ^ 14" "column_amount x" "m < 10 ^ 10 - 1"
  shows "dadd a x = a + x" "\<bar>a + x\<bar> \<le> of_nat (Suc m) * 10 ^ 14"
proof -
  show 1: "\<bar>a + x\<bar> \<le> of_nat (Suc m) * 10 ^ 14"
    using assms(2,3) by (simp add: column_amount_def algebra_simps abs_if split: if_splits)
  have "of_nat (Suc m) * (10 :: rat) ^ 14 < of_nat (10 ^ 10) * 10 ^ 14"
    using assms(4) by (intro mult_strict_right_mono) (simp_all only: of_nat_less_iff, simp_all)
  with 1 have "\<bar>a + x\<bar> * 10 ^ 4 < 10 ^ 28" by simp
  then show "dadd a x = a + x" using assms(1,3) by (intro dadd_exact [of 4]) (simp_all add: column_amount_def)
qed

lemma foldl_dadd_columns:
  assumes "list_all column_amount xs" "places 4 a" "\<bar>a\<bar> \<le> of_nat m * 10 ^ 14" "m + length xs < 10 ^ 10"
  shows "foldl dadd a xs = a + sum_list xs"
  using assms
proof (induction xs arbitrary: a m)
  case (Cons x xs)
  have x: "column_amount x" "places 4 x" using Cons.prems(1) by (simp_all add: column_amount_def)
  have m: "m < 10 ^ 10 - 1" using Cons.prems(4) by simp
  note d = dadd_total [OF Cons.prems(2,3) x(1) m]
  have "foldl dadd (a + x) xs = a + x + sum_list xs"
    by (rule Cons.IH [of "a + x" "Suc m"]) (use Cons.prems x d(2) in auto)
  with d(1) show ?case by simp
qed simp

lemma dsum_columns: "list_all column_amount xs \<Longrightarrow> length xs < 10 ^ 10 \<Longrightarrow> dsum xs = sum_list xs"
  using foldl_dadd_columns [of xs 0 0] by (simp add: dsum_def)

text \<open>
  The ledger table with its column types and check constraints (\<open>db/models/ledger.py\<close>).
\<close>

definition insert_gl :: "gl_entry \<Rightarrow> db \<Rightarrow> db result" where
  "insert_gl g s =
     ebind (numeric 18 4 (gl_debit g)) (\<lambda>d.
     ebind (numeric 18 4 (gl_credit g)) (\<lambda>c.
     ebind (numeric 12 6 (gl_rate g)) (\<lambda>r.
       if 0 \<le> d \<and> 0 \<le> c \<and> (0 < d \<and> c = 0 \<or> 0 < c \<and> d = 0)
       then Inr (s\<lparr>gl_entries := gl_entries s @ [g\<lparr>gl_debit := d, gl_credit := c, gl_rate := r\<rparr>]\<rparr>)
       else Inl IntegrityError)))"

definition str_uuid :: "uuid \<Rightarrow> string" where
  "str_uuid u = show_int (int u)"

end
