(* ===== verification/LedgerRules.thy ===== *)
theory LedgerRules
  imports Tables
begin

section \<open>Ledger invariants and autonomy ceilings\<close>

text \<open>
  \<open>src/src/erp/ledger\<close>: the proposed ledger line and its validator, the zero-sum check
  (\<open>invariants.py\<close>), the ceilings (\<open>ceilings.py\<close>) and the in-memory duplicate of both
  (\<open>rust_bridge.py\<close>). The lemmas say which lists of lines the check accepts, that the totals it
  returns are exact as long as they fit in 28 digits, and where the two tier functions differ.
\<close>

subsection \<open>Proposed lines\<close>

record ledger_line =
  ll_account :: string
  ll_cost_center :: string
  ll_debit :: dec
  ll_credit :: dec
  ll_currency :: string
  ll_rate :: dec
  ll_purpose :: "string option"
  ll_warehouse :: "uuid option"
  ll_item :: "uuid option"
  ll_party_type :: "party_type option"
  ll_party_id :: "uuid option"
  ll_against_type :: "against_type option"
  ll_against_id :: "uuid option"

text \<open>A line with the field defaults of the pydantic model.\<close>

definition plain_line :: "string \<Rightarrow> string \<Rightarrow> dec \<Rightarrow> dec \<Rightarrow> string \<Rightarrow> ledger_line" where
  "plain_line acct cc debit credit cur =
     \<lparr>ll_account = acct, ll_cost_center = cc, ll_debit = debit, ll_credit = credit,
      ll_currency = cur, ll_rate = 1, ll_purpose = None, ll_warehouse = None, ll_item = None,
      ll_party_type = None, ll_party_id = None, ll_against_type = None, ll_against_id = None\<rparr>"

definition validate_party_reference :: "ledger_line \<Rightarrow> ledger_line result" where
  "validate_party_reference l =
     (if (ll_party_type l = None) \<noteq> (ll_party_id l = None)
      then Inl (ValueError ''Party type and party ID must be supplied together.'')
      else if (ll_against_type l = None) \<noteq> (ll_against_id l = None)
      then Inl (ValueError ''Against-document type and ID must be supplied together.'')
      else if ll_against_id l \<noteq> None \<and> ll_party_id l = None
      then Inl (ValueError ''Invoice settlement references require a party.'')
      else if ll_against_type l \<noteq> None \<and>
        ll_against_type l \<noteq>
          Some (if ll_party_type l = Some CUSTOMER then SALES_INVOICE else SUPPLIER_INVOICE)
      then Inl (ValueError ''Settlement invoice type must match the party type.'')
      else Inr l)"

subsection \<open>Zero sum\<close>

definition zero_sum_line :: "dec \<times> dec \<Rightarrow> ledger_line \<Rightarrow> (dec \<times> dec) result" where
  "zero_sum_line totals l =
     ebind (quantize round_half_up 4 (ll_debit l)) (\<lambda>debit.
     ebind (quantize round_half_up 4 (ll_credit l)) (\<lambda>credit.
       if debit < 0 \<or> credit < 0 then Inl (NegativeAmountViolation debit credit)
       else if (debit > 0 \<and> credit > 0) \<or> (debit = 0 \<and> credit = 0)
       then Inl (SingleSidedViolation (ll_account l) debit credit)
       else Inr (dadd (fst totals) debit, dadd (snd totals) credit)))"

definition validate_zero_sum :: "ledger_line list \<Rightarrow> dec result" where
  "validate_zero_sum entries =
     (if entries = [] then Inl (ZeroSumViolation 0 0 0)
      else ebind (efold zero_sum_line (0, 0) entries) (\<lambda>totals.
           ebind (quantize round_half_up 4 (dsub (fst totals) (snd totals))) (\<lambda>diff.
             if diff \<noteq> 0 then Inl (ZeroSumViolation (fst totals) (snd totals) diff)
             else Inr (fst totals))))"

subsection \<open>Ceilings\<close>

datatype autonomy_tier = TIER_1 | TIER_2 | TIER_3

definition tier_value :: "autonomy_tier \<Rightarrow> string" where
  "tier_value t = (case t of TIER_1 \<Rightarrow> ''TIER_1'' | TIER_2 \<Rightarrow> ''TIER_2'' | TIER_3 \<Rightarrow> ''TIER_3'')"

record ceiling_result =
  ce_tier :: autonomy_tier
  ce_total :: dec
  ce_requires_human :: bool
  ce_requires_notification :: bool
  ce_approved :: bool

text \<open>\<open>tier1_ceiling or settings\<dots>\<close>: a ceiling of zero counts as not given.\<close>

definition or_default :: "dec option \<Rightarrow> dec \<Rightarrow> dec" where
  "or_default x d = (case x of None \<Rightarrow> d | Some v \<Rightarrow> if v = 0 then d else v)"

definition evaluate_autonomy_tier ::
    "env \<Rightarrow> dec \<Rightarrow> bool \<Rightarrow> dec option \<Rightarrow> dec option \<Rightarrow> ceiling_result result" where
  "evaluate_autonomy_tier e amount human tier1 tier2 =
     (let t1 = or_default tier1 (cfg_tier1 e); t2 = or_default tier2 (cfg_tier2 e)
      in if amount < t1
         then Inr \<lparr>ce_tier = TIER_1, ce_total = amount, ce_requires_human = False,
                   ce_requires_notification = False, ce_approved = True\<rparr>
         else if amount \<le> t2
         then Inr \<lparr>ce_tier = TIER_2, ce_total = amount, ce_requires_human = False,
                   ce_requires_notification = True, ce_approved = True\<rparr>
         else if \<not> human then Inl (AutonomyCeilingExceeded amount t2 (tier_value TIER_3))
         else Inr \<lparr>ce_tier = TIER_3, ce_total = amount, ce_requires_human = True,
                   ce_requires_notification = True, ce_approved = True\<rparr>)"

subsection \<open>The in-memory duplicate\<close>

text \<open>
  \<open>rust_bridge.py\<close> repeats both checks; its loop keeps the totals in two variables.
\<close>

fun bridge_loop :: "dec \<Rightarrow> dec \<Rightarrow> ledger_line list \<Rightarrow> (dec \<times> dec) result" where
  "bridge_loop td tc [] = Inr (td, tc)"
| "bridge_loop td tc (l # ls) =
     ebind (quantize round_half_up 4 (ll_debit l)) (\<lambda>debit.
     ebind (quantize round_half_up 4 (ll_credit l)) (\<lambda>credit.
       if debit < 0 \<or> credit < 0 then Inl (NegativeAmountViolation debit credit)
       else if (debit > 0 \<and> credit > 0) \<or> (debit = 0 \<and> credit = 0)
       then Inl (SingleSidedViolation (ll_account l) debit credit)
       else bridge_loop (dadd td debit) (dadd tc credit) ls))"

definition validate_ledger_entry_invariants :: "ledger_line list \<Rightarrow> dec result" where
  "validate_ledger_entry_invariants lines =
     (if lines = [] then Inl (ZeroSumViolation 0 0 0)
      else ebind (bridge_loop 0 0 lines) (\<lambda>(td, tc).
           ebind (quantize round_half_up 4 (dsub td tc)) (\<lambda>diff.
             if diff \<noteq> 0 then Inl (ZeroSumViolation td tc diff) else Inr td)))"

datatype bridge_tier = AUTONOMOUS | DUAL_SUPERVISOR | HUMAN_MANDATORY

definition bridge_evaluate_autonomy_tier :: "dec \<Rightarrow> bridge_tier" where
  "bridge_evaluate_autonomy_tier amount =
     (if amount \<le> 2500 then AUTONOMOUS
      else if amount \<le> 25000 then DUAL_SUPERVISOR
      else HUMAN_MANDATORY)"

subsection \<open>The order of the tiers\<close>

instantiation autonomy_tier :: linorder
begin

definition tier_rank :: "autonomy_tier \<Rightarrow> nat" where
  "tier_rank t = (case t of TIER_1 \<Rightarrow> 1 | TIER_2 \<Rightarrow> 2 | TIER_3 \<Rightarrow> 3)"

definition less_eq_autonomy_tier :: "autonomy_tier \<Rightarrow> autonomy_tier \<Rightarrow> bool" where
  "less_eq_autonomy_tier s t \<longleftrightarrow> tier_rank s \<le> tier_rank t"

definition less_autonomy_tier :: "autonomy_tier \<Rightarrow> autonomy_tier \<Rightarrow> bool" where
  "less_autonomy_tier s t \<longleftrightarrow> tier_rank s < tier_rank t"

instance
proof
  fix s t u :: autonomy_tier
  show "s \<le> t \<Longrightarrow> t \<le> s \<Longrightarrow> s = t"
    by (cases s; cases t) (simp_all add: less_eq_autonomy_tier_def tier_rank_def)
qed (auto simp: less_eq_autonomy_tier_def less_autonomy_tier_def)

end

subsection \<open>What the zero-sum check accepts\<close>

text \<open>The amount that reaches the ledger: four places, half up.\<close>

abbreviation (input) cents :: "dec \<Rightarrow> dec" where
  "cents x \<equiv> quant round_half_up 4 x"

definition line_debit :: "ledger_line \<Rightarrow> dec" where
  "line_debit l = cents (ll_debit l)"

definition line_credit :: "ledger_line \<Rightarrow> dec" where
  "line_credit l = cents (ll_credit l)"

definition single_sided :: "ledger_line \<Rightarrow> bool" where
  "single_sided l \<longleftrightarrow> (0 < line_debit l \<and> line_credit l = 0) \<or> (line_debit l = 0 \<and> 0 < line_credit l)"

definition total_debit :: "ledger_line list \<Rightarrow> dec" where
  "total_debit ls = (\<Sum>l\<leftarrow>ls. line_debit l)"

definition total_credit :: "ledger_line list \<Rightarrow> dec" where
  "total_credit ls = (\<Sum>l\<leftarrow>ls. line_credit l)"

text \<open>The totals fit in the 28 digits of the context, with four of them after the point.\<close>

definition totals_fit :: "ledger_line list \<Rightarrow> bool" where
  "totals_fit ls \<longleftrightarrow> total_debit ls < 10 ^ 24 \<and> total_credit ls < 10 ^ 24"

lemma total_simps [simp]:
  "total_debit [] = 0" "total_credit [] = 0"
  "total_debit (l # ls) = line_debit l + total_debit ls"
  "total_credit (l # ls) = line_credit l + total_credit ls"
  by (simp_all add: total_debit_def total_credit_def)

lemma places_line [simp]: "places 4 (line_debit l)" "places 4 (line_credit l)"
  by (simp_all add: line_debit_def line_credit_def)

lemma single_sided_nonneg: "single_sided l \<Longrightarrow> 0 \<le> line_debit l \<and> 0 \<le> line_credit l"
  by (auto simp: single_sided_def)

lemma totals_nonneg:
  "\<forall>l \<in> set ls. single_sided l \<Longrightarrow> 0 \<le> total_debit ls \<and> 0 \<le> total_credit ls"
  by (induction ls) (auto dest: single_sided_nonneg)

lemma places_totals [simp]: "places 4 (total_debit ls)" "places 4 (total_credit ls)"
  by (induction ls) auto

lemma quantize_cents_ok: "0 \<le> cents x \<Longrightarrow> cents x < 10 ^ 24 \<Longrightarrow> quantize round_half_up 4 x = Inr (cents x)"
proof -
  assume a: "0 \<le> cents x" "cents x < 10 ^ 24"
  then have "rat_of_int \<bar>round_half_up (x * 10 ^ 4)\<bar> < of_int (10 ^ 28)"
    by (simp add: quant_def field_simps)
  then have "\<bar>round_half_up (x * 10 ^ 4)\<bar> < 10 ^ 28" by (simp only: of_int_less_iff)
  then show ?thesis by (simp add: quantize_def)
qed

lemma zero_sum_line_Inr:
  "zero_sum_line (a, b) l = Inr r \<Longrightarrow>
     single_sided l \<and> r = (dadd a (line_debit l), dadd b (line_credit l))"
  unfolding zero_sum_line_def single_sided_def line_debit_def line_credit_def
  by (auto simp: result_simps quantize_Inr split: if_splits)

lemma zero_sum_line_ok:
  "single_sided l \<Longrightarrow> line_debit l < 10 ^ 24 \<Longrightarrow> line_credit l < 10 ^ 24 \<Longrightarrow>
     zero_sum_line (a, b) l = Inr (dadd a (line_debit l), dadd b (line_credit l))"
  unfolding zero_sum_line_def single_sided_def line_debit_def line_credit_def
  by (auto simp: quantize_cents_ok)

lemma zero_sum_loop_single_sided:
  "efold zero_sum_line t ls = Inr r \<Longrightarrow> \<forall>l \<in> set ls. single_sided l"
proof (induction ls arbitrary: t)
  case Nil
  then show ?case by simp
next
  case (Cons l ls)
  then obtain u where u: "zero_sum_line t l = Inr u" "efold zero_sum_line u ls = Inr r"
    by (auto simp: ebind_eq_Inr)
  have "single_sided l" using zero_sum_line_Inr [of "fst t" "snd t" l u] u by simp
  with Cons.IH [OF u(2)] show ?case by simp
qed

text \<open>Below the bound the loop computes the exact sums.\<close>

lemma zero_sum_loop:
  assumes "places 4 a" "places 4 b" "0 \<le> a" "0 \<le> b"
    and "a + total_debit ls < 10 ^ 24" "b + total_credit ls < 10 ^ 24"
  shows "efold zero_sum_line (a, b) ls = Inr r \<longleftrightarrow>
    (\<forall>l \<in> set ls. single_sided l) \<and> r = (a + total_debit ls, b + total_credit ls)"
  using assms
proof (induction ls arbitrary: a b)
  case Nil
  then show ?case by auto
next
  case (Cons l ls)
  show ?case
  proof (cases "single_sided l \<and> (\<forall>l \<in> set ls. single_sided l)")
    case False
    then have "efold zero_sum_line (a, b) (l # ls) \<noteq> Inr r"
      using zero_sum_loop_single_sided [of "(a, b)" "l # ls" r] by auto
    with False show ?thesis by auto
  next
    case True
    then have nn: "0 \<le> line_debit l" "0 \<le> line_credit l" "0 \<le> total_debit ls" "0 \<le> total_credit ls"
      using single_sided_nonneg totals_nonneg by blast+
    have small: "line_debit l < 10 ^ 24" "line_credit l < 10 ^ 24"
      "a + line_debit l < 10 ^ 24" "b + line_credit l < 10 ^ 24"
      using nn Cons.prems by simp_all
    have "dadd a (line_debit l) = a + line_debit l" "dadd b (line_credit l) = b + line_credit l"
      using nn small Cons.prems by (auto intro!: dadd_exact [of 4])
    then have "efold zero_sum_line (a, b) (l # ls) =
        efold zero_sum_line (a + line_debit l, b + line_credit l) ls"
      using zero_sum_line_ok [of l a b] True small by simp
    also have "\<dots> = Inr r \<longleftrightarrow> (\<forall>l \<in> set ls. single_sided l) \<and>
        r = (a + line_debit l + total_debit ls, b + line_credit l + total_credit ls)"
      using nn Cons.prems by (intro Cons.IH) (auto simp: add.assoc)
    finally show ?thesis using True by (simp add: add.assoc)
  qed
qed

lemma validate_zero_sum_Inr:
  assumes fit: "totals_fit ls"
  shows "validate_zero_sum ls = Inr v \<longleftrightarrow>
    ls \<noteq> [] \<and> (\<forall>l \<in> set ls. single_sided l) \<and> total_debit ls = total_credit ls \<and> v = total_debit ls"
proof -
  have loop: "efold zero_sum_line (0, 0) ls = Inr r \<longleftrightarrow>
      (\<forall>l \<in> set ls. single_sided l) \<and> r = (total_debit ls, total_credit ls)" for r
    using zero_sum_loop [of 0 0 ls r] fit by (simp add: totals_fit_def)
  have diff: "quantize round_half_up 4 (dsub (total_debit ls) (total_credit ls)) =
      Inr (total_debit ls - total_credit ls)" if "\<forall>l \<in> set ls. single_sided l"
  proof -
    let ?d = "total_debit ls - total_credit ls"
    have b: "\<bar>?d\<bar> < 10 ^ 24"
      using totals_nonneg [OF that] fit by (auto simp: totals_fit_def abs_less_iff)
    have p: "places 4 ?d" by auto
    have "dsub (total_debit ls) (total_credit ls) = ?d"
      using b by (intro dsub_exact [of 4]) auto
    moreover have "cents ?d = ?d" using p by (rule quant_exact [rotated]) simp
    moreover have "\<bar>round_half_up (?d * 10 ^ 4)\<bar> < 10 ^ 28"
    proof -
      obtain m where m: "?d = of_int m / 10 ^ 4" using placesE [OF p] by blast
      with b have "rat_of_int \<bar>m\<bar> < of_int (10 ^ 28)" by (simp add: field_simps)
      then show ?thesis by (simp only: of_int_less_iff) (simp add: m)
    qed
    ultimately show ?thesis by (simp add: quantize_def)
  qed
  have same: "quantize round_half_up 4 (dsub x x) = Inr 0" for x
    by (simp add: dsub_def quantize_def quant_def)
  show ?thesis
    by (auto simp: validate_zero_sum_def ebind_eq_Inr loop diff same split: if_splits)
qed

lemma bridge_loop_fold: "bridge_loop a b ls = efold zero_sum_line (a, b) ls"
  by (induction ls arbitrary: a b)
    (auto simp: zero_sum_line_def ebind_assoc intro!: ebind_cong)

lemma bridge_validates_the_same:
  "validate_ledger_entry_invariants ls = validate_zero_sum ls"
  unfolding validate_ledger_entry_invariants_def validate_zero_sum_def bridge_loop_fold
  by (simp only: case_prod_unfold)

lemma evaluate_autonomy_tier_Inr:
  "evaluate_autonomy_tier e amount human a b = Inr r \<Longrightarrow>
     ce_approved r \<and> ce_total r = amount \<and>
     (ce_requires_human r \<longrightarrow> human) \<and>
     (ce_requires_human r \<longleftrightarrow> ce_tier r = TIER_3) \<and>
     (ce_requires_notification r \<longleftrightarrow> TIER_2 \<le> ce_tier r) \<and>
     (ce_tier r = TIER_3 \<longrightarrow> or_default b (cfg_tier2 e) < amount)"
  by (auto simp: evaluate_autonomy_tier_def Let_def less_eq_autonomy_tier_def tier_rank_def
      split: if_splits)

lemma evaluate_autonomy_tier_ok:
  "total_amount \<le> or_default b (cfg_tier2 e) \<or> human \<Longrightarrow>
     \<exists>r. evaluate_autonomy_tier e total_amount human a b = Inr r"
  by (auto simp: evaluate_autonomy_tier_def Let_def)

lemma evaluate_autonomy_tier_above:
  "evaluate_autonomy_tier e total_amount human None None = Inr r \<Longrightarrow> cfg_tier2 e < total_amount \<Longrightarrow>
     cfg_tier1 e \<le> cfg_tier2 e \<Longrightarrow> human \<and> ce_tier r = TIER_3 \<and> ce_requires_human r"
  by (auto simp: evaluate_autonomy_tier_def or_default_def Let_def split: if_splits)

end
