(* ===== verification/AuditChain.thy ===== *)
theory AuditChain
  imports Tables
begin

section \<open>The audit chain\<close>

text \<open>
  \<open>src/src/erp/audit\<close> (hasher, logger) and \<open>src/src/erp/mesh/soc2_auditor.py\<close>: every audit
  record stores the hash of its predecessor and a SHA-256 over that hash, the trace, the agent and
  the canonical JSON of the payload; the auditor walks a tenant's records from the genesis hash and
  counts the blocks whose link or hash is wrong. The interface \<open>audit_writer\<close> states what every
  writer of the log promises; the logger and the ledger engine are its instances.
\<close>

subsection \<open>Hasher\<close>

definition GENESIS_BLOCK_HASH :: string where
  "GENESIS_BLOCK_HASH = replicate 64 (CHR ''0'')"

definition hash_or_genesis :: "string option \<Rightarrow> string" where
  "hash_or_genesis h = (case h of None \<Rightarrow> GENESIS_BLOCK_HASH
     | Some s \<Rightarrow> if s = [] then GENESIS_BLOCK_HASH else s)"

definition raw_record :: "string \<Rightarrow> string \<Rightarrow> json \<Rightarrow> string option \<Rightarrow> string" where
  "raw_record trace agent payload prev =
     hash_or_genesis prev @ '':'' @ trace @ '':'' @ agent @ '':'' @ dumps payload"

definition compute_audit_record_hash ::
    "env \<Rightarrow> string \<Rightarrow> string \<Rightarrow> json \<Rightarrow> string option \<Rightarrow> string" where
  "compute_audit_record_hash e trace agent payload prev =
     sha256 e (raw_record trace agent payload prev)"

definition tenant_logs :: "db \<Rightarrow> uuid \<Rightarrow> audit_log list" where
  "tenant_logs s t = filter (\<lambda>a. au_tenant a = t) (audit_logs s)"

text \<open>\<open>ORDER BY timestamp DESC LIMIT 1\<close>.\<close>

definition get_latest_audit_hash :: "db \<Rightarrow> uuid \<Rightarrow> string option" where
  "get_latest_audit_hash s t =
     map_option au_hash (first_row (sort_key (\<lambda>a. - au_time a) (tenant_logs s t)))"

subsection \<open>The table\<close>

text \<open>
  One insertion into \<open>agent_audit_logs\<close> (\<open>db/models/audit.py\<close>): the limits of its \<open>String\<close> columns and of
  the \<open>Integer\<close> column, and its three \<open>JSONB\<close> columns. The two hash columns always fit, since a SHA-256
  digest has 64 characters.
\<close>

definition stored_log :: "audit_log \<Rightarrow> audit_log" where
  "stored_log a =
     a\<lparr>au_payload := jsonb (au_payload a), au_parsed := jsonb (au_parsed a), au_rules := jsonb (au_rules a)\<rparr>"

definition log_fits :: "audit_log \<Rightarrow> bool" where
  "log_fits a \<longleftrightarrow>
     length (au_trace a) \<le> 64 \<and> length (au_agent a) \<le> 64 \<and>
     (case au_subagent a of None \<Rightarrow> True | Some x \<Rightarrow> length x \<le> 64) \<and> length (au_session a) \<le> 64 \<and>
     length (au_provider a) \<le> 32 \<and> length (au_model a) \<le> 64 \<and> length (au_prompt a) \<le> 64 \<and>
     length (au_function a) \<le> 128 \<and> \<bar>au_duration a\<bar> < 2 ^ 31"

definition insert_audit :: "audit_log \<Rightarrow> db \<Rightarrow> db result" where
  "insert_audit a s =
     (if log_fits a then Inr (s\<lparr>audit_logs := audit_logs s @ [stored_log a]\<rparr>) else Inl DataError)"

subsection \<open>Logger\<close>

definition log_agent_action ::
    "env \<Rightarrow> uuid \<Rightarrow> string \<Rightarrow> string \<Rightarrow> string \<Rightarrow> string \<Rightarrow> json \<Rightarrow> string \<Rightarrow> json \<Rightarrow> json \<Rightarrow> int
     \<Rightarrow> string \<Rightarrow> string \<Rightarrow> string \<Rightarrow> string option \<Rightarrow> bool \<Rightarrow> uuid option \<Rightarrow> uuid option \<Rightarrow> db
     \<Rightarrow> (audit_log \<times> db) result" where
  "log_agent_action e t trace agent sess fn payload out parsed rules dur
     provider model prompt sub human appr txn s =
     (let prev = get_latest_audit_hash s t;
          h = compute_audit_record_hash e trace agent payload prev;
          (aid, s1) = uuid4 s;
          a = \<lparr>au_id = aid, au_tenant = t, au_trace = trace, au_agent = agent,
               au_subagent = sub, au_session = sess, au_provider = provider, au_model = model, au_prompt = prompt,
               au_function = fn, au_payload = payload,
               au_output = out, au_parsed = parsed, au_rules = rules, au_human = human,
               au_approved_by = appr, au_db_txn = txn, au_duration = dur,
               au_prev_hash = prev, au_hash = h, au_time = now e\<rparr>
      in ebind (insert_audit a s1) (\<lambda>s2. Inr (a, s2)))"

text \<open>
  The entry that the registration and the provisioning of a tenant write on their own
  (\<open>api/routes/auth.py\<close>, \<open>auth/provisioning.py\<close>): the genesis hash, not null, stands for a missing
  predecessor.
\<close>

definition log_tenant_setup ::
    "env \<Rightarrow> uuid \<Rightarrow> string \<Rightarrow> string \<Rightarrow> string \<Rightarrow> string \<Rightarrow> string \<Rightarrow> json \<Rightarrow> string \<Rightarrow> json \<Rightarrow> json \<Rightarrow> int
     \<Rightarrow> db \<Rightarrow> (audit_log \<times> db) result" where
  "log_tenant_setup e t trace agent sess prompt fn payload out parsed rules dur s =
     (let prev = or_else (get_latest_audit_hash s t) GENESIS_BLOCK_HASH;
          h = compute_audit_record_hash e trace agent payload (Some prev);
          (aid, s1) = uuid4 s;
          a = \<lparr>au_id = aid, au_tenant = t, au_trace = trace, au_agent = agent,
               au_subagent = None, au_session = sess, au_provider = ''SYSTEM'', au_model = ''v2.1'', au_prompt = prompt,
               au_function = fn, au_payload = payload,
               au_output = out, au_parsed = parsed, au_rules = rules, au_human = False,
               au_approved_by = None, au_db_txn = None, au_duration = dur,
               au_prev_hash = Some prev, au_hash = h, au_time = now e\<rparr>
      in ebind (insert_audit a s1) (\<lambda>s2. Inr (a, s2)))"

subsection \<open>Auditor\<close>

record chain_record =
  rc_log :: uuid
  rc_agent :: string
  rc_trace :: string
  rc_prev :: string
  rc_hash :: string
  rc_payload :: json

record block_verification =
  bv_index :: nat
  bv_record :: chain_record
  bv_valid :: bool
  bv_reason :: "string option"

record compliance_report =
  cr_total :: nat
  cr_unbroken :: bool
  cr_tampered :: nat
  cr_certification :: string
  cr_root :: string
  cr_blocks :: "block_verification list"

definition recompute :: "env \<Rightarrow> chain_record \<Rightarrow> string" where
  "recompute e r =
     compute_audit_record_hash e (rc_trace r) (rc_agent r) (rc_payload r) (Some (rc_prev r))"

definition verify_block :: "env \<Rightarrow> nat \<Rightarrow> string \<Rightarrow> chain_record \<Rightarrow> block_verification" where
  "verify_block e i expected r =
     (let link_valid = (rc_prev r = expected); h = recompute e r;
          hash_valid = (rc_hash r = h)
      in \<lparr>bv_index = i, bv_record = r, bv_valid = link_valid \<and> hash_valid,
          bv_reason =
            (if \<not> link_valid
             then Some (''BROKEN_CHAIN: expected previous hash '' @ take 12 expected
                        @ ''..., found '' @ take 12 (rc_prev r) @ ''...'')
             else if \<not> hash_valid
             then Some (''TAMPERED_RECORD: recomputed '' @ take 12 h
                        @ ''... differs from stored '' @ take 12 (rc_hash r) @ ''...'')
             else None)\<rparr>)"

fun verify_blocks :: "env \<Rightarrow> nat \<Rightarrow> string \<Rightarrow> chain_record list \<Rightarrow> block_verification list \<times> string" where
  "verify_blocks e i expected [] = ([], expected)"
| "verify_blocks e i expected (r # rs) =
     (let (bs, root) = verify_blocks e (Suc i) (rc_hash r) rs
      in (verify_block e i expected r # bs, root))"

definition verify_in_memory_chain :: "env \<Rightarrow> chain_record list \<Rightarrow> compliance_report" where
  "verify_in_memory_chain e rs =
     (let (bs, root) = verify_blocks e 0 GENESIS_BLOCK_HASH rs;
          tampered = length (filter (\<lambda>b. bv_reason b \<noteq> None) bs);
          ok = (tampered = 0 \<and> 0 < length rs)
      in \<lparr>cr_total = length rs, cr_unbroken = ok, cr_tampered = tampered,
          cr_certification =
            (if ok then ''CERTIFIED_COMPLIANT'' else ''NON_COMPLIANT_TAMPER_DETECTED''),
          cr_root = (if rs \<noteq> [] then root else GENESIS_BLOCK_HASH), cr_blocks = bs\<rparr>)"

definition chain_of :: "audit_log \<Rightarrow> chain_record" where
  "chain_of a =
     \<lparr>rc_log = au_id a, rc_agent = au_agent a, rc_trace = au_trace a,
      rc_prev = hash_or_genesis (au_prev_hash a), rc_hash = au_hash a, rc_payload = au_payload a\<rparr>"

definition verify_database_audit_chain :: "env \<Rightarrow> uuid \<Rightarrow> db \<Rightarrow> compliance_report" where
  "verify_database_audit_chain e t s =
     verify_in_memory_chain e (map chain_of (sort_key au_time (tenant_logs s t)))"

subsection \<open>What the auditor accepts\<close>

fun linked :: "env \<Rightarrow> string \<Rightarrow> chain_record list \<Rightarrow> bool" where
  "linked e prev [] = True"
| "linked e prev (r # rs) =
     (rc_prev r = prev \<and> rc_hash r = recompute e r \<and> linked e (rc_hash r) rs)"

fun chain_tip :: "string \<Rightarrow> chain_record list \<Rightarrow> string" where
  "chain_tip prev [] = prev"
| "chain_tip prev (r # rs) = chain_tip (rc_hash r) rs"

lemma verify_block_reason:
  "bv_reason (verify_block e i p r) = None \<longleftrightarrow> rc_prev r = p \<and> rc_hash r = recompute e r"
  by (simp add: verify_block_def Let_def)

lemma verify_blocks_linked:
  "filter (\<lambda>b. bv_reason b \<noteq> None) (fst (verify_blocks e i p rs)) = [] \<longleftrightarrow> linked e p rs"
  by (induction rs arbitrary: i p)
    (auto simp: verify_block_reason Let_def case_prod_beta simp del: not_None_eq)

lemma verify_blocks_tip: "snd (verify_blocks e i p rs) = chain_tip p rs"
  by (induction rs arbitrary: i p) (simp_all add: Let_def case_prod_beta)

lemma verify_unbroken_iff:
  "cr_unbroken (verify_in_memory_chain e rs) \<longleftrightarrow> rs \<noteq> [] \<and> linked e GENESIS_BLOCK_HASH rs"
  using verify_blocks_linked [of e 0 GENESIS_BLOCK_HASH rs]
  by (auto simp: verify_in_memory_chain_def Let_def split: prod.splits)

lemma verify_root: "cr_root (verify_in_memory_chain e rs) = chain_tip GENESIS_BLOCK_HASH rs"
  using verify_blocks_tip [of e 0 GENESIS_BLOCK_HASH rs]
  by (auto simp: verify_in_memory_chain_def Let_def split: prod.splits)

lemma linked_snoc:
  "linked e p (rs @ [r]) \<longleftrightarrow>
     linked e p rs \<and> rc_prev r = chain_tip p rs \<and> rc_hash r = recompute e r"
  by (induction rs arbitrary: p) auto

lemma chain_tip_snoc [simp]: "chain_tip p (rs @ [r]) = rc_hash r"
  by (induction rs arbitrary: p) auto

text \<open>Two accepted chains with one tip are made of the same hashed texts, or show a collision.\<close>

definition raw_of :: "chain_record \<Rightarrow> string" where
  "raw_of r = raw_record (rc_trace r) (rc_agent r) (rc_payload r) (Some (rc_prev r))"

lemma recompute_raw: "recompute e r = sha256 e (raw_of r)"
  by (simp add: recompute_def compute_audit_record_hash_def raw_of_def)

text \<open>A SHA-256 digest printed in hexadecimal has 64 characters.\<close>

definition digest64 :: "env \<Rightarrow> bool" where
  "digest64 e \<longleftrightarrow> (\<forall>x. length (sha256 e x) = 64)"

lemma hash_or_genesis_id: "length h = 64 \<Longrightarrow> hash_or_genesis (Some h) = h"
  by (auto simp: hash_or_genesis_def)

lemma raw_of_prev:
  assumes "raw_of r = raw_of q" "length (rc_prev r) = 64" "length (rc_prev q) = 64"
  shows "rc_prev r = rc_prev q"
  using arg_cong [OF assms(1), of "take 64"] assms(2,3)
  by (simp add: raw_of_def raw_record_def hash_or_genesis_id)

lemma length_chain_tip:
  assumes "digest64 e" "linked e p rs" "length p = 64"
  shows "length (chain_tip p rs) = 64"
  using assms by (cases rs rule: rev_cases) (auto simp: linked_snoc recompute_raw digest64_def)

lemma linked_same_tip:
  assumes "digest64 e" "length p = 64"
    and "linked e p rs" "linked e p rs'" "length rs = length rs'"
    and "chain_tip p rs = chain_tip p rs'"
  shows "map raw_of rs = map raw_of rs' \<or>
    (\<exists>x \<in> set (map raw_of rs). \<exists>y \<in> set (map raw_of rs'). x \<noteq> y \<and> sha256 e x = sha256 e y)"
  using assms(3-)
proof (induction rs arbitrary: rs' rule: rev_induct)
  case Nil
  then show ?case by simp
next
  case (snoc r rs)
  obtain qs q where rs': "rs' = qs @ [q]"
    using snoc.prems(3) by (cases rs' rule: rev_cases) auto
  have l: "linked e p rs" "linked e p qs" "rc_prev r = chain_tip p rs" "rc_prev q = chain_tip p qs"
    using snoc.prems by (simp_all add: rs' linked_snoc)
  have same: "sha256 e (raw_of r) = sha256 e (raw_of q)"
    using snoc.prems by (simp add: rs' linked_snoc recompute_raw)
  show ?case
  proof (cases "raw_of r = raw_of q")
    case True
    then have "chain_tip p rs = chain_tip p qs"
      using raw_of_prev [OF True] l length_chain_tip [OF assms(1) _ assms(2)] by simp
    then show ?thesis using snoc.IH [of qs] snoc.prems l True by (auto simp: rs')
  next
    case False
    with same show ?thesis by (auto simp: rs')
  qed
qed

subsection \<open>Writers of the log\<close>

text \<open>
  \<open>audit_ok\<close>: a tenant's records were written in the order of their timestamps and are linked.
\<close>

definition audit_ok :: "env \<Rightarrow> uuid \<Rightarrow> db \<Rightarrow> bool" where
  "audit_ok e t s \<longleftrightarrow>
     sorted_wrt (<) (map au_time (tenant_logs s t)) \<and>
     linked e GENESIS_BLOCK_HASH (map chain_of (tenant_logs s t))"

definition clock_ahead :: "env \<Rightarrow> uuid \<Rightarrow> db \<Rightarrow> bool" where
  "clock_ahead e t s \<longleftrightarrow> (\<forall>a \<in> set (tenant_logs s t). au_time a < now e)"

definition new_audit_record :: "env \<Rightarrow> uuid \<Rightarrow> db \<Rightarrow> audit_log \<Rightarrow> bool" where
  "new_audit_record e t s a \<longleftrightarrow>
     au_tenant a = t \<and> au_time a = now e \<and>
     hash_or_genesis (au_prev_hash a) = hash_or_genesis (get_latest_audit_hash s t) \<and>
     au_hash a = compute_audit_record_hash e (au_trace a) (au_agent a) (au_payload a) (au_prev_hash a)"

lemma sort_key_strict:
  "sorted_wrt (<) (map f xs) \<Longrightarrow> sort_key f xs = xs" for f :: "'a \<Rightarrow> int"
  by (rule sort_key_id_if_sorted) (simp add: strict_sorted_imp_sorted)

lemma first_of_reverse_sort:
  assumes "sorted_wrt (<) (map f (xs @ [x]))"
  shows "first_row (sort_key (\<lambda>a. - (f a :: int)) (xs @ [x])) = Some x"
proof -
  let ?ys = "sort_key (\<lambda>a. - f a) (xs @ [x])"
  have "x \<in> set ?ys" by simp
  then obtain y ys where ys: "?ys = y # ys" by (cases ?ys) auto
  have "sorted (map (\<lambda>a. - f a) ?ys)" by (rule sorted_sort_key)
  then have min: "\<forall>a \<in> set ?ys. - f y \<le> - f a" unfolding ys by auto
  then have "f x \<le> f y" by simp
  moreover have "y \<in> set (xs @ [x])" by (metis list.set_intros(1) set_sort ys)
  ultimately have "y = x" using assms by (auto simp: sorted_wrt_append)
  then show ?thesis by (simp only: ys first_row.simps)
qed

lemma latest_hash_tip:
  assumes "digest64 e" "audit_ok e t s"
  shows "hash_or_genesis (get_latest_audit_hash s t) =
    chain_tip GENESIS_BLOCK_HASH (map chain_of (tenant_logs s t))"
proof (cases "tenant_logs s t" rule: rev_cases)
  case Nil
  then show ?thesis by (simp add: get_latest_audit_hash_def hash_or_genesis_def)
next
  case (snoc as a)
  have "sorted_wrt (<) (map au_time (as @ [a]))" using assms(2) by (simp add: audit_ok_def snoc)
  then have "get_latest_audit_hash s t = Some (au_hash a)"
    unfolding get_latest_audit_hash_def snoc by (simp add: first_of_reverse_sort del: sort_key_simps)
  moreover have "rc_hash (chain_of a) = recompute e (chain_of a)"
    using assms(2) by (simp add: audit_ok_def snoc linked_snoc)
  then have "length (rc_hash (chain_of a)) = 64"
    using assms(1) by (simp only: recompute_raw digest64_def)
  then have "length (au_hash a) = 64" by (simp add: chain_of_def)
  ultimately show ?thesis by (simp add: snoc hash_or_genesis_id chain_of_def)
qed

lemma hash_or_genesis_twice [simp]:
  "hash_or_genesis (Some (hash_or_genesis h)) = hash_or_genesis h"
  by (auto simp: hash_or_genesis_def GENESIS_BLOCK_HASH_def split: option.splits)

lemma audit_ok_append:
  assumes "digest64 e" "audit_ok e t s" "clock_ahead e t s"
    and "new_audit_record e t s a" "audit_logs s' = audit_logs s @ [a]"
  shows "audit_ok e t s'"
proof -
  have logs: "tenant_logs s' t = tenant_logs s t @ [a]"
    using assms(4,5) by (simp add: tenant_logs_def new_audit_record_def)
  have "rc_hash (chain_of a) = recompute e (chain_of a)"
    using assms(4)
    by (simp add: new_audit_record_def chain_of_def recompute_def compute_audit_record_hash_def
        raw_record_def)
  moreover have "rc_prev (chain_of a) =
      chain_tip GENESIS_BLOCK_HASH (map chain_of (tenant_logs s t))"
    using latest_hash_tip [OF assms(1,2)] assms(4)
    by (simp add: new_audit_record_def chain_of_def)
  ultimately show ?thesis
    using assms(2-4)
    by (auto simp: audit_ok_def logs linked_snoc sorted_wrt_append clock_ahead_def
        new_audit_record_def)
qed

lemma audit_ok_other_tenant:
  "au_tenant a \<noteq> t \<Longrightarrow> audit_logs s' = audit_logs s @ [a] \<Longrightarrow> audit_ok e t s' = audit_ok e t s"
  by (simp add: audit_ok_def tenant_logs_def)

lemma audit_ok_frame: "audit_logs s' = audit_logs s \<Longrightarrow> audit_ok e t s' = audit_ok e t s"
  by (simp add: audit_ok_def tenant_logs_def)

text \<open>
  \<open>w e t s s'\<close>: a step of a writer on behalf of tenant \<open>t\<close> that ended with success.
\<close>

locale audit_writer =
  fixes w :: "env \<Rightarrow> uuid \<Rightarrow> db \<Rightarrow> db \<Rightarrow> bool"
  assumes writes_one: "w e t s s' \<Longrightarrow> \<exists>a. new_audit_record e t s a \<and> audit_logs s' = audit_logs s @ [a]"
begin

lemma keeps_chain:
  "digest64 e \<Longrightarrow> audit_ok e t s \<Longrightarrow> clock_ahead e t s \<Longrightarrow> w e t s s' \<Longrightarrow> audit_ok e t s'"
  using writes_one audit_ok_append by metis

lemma keeps_other_chains:
  assumes "w e t s s'" "u \<noteq> t"
  shows "audit_ok e' u s' = audit_ok e' u s"
proof -
  obtain a where "new_audit_record e t s a" "audit_logs s' = audit_logs s @ [a]"
    using writes_one [OF assms(1)] by blast
  with assms(2) show ?thesis
    by (intro audit_ok_other_tenant [of a]) (auto simp: new_audit_record_def)
qed

lemma appends_only: "w e t s s' \<Longrightarrow> length (audit_logs s') = Suc (length (audit_logs s))"
  using writes_one by fastforce

end

text \<open>What the table holds after an insertion: the record, with the stored form of its JSON columns. Where
  the payload is one that \<open>JSONB\<close> keeps, the stored record has the hash of its own payload.\<close>

lemma insert_audit_Inr:
  "insert_audit a s = Inr s' \<longleftrightarrow> log_fits a \<and> s' = s\<lparr>audit_logs := audit_logs s @ [stored_log a]\<rparr>"
  by (auto simp: insert_audit_def)

lemma stored_log_new:
  assumes "new_audit_record e t s a" "jsonb_safe (au_payload a)"
  shows "new_audit_record e t s (stored_log a)"
  using assms
  by (simp add: new_audit_record_def stored_log_def compute_audit_record_hash_def raw_record_def dumps_jsonb)

lemma log_agent_action_Inr:
  assumes "log_agent_action e t trace agent sess fn payload out parsed rules dur provider model prompt sub human
     appr txn s = Inr (a, s')"
  shows "new_audit_record e t s a \<and> au_payload a = payload \<and>
    s' = s\<lparr>next_id := Suc (next_id s), audit_logs := audit_logs s @ [stored_log a]\<rparr>"
  using assms
  by (auto simp: log_agent_action_def new_audit_record_def uuid4_def Let_def ebind_eq_Inr insert_audit_Inr)

lemma log_tenant_setup_Inr:
  assumes "log_tenant_setup e t trace agent sess prompt fn payload out parsed rules dur s = Inr (a, s')"
  shows "new_audit_record e t s a \<and> au_payload a = payload \<and>
    s' = s\<lparr>next_id := Suc (next_id s), audit_logs := audit_logs s @ [stored_log a]\<rparr>"
  using assms
  by (auto simp: log_tenant_setup_def new_audit_record_def uuid4_def Let_def ebind_eq_Inr insert_audit_Inr or_else_def
      hash_or_genesis_def GENESIS_BLOCK_HASH_def split: option.splits)

text \<open>The logger and the set-up of tenants as a relation between the database before and after one call: any
  call that succeeds, and those whose payload \<open>JSONB\<close> keeps.\<close>

definition logged :: "(json \<Rightarrow> bool) \<Rightarrow> env \<Rightarrow> uuid \<Rightarrow> db \<Rightarrow> db \<Rightarrow> bool" where
  "logged P e t s s' \<longleftrightarrow>
     (\<exists>trace agent sess fn payload out parsed rules dur provider model prompt sub human appr txn a.
        P payload \<and> (log_agent_action e t trace agent sess fn payload out parsed rules dur
                      provider model prompt sub human appr txn s = Inr (a, s') \<or>
                    log_tenant_setup e t trace agent sess prompt fn payload out parsed rules dur s = Inr (a, s')))"

lemma logged_Inr:
  assumes "logged P e t s s'"
  obtains a where "P (au_payload a)" "new_audit_record e t s a" "gl_entries s' = gl_entries s"
    "audit_logs s' = audit_logs s @ [stored_log a]"
  using assms unfolding logged_def
  by (elim exE conjE disjE) (drule log_agent_action_Inr log_tenant_setup_Inr; simp)+

definition logger_step :: "env \<Rightarrow> uuid \<Rightarrow> db \<Rightarrow> db \<Rightarrow> bool" where
  "logger_step = logged jsonb_safe"

lemma logged_frame:
  "logged P e t s s' \<Longrightarrow> gl_entries s' = gl_entries s \<and> (\<exists>a. au_tenant a = t \<and> audit_logs s' = audit_logs s @ [a])"
  by (erule logged_Inr) (auto simp: new_audit_record_def stored_log_def)

interpretation logger: audit_writer logger_step
proof
  fix e t s s'
  assume "logger_step e t s s'"
  then show "\<exists>a. new_audit_record e t s a \<and> audit_logs s' = audit_logs s @ [a]"
    unfolding logger_step_def by (rule logged_Inr) (use stored_log_new in blast)
qed

lemma audit_ok_verifies:
  assumes "audit_ok e t s" "tenant_logs s t \<noteq> []"
  shows "cr_unbroken (verify_database_audit_chain e t s)"
proof -
  have "sort_key au_time (tenant_logs s t) = tenant_logs s t"
    using assms(1) by (intro sort_key_strict) (simp add: audit_ok_def)
  with assms show ?thesis
    by (simp add: verify_database_audit_chain_def verify_unbroken_iff audit_ok_def)
qed

subsection \<open>What a hashed text determines\<close>

lemma append_sep_eq:
  "c \<notin> set xs \<Longrightarrow> c \<notin> set ys \<Longrightarrow> xs @ c # us = ys @ c # vs \<Longrightarrow> xs = ys \<and> us = vs"
proof (induction xs arbitrary: ys)
  case Nil
  then show ?case by (cases ys) auto
next
  case (Cons x xs)
  then show ?case by (cases ys) auto
qed

definition plain_ids :: "chain_record \<Rightarrow> bool" where
  "plain_ids r \<longleftrightarrow> CHR '':'' \<notin> set (rc_trace r) \<and> CHR '':'' \<notin> set (rc_agent r)"

definition content_of :: "chain_record \<Rightarrow> string \<times> string \<times> string \<times> string" where
  "content_of r = (rc_prev r, rc_trace r, rc_agent r, dumps (rc_payload r))"

lemma raw_of_content:
  assumes "raw_of r = raw_of q" "length (rc_prev r) = 64" "length (rc_prev q) = 64"
    and "plain_ids r" "plain_ids q"
  shows "content_of r = content_of q"
proof -
  have prev: "rc_prev r = rc_prev q" using raw_of_prev assms(1-3) by blast
  then have "rc_trace r @ CHR '':'' # rc_agent r @ CHR '':'' # dumps (rc_payload r) =
      rc_trace q @ CHR '':'' # rc_agent q @ CHR '':'' # dumps (rc_payload q)"
    using assms(1) by (simp add: raw_of_def raw_record_def)
  from append_sep_eq [OF _ _ this] assms(4,5)
  have "rc_trace r = rc_trace q"
    and rest: "rc_agent r @ CHR '':'' # dumps (rc_payload r) = rc_agent q @ CHR '':'' # dumps (rc_payload q)"
    by (auto simp: plain_ids_def)
  with append_sep_eq [OF _ _ rest] assms(4,5) prev show ?thesis
    by (auto simp: plain_ids_def content_of_def)
qed

lemma linked_prev_lengths:
  assumes "digest64 e" "length p = 64" "linked e p rs" "r \<in> set rs"
  shows "length (rc_prev r) = 64"
  using assms
proof (induction rs arbitrary: p)
  case (Cons q qs)
  have "length (rc_hash q) = 64"
    using Cons.prems(1,3) by (simp add: recompute_raw digest64_def)
  with Cons show ?case by auto
qed simp

lemma length_genesis [simp]: "length GENESIS_BLOCK_HASH = 64"
  by (simp add: GENESIS_BLOCK_HASH_def)

subsection \<open>Properties\<close>

definition const_hash_env :: env where
  "const_hash_env = \<lparr>today = 0, now = 0, sha256 = (\<lambda>x. GENESIS_BLOCK_HASH),
     dec_str = (\<lambda>x. []), time_str = (\<lambda>x. []), cfg_tier1 = 2500, cfg_tier2 = 25000\<rparr>"

definition demo_chain :: "chain_record list" where
  "demo_chain = [\<lparr>rc_log = 1, rc_agent = ''A'', rc_trace = ''t'', rc_prev = GENESIS_BLOCK_HASH,
      rc_hash = GENESIS_BLOCK_HASH, rc_payload = JNull\<rparr>]"

lemma const_hash_64: "digest64 const_hash_env"
  by (simp add: digest64_def const_hash_env_def)

text \<open>Tamper evidence. Two chains of one length that the auditor accepts with the same root,
  whose traces and agents contain no colon, agree block by block on the previous hash, trace, agent
  and canonical payload, or they exhibit two different texts with one SHA-256 digest.\<close>

theorem same_root_same_history:
  assumes "digest64 e" and "cr_unbroken (verify_in_memory_chain e rs)"
    and "cr_unbroken (verify_in_memory_chain e qs)" and "length rs = length qs"
    and "cr_root (verify_in_memory_chain e rs) = cr_root (verify_in_memory_chain e qs)"
    and "list_all plain_ids rs" "list_all plain_ids qs"
  shows "map content_of rs = map content_of qs \<or> (\<exists>x y. x \<noteq> y \<and> sha256 e x = sha256 e y)"
proof -
  have l: "linked e GENESIS_BLOCK_HASH rs" "linked e GENESIS_BLOCK_HASH qs"
    using assms(2,3) by (simp_all add: verify_unbroken_iff)
  have "map raw_of rs = map raw_of qs \<or> (\<exists>x y. x \<noteq> y \<and> sha256 e x = sha256 e y)"
    using linked_same_tip [OF assms(1) length_genesis l assms(4)] assms(5)
    by (auto simp: verify_root)
  moreover have "map content_of rs = map content_of qs" if raw: "map raw_of rs = map raw_of qs"
  proof (rule nth_equalityI)
    fix i assume "i < length (map content_of rs)"
    then have i: "i < length rs" "i < length qs" using assms(4) by simp_all
    have "raw_of (rs ! i) = raw_of (qs ! i)" using raw i by (metis nth_map)
    moreover have "length (rc_prev (rs ! i)) = 64" "length (rc_prev (qs ! i)) = 64"
      by (rule linked_prev_lengths [OF assms(1) length_genesis l(1) nth_mem [OF i(1)]],
          rule linked_prev_lengths [OF assms(1) length_genesis l(2) nth_mem [OF i(2)]])
    moreover have "plain_ids (rs ! i)" "plain_ids (qs ! i)"
      using assms(6,7) i by (simp_all add: list_all_iff)
    ultimately have "content_of (rs ! i) = content_of (qs ! i)" by (rule raw_of_content)
    with i show "map content_of rs ! i = map content_of qs ! i" by simp
  qed (simp add: assms(4))
  ultimately show ?thesis by blast
qed

theorem same_root_same_history_witness:
  "cr_unbroken (verify_in_memory_chain const_hash_env demo_chain) \<and>
   (map content_of demo_chain = map content_of demo_chain \<or>
    (\<exists>x y. x \<noteq> y \<and> sha256 const_hash_env x = sha256 const_hash_env y))"
proof -
  have "cr_unbroken (verify_in_memory_chain const_hash_env demo_chain)" "list_all plain_ids demo_chain"
    by code_simp+
  then show ?thesis
    using same_root_same_history [OF const_hash_64, of demo_chain demo_chain] by blast
qed

text \<open>The auditor points at what was changed: when a record of an accepted chain is replaced by
  one with another canonical payload and nothing else, the report counts at least one tampered
  block, unless the two texts collide under SHA-256.\<close>

theorem changed_payload_is_detected:
  assumes "digest64 e" and "cr_unbroken (verify_in_memory_chain e (xs @ r # ys))"
    and "dumps j \<noteq> dumps (rc_payload r)"
    and "sha256 e (raw_of (r\<lparr>rc_payload := j\<rparr>)) \<noteq> sha256 e (raw_of r)"
  shows "\<not> cr_unbroken (verify_in_memory_chain e (xs @ r\<lparr>rc_payload := j\<rparr> # ys)) \<and>
    cr_tampered (verify_in_memory_chain e (xs @ r\<lparr>rc_payload := j\<rparr> # ys)) > 0"
proof -
  have split: "linked e p (as @ b # bs) \<longleftrightarrow>
      linked e p as \<and> rc_prev b = chain_tip p as \<and> rc_hash b = recompute e b \<and> linked e (rc_hash b) bs"
    for p as b bs
    by (induction as arbitrary: p) auto
  have "rc_hash r = sha256 e (raw_of r)"
    using assms(2) by (simp add: verify_unbroken_iff split recompute_raw)
  with assms(4) have bad: "\<not> cr_unbroken (verify_in_memory_chain e (xs @ r\<lparr>rc_payload := j\<rparr> # ys))"
    by (simp add: verify_unbroken_iff split recompute_raw)
  moreover have "cr_tampered (verify_in_memory_chain e zs) = 0 \<longrightarrow> zs = [] \<or>
      cr_unbroken (verify_in_memory_chain e zs)" for zs
    by (simp add: verify_in_memory_chain_def Let_def split: prod.splits)
  ultimately show ?thesis by (metis append_is_Nil_conv gr0I list.distinct(1))
qed

theorem changed_payload_is_detected_witness:
  "let e = const_hash_env\<lparr>sha256 := (\<lambda>x. if contains x ''null'' then GENESIS_BLOCK_HASH
             else replicate 64 (CHR ''1''))\<rparr>; r = hd demo_chain
   in cr_tampered (verify_in_memory_chain e [r\<lparr>rc_payload := JInt 1\<rparr>]) > 0"
proof -
  let ?e = "const_hash_env\<lparr>sha256 := (\<lambda>x. if contains x ''null'' then GENESIS_BLOCK_HASH
             else replicate 64 (CHR ''1''))\<rparr>"
  have "digest64 ?e" by (simp add: digest64_def)
  moreover have "cr_unbroken (verify_in_memory_chain ?e ([] @ hd demo_chain # []))"
    "dumps (JInt 1) \<noteq> dumps (rc_payload (hd demo_chain))"
    "sha256 ?e (raw_of ((hd demo_chain)\<lparr>rc_payload := JInt 1\<rparr>)) \<noteq> sha256 ?e (raw_of (hd demo_chain))"
    by code_simp+
  ultimately show ?thesis
    using changed_payload_is_detected [of ?e "[]" "hd demo_chain" "[]" "JInt 1"] by simp
qed

text \<open>The hashed text does not separate its fields: moving a segment that contains a colon from
  the agent to the trace gives a different record with the same digest, whatever SHA-256 is.\<close>

theorem delimiter_is_ambiguous:
  "compute_audit_record_hash e (t @ '':'' @ u) a payload prev =
   compute_audit_record_hash e t (u @ '':'' @ a) payload prev"
  by (simp add: compute_audit_record_hash_def raw_record_def)

text \<open>The auditor recomputes the hash from what the \<open>JSONB\<close> column gives back: a first record whose payload has
  another text there, such as one with a float from \<open>1e16\<close> on, is reported as tampered right after it was
  written, unless the two texts collide under SHA-256.\<close>

theorem reformatted_payload_is_reported:
  assumes "log_agent_action e t trace agent sess fn payload out parsed rules dur provider model prompt sub human
      appr txn s = Inr (a, s')" and "tenant_logs s t = []"
    and "sha256 e (raw_record trace agent (jsonb payload) None) \<noteq> sha256 e (raw_record trace agent payload None)"
  shows "cr_tampered (verify_database_audit_chain e t s') = 1 \<and> \<not> cr_unbroken (verify_database_audit_chain e t s')"
proof -
  have a: "au_tenant a = t" "au_trace a = trace" "au_agent a = agent" "au_payload a = payload" "au_prev_hash a = None"
    "au_hash a = sha256 e (raw_record trace agent payload None)" "audit_logs s' = audit_logs s @ [stored_log a]"
    using assms(1,2)
    by (auto simp: log_agent_action_def uuid4_def Let_def ebind_eq_Inr insert_audit_Inr
        compute_audit_record_hash_def get_latest_audit_hash_def)
  have "tenant_logs s' t = [stored_log a]" using assms(2) a(1,7) by (simp add: tenant_logs_def stored_log_def)
  moreover have "raw_record trace agent (jsonb payload) (Some GENESIS_BLOCK_HASH) = raw_record trace agent (jsonb payload) None"
    by (simp add: raw_record_def hash_or_genesis_def GENESIS_BLOCK_HASH_def)
  ultimately show ?thesis
    using a assms(3)
    by (simp add: verify_database_audit_chain_def verify_in_memory_chain_def verify_block_def chain_of_def stored_log_def
        recompute_def compute_audit_record_hash_def hash_or_genesis_def [of None])
qed

theorem reformatted_payload_is_reported_witness:
  "let e = const_hash_env\<lparr>sha256 := (\<lambda>x. if contains x ''e+16'' then GENESIS_BLOCK_HASH else replicate 64 (CHR ''1''))\<rparr>
   in \<exists>a s. log_agent_action e 0 ''t'' ''A'' ''s'' ''f'' (JObj [(''total'', JFloat (10 ^ 16))]) [] (JObj []) (JObj []) 1
        ''google'' ''m'' ''p'' None False None None empty_db = Inr (a, s) \<and>
      cr_tampered (verify_database_audit_chain e 0 s) = 1"
proof -
  let ?e = "const_hash_env\<lparr>sha256 := (\<lambda>x. if contains x ''e+16'' then GENESIS_BLOCK_HASH else replicate 64 (CHR ''1''))\<rparr>"
  let ?p = "JObj [(''total'', JFloat (10 ^ 16))]"
  have "is_ok (log_agent_action ?e 0 ''t'' ''A'' ''s'' ''f'' ?p [] (JObj []) (JObj []) 1
        ''google'' ''m'' ''p'' None False None None empty_db)"
    "sha256 ?e (raw_record ''t'' ''A'' (jsonb ?p) None) \<noteq> sha256 ?e (raw_record ''t'' ''A'' ?p None)"
    "tenant_logs empty_db 0 = []"
    by code_simp+
  then show ?thesis
    using reformatted_payload_is_reported [of ?e 0 "''t''" "''A''" "''s''" "''f''" ?p]
    by (cases "log_agent_action ?e 0 ''t'' ''A'' ''s'' ''f'' ?p [] (JObj []) (JObj []) 1
        ''google'' ''m'' ''p'' None False None None empty_db") (auto simp: Let_def)
qed

end
