(* ===== verification/Outbox.thy ===== *)
theory Outbox
  imports Tables
begin

section \<open>Transactional outbox and its dispatcher\<close>

text \<open>
  \<open>src/src/erp/events\<close> (outbox, producer, dispatcher): a business transaction appends its event
  to the outbox table; the dispatcher publishes one unprocessed row per database transaction and
  marks it processed only when the producer reports success, so that a failure rolls the row back.
  The Kafka client is outside: what it does with one message is an argument, and the messages that
  have reached the broker are part of the state.
\<close>

subsection \<open>Enqueueing\<close>

definition enqueue_event ::
    "env \<Rightarrow> uuid \<Rightarrow> string \<Rightarrow> string \<Rightarrow> string \<Rightarrow> (string \<times> json) list \<Rightarrow> json option \<Rightarrow> db
     \<Rightarrow> outbox_row \<times> db" where
  "enqueue_event e t aggregate_type aggregate_id event_type payload trace s =
     (let (oid, s1) = uuid4 s;
          row = \<lparr>ob_id = oid, ob_tenant = t, ob_aggregate_type = aggregate_type,
                 ob_aggregate_id = aggregate_id, ob_event_type = event_type, ob_payload = payload,
                 ob_trace = (case trace of None \<Rightarrow> JObj [] | Some j \<Rightarrow> j),
                 ob_created = now e, ob_processed = None\<rparr>
      in (row, s1\<lparr>outbox := outbox s1 @ [row]\<rparr>))"

subsection \<open>Producer\<close>

record message =
  ms_topic :: string
  ms_key :: string
  ms_value :: "(string \<times> json) list"

record producer =
  pr_started :: bool
  pr_client :: bool
  pr_log :: "message list"

text \<open>One \<open>send_and_wait\<close>: acknowledged, lost, or delivered with the acknowledgement lost.\<close>

datatype kafka = Acked | Lost | Delivered_unacked

definition is_connected :: "producer \<Rightarrow> bool" where
  "is_connected p \<longleftrightarrow> pr_started p \<and> pr_client p"

definition make_partition_key :: "uuid \<Rightarrow> string \<Rightarrow> string \<Rightarrow> string" where
  "make_partition_key t entity_type entity_id =
     str_uuid t @ '':'' @ entity_type @ '':'' @ entity_id"

text \<open>
  \<open>send_event\<close> without a started client only logs the event locally and still reports success.
  Its callers here always supply the \<open>event_id\<close>.
\<close>

definition send_event ::
    "kafka \<Rightarrow> producer \<Rightarrow> message list \<Rightarrow> message \<Rightarrow> bool \<times> producer \<times> message list" where
  "send_event k p broker m =
     (let p1 = p\<lparr>pr_log := m # pr_log p\<rparr>
      in if \<not> pr_started p \<or> \<not> pr_client p then (True, p1, broker)
         else case k of
             Acked \<Rightarrow> (True, p1, broker @ [m])
           | Lost \<Rightarrow> (False, p1, broker)
           | Delivered_unacked \<Rightarrow> (False, p1, broker @ [m]))"

subsection \<open>Dispatcher\<close>

definition event_message :: "(timestamp \<Rightarrow> string) \<Rightarrow> outbox_row \<Rightarrow> message" where
  "event_message isoformat r =
     \<lparr>ms_topic = ob_event_type r,
      ms_key = make_partition_key (ob_tenant r) (ob_aggregate_type r) (ob_aggregate_id r),
      ms_value =
        fold (\<lambda>(k, v) d. AList.update k v d)
          [(''event_id'', JStr (str_uuid (ob_id r))), (''tenant_id'', JStr (str_uuid (ob_tenant r))),
           (''event_type'', JStr (ob_event_type r)),
           (''aggregate_type'', JStr (ob_aggregate_type r)),
           (''aggregate_id'', JStr (ob_aggregate_id r)),
           (''timestamp'', JStr (isoformat (ob_created r))), (''trace_context'', ob_trace r)]
          (ob_payload r)\<rparr>"

text \<open>
  The claimed row: unprocessed, not locked by another dispatcher, oldest first (\<open>ORDER BY
  created_at, outbox_id LIMIT 1 FOR UPDATE SKIP LOCKED\<close>).
\<close>

definition unprocessed :: "db \<Rightarrow> outbox_row list" where
  "unprocessed s = filter (\<lambda>r. ob_processed r = None) (outbox s)"

definition next_event :: "(uuid \<Rightarrow> bool) \<Rightarrow> db \<Rightarrow> outbox_row option" where
  "next_event locked s =
     first_row (sort_key ob_created (sort_key ob_id
       (filter (\<lambda>r. \<not> locked (ob_id r)) (unprocessed s))))"

text \<open>
  What the surroundings do during one iteration: \<open>it_connected\<close> is the state of the client when
  the iteration starts; the producer record is the state when the message is sent.
\<close>

record iteration =
  it_connected :: bool
  it_locked :: "uuid \<Rightarrow> bool"
  it_kafka :: kafka
  it_time :: timestamp

record bus =
  bus_db :: db
  bus_producer :: producer
  bus_broker :: "message list"

definition dispatch_once ::
    "(timestamp \<Rightarrow> string) \<Rightarrow> iteration \<Rightarrow> bus \<Rightarrow> bool result \<times> bus" where
  "dispatch_once isoformat i b =
     (if \<not> it_connected i then (Inr False, b)
      else case next_event (it_locked i) (bus_db b) of
          None \<Rightarrow> (Inr False, b)
        | Some r \<Rightarrow>
            (let (published, p, broker) =
                   send_event (it_kafka i) (bus_producer b) (bus_broker b) (event_message isoformat r);
                 b1 = b\<lparr>bus_producer := p, bus_broker := broker\<rparr>
             in if \<not> published then (Inl (RuntimeError ''Kafka publish failed for outbox event''), b1)
                else (Inr True,
                      b1\<lparr>bus_db := (bus_db b)\<lparr>outbox := update_where (\<lambda>q. ob_id q = ob_id r)
                            (\<lambda>q. q\<lparr>ob_processed := Some (it_time i)\<rparr>) (outbox (bus_db b))\<rparr>\<rparr>)))"

text \<open>\<open>run\<close> swallows every exception of an iteration; the result says whether to back off.\<close>

fun run_dispatcher ::
    "(timestamp \<Rightarrow> string) \<Rightarrow> iteration list \<Rightarrow> bus \<Rightarrow> bool list \<times> bus" where
  "run_dispatcher isoformat [] b = ([], b)"
| "run_dispatcher isoformat (i # is) b =
     (let (r, b1) = dispatch_once isoformat i b;
          found = (case r of Inl _ \<Rightarrow> False | Inr f \<Rightarrow> f);
          (fs, b2) = run_dispatcher isoformat is b1
      in (found # fs, b2))"

subsection \<open>At-least-once delivery\<close>

text \<open>
  Every processed row has been delivered: some message of the broker is its event message. Row
  identifiers are distinct, as primary keys are.
\<close>

definition delivered :: "(timestamp \<Rightarrow> string) \<Rightarrow> bus \<Rightarrow> bool" where
  "delivered isoformat b \<longleftrightarrow>
     distinct (map ob_id (outbox (bus_db b))) \<and>
     (\<forall>r \<in> set (outbox (bus_db b)). ob_processed r \<noteq> None \<longrightarrow>
        event_message isoformat r \<in> set (bus_broker b))"

definition online :: "bus \<Rightarrow> bool" where
  "online b \<longleftrightarrow> is_connected (bus_producer b)"

lemma event_message_processed [simp]:
  "event_message f (r\<lparr>ob_processed := x\<rparr>) = event_message f r"
  by (simp add: event_message_def)

lemma next_event_in:
  "next_event locked s = Some r \<Longrightarrow> r \<in> set (outbox s) \<and> ob_processed r = None"
  unfolding next_event_def by (drule first_row_Some_in) (simp add: unprocessed_def)

lemma next_event_None:
  "next_event locked s = None \<longleftrightarrow> (\<forall>r \<in> set (unprocessed s). locked (ob_id r))"
proof -
  have none: "first_row xs = None \<longleftrightarrow> set xs = {}" for xs :: "outbox_row list"
    by (cases xs) simp_all
  show ?thesis unfolding next_event_def none set_sort set_filter by blast
qed

lemma event_message_key:
  "distinct (map ob_id rows) \<Longrightarrow> r \<in> set rows \<Longrightarrow> q \<in> set rows \<Longrightarrow> ob_id q = ob_id r \<Longrightarrow> q = r"
  by (simp add: distinct_map inj_on_def)

lemma send_event_online:
  "is_connected p \<Longrightarrow> send_event k p broker m = (ok, p', broker') \<Longrightarrow>
     is_connected p' \<and> set broker \<subseteq> set broker' \<and> (ok \<longrightarrow> m \<in> set broker')"
  by (auto simp: send_event_def is_connected_def Let_def split: kafka.splits if_splits)

lemma dispatch_once_delivered:
  assumes "delivered f b" "online b" "dispatch_once f i b = (r, b')"
  shows "delivered f b' \<and> online b'"
proof (cases "it_connected i \<and> next_event (it_locked i) (bus_db b) \<noteq> None")
  case False
  with assms show ?thesis by (auto simp: dispatch_once_def split: option.splits if_splits)
next
  case True
  then obtain e where e: "next_event (it_locked i) (bus_db b) = Some e" "it_connected i" by auto
  obtain ok p br where send: "send_event (it_kafka i) (bus_producer b) (bus_broker b)
      (event_message f e) = (ok, p, br)" by (metis prod_cases3)
  note s = send_event_online [OF assms(2) [unfolded online_def] send]
  note mem = next_event_in [OF e(1)]
  let ?rows = "outbox (bus_db b)"
  have key: "q = e" if "q \<in> set ?rows" "ob_id q = ob_id e" for q
    using assms(1) that mem by (intro event_message_key [of ?rows]) (auto simp: delivered_def)
  show ?thesis
  proof (cases ok)
    case False
    with assms e send s show ?thesis
      by (fastforce simp: dispatch_once_def delivered_def online_def)
  next
    case ok: True
    have "distinct (map ob_id (update_where (\<lambda>q. ob_id q = ob_id e)
        (\<lambda>q. q\<lparr>ob_processed := Some (it_time i)\<rparr>) ?rows))"
      using assms(1) by (simp add: delivered_def map_update_where)
    moreover have "event_message f q \<in> set br" if
      "q \<in> set (update_where (\<lambda>q. ob_id q = ob_id e) (\<lambda>q. q\<lparr>ob_processed := Some (it_time i)\<rparr>) ?rows)"
      "ob_processed q \<noteq> None" for q
      using that assms(1) s ok key by (fastforce simp: set_update_where delivered_def)
    ultimately show ?thesis
      using assms(3) e send ok s by (auto simp: dispatch_once_def delivered_def online_def)
  qed
qed

lemma run_dispatcher_delivered:
  "delivered f b \<Longrightarrow> online b \<Longrightarrow> run_dispatcher f is b = (fs, b') \<Longrightarrow> delivered f b' \<and> online b'"
proof (induction "is" arbitrary: b fs)
  case Nil
  then show ?case by simp
next
  case (Cons i "is")
  obtain r b1 where d: "dispatch_once f i b = (r, b1)" by fastforce
  obtain fs' where "run_dispatcher f is b1 = (fs', b')"
    using Cons.prems(3) d by (auto simp: Let_def split: prod.splits)
  with Cons.IH [of b1] dispatch_once_delivered [OF Cons.prems(1,2) d] show ?case by blast
qed

subsection \<open>Progress\<close>

lemma length_filter_update_one:
  assumes "distinct (map k xs)" "x \<in> set xs" "P x" "\<not> P (f x)"
  shows "Suc (length (filter P (update_where (\<lambda>q. k q = k x) f xs))) = length (filter P xs)"
  using assms
proof (induction xs)
  case Nil
  then show ?case by simp
next
  case (Cons y ys)
  show ?case
  proof (cases "k y = k x")
    case True
    then have y: "y = x" using Cons.prems(1,2) by (auto simp: image_iff)
    have "update_where (\<lambda>q. k q = k x) f ys = ys"
      using Cons.prems(1) True by (intro update_where_none) (auto simp: image_iff)
    with y Cons.prems(3,4) show ?thesis by simp
  next
    case False
    with Cons show ?thesis by auto
  qed
qed

text \<open>An acknowledged iteration without foreign locks removes exactly one row from the backlog.\<close>

lemma dispatch_once_progress:
  assumes "delivered f b" "online b" "it_connected i" "it_kafka i = Acked" "it_locked i = (\<lambda>_. False)"
    and "unprocessed (bus_db b) \<noteq> []" "dispatch_once f i b = (r, b')"
  shows "r = Inr True" "Suc (length (unprocessed (bus_db b'))) = length (unprocessed (bus_db b))"
proof -
  obtain e where e: "next_event (it_locked i) (bus_db b) = Some e"
    using assms(5,6) next_event_None [of "it_locked i" "bus_db b"]
    by (metis last_in_set not_Some_eq)
  note mem = next_event_in [OF e]
  have on: "pr_started (bus_producer b)" "pr_client (bus_producer b)"
    using assms(2) by (simp_all add: online_def is_connected_def)
  show "r = Inr True"
    using assms(3,4,7) e on by (auto simp: dispatch_once_def send_event_def Let_def)
  have "outbox (bus_db b') = update_where (\<lambda>q. ob_id q = ob_id e)
      (\<lambda>q. q\<lparr>ob_processed := Some (it_time i)\<rparr>) (outbox (bus_db b))"
    using assms(3,4,7) e on by (auto simp: dispatch_once_def send_event_def Let_def)
  with assms(1) mem
  show "Suc (length (unprocessed (bus_db b'))) = length (unprocessed (bus_db b))"
    unfolding unprocessed_def delivered_def
    by (simp add: length_filter_update_one)
qed

lemma run_dispatcher_drains:
  assumes "delivered f b" "online b"
    and "\<forall>i \<in> set is. it_connected i \<and> it_kafka i = Acked \<and> it_locked i = (\<lambda>_. False)"
    and "run_dispatcher f is b = (fs, b')"
  shows "length (unprocessed (bus_db b')) = length (unprocessed (bus_db b)) - length is"
  using assms
proof (induction "is" arbitrary: b fs)
  case Nil
  then show ?case by simp
next
  case (Cons i "is")
  obtain r b1 where d: "dispatch_once f i b = (r, b1)" by fastforce
  obtain fs' where run: "run_dispatcher f is b1 = (fs', b')"
    using Cons.prems(4) d by (auto simp: Let_def split: prod.splits)
  have inv: "delivered f b1" "online b1"
    using dispatch_once_delivered [OF Cons.prems(1,2) d] by auto
  have ih: "length (unprocessed (bus_db b')) = length (unprocessed (bus_db b1)) - length is"
    by (rule Cons.IH [OF inv _ run]) (use Cons.prems(3) in simp)
  show ?case
  proof (cases "unprocessed (bus_db b) = []")
    case True
    then have "next_event (it_locked i) (bus_db b) = None" by (simp add: next_event_None)
    then have "b1 = b" using d by (auto simp: dispatch_once_def split: if_splits)
    with ih True show ?thesis by simp
  next
    case False
    then have "Suc (length (unprocessed (bus_db b1))) = length (unprocessed (bus_db b))"
      using dispatch_once_progress(2) [OF Cons.prems(1,2) _ _ _ False d] Cons.prems(3) by simp
    with ih show ?thesis by simp
  qed
qed

subsection \<open>Properties\<close>

definition demo_row :: outbox_row where
  "demo_row = \<lparr>ob_id = 1, ob_tenant = 0, ob_aggregate_type = ''GENERAL_LEDGER'',
     ob_aggregate_id = ''9'', ob_event_type = ''erp.finance.journal_posted'', ob_payload = [],
     ob_trace = JObj [], ob_created = 5, ob_processed = None\<rparr>"

definition demo_bus :: "bool \<Rightarrow> bus" where
  "demo_bus started =
     \<lparr>bus_db = empty_db\<lparr>outbox := [demo_row]\<rparr>,
      bus_producer = \<lparr>pr_started = started, pr_client = True, pr_log = []\<rparr>, bus_broker = []\<rparr>"

definition good_iteration :: iteration where
  "good_iteration = \<lparr>it_connected = True, it_locked = (\<lambda>_. False), it_kafka = Acked, it_time = 7\<rparr>"

lemma demo_bus_delivered: "delivered (\<lambda>t. []) (demo_bus True)" "online (demo_bus True)"
  by (simp_all add: demo_bus_def demo_row_def delivered_def online_def is_connected_def)

text \<open>C38: at-least-once delivery. However the broker answers, and whatever rows other dispatchers
  hold, as long as the producer stays connected a run of the dispatcher leaves no row marked
  processed whose message has not reached the broker.\<close>

theorem dispatcher_delivers_before_marking:
  assumes "delivered f b" and "online b" and "run_dispatcher f is b = (fs, b')"
    and "r \<in> set (outbox (bus_db b'))" and "ob_processed r \<noteq> None"
  shows "event_message f r \<in> set (bus_broker b')"
  using run_dispatcher_delivered [OF assms(1-3)] assms(4,5) by (auto simp: delivered_def)

theorem dispatcher_delivers_before_marking_witness:
  "let b' = snd (run_dispatcher (\<lambda>t. []) [good_iteration] (demo_bus True));
       r = demo_row\<lparr>ob_processed := Some 7\<rparr>
   in r \<in> set (outbox (bus_db b')) \<and> event_message (\<lambda>t. []) r \<in> set (bus_broker b')"
proof -
  obtain fs b where run: "run_dispatcher (\<lambda>t. []) [good_iteration] (demo_bus True) = (fs, b)"
    by fastforce
  have "outbox (bus_db (snd (run_dispatcher (\<lambda>t. []) [good_iteration] (demo_bus True)))) = [demo_row\<lparr>ob_processed := Some 7\<rparr>]" by code_simp
  then have "demo_row\<lparr>ob_processed := Some 7\<rparr> \<in> set (outbox (bus_db b))"
    unfolding run by simp
  with dispatcher_delivers_before_marking [OF demo_bus_delivered run this]
  show ?thesis unfolding run by (simp add: Let_def)
qed

text \<open>Progress. Iterations that find the client connected, hold no foreign locks and are
  acknowledged each remove one row from the backlog until it is empty.\<close>

theorem dispatcher_drains_backlog:
  assumes "delivered f b" and "online b"
    and "\<forall>i \<in> set is. it_connected i \<and> it_kafka i = Acked \<and> it_locked i = (\<lambda>_. False)"
    and "run_dispatcher f is b = (fs, b')"
  shows "length (unprocessed (bus_db b')) = length (unprocessed (bus_db b)) - length is"
  using assms by (rule run_dispatcher_drains)

theorem dispatcher_drains_backlog_witness:
  "unprocessed (bus_db (snd (run_dispatcher (\<lambda>t. []) [good_iteration] (demo_bus True)))) = []"
proof -
  have "length (unprocessed (bus_db (demo_bus True))) = 1" by code_simp
  with dispatcher_drains_backlog [OF demo_bus_delivered, of "[good_iteration]"]
  show ?thesis by (simp add: good_iteration_def prod.split) (metis prod.collapse)
qed

text \<open>When the client is connected at the start of an iteration but stopped before the send, the
  claimed row is marked processed and the broker has received nothing.\<close>

theorem stopped_producer_loses_event:
  assumes "it_connected i" and "\<not> is_connected (bus_producer b)"
    and "next_event (it_locked i) (bus_db b) = Some r"
  shows "\<exists>b'. dispatch_once f i b = (Inr True, b') \<and> bus_broker b' = bus_broker b \<and>
    (\<exists>q \<in> set (outbox (bus_db b')). ob_id q = ob_id r \<and> ob_processed q = Some (it_time i))"
proof -
  let ?rows = "update_where (\<lambda>q. ob_id q = ob_id r) (\<lambda>q. q\<lparr>ob_processed := Some (it_time i)\<rparr>)
      (outbox (bus_db b))"
  have "dispatch_once f i b = (Inr True,
      b\<lparr>bus_producer := (bus_producer b)\<lparr>pr_log := event_message f r # pr_log (bus_producer b)\<rparr>,
        bus_broker := bus_broker b, bus_db := (bus_db b)\<lparr>outbox := ?rows\<rparr>\<rparr>)"
    using assms by (auto simp: dispatch_once_def send_event_def is_connected_def Let_def)
  moreover have "r\<lparr>ob_processed := Some (it_time i)\<rparr> \<in> set ?rows"
    using next_event_in [OF assms(3)] by (auto simp: set_update_where)
  ultimately show ?thesis
    by (auto intro: bexI [of _ "r\<lparr>ob_processed := Some (it_time i)\<rparr>"])
qed

theorem stopped_producer_loses_event_witness:
  "\<exists>b'. dispatch_once (\<lambda>t. []) good_iteration (demo_bus False) = (Inr True, b') \<and> bus_broker b' = []"
proof -
  have "next_event (it_locked good_iteration) (bus_db (demo_bus False)) = Some demo_row"
    by code_simp
  moreover have "\<not> is_connected (bus_producer (demo_bus False))" by code_simp
  ultimately show ?thesis
    using stopped_producer_loses_event [of good_iteration "demo_bus False" demo_row "\<lambda>t. []"]
    by (auto simp: good_iteration_def demo_bus_def)
qed

end
