(* ===== verification/LedgerEngine.thy ===== *)
theory LedgerEngine
  imports LedgerRules AuditChain Outbox
begin

section \<open>The ledger engine\<close>

text \<open>
  \<open>src/src/erp/ledger\<close>: \<open>party.py\<close>, the database checks of \<open>invariants.py\<close>,
  \<open>sales_posting.py\<close> and \<open>LedgerEngine.commit_transaction\<close> of \<open>engine.py\<close>, the only writer of
  the general ledger. The interface \<open>ledger_poster\<close> extends \<open>audit_writer\<close> with what a posting
  promises (a balanced block of rows, one event, one audit record); the engine is its instance, and
  the trial balance is proved from it.
\<close>

subsection \<open>Parties and dimensions\<close>

type_synonym party_names = "((party_type \<times> uuid) \<times> string) list"

text \<open>\<open>session.scalar\<close>: the first row of the query, or nothing.\<close>

definition party_name :: "db \<Rightarrow> uuid \<Rightarrow> party_type option \<Rightarrow> uuid \<Rightarrow> string option" where
  "party_name s t pt pid =
     (if pt = Some CUSTOMER
      then map_option cu_name (first_row (filter (\<lambda>c. cu_tenant c = t \<and> cu_id c = pid) (customers s)))
      else map_option su_name (first_row (filter (\<lambda>c. su_tenant c = t \<and> su_id c = pid) (suppliers s))))"

definition settles_invoice :: "db \<Rightarrow> uuid \<Rightarrow> party_type option \<Rightarrow> uuid \<Rightarrow> uuid \<Rightarrow> string \<Rightarrow> bool" where
  "settles_invoice s t pt pid doc cur =
     (if pt = Some CUSTOMER
      then list_ex (\<lambda>i. si_tenant i = t \<and> si_id i = doc \<and> si_customer i = pid \<and> si_currency i = cur)
             (sales_invoices s)
      else list_ex (\<lambda>i. pv_tenant i = t \<and> pv_id i = doc \<and> pv_supplier i = pid \<and> pv_currency i = cur)
             (supplier_invoices s))"

definition party_key :: "ledger_line \<Rightarrow> uuid \<Rightarrow> party_type \<times> uuid" where
  "party_key l pid = (case ll_party_type l of None \<Rightarrow> (SUPPLIER, pid) | Some pt \<Rightarrow> (pt, pid))"

definition validate_party_line ::
    "db \<Rightarrow> uuid \<Rightarrow> party_names \<Rightarrow> ledger_line \<Rightarrow> party_names result" where
  "validate_party_line s t names l =
     (case ll_party_id l of
        None \<Rightarrow> Inr names
      | Some pid \<Rightarrow>
          ebind (if map_of names (party_key l pid) \<noteq> None then Inr names
                 else case party_name s t (ll_party_type l) pid of
                     None \<Rightarrow> Inl (ValueError ''Ledger party must belong to this workspace.'')
                   | Some n \<Rightarrow> Inr (names @ [(party_key l pid, n)])) (\<lambda>names'.
          case ll_against_id l of
            None \<Rightarrow> Inr names'
          | Some doc \<Rightarrow>
              if settles_invoice s t (ll_party_type l) pid doc (ll_currency l) then Inr names'
              else Inl (ValueError
                ''Settlement invoice must belong to the same workspace, party and currency.'')))"

definition validate_party_lines :: "db \<Rightarrow> uuid \<Rightarrow> ledger_line list \<Rightarrow> party_names result" where
  "validate_party_lines s t lines = efold (validate_party_line s t) [] lines"

text \<open>The two rounds of the ownership loop: items, then warehouses.\<close>

definition validate_owned :: "string \<Rightarrow> uuid list \<Rightarrow> uuid list \<Rightarrow> unit result" where
  "validate_owned field ids owned =
     (if list_all (\<lambda>i. i \<in> set owned) ids then Inr ()
      else Inl (ValueError (''Ledger '' @ field @ '' must belong to this workspace.'')))"

definition owned_items :: "db \<Rightarrow> uuid \<Rightarrow> uuid list" where
  "owned_items s t = map it_id (filter (\<lambda>i. it_tenant i = t) (items s))"

definition owned_warehouses :: "db \<Rightarrow> uuid \<Rightarrow> uuid list" where
  "owned_warehouses s t = map wh_id (filter (\<lambda>w. wh_tenant w = t) (warehouses s))"

subsection \<open>Periods and master data\<close>

definition validate_fiscal_period :: "db \<Rightarrow> uuid \<Rightarrow> date \<Rightarrow> (int \<times> int) result" where
  "validate_fiscal_period s t d =
     (case first_row (filter (\<lambda>p. fp_tenant p = t \<and> fp_start p \<le> d \<and> d \<le> fp_end p)
             (fiscal_periods s)) of
        None \<Rightarrow> Inr (year_of d, month_of d)
      | Some p \<Rightarrow>
          if fp_locked p then Inl (PeriodLockedError d (fp_year p) (fp_period p))
          else Inr (fp_year p, fp_period p))"

definition account_type_of :: "string \<Rightarrow> string" where
  "account_type_of code =
     (if startswith code ''1'' then ''ASSET''
      else if startswith code ''2'' then ''LIABILITY''
      else if startswith code ''3'' then ''EQUITY''
      else if startswith code ''4'' then ''REVENUE'' else ''EXPENSE'')"

definition display_name :: "string \<Rightarrow> string" where
  "display_name code = title (replace_char (CHR ''-'') (CHR '' '') code)"

text \<open>
  A missing account is created on the spot; the unique index on tenant and code rejects it when an
  inactive account has the code.
\<close>

definition ensure_account :: "uuid \<Rightarrow> db \<Rightarrow> string \<Rightarrow> db result" where
  "ensure_account t s code =
     (if list_ex (\<lambda>a. ac_tenant a = t \<and> ac_code a = code \<and> ac_active a) (accounts s) then Inr s
      else if list_ex (\<lambda>a. ac_tenant a = t \<and> ac_code a = code) (accounts s) then Inl IntegrityError
      else Inr (s\<lparr>accounts := accounts s @
             [\<lparr>ac_tenant = t, ac_code = code, ac_name = display_name code,
               ac_type = account_type_of code, ac_currency = ''USD'', ac_active = True\<rparr>]\<rparr>))"

definition ensure_cost_center :: "uuid \<Rightarrow> db \<Rightarrow> string \<Rightarrow> db result" where
  "ensure_cost_center t s code =
     (if list_ex (\<lambda>c. cc_tenant c = t \<and> cc_code c = code \<and> cc_active c) (cost_centers s) then Inr s
      else if list_ex (\<lambda>c. cc_tenant c = t \<and> cc_code c = code) (cost_centers s)
      then Inl IntegrityError
      else Inr (s\<lparr>cost_centers := cost_centers s @
             [\<lparr>cc_tenant = t, cc_code = code, cc_name = display_name code, cc_active = True\<rparr>]\<rparr>))"

definition validate_chart_of_accounts ::
    "uuid \<Rightarrow> string list \<Rightarrow> string list \<Rightarrow> db \<Rightarrow> db result" where
  "validate_chart_of_accounts t account_codes centers s =
     ebind (efold (ensure_account t) s account_codes) (\<lambda>s1.
       efold (ensure_cost_center t) s1 centers)"

definition is_receivable :: "account \<Rightarrow> bool" where
  "is_receivable a \<longleftrightarrow>
     (upper (ac_type a) = ''ASSET'' \<or> upper (ac_type a) = ''RECEIVABLE'') \<and>
     (contains (lower (ac_name a)) ''receivable'' \<or> contains (lower (ac_code a)) ''ar'')"

definition is_sales_revenue :: "account \<Rightarrow> bool" where
  "is_sales_revenue a \<longleftrightarrow>
     upper (ac_type a) = ''REVENUE'' \<and>
     (contains (lower (ac_name a)) ''sales'' \<or> contains (lower (ac_name a)) ''revenue'' \<or>
      contains (lower (ac_code a)) ''rev'')"

definition resolve_sales_posting_configuration ::
    "db \<Rightarrow> uuid \<Rightarrow> string \<Rightarrow> (account \<times> account \<times> cost_center_row) result" where
  "resolve_sales_posting_configuration s t cur =
     (let mine = filter (\<lambda>a. ac_tenant a = t \<and> ac_active a \<and> ac_currency a = cur) (accounts s);
          ars = filter is_receivable mine; revs = filter is_sales_revenue mine;
          ccs = filter (\<lambda>c. cc_tenant c = t \<and> cc_active c) (cost_centers s)
      in case (ars, revs, ccs) of
           ([ar], [rv], [cc]) \<Rightarrow> Inr (ar, rv, cc)
         | _ \<Rightarrow> Inl SalesPostingConfigurationError)"

subsection \<open>Committing a proposal\<close>

record proposal =
  pp_tenant :: uuid
  pp_date :: date
  pp_source_type :: string
  pp_source_id :: uuid
  pp_entries :: "ledger_line list"
  pp_human :: bool
  pp_approved_by :: "uuid option"
  pp_agent :: string
  pp_trace :: string
  pp_prompt :: string
  pp_model :: string

record commit_result =
  co_transaction :: uuid
  co_tenant :: uuid
  co_date :: date
  co_volume :: dec
  co_lines :: nat
  co_tier :: ceiling_result
  co_outbox :: uuid
  co_audit :: uuid

text \<open>\<open>LedgerLineProposal.model_dump(mode="json")\<close>: decimals and identifiers as strings.\<close>

definition json_opt :: "('a \<Rightarrow> json) \<Rightarrow> 'a option \<Rightarrow> json" where
  "json_opt f x = (case x of None \<Rightarrow> JNull | Some v \<Rightarrow> f v)"

definition party_str :: "party_type \<Rightarrow> string" where
  "party_str p = (case p of CUSTOMER \<Rightarrow> ''CUSTOMER'' | SUPPLIER \<Rightarrow> ''SUPPLIER'')"

definition against_str :: "against_type \<Rightarrow> string" where
  "against_str p = (case p of SALES_INVOICE \<Rightarrow> ''SALES_INVOICE'' | SUPPLIER_INVOICE \<Rightarrow> ''SUPPLIER_INVOICE'')"

definition line_json :: "env \<Rightarrow> ledger_line \<Rightarrow> json" where
  "line_json e l = JObj
     [(''account_code'', JStr (ll_account l)), (''cost_center'', JStr (ll_cost_center l)),
      (''debit_amount'', JStr (dec_str e (ll_debit l))),
      (''credit_amount'', JStr (dec_str e (ll_credit l))),
      (''currency'', JStr (ll_currency l)), (''exchange_rate'', JStr (dec_str e (ll_rate l))),
      (''purpose'', json_opt JStr (ll_purpose l)),
      (''warehouse_id'', json_opt (\<lambda>u. JStr (str_uuid u)) (ll_warehouse l)),
      (''item_id'', json_opt (\<lambda>u. JStr (str_uuid u)) (ll_item l)),
      (''party_type'', json_opt (\<lambda>p. JStr (party_str p)) (ll_party_type l)),
      (''party_id'', json_opt (\<lambda>u. JStr (str_uuid u)) (ll_party_id l)),
      (''against_document_type'', json_opt (\<lambda>p. JStr (against_str p)) (ll_against_type l)),
      (''against_document_id'', json_opt (\<lambda>u. JStr (str_uuid u)) (ll_against_id l))]"

text \<open>The constraints \<open>ck_gl_party_complete\<close> and \<open>ck_gl_against_complete\<close> of the table.\<close>

definition party_columns ::
    "party_names \<Rightarrow> ledger_line \<Rightarrow> (party_type \<times> uuid \<times> string) option result" where
  "party_columns names l =
     (case (ll_party_type l, ll_party_id l) of
        (None, None) \<Rightarrow> Inr None
      | (Some pt, Some pid) \<Rightarrow>
          (case map_of names (pt, pid) of
             None \<Rightarrow> Inl IntegrityError
           | Some n \<Rightarrow> Inr (Some (pt, pid, n)))
      | _ \<Rightarrow> Inl IntegrityError)"

definition against_columns :: "ledger_line \<Rightarrow> (against_type \<times> uuid) option result" where
  "against_columns l =
     (case (ll_against_type l, ll_against_id l) of
        (None, None) \<Rightarrow> Inr None
      | (Some ag, Some i) \<Rightarrow> if ll_party_id l = None then Inl IntegrityError else Inr (Some (ag, i))
      | _ \<Rightarrow> Inl IntegrityError)"

definition insert_line ::
    "proposal \<Rightarrow> uuid \<Rightarrow> int \<times> int \<Rightarrow> party_names \<Rightarrow> db \<Rightarrow> ledger_line \<Rightarrow> db result" where
  "insert_line p tx period names s l =
     ebind (party_columns names l) (\<lambda>party.
     ebind (against_columns l) (\<lambda>against.
       let (gid, s1) = uuid4 s
       in insert_gl
            \<lparr>gl_id = gid, gl_tenant = pp_tenant p, gl_transaction = tx, gl_date = pp_date p,
             gl_year = fst period, gl_period = snd period, gl_account = ll_account l,
             gl_cost_center = ll_cost_center l, gl_debit = ll_debit l, gl_credit = ll_credit l,
             gl_currency = ll_currency l, gl_rate = ll_rate l, gl_source_type = pp_source_type p,
             gl_source_id = pp_source_id p, gl_purpose = ll_purpose l,
             gl_warehouse = ll_warehouse l, gl_item = ll_item l, gl_party = party,
             gl_against = against, gl_locked = False\<rparr> s1))"

definition journal_event ::
    "env \<Rightarrow> proposal \<Rightarrow> uuid \<Rightarrow> dec \<Rightarrow> ceiling_result \<Rightarrow> db \<Rightarrow> outbox_row \<times> db" where
  "journal_event e p tx volume ceil_res s =
     enqueue_event e (pp_tenant p) ''GENERAL_LEDGER'' (str_uuid tx) ''erp.finance.journal_posted''
       [(''transaction_id'', JStr (str_uuid tx)), (''posting_date'', JStr (iso_date (pp_date p))),
        (''total_volume'', JStr (dec_str e volume)),
        (''line_count'', JInt (int (length (pp_entries p)))),
        (''source_document_type'', JStr (pp_source_type p)),
        (''source_document_id'', JStr (str_uuid (pp_source_id p))),
        (''tier'', JStr (tier_value (ce_tier ceil_res)))]
       (Some (JObj [(''trace_id'', JStr (pp_trace p))])) s"

definition journal_audit ::
    "env \<Rightarrow> proposal \<Rightarrow> uuid \<Rightarrow> dec \<Rightarrow> ceiling_result \<Rightarrow> db \<Rightarrow> (audit_log \<times> db) result" where
  "journal_audit e p tx volume ceil_res s =
     (let prev = get_latest_audit_hash s (pp_tenant p);
          payload = JObj
            [(''transaction_id'', JStr (str_uuid tx)), (''total_volume'', JStr (dec_str e volume)),
             (''entries'', JArr (map (line_json e) (pp_entries p)))];
          h = compute_audit_record_hash e (pp_trace p) (pp_agent p) payload prev;
          (aid, s1) = uuid4 s;
          a = \<lparr>au_id = aid, au_tenant = pp_tenant p, au_trace = pp_trace p, au_agent = pp_agent p,
               au_subagent = None, au_session = ''session_'' @ take 8 (pp_trace p), au_provider = ''google'',
               au_model = pp_model p, au_prompt = pp_prompt p,
               au_function = ''StageLedgerTransaction'', au_payload = payload,
               au_output = ''Committed transaction '' @ str_uuid tx @ '' successfully.'',
               au_parsed = JObj [(''status'', JStr ''COMMITTED'')],
               au_rules = JObj [(''zero_sum_verified'', JBool True),
                 (''fiscal_period_verified'', JBool True),
                 (''tier'', JStr (tier_value (ce_tier ceil_res)))],
               au_human = pp_human p, au_approved_by = pp_approved_by p, au_db_txn = Some tx,
               au_duration = 45, au_prev_hash = prev, au_hash = h, au_time = now e\<rparr>
      in ebind (insert_audit a s1) (\<lambda>s2. Inr (a, s2)))"

definition commit_transaction ::
    "env \<Rightarrow> bool \<Rightarrow> proposal \<Rightarrow> db \<Rightarrow> (commit_result \<times> db) result" where
  "commit_transaction e validate_masters p s =
     (let t = pp_tenant p; ls = pp_entries p in
      ebind (validate_zero_sum ls) (\<lambda>volume.
      ebind (validate_party_lines s t ls) (\<lambda>names.
      ebind (validate_owned ''item_id'' (List.map_filter ll_item ls) (owned_items s t)) (\<lambda>_.
      ebind (validate_owned ''warehouse_id'' (List.map_filter ll_warehouse ls) (owned_warehouses s t)) (\<lambda>_.
      ebind (evaluate_autonomy_tier e volume (pp_human p) None None) (\<lambda>ceil_res.
      ebind (validate_fiscal_period s t (pp_date p)) (\<lambda>period.
      ebind (if validate_masters
             then validate_chart_of_accounts t (remdups (map ll_account ls))
                    (remdups (map ll_cost_center ls)) s
             else Inr s) (\<lambda>s1.
        let (tx, s2) = uuid4 s1
        in ebind (efold (insert_line p tx period names) s2 ls) (\<lambda>s3.
             let (ob, s4) = journal_event e p tx volume ceil_res s3
             in ebind (journal_audit e p tx volume ceil_res s4) (\<lambda>(au, s5).
                  Inr (\<lparr>co_transaction = tx, co_tenant = t, co_date = pp_date p, co_volume = volume,
                      co_lines = length ls, co_tier = ceil_res, co_outbox = ob_id ob,
                      co_audit = au_id au\<rparr>, s5)))))))))))"

subsection \<open>What a commit does to the database\<close>

text \<open>\<open>g\<close> is the stored row of line \<open>l\<close>.\<close>

definition row_of :: "proposal \<Rightarrow> uuid \<Rightarrow> int \<times> int \<Rightarrow> ledger_line \<Rightarrow> gl_entry \<Rightarrow> bool" where
  "row_of p tx period l g \<longleftrightarrow>
     gl_tenant g = pp_tenant p \<and> gl_transaction g = tx \<and> gl_date g = pp_date p \<and>
     (gl_year g, gl_period g) = period \<and> gl_account g = ll_account l \<and>
     gl_cost_center g = ll_cost_center l \<and> gl_currency g = ll_currency l \<and>
     gl_source_type g = pp_source_type p \<and> gl_source_id g = pp_source_id p \<and>
     gl_debit g = line_debit l \<and> gl_credit g = line_credit l \<and>
     line_debit l < 10 ^ 14 \<and> line_credit l < 10 ^ 14 \<and> single_sided l"

lemma insert_gl_Inr:
  "insert_gl g s = Inr s' \<Longrightarrow>
     s' = s\<lparr>gl_entries := gl_entries s @ [g\<lparr>gl_debit := cents (gl_debit g),
            gl_credit := cents (gl_credit g), gl_rate := quant round_half_up 6 (gl_rate g)\<rparr>]\<rparr> \<and>
     cents (gl_debit g) < 10 ^ 14 \<and> cents (gl_credit g) < 10 ^ 14 \<and>
     (0 < cents (gl_debit g) \<and> cents (gl_credit g) = 0 \<or>
      cents (gl_debit g) = 0 \<and> 0 < cents (gl_credit g))"
  by (auto simp: insert_gl_def ebind_eq_Inr numeric_Inr split: if_splits)

lemma insert_line_Inr:
  assumes "insert_line p tx period names s l = Inr s'"
  shows "\<exists>g. row_of p tx period l g \<and>
    s' = s\<lparr>next_id := Suc (next_id s), gl_entries := gl_entries s @ [g]\<rparr>"
proof -
  obtain pa ag where "insert_gl
      \<lparr>gl_id = next_id s, gl_tenant = pp_tenant p, gl_transaction = tx, gl_date = pp_date p,
       gl_year = fst period, gl_period = snd period, gl_account = ll_account l,
       gl_cost_center = ll_cost_center l, gl_debit = ll_debit l, gl_credit = ll_credit l,
       gl_currency = ll_currency l, gl_rate = ll_rate l, gl_source_type = pp_source_type p,
       gl_source_id = pp_source_id p, gl_purpose = ll_purpose l,
       gl_warehouse = ll_warehouse l, gl_item = ll_item l, gl_party = pa,
       gl_against = ag, gl_locked = False\<rparr> (s\<lparr>next_id := Suc (next_id s)\<rparr>) = Inr s'"
    using assms by (auto simp: insert_line_def ebind_eq_Inr uuid4_def)
  from insert_gl_Inr [OF this] show ?thesis
    unfolding row_of_def single_sided_def line_debit_def line_credit_def
    by (intro exI conjI) auto
qed

lemma insert_lines_Inr:
  assumes "efold (insert_line p tx period names) s ls = Inr s'"
  shows "\<exists>rows. list_all2 (row_of p tx period) ls rows \<and>
    s' = s\<lparr>next_id := next_id s + length ls, gl_entries := gl_entries s @ rows\<rparr>"
  using assms
proof (induction ls arbitrary: s)
  case Nil
  then show ?case by simp
next
  case (Cons l ls)
  then obtain u where u: "insert_line p tx period names s l = Inr u"
    "efold (insert_line p tx period names) u ls = Inr s'"
    by (auto simp: ebind_eq_Inr)
  obtain g where g: "row_of p tx period l g"
    "u = s\<lparr>next_id := Suc (next_id s), gl_entries := gl_entries s @ [g]\<rparr>"
    using insert_line_Inr [OF u(1)] by blast
  obtain rows where "list_all2 (row_of p tx period) ls rows"
    "s' = u\<lparr>next_id := next_id u + length ls, gl_entries := gl_entries u @ rows\<rparr>"
    using Cons.IH [OF u(2)] by blast
  with g show ?case by (intro exI [of _ "g # rows"]) simp
qed

lemma ensure_accounts_Inr:
  "efold (ensure_account t) s codes = Inr s' \<Longrightarrow>
     \<exists>as. s' = s\<lparr>accounts := accounts s @ as\<rparr> \<and> (\<forall>a \<in> set as. ac_tenant a = t \<and> ac_active a)"
proof (induction codes arbitrary: s)
  case Nil
  then show ?case by (auto intro: exI [of _ "[]"])
next
  case (Cons c cs)
  then obtain u where u: "ensure_account t s c = Inr u" "efold (ensure_account t) u cs = Inr s'"
    by (auto simp: ebind_eq_Inr)
  obtain as where "s' = u\<lparr>accounts := accounts u @ as\<rparr>" "\<forall>a \<in> set as. ac_tenant a = t \<and> ac_active a"
    using Cons.IH [OF u(2)] by blast
  moreover obtain bs where "u = s\<lparr>accounts := accounts s @ bs\<rparr>" "\<forall>a \<in> set bs. ac_tenant a = t \<and> ac_active a"
    using u(1) unfolding ensure_account_def
    by (auto split: if_splits intro: that [of "[]"])
  ultimately show ?case by (intro exI [of _ "bs @ as"]) auto
qed

lemma ensure_cost_centers_Inr:
  "efold (ensure_cost_center t) s codes = Inr s' \<Longrightarrow>
     \<exists>cs. s' = s\<lparr>cost_centers := cost_centers s @ cs\<rparr> \<and> (\<forall>c \<in> set cs. cc_tenant c = t \<and> cc_active c)"
proof (induction codes arbitrary: s)
  case Nil
  then show ?case by (auto intro: exI [of _ "[]"])
next
  case (Cons c cs)
  then obtain u where u: "ensure_cost_center t s c = Inr u"
    "efold (ensure_cost_center t) u cs = Inr s'"
    by (auto simp: ebind_eq_Inr)
  obtain as where "s' = u\<lparr>cost_centers := cost_centers u @ as\<rparr>"
    "\<forall>a \<in> set as. cc_tenant a = t \<and> cc_active a"
    using Cons.IH [OF u(2)] by blast
  moreover obtain bs where "u = s\<lparr>cost_centers := cost_centers s @ bs\<rparr>"
    "\<forall>a \<in> set bs. cc_tenant a = t \<and> cc_active a"
    using u(1) unfolding ensure_cost_center_def
    by (auto split: if_splits intro: that [of "[]"])
  ultimately show ?case by (intro exI [of _ "bs @ as"]) auto
qed

definition journal_row :: "proposal \<Rightarrow> uuid \<Rightarrow> outbox_row \<Rightarrow> bool" where
  "journal_row p tx ob \<longleftrightarrow>
     ob_tenant ob = pp_tenant p \<and> ob_aggregate_id ob = str_uuid tx \<and>
     ob_event_type ob = ''erp.finance.journal_posted'' \<and> ob_processed ob = None"

text \<open>The payload the engine logs has strings and numbers without an exponent only.\<close>

lemma line_json_safe: "jsonb_safe (line_json e l)"
  by (simp add: line_json_def json_opt_def split: option.splits)

lemma journal_audit_Inr:
  assumes "journal_audit e p tx volume c s = Inr (a, s')"
  shows "s' = s\<lparr>next_id := Suc (next_id s), audit_logs := audit_logs s @ [stored_log a]\<rparr> \<and>
    new_audit_record e (pp_tenant p) s (stored_log a) \<and> au_db_txn (stored_log a) = Some tx"
proof -
  have a: "s' = s\<lparr>next_id := Suc (next_id s), audit_logs := audit_logs s @ [stored_log a]\<rparr>"
    "new_audit_record e (pp_tenant p) s a" "au_db_txn a = Some tx" "jsonb_safe (au_payload a)"
    using assms
    by (auto simp: journal_audit_def uuid4_def Let_def ebind_eq_Inr insert_audit_Inr new_audit_record_def
        list_all_iff line_json_safe)
  with stored_log_new show ?thesis by (simp add: stored_log_def)
qed

lemma commit_transaction_Inr:
  assumes "commit_transaction e m p s = Inr (r, s')"
  obtains period n as cs rows ob au where
    "validate_zero_sum (pp_entries p) = Inr (co_volume r)"
    "evaluate_autonomy_tier e (co_volume r) (pp_human p) None None = Inr (co_tier r)"
    "validate_fiscal_period s (pp_tenant p) (pp_date p) = Inr period"
    "list_all2 (row_of p (co_transaction r) period) (pp_entries p) rows"
    "journal_row p (co_transaction r) ob"
    "new_audit_record e (pp_tenant p) s au" "au_db_txn au = Some (co_transaction r)"
    "co_lines r = length rows" "next_id s \<le> co_transaction r" "co_transaction r < n"
    "\<forall>a \<in> set as. ac_tenant a = pp_tenant p" "\<forall>c \<in> set cs. cc_tenant c = pp_tenant p"
    "s' = s\<lparr>next_id := n, accounts := accounts s @ as, cost_centers := cost_centers s @ cs,
        gl_entries := gl_entries s @ rows, outbox := outbox s @ [ob], audit_logs := audit_logs s @ [au]\<rparr>"
proof -
  let ?t = "pp_tenant p"
  obtain volume names ceil_res period s1 s3 where
    1: "validate_zero_sum (pp_entries p) = Inr volume"
    and 2: "evaluate_autonomy_tier e volume (pp_human p) None None = Inr ceil_res"
    and 3: "validate_fiscal_period s ?t (pp_date p) = Inr period"
    and 4: "(if m then validate_chart_of_accounts ?t (remdups (map ll_account (pp_entries p)))
              (remdups (map ll_cost_center (pp_entries p))) s else Inr s) = Inr s1"
    and 5: "efold (insert_line p (next_id s1) period names) (s1\<lparr>next_id := Suc (next_id s1)\<rparr>)
              (pp_entries p) = Inr s3"
    and r: "(case journal_event e p (next_id s1) volume ceil_res s3 of (ob, s4) \<Rightarrow>
              ebind (journal_audit e p (next_id s1) volume ceil_res s4) (\<lambda>(au, s5).
                Inr (\<lparr>co_transaction = next_id s1, co_tenant = ?t, co_date = pp_date p,
                  co_volume = volume, co_lines = length (pp_entries p), co_tier = ceil_res,
                  co_outbox = ob_id ob, co_audit = au_id au\<rparr>, s5))) =
             (Inr (r, s') :: (commit_result \<times> db) result)"
    using assms
    by (auto simp: commit_transaction_def Let_def uuid4_def ebind_eq_Inr simp del: split_paired_Ex)
  obtain as cs where s1: "s1 = s\<lparr>accounts := accounts s @ as, cost_centers := cost_centers s @ cs\<rparr>"
    and own: "\<forall>a \<in> set as. ac_tenant a = ?t" "\<forall>c \<in> set cs. cc_tenant c = ?t"
  proof (cases m)
    case True
    then obtain u where "efold (ensure_account ?t) s (remdups (map ll_account (pp_entries p))) = Inr u"
      "efold (ensure_cost_center ?t) u (remdups (map ll_cost_center (pp_entries p))) = Inr s1"
      using 4 by (auto simp: validate_chart_of_accounts_def ebind_eq_Inr)
    then show ?thesis
      by (auto dest!: ensure_accounts_Inr ensure_cost_centers_Inr intro: that)
  next
    case False
    with 4 show ?thesis by (intro that [of "[]" "[]"]) auto
  qed
  obtain rows where rows: "list_all2 (row_of p (next_id s1) period) (pp_entries p) rows"
    and s3: "s3 = s1\<lparr>next_id := Suc (next_id s1) + length (pp_entries p), gl_entries := gl_entries s1 @ rows\<rparr>"
    using insert_lines_Inr [OF 5] by auto
  obtain ob s4 where ob: "journal_event e p (next_id s1) volume ceil_res s3 = (ob, s4)"
    by fastforce
  obtain au s5 where au: "journal_audit e p (next_id s1) volume ceil_res s4 = Inr (au, s5)"
    using r by (auto simp: ob ebind_eq_Inr)
  have s4: "s4 = s3\<lparr>next_id := Suc (next_id s3), outbox := outbox s3 @ [ob]\<rparr>" "journal_row p (next_id s1) ob"
    using ob by (auto simp: journal_event_def enqueue_event_def uuid4_def journal_row_def Let_def)
  let ?au = "stored_log au"
  have s5: "s5 = s4\<lparr>next_id := Suc (next_id s4), audit_logs := audit_logs s4 @ [?au]\<rparr>"
    "new_audit_record e ?t s4 ?au" "au_db_txn ?au = Some (next_id s1)"
    using journal_audit_Inr [OF au] by simp_all
  have "audit_logs s4 = audit_logs s" by (simp add: s4 s3 s1)
  then have new: "new_audit_record e ?t s ?au"
    using s5(2) by (simp add: new_audit_record_def get_latest_audit_hash_def tenant_logs_def)
  have rr: "r = \<lparr>co_transaction = next_id s1, co_tenant = ?t, co_date = pp_date p,
      co_volume = volume, co_lines = length (pp_entries p), co_tier = ceil_res,
      co_outbox = ob_id ob, co_audit = au_id au\<rparr>" and s': "s' = s5"
    using r by (simp_all add: ob au)
  show ?thesis
  proof (rule that [of period rows ob ?au "next_id s5" as cs])
    show "s' = s\<lparr>next_id := next_id s5, accounts := accounts s @ as, cost_centers := cost_centers s @ cs,
        gl_entries := gl_entries s @ rows, outbox := outbox s @ [ob], audit_logs := audit_logs s @ [?au]\<rparr>"
      by (simp add: s' s5(1) s4(1) s3 s1)
  qed (use 1 2 3 rows s4(2) new s5 own in \<open>auto simp: rr s1 s3 s4(1) list_all2_lengthD\<close>)
qed

subsection \<open>The books\<close>

definition debits :: "gl_entry list \<Rightarrow> dec" where
  "debits gs = (\<Sum>g\<leftarrow>gs. gl_debit g)"

definition credits :: "gl_entry list \<Rightarrow> dec" where
  "credits gs = (\<Sum>g\<leftarrow>gs. gl_credit g)"

lemma sums_append [simp]:
  "debits (gs @ hs) = debits gs + debits hs" "credits (gs @ hs) = credits gs + credits hs"
  "debits [] = 0" "credits [] = 0"
  by (simp_all add: debits_def credits_def)

lemma sums_Cons [simp]:
  "debits (g # gs) = gl_debit g + debits gs" "credits (g # gs) = gl_credit g + credits gs"
  by (simp_all add: debits_def credits_def)

definition balanced_block :: "uuid \<Rightarrow> uuid \<Rightarrow> gl_entry list \<Rightarrow> bool" where
  "balanced_block t tx gs \<longleftrightarrow>
     gs \<noteq> [] \<and> debits gs = credits gs \<and>
     list_all (\<lambda>g. gl_tenant g = t \<and> gl_transaction g = tx \<and> gl_date g = gl_date (hd gs) \<and>
       column_amount (gl_debit g) \<and> column_amount (gl_credit g) \<and>
       (0 < gl_debit g \<and> gl_credit g = 0 \<or> gl_debit g = 0 \<and> 0 < gl_credit g)) gs"

definition rows_of :: "uuid \<Rightarrow> uuid \<Rightarrow> gl_entry list \<Rightarrow> gl_entry list" where
  "rows_of t tx gs = filter (\<lambda>g. gl_tenant g = t \<and> gl_transaction g = tx) gs"

text \<open>Every transaction in the books has equal debits and credits.\<close>

definition books_balanced :: "db \<Rightarrow> bool" where
  "books_balanced s \<longleftrightarrow>
     list_all (\<lambda>g. debits (rows_of (gl_tenant g) (gl_transaction g) (gl_entries s)) =
                   credits (rows_of (gl_tenant g) (gl_transaction g) (gl_entries s))) (gl_entries s)"

lemma books_balanced_iff:
  "books_balanced s \<longleftrightarrow> (\<forall>t tx. debits (rows_of t tx (gl_entries s)) = credits (rows_of t tx (gl_entries s)))"
proof
  assume b: "books_balanced s"
  show "\<forall>t tx. debits (rows_of t tx (gl_entries s)) = credits (rows_of t tx (gl_entries s))"
  proof (intro allI)
    fix t tx
    show "debits (rows_of t tx (gl_entries s)) = credits (rows_of t tx (gl_entries s))"
    proof (cases "rows_of t tx (gl_entries s)")
      case (Cons g gs)
      then have "g \<in> set (rows_of t tx (gl_entries s))" by simp
      then have "g \<in> set (gl_entries s)" "gl_tenant g = t" "gl_transaction g = tx"
        by (auto simp: rows_of_def)
      with b show ?thesis by (auto simp: books_balanced_def list_all_iff)
    qed simp
  qed
qed (auto simp: books_balanced_def list_all_iff)

lemma rows_of_block:
  "balanced_block t tx gs \<Longrightarrow> rows_of u ux gs = (if u = t \<and> ux = tx then gs else [])"
  by (auto simp: balanced_block_def rows_of_def list_all_iff filter_empty_conv intro!: filter_True)

lemma books_balanced_append:
  assumes "books_balanced s" "balanced_block t tx gs" "gl_entries s' = gl_entries s @ gs"
  shows "books_balanced s'"
proof -
  have "rows_of u ux (gl_entries s') = rows_of u ux (gl_entries s) @ rows_of u ux gs" for u ux
    by (simp add: assms(3) rows_of_def)
  with assms(1,2) show ?thesis
    by (auto simp: books_balanced_iff rows_of_block [OF assms(2)] balanced_block_def)
qed

lemma block_append:
  assumes "balanced_block t tx a" "balanced_block t tx b" "gl_date (hd b) = gl_date (hd a)"
  shows "balanced_block t tx (a @ b)"
  using assms by (simp add: balanced_block_def)

text \<open>A list of rows that was appended block by block.\<close>

inductive posted :: "gl_entry list \<Rightarrow> bool" where
  posted_Nil: "posted []"
| posted_block: "posted gs \<Longrightarrow> balanced_block t tx b \<Longrightarrow> posted (gs @ b)"

lemma block_posted: "balanced_block t tx b \<Longrightarrow> posted b"
  using posted_block [OF posted_Nil] by simp

lemma posted_append: "posted hs \<Longrightarrow> posted gs \<Longrightarrow> posted (gs @ hs)"
  by (induction rule: posted.induct) (auto intro: posted_block simp flip: append_assoc)

lemma posted_books:
  "posted gs \<Longrightarrow> books_balanced s \<Longrightarrow> gl_entries s' = gl_entries s @ gs \<Longrightarrow> books_balanced s'"
proof (induction arbitrary: s' rule: posted.induct)
  case posted_Nil
  then show ?case by (simp add: books_balanced_def)
next
  case (posted_block gs t tx b)
  have "books_balanced (s'\<lparr>gl_entries := gl_entries s @ gs\<rparr>)" using posted_block.IH posted_block.prems by simp
  then show ?case by (rule books_balanced_append [OF _ posted_block.hyps(2)]) (simp add: posted_block.prems)
qed

lemma posted_balanced: "posted gs \<Longrightarrow> debits gs = credits gs"
  by (induction rule: posted.induct) (simp_all add: balanced_block_def)

lemma posted_rows:
  "posted gs \<Longrightarrow> list_all (\<lambda>g. column_amount (gl_debit g) \<and> column_amount (gl_credit g) \<and>
     0 \<le> gl_debit g \<and> 0 \<le> gl_credit g) gs"
  by (induction rule: posted.induct) (auto simp: balanced_block_def list_all_iff)

lemma block_facts:
  assumes "balanced_block t tx b"
  shows "debits b = credits b" "list_all (\<lambda>g. gl_tenant g = t \<and> gl_date g = gl_date (hd b)) b"
  using assms unfolding balanced_block_def list_all_iff by blast+

lemma block_day:
  "list_all (\<lambda>g. gl_tenant g = u \<and> gl_date g = d) b \<Longrightarrow>
     filter (\<lambda>g. gl_tenant g = t \<and> P (gl_date g)) b = (if u = t \<and> P d then b else [])"
  by (induction b) auto

text \<open>What was posted balances for every tenant on every day, and so in every range of days.\<close>

lemma posted_days:
  "posted gs \<Longrightarrow> debits (filter (\<lambda>g. gl_tenant g = t \<and> P (gl_date g)) gs) =
     credits (filter (\<lambda>g. gl_tenant g = t \<and> P (gl_date g)) gs)"
proof (induction rule: posted.induct)
  case (posted_block gs u tx b)
  have "filter (\<lambda>g. gl_tenant g = t \<and> P (gl_date g)) b = (if u = t \<and> P (gl_date (hd b)) then b else [])"
    by (rule block_day [OF block_facts(2) [OF posted_block.hyps(2)]])
  with posted_block.IH block_facts(1) [OF posted_block.hyps(2)] show ?case by simp
qed simp

definition account_balance :: "db \<Rightarrow> uuid \<Rightarrow> string \<Rightarrow> dec" where
  "account_balance s t a =
     (\<Sum>g\<leftarrow>filter (\<lambda>g. gl_tenant g = t \<and> gl_account g = a) (gl_entries s). gl_debit g - gl_credit g)"

definition lines_effect :: "ledger_line list \<Rightarrow> string \<Rightarrow> dec" where
  "lines_effect ls a = (\<Sum>l\<leftarrow>filter (\<lambda>l. ll_account l = a) ls. line_debit l - line_credit l)"

subsection \<open>Posting as an interface\<close>

locale ledger_poster = audit_writer w for w :: "env \<Rightarrow> uuid \<Rightarrow> db \<Rightarrow> db \<Rightarrow> bool" +
  assumes posts_block:
    "w e t s s' \<Longrightarrow> \<exists>tx gs. balanced_block t tx gs \<and> gl_entries s' = gl_entries s @ gs"
    and posts_event:
    "w e t s s' \<Longrightarrow> \<exists>ob. ob_tenant ob = t \<and> ob_processed ob = None \<and> outbox s' = outbox s @ [ob]"
begin

lemma keeps_books: "books_balanced s \<Longrightarrow> w e t s s' \<Longrightarrow> books_balanced s'"
  using posts_block books_balanced_append by metis

lemma keeps_posted: "posted (gl_entries s) \<Longrightarrow> w e t s s' \<Longrightarrow> posted (gl_entries s')"
  using posts_block posted_block by metis

lemma keeps_other_ledgers:
  assumes "w e t s s'" "u \<noteq> t"
  shows "filter (\<lambda>g. gl_tenant g = u) (gl_entries s') = filter (\<lambda>g. gl_tenant g = u) (gl_entries s)"
proof -
  obtain tx gs where "balanced_block t tx gs" "gl_entries s' = gl_entries s @ gs"
    using posts_block [OF assms(1)] by blast
  with assms(2) show ?thesis by (auto simp: balanced_block_def list_all_iff filter_empty_conv)
qed

lemma one_more_event: "w e t s s' \<Longrightarrow> length (unprocessed s') = Suc (length (unprocessed s))"
  using posts_event by (fastforce simp: unprocessed_def)

end

lemma row_of_sums:
  "list_all2 (row_of p tx period) ls rows \<Longrightarrow>
     debits rows = total_debit ls \<and> credits rows = total_credit ls"
  by (induction rule: list_all2_induct) (auto simp: row_of_def)

lemma row_of_fit:
  assumes "list_all2 (row_of p tx period) ls rows" "length ls \<le> 10 ^ 10"
  shows "totals_fit ls"
proof -
  have "ls \<noteq> [] \<longrightarrow> total_debit ls < of_nat (length ls) * 10 ^ 14 \<and>
      total_credit ls < of_nat (length ls) * 10 ^ 14"
    using assms(1)
  proof (induction rule: list_all2_induct)
    case (Cons l g ls gs)
    then show ?case by (cases ls) (auto simp: row_of_def algebra_simps)
  qed simp
  moreover have "(of_nat (length ls) :: rat) \<le> of_nat (10 ^ 10)"
    using assms(2) by (simp only: of_nat_le_iff)
  ultimately show ?thesis by (cases "ls = []") (auto simp: totals_fit_def)
qed

lemma row_of_block:
  assumes "list_all2 (row_of p tx period) ls rows" "validate_zero_sum ls = Inr v" "length ls \<le> 10 ^ 10"
  shows "balanced_block (pp_tenant p) tx rows"
proof -
  have z: "ls \<noteq> []" "total_debit ls = total_credit ls"
    using validate_zero_sum_Inr [OF row_of_fit [OF assms(1,3)]] assms(2) by auto
  have "list_all (\<lambda>g. gl_tenant g = pp_tenant p \<and> gl_transaction g = tx \<and> gl_date g = pp_date p \<and>
      column_amount (gl_debit g) \<and> column_amount (gl_credit g) \<and>
      (0 < gl_debit g \<and> gl_credit g = 0 \<or> gl_debit g = 0 \<and> 0 < gl_credit g)) rows" (is "list_all ?ok rows")
    using assms(1)
    by (induction rule: list_all2_induct) (auto simp: row_of_def single_sided_def column_amount_def)
  moreover have ne: "rows \<noteq> []" using assms(1) z by auto
  ultimately have "gl_date (hd rows) = pp_date p" by (cases rows) auto
  with \<open>list_all ?ok rows\<close> have "list_all (\<lambda>g. gl_tenant g = pp_tenant p \<and> gl_transaction g = tx \<and>
      gl_date g = gl_date (hd rows) \<and> column_amount (gl_debit g) \<and> column_amount (gl_credit g) \<and>
      (0 < gl_debit g \<and> gl_credit g = 0 \<or> gl_debit g = 0 \<and> 0 < gl_credit g)) rows" by simp
  then show ?thesis
    using row_of_sums [OF assms(1)] z ne by (simp add: balanced_block_def)
qed

text \<open>A successful commit of tenant \<open>t\<close>; the line count is far above what a request can carry.\<close>

definition engine_step :: "env \<Rightarrow> uuid \<Rightarrow> db \<Rightarrow> db \<Rightarrow> bool" where
  "engine_step e t s s' \<longleftrightarrow>
     (\<exists>m p r. pp_tenant p = t \<and> length (pp_entries p) \<le> 10 ^ 10 \<and>
        commit_transaction e m p s = Inr (r, s'))"

interpretation engine: ledger_poster engine_step
proof
  fix e t s s'
  assume "engine_step e t s s'"
  then obtain m p r where c: "commit_transaction e m p s = Inr (r, s')"
    and p: "pp_tenant p = t" "length (pp_entries p) \<le> 10 ^ 10"
    by (auto simp: engine_step_def)
  obtain period n as cs rows ob au where
    z: "validate_zero_sum (pp_entries p) = Inr (co_volume r)"
    and rows: "list_all2 (row_of p (co_transaction r) period) (pp_entries p) rows"
    and w: "journal_row p (co_transaction r) ob" "new_audit_record e (pp_tenant p) s au"
    and s': "s' = s\<lparr>next_id := n, accounts := accounts s @ as, cost_centers := cost_centers s @ cs,
      gl_entries := gl_entries s @ rows, outbox := outbox s @ [ob], audit_logs := audit_logs s @ [au]\<rparr>"
    by (rule commit_transaction_Inr [OF c]) blast
  show "\<exists>a. new_audit_record e t s a \<and> audit_logs s' = audit_logs s @ [a]"
    using w p s' by auto
  show "\<exists>tx gs. balanced_block t tx gs \<and> gl_entries s' = gl_entries s @ gs"
    using row_of_block [OF rows z p(2)] p s' by auto
  show "\<exists>ob. ob_tenant ob = t \<and> ob_processed ob = None \<and> outbox s' = outbox s @ [ob]"
    using w p s' by (auto simp: journal_row_def)
qed

lemma account_balance_append:
  assumes "list_all2 (row_of p tx period) ls rows" "gl_entries s' = gl_entries s @ rows"
  shows "account_balance s' u a =
    account_balance s u a + (if u = pp_tenant p then lines_effect ls a else 0)"
proof -
  have "(\<Sum>g\<leftarrow>filter (\<lambda>g. gl_tenant g = u \<and> gl_account g = a) rows. gl_debit g - gl_credit g) =
      (if u = pp_tenant p then lines_effect ls a else 0)"
    using assms(1)
    by (induction rule: list_all2_induct) (auto simp: row_of_def lines_effect_def)
  then show ?thesis by (simp add: account_balance_def assms(2))
qed

subsection \<open>When a commit is accepted\<close>

definition has_account :: "uuid \<Rightarrow> db \<Rightarrow> string \<Rightarrow> bool" where
  "has_account t s code \<longleftrightarrow> list_ex (\<lambda>a. ac_tenant a = t \<and> ac_code a = code \<and> ac_active a) (accounts s)"

definition has_cost_center :: "uuid \<Rightarrow> db \<Rightarrow> string \<Rightarrow> bool" where
  "has_cost_center t s code \<longleftrightarrow>
     list_ex (\<lambda>c. cc_tenant c = t \<and> cc_code c = code \<and> cc_active c) (cost_centers s)"

text \<open>No deactivated account or cost center has one of the codes.\<close>

definition codes_usable :: "uuid \<Rightarrow> db \<Rightarrow> string list \<Rightarrow> string list \<Rightarrow> bool" where
  "codes_usable t s codes centers \<longleftrightarrow>
     list_all (\<lambda>a. ac_tenant a = t \<and> ac_code a \<in> set codes \<longrightarrow> ac_active a) (accounts s) \<and>
     list_all (\<lambda>c. cc_tenant c = t \<and> cc_code c \<in> set centers \<longrightarrow> cc_active c) (cost_centers s)"

lemma ensure_accounts_ok:
  assumes "list_all (\<lambda>a. ac_tenant a = t \<and> ac_code a \<in> C \<longrightarrow> ac_active a) (accounts s)"
    and "set codes \<subseteq> C"
  shows "\<exists>s'. efold (ensure_account t) s codes = Inr s' \<and> cost_centers s' = cost_centers s"
  using assms
proof (induction codes arbitrary: s)
  case Nil
  then show ?case by simp
next
  case (Cons c cs)
  then have "\<exists>u. ensure_account t s c = Inr u \<and> cost_centers u = cost_centers s \<and>
      list_all (\<lambda>a. ac_tenant a = t \<and> ac_code a \<in> C \<longrightarrow> ac_active a) (accounts u)"
    by (auto simp: ensure_account_def list_ex_iff list_all_iff)
  then obtain u where u: "ensure_account t s c = Inr u" "cost_centers u = cost_centers s"
    "list_all (\<lambda>a. ac_tenant a = t \<and> ac_code a \<in> C \<longrightarrow> ac_active a) (accounts u)"
    by blast
  from Cons.IH [OF u(3)] Cons.prems(2) u show ?case by simp
qed

lemma ensure_cost_centers_ok:
  assumes "list_all (\<lambda>c. cc_tenant c = t \<and> cc_code c \<in> C \<longrightarrow> cc_active c) (cost_centers s)"
    and "set codes \<subseteq> C"
  shows "\<exists>s'. efold (ensure_cost_center t) s codes = Inr s'"
  using assms
proof (induction codes arbitrary: s)
  case Nil
  then show ?case by simp
next
  case (Cons c cs)
  then have "\<exists>u. ensure_cost_center t s c = Inr u \<and>
      list_all (\<lambda>a. cc_tenant a = t \<and> cc_code a \<in> C \<longrightarrow> cc_active a) (cost_centers u)"
    by (auto simp: ensure_cost_center_def list_ex_iff list_all_iff)
  then obtain u where u: "ensure_cost_center t s c = Inr u"
    "list_all (\<lambda>a. cc_tenant a = t \<and> cc_code a \<in> C \<longrightarrow> cc_active a) (cost_centers u)"
    by blast
  from Cons.IH [OF u(2)] Cons.prems(2) u show ?case by simp
qed

lemma validate_chart_ok:
  assumes "codes_usable t s codes centers"
  shows "\<exists>s'. validate_chart_of_accounts t (remdups codes) (remdups centers) s = Inr s'"
proof -
  obtain u where u: "efold (ensure_account t) s (remdups codes) = Inr u" "cost_centers u = cost_centers s"
    using ensure_accounts_ok [of t "set codes" s "remdups codes"] assms by (auto simp: codes_usable_def)
  then show ?thesis
    using ensure_cost_centers_ok [of t "set centers" u "remdups centers"] assms
    by (auto simp: codes_usable_def validate_chart_of_accounts_def)
qed

lemma ensure_account_has:
  assumes "ensure_account t s c = Inr s'"
  shows "has_account t s' c \<and> (\<forall>x. has_account t s x \<longrightarrow> has_account t s' x)"
  using assms by (auto simp: ensure_account_def has_account_def split: if_splits)

lemma ensure_accounts_have:
  assumes "efold (ensure_account t) s codes = Inr s'"
  shows "(\<forall>c \<in> set codes. has_account t s' c) \<and> (\<forall>x. has_account t s x \<longrightarrow> has_account t s' x)"
  using assms
proof (induction codes arbitrary: s)
  case (Cons c cs)
  then obtain u where "ensure_account t s c = Inr u" "efold (ensure_account t) u cs = Inr s'"
    by (auto simp: ebind_eq_Inr)
  with Cons.IH [of u] ensure_account_has [of t s c u] show ?case by simp
qed simp

text \<open>The names the party check returns are those of the tenant's own parties.\<close>

definition names_from :: "db \<Rightarrow> uuid \<Rightarrow> party_names \<Rightarrow> bool" where
  "names_from s t names \<longleftrightarrow>
     (\<forall>((pt, pid), n) \<in> set names. party_name s t (Some pt) pid = Some n)"

definition named :: "party_names \<Rightarrow> party_type \<times> uuid \<Rightarrow> bool" where
  "named names k \<longleftrightarrow> map_of names k \<noteq> None"

lemma validate_party_line_Inr:
  assumes "validate_party_line s t names l = Inr names'" and "names_from s t names"
    and "ll_party_type l = None \<longleftrightarrow> ll_party_id l = None"
  shows "names_from s t names' \<and> (\<forall>k. named names k \<longrightarrow> named names' k) \<and>
    (\<forall>pid. ll_party_id l = Some pid \<longrightarrow> named names' (party_key l pid)) \<and>
    (\<forall>pid doc. ll_party_id l = Some pid \<and> ll_against_id l = Some doc \<longrightarrow>
       settles_invoice s t (ll_party_type l) pid doc (ll_currency l))"
proof (cases "ll_party_id l")
  case None
  then show ?thesis using assms by (simp add: validate_party_line_def)
next
  case (Some pid)
  then obtain pt where pt: "ll_party_type l = Some pt" using assms(3) by auto
  have key: "party_key l pid = (pt, pid)" by (simp add: party_key_def pt)
  have "names_from s t (names @ [((pt, pid), n)])" if "party_name s t (Some pt) pid = Some n" for n
    using that assms(2) by (auto simp: names_from_def)
  moreover have "named (names @ [((pt, pid), n)]) k \<longleftrightarrow> named names k \<or> k = (pt, pid)" for n k
    by (auto simp: named_def map_add_def split: option.splits)
  ultimately show ?thesis
    using assms(1,2) Some pt key
    by (auto simp: validate_party_line_def ebind_eq_Inr named_def [symmetric] simp del: not_None_eq split: option.splits if_splits)
qed

definition well_formed :: "ledger_line \<Rightarrow> bool" where
  "well_formed l \<longleftrightarrow> validate_party_reference l = Inr l"

lemma well_formed_parts:
  assumes "well_formed l"
  shows "ll_party_type l = None \<longleftrightarrow> ll_party_id l = None"
    and "ll_against_type l = None \<longleftrightarrow> ll_against_id l = None"
    and "ll_against_id l \<noteq> None \<Longrightarrow> ll_party_id l \<noteq> None"
  using assms by (auto simp: well_formed_def validate_party_reference_def split: if_splits)

lemma validate_party_lines_from:
  assumes "efold (validate_party_line s t) names ls = Inr names'" and "names_from s t names"
    and "\<forall>l \<in> set ls. well_formed l"
  shows "names_from s t names' \<and> (\<forall>k. named names k \<longrightarrow> named names' k) \<and>
    (\<forall>l \<in> set ls. \<forall>pid. ll_party_id l = Some pid \<longrightarrow> named names' (party_key l pid) \<and>
       (\<forall>doc. ll_against_id l = Some doc \<longrightarrow>
          settles_invoice s t (ll_party_type l) pid doc (ll_currency l)))"
  using assms
proof (induction ls arbitrary: names)
  case (Cons l ls)
  then obtain m where m: "validate_party_line s t names l = Inr m"
    "efold (validate_party_line s t) m ls = Inr names'"
    by (auto simp: ebind_eq_Inr)
  note 1 = validate_party_line_Inr [OF m(1) Cons.prems(2) well_formed_parts(1)]
  from 1 Cons.prems(3) have "names_from s t m" by simp
  from Cons.IH [OF m(2) this] 1 Cons.prems(3) show ?case by (auto simp del: split_paired_All)
qed simp

lemma validate_party_lines_Inr:
  assumes "validate_party_lines s t ls = Inr names" "\<forall>l \<in> set ls. well_formed l"
    and "l \<in> set ls" "ll_party_id l = Some pid"
  shows "\<exists>pt n. ll_party_type l = Some pt \<and> map_of names (pt, pid) = Some n \<and>
    party_name s t (Some pt) pid = Some n"
    and "ll_against_id l = Some doc \<Longrightarrow> settles_invoice s t (ll_party_type l) pid doc (ll_currency l)"
proof -
  have all: "names_from s t names" "named names (party_key l pid)"
    "\<forall>doc. ll_against_id l = Some doc \<longrightarrow> settles_invoice s t (ll_party_type l) pid doc (ll_currency l)"
    using validate_party_lines_from [of s t "[]" ls names] assms
    by (auto simp: validate_party_lines_def names_from_def)
  obtain pt where pt: "ll_party_type l = Some pt"
    using well_formed_parts(1) [of l] assms(2-4) by auto
  obtain n where n: "map_of names (pt, pid) = Some n"
    using all(2) by (cases "map_of names (pt, pid)") (auto simp: party_key_def pt named_def)
  then have "party_name s t (Some pt) pid = Some n"
    using all(1) by (auto dest!: map_of_SomeD simp: names_from_def)
  with pt n show "\<exists>pt n. ll_party_type l = Some pt \<and> map_of names (pt, pid) = Some n \<and>
    party_name s t (Some pt) pid = Some n" by auto
  show "settles_invoice s t (ll_party_type l) pid doc (ll_currency l)" if "ll_against_id l = Some doc"
    using all(3) that by blast
qed

definition storable :: "ledger_line \<Rightarrow> bool" where
  "storable l \<longleftrightarrow>
     well_formed l \<and> single_sided l \<and> line_debit l < 10 ^ 14 \<and> line_credit l < 10 ^ 14 \<and>
     \<bar>quant round_half_up 6 (ll_rate l)\<bar> < 10 ^ 6"

lemma insert_gl_ok:
  assumes "0 < cents (gl_debit g) \<and> cents (gl_credit g) = 0 \<or>
      cents (gl_debit g) = 0 \<and> 0 < cents (gl_credit g)"
    and "cents (gl_debit g) < 10 ^ 14" "cents (gl_credit g) < 10 ^ 14"
    and "\<bar>quant round_half_up 6 (gl_rate g)\<bar> < 10 ^ 6"
  shows "\<exists>s'. insert_gl g s = Inr s'"
  using assms by (auto simp: insert_gl_def numeric_def Let_def)

lemma insert_line_ok:
  assumes "storable l"
    and "\<And>pid. ll_party_id l = Some pid \<Longrightarrow> \<exists>pt n. ll_party_type l = Some pt \<and> map_of names (pt, pid) = Some n"
  shows "\<exists>s'. insert_line p tx period names s l = Inr s'"
proof -
  have w: "well_formed l" using assms(1) by (simp add: storable_def)
  have "\<exists>pa. party_columns names l = Inr pa"
    using assms(2) well_formed_parts(1) [OF w]
    by (cases "ll_party_id l") (auto simp: party_columns_def)
  moreover have "\<exists>ag. against_columns l = Inr ag"
    using well_formed_parts(2,3) [OF w]
    by (cases "ll_against_id l"; cases "ll_against_type l") (auto simp: against_columns_def)
  ultimately show ?thesis
    using assms(1)
    by (auto simp: insert_line_def uuid4_def storable_def single_sided_def line_debit_def
        line_credit_def intro!: insert_gl_ok)
qed

lemma insert_lines_ok:
  assumes "\<And>l s. l \<in> set ls \<Longrightarrow> \<exists>s'. insert_line p tx period names s l = Inr s'"
  shows "\<exists>s'. efold (insert_line p tx period names) s ls = Inr s'"
  using assms
proof (induction ls arbitrary: s)
  case (Cons l ls)
  obtain u where "insert_line p tx period names s l = Inr u" using Cons.prems [of l] by auto
  with Cons.IH [of u] Cons.prems show ?case by simp
qed simp

lemma storable_fit:
  assumes "list_all storable ls" "length ls \<le> 10 ^ 10"
  shows "totals_fit ls"
proof -
  have "ls \<noteq> [] \<longrightarrow> total_debit ls < of_nat (length ls) * 10 ^ 14 \<and>
      total_credit ls < of_nat (length ls) * 10 ^ 14"
    using assms(1)
  proof (induction ls)
    case (Cons l ls)
    then show ?case by (cases ls) (auto simp: storable_def algebra_simps)
  qed simp
  moreover have "(of_nat (length ls) :: rat) \<le> of_nat (10 ^ 10)"
    using assms(2) by (simp only: of_nat_le_iff)
  ultimately show ?thesis by (cases "ls = []") (auto simp: totals_fit_def)
qed

text \<open>Everything the engine asks of a proposal.\<close>

definition acceptable :: "env \<Rightarrow> db \<Rightarrow> proposal \<Rightarrow> bool" where
  "acceptable e s p \<longleftrightarrow>
     (let t = pp_tenant p; ls = pp_entries p in
      ls \<noteq> [] \<and> int (length ls) \<le> 10 ^ 10 \<and> list_all storable ls \<and> total_debit ls = total_credit ls \<and>
      is_ok (validate_party_lines s t ls) \<and>
      list_all (\<lambda>i. i \<in> set (owned_items s t)) (List.map_filter ll_item ls) \<and>
      list_all (\<lambda>w. w \<in> set (owned_warehouses s t)) (List.map_filter ll_warehouse ls) \<and>
      (total_debit ls \<le> cfg_tier2 e \<or> pp_human p) \<and>
      is_ok (validate_fiscal_period s t (pp_date p)) \<and>
      codes_usable t s (map ll_account ls) (map ll_cost_center ls) \<and>
      length (pp_trace p) \<le> 64 \<and> length (pp_agent p) \<le> 64 \<and> length (pp_model p) \<le> 64 \<and>
      length (pp_prompt p) \<le> 64)"

lemma journal_audit_ok:
  assumes "length (pp_trace p) \<le> 64" "length (pp_agent p) \<le> 64" "length (pp_model p) \<le> 64" "length (pp_prompt p) \<le> 64"
  shows "\<exists>a s'. journal_audit e p tx volume c s = Inr (a, s')"
  using assms by (simp add: journal_audit_def uuid4_def Let_def insert_audit_def log_fits_def)

lemma is_ok_Inr: "is_ok r \<longleftrightarrow> (\<exists>x. r = Inr x)"
  by (cases r) auto

lemma acceptable_commits:
  assumes "acceptable e s p"
  shows "\<exists>r s'. commit_transaction e m p s = Inr (r, s') \<and> co_volume r = total_debit (pp_entries p)"
proof -
  let ?t = "pp_tenant p" and ?ls = "pp_entries p"
  have a: "?ls \<noteq> []" "int (length ?ls) \<le> 10 ^ 10" "list_all storable ?ls" "total_debit ?ls = total_credit ?ls"
    and own: "list_all (\<lambda>i. i \<in> set (owned_items s ?t)) (List.map_filter ll_item ?ls)"
    "list_all (\<lambda>w. w \<in> set (owned_warehouses s ?t)) (List.map_filter ll_warehouse ?ls)"
    and tier: "total_debit ?ls \<le> cfg_tier2 e \<or> pp_human p"
    and use: "codes_usable ?t s (map ll_account ?ls) (map ll_cost_center ?ls)"
    using assms unfolding acceptable_def Let_def by blast+
  obtain names period where names: "validate_party_lines s ?t ?ls = Inr names"
    and period: "validate_fiscal_period s ?t (pp_date p) = Inr period"
    using assms unfolding acceptable_def Let_def is_ok_Inr by blast
  have len: "length ?ls \<le> 10 ^ 10" using a(2) by simp
  have sound: "\<forall>l \<in> set ?ls. well_formed l \<and> single_sided l"
    using a(3) by (auto simp: list_all_iff storable_def)
  have z: "validate_zero_sum ?ls = Inr (total_debit ?ls)"
    using validate_zero_sum_Inr [OF storable_fit [OF a(3) len]] a(1,4) sound by simp
  have "\<exists>c. evaluate_autonomy_tier e (total_debit ?ls) (pp_human p) None None = Inr c"
    using tier by (intro evaluate_autonomy_tier_ok) (simp add: or_default_def)
  then obtain ceil_res
    where c: "evaluate_autonomy_tier e (total_debit ?ls) (pp_human p) None None = Inr ceil_res"
    by blast
  obtain s1 where s1: "(if m then validate_chart_of_accounts ?t (remdups (map ll_account ?ls))
      (remdups (map ll_cost_center ?ls)) s else Inr s) = Inr s1"
    using validate_chart_ok [OF use] by (cases m) auto
  have "\<exists>s'. insert_line p (next_id s1) period names u l = Inr s'" if l: "l \<in> set ?ls" for l u
  proof (rule insert_line_ok)
    show "storable l" using a(3) l by (simp add: list_all_iff)
    show "\<exists>pt n. ll_party_type l = Some pt \<and> map_of names (pt, pid) = Some n"
      if "ll_party_id l = Some pid" for pid
      using validate_party_lines_Inr(1) [OF names _ l that] sound by auto
  qed
  then obtain s3 where s3: "efold (insert_line p (next_id s1) period names)
      (s1\<lparr>next_id := Suc (next_id s1)\<rparr>) ?ls = Inr s3"
    using insert_lines_ok [of ?ls] by blast
  let ?tx = "next_id s1" and ?v = "total_debit ?ls"
  obtain ob s4 where ob: "journal_event e p ?tx ?v ceil_res s3 = (ob, s4)" by fastforce
  obtain au s5 where au: "journal_audit e p ?tx ?v ceil_res s4 = Inr (au, s5)"
    using journal_audit_ok [of p e ?tx ?v ceil_res s4] assms unfolding acceptable_def Let_def by blast
  show ?thesis
    using z names own c period s1 s3
    by (auto simp: commit_transaction_def Let_def uuid4_def validate_owned_def ob au)
qed

subsection \<open>A small workspace\<close>

definition demo_env :: env where
  "demo_env = \<lparr>today = 739800, now = 1000, sha256 = (\<lambda>x. replicate 64 (CHR ''a'')),
     dec_str = show_fixed 4, time_str = (\<lambda>t. []), cfg_tier1 = 2500, cfg_tier2 = 25000\<rparr>"

definition demo_db :: db where
  "demo_db = empty_db\<lparr>next_id := 5,
     fiscal_periods := [\<lparr>fp_tenant = 0, fp_year = 2026, fp_period = 7, fp_start = 739600,
                         fp_end = 739900, fp_locked = False\<rparr>],
     customers := [\<lparr>cu_tenant = 0, cu_id = 1, cu_name = ''Acme''\<rparr>],
     sales_invoices := [\<lparr>si_tenant = 0, si_id = 2, si_number = ''SI-1'', si_customer = 1, si_due = 739800,
       si_currency = ''USD'', si_total = 100, si_status = ''ISSUED''\<rparr>]\<rparr>"

definition demo_proposal :: "dec \<Rightarrow> bool \<Rightarrow> proposal" where
  "demo_proposal x human =
     \<lparr>pp_tenant = 0, pp_date = 739800, pp_source_type = ''SALES_INVOICE'', pp_source_id = 2,
      pp_entries =
        [(plain_line ''1200-AR'' ''MAIN'' x 0 ''USD'')
           \<lparr>ll_party_type := Some CUSTOMER, ll_party_id := Some 1,
            ll_against_type := Some SALES_INVOICE, ll_against_id := Some 2\<rparr>,
         plain_line ''4000-REV'' ''MAIN'' 0 x ''USD''],
      pp_human = human, pp_approved_by = None, pp_agent = ''BILLING'', pp_trace = ''t1'',
      pp_prompt = ''hash_system_default'', pp_model = ''gemini-3.1-pro''\<rparr>"

lemma demo_acceptable:
  "acceptable demo_env demo_db (demo_proposal 100 False)"
  "acceptable demo_env demo_db (demo_proposal 30000 True)"
  by code_simp+

lemma demo_commit:
  "\<exists>r s'. commit_transaction demo_env True (demo_proposal 100 False) demo_db = Inr (r, s')"
  "\<exists>r s'. commit_transaction demo_env True (demo_proposal 30000 True) demo_db = Inr (r, s') \<and>
     co_volume r = 30000"
proof -
  have "total_debit (pp_entries (demo_proposal 30000 True)) = 30000" by code_simp
  then show "\<exists>r s'. commit_transaction demo_env True (demo_proposal 30000 True) demo_db = Inr (r, s') \<and>
     co_volume r = 30000"
    using acceptable_commits [OF demo_acceptable(2), of True] by simp
  show "\<exists>r s'. commit_transaction demo_env True (demo_proposal 100 False) demo_db = Inr (r, s')"
    using acceptable_commits [OF demo_acceptable(1), of True] by blast
qed

lemma demo_length: "length (pp_entries (demo_proposal x h)) \<le> 10 ^ 10"
  by (simp add: demo_proposal_def)

subsection \<open>Properties\<close>

text \<open>C3: a successful commit appends one block of ledger rows, all of the proposal's tenant and of
  the new transaction, one row per line, every row single-sided, with equal debits and credits whose
  sum is the reported volume.\<close>

theorem commit_posts_balanced_block:
  assumes "commit_transaction e m p s = Inr (r, s')" and "length (pp_entries p) \<le> 10 ^ 10"
  shows "\<exists>rows. gl_entries s' = gl_entries s @ rows \<and>
    balanced_block (pp_tenant p) (co_transaction r) rows \<and>
    map gl_account rows = map ll_account (pp_entries p) \<and> co_lines r = length rows \<and>
    debits rows = co_volume r"
proof (rule commit_transaction_Inr [OF assms(1)])
  fix period n as cs rows ob au
  assume z: "validate_zero_sum (pp_entries p) = Inr (co_volume r)"
    and rows: "list_all2 (row_of p (co_transaction r) period) (pp_entries p) rows"
    and c: "co_lines r = length rows"
    and s': "s' = s\<lparr>next_id := n, accounts := accounts s @ as, cost_centers := cost_centers s @ cs,
        gl_entries := gl_entries s @ rows, outbox := outbox s @ [ob], audit_logs := audit_logs s @ [au]\<rparr>"
  have "map gl_account rows = map ll_account (pp_entries p)"
    using rows by (induction rule: list_all2_induct) (auto simp: row_of_def)
  moreover have "debits rows = co_volume r"
    using row_of_sums [OF rows] z unfolding validate_zero_sum_Inr [OF row_of_fit [OF rows assms(2)]]
    by simp
  ultimately show ?thesis using row_of_block [OF rows z assms(2)] c s' by auto
qed

theorem commit_posts_balanced_block_witness:
  "\<exists>r s'. commit_transaction demo_env True (demo_proposal 100 False) demo_db = Inr (r, s') \<and>
     (\<exists>rows. gl_entries s' = gl_entries demo_db @ rows \<and> debits rows = co_volume r)"
  using demo_commit(1) commit_posts_balanced_block demo_length by metis

text \<open>C4: the books are a faithful image of the committed lines: after a commit every account of
  the tenant moves by the net amount of the proposal's lines on that account, rounded to four places,
  and no account of another tenant moves.\<close>

theorem commit_moves_account_balances:
  assumes "commit_transaction e m p s = Inr (r, s')"
  shows "account_balance s' u a =
    account_balance s u a + (if u = pp_tenant p then lines_effect (pp_entries p) a else 0)"
proof (rule commit_transaction_Inr [OF assms])
  fix period n as cs rows ob au
  assume "list_all2 (row_of p (co_transaction r) period) (pp_entries p) rows"
    and "s' = s\<lparr>next_id := n, accounts := accounts s @ as, cost_centers := cost_centers s @ cs,
        gl_entries := gl_entries s @ rows, outbox := outbox s @ [ob], audit_logs := audit_logs s @ [au]\<rparr>"
  then show ?thesis by (intro account_balance_append) auto
qed

theorem commit_moves_account_balances_witness:
  "\<exists>r s'. commit_transaction demo_env True (demo_proposal 100 False) demo_db = Inr (r, s') \<and>
     account_balance s' 0 ''1200-AR'' = 100 \<and> account_balance s' 1 ''1200-AR'' = 0"
proof -
  obtain r s' where c: "commit_transaction demo_env True (demo_proposal 100 False) demo_db = Inr (r, s')"
    using demo_commit(1) by blast
  have "account_balance demo_db 0 ''1200-AR'' = 0" "account_balance demo_db 1 ''1200-AR'' = 0"
    "pp_tenant (demo_proposal 100 False) = 0"
    "lines_effect (pp_entries (demo_proposal 100 False)) ''1200-AR'' = 100"
    by code_simp+
  with commit_moves_account_balances [OF c] c show ?thesis by auto
qed

text \<open>C34: a commit above the second ceiling happens only with a human approval, which the audit
  record and the result show; below it no approval is required.\<close>

theorem commit_above_ceiling_is_approved:
  assumes "commit_transaction e m p s = Inr (r, s')" and "cfg_tier2 e < co_volume r"
    and "cfg_tier1 e \<le> cfg_tier2 e"
  shows "pp_human p \<and> ce_tier (co_tier r) = TIER_3 \<and> ce_requires_human (co_tier r)"
  by (rule commit_transaction_Inr [OF assms(1)]) (use evaluate_autonomy_tier_above assms(2,3) in blast)

theorem commit_above_ceiling_is_approved_witness:
  "\<exists>r s'. commit_transaction demo_env True (demo_proposal 30000 True) demo_db = Inr (r, s') \<and>
     ce_tier (co_tier r) = TIER_3"
proof -
  obtain r s' where c: "commit_transaction demo_env True (demo_proposal 30000 True) demo_db = Inr (r, s')"
    "co_volume r = 30000"
    using demo_commit(2) by blast
  have "ce_tier (co_tier r) = TIER_3"
    using commit_above_ceiling_is_approved [OF c(1)] c(2) by (simp add: demo_env_def)
  with c show ?thesis by blast
qed

definition covers_date :: "proposal \<Rightarrow> fiscal_period_row \<Rightarrow> bool" where
  "covers_date p q \<longleftrightarrow> fp_tenant q = pp_tenant p \<and> fp_start q \<le> pp_date p \<and> pp_date p \<le> fp_end q"

text \<open>C33: a commit goes to an open period. When a commit succeeds, either no period row of the tenant covers
  the posting date, and the rows carry its calendar year and month, or a period row that covers it is not
  locked, and the rows carry the year and number of that period. So nothing is posted to a date that only
  locked periods cover.\<close>

theorem commits_go_to_open_periods:
  assumes "commit_transaction e m p s = Inr (r, s')"
  shows "\<exists>rows y k. gl_entries s' = gl_entries s @ rows \<and> rows \<noteq> [] \<and>
    (\<forall>g \<in> set rows. gl_date g = pp_date p \<and> gl_year g = y \<and> gl_period g = k) \<and>
    (if \<exists>q \<in> set (fiscal_periods s). covers_date p q
     then \<exists>q \<in> set (fiscal_periods s). covers_date p q \<and> \<not> fp_locked q \<and> y = fp_year q \<and> k = fp_period q
     else y = year_of (pp_date p) \<and> k = month_of (pp_date p))"
proof (rule commit_transaction_Inr [OF assms])
  fix period n as cs rows ob au
  assume z: "validate_zero_sum (pp_entries p) = Inr (co_volume r)"
    and v: "validate_fiscal_period s (pp_tenant p) (pp_date p) = Inr period"
    and rows: "list_all2 (row_of p (co_transaction r) period) (pp_entries p) rows"
    and s': "s' = s\<lparr>next_id := n, accounts := accounts s @ as, cost_centers := cost_centers s @ cs,
        gl_entries := gl_entries s @ rows, outbox := outbox s @ [ob], audit_logs := audit_logs s @ [au]\<rparr>"
  let ?Q = "filter (covers_date p) (fiscal_periods s)"
  have filt: "filter (\<lambda>q. fp_tenant q = pp_tenant p \<and> fp_start q \<le> pp_date p \<and> pp_date p \<le> fp_end q) (fiscal_periods s) = ?Q"
    by (rule filter_cong) (simp_all add: covers_date_def)
  have "pp_entries p \<noteq> []" using z by (auto simp: validate_zero_sum_def)
  then have "rows \<noteq> []" using rows by auto
  moreover have "\<forall>g \<in> set rows. gl_date g = pp_date p \<and> gl_year g = fst period \<and> gl_period g = snd period"
    using rows by (induction rule: list_all2_induct) (auto simp: row_of_def)
  moreover have "if \<exists>q \<in> set (fiscal_periods s). covers_date p q
     then \<exists>q \<in> set (fiscal_periods s). covers_date p q \<and> \<not> fp_locked q \<and> fst period = fp_year q \<and> snd period = fp_period q
     else fst period = year_of (pp_date p) \<and> snd period = month_of (pp_date p)"
  proof (cases ?Q)
    case Nil
    with v show ?thesis by (auto simp: validate_fiscal_period_def filt filter_empty_conv)
  next
    case (Cons q qs)
    then have "q \<in> set ?Q" by simp
    then have "q \<in> set (fiscal_periods s)" "covers_date p q" by simp_all
    moreover have "\<not> fp_locked q" "period = (fp_year q, fp_period q)"
      using v by (simp_all add: validate_fiscal_period_def filt Cons split: if_splits)
    ultimately show ?thesis by auto
  qed
  ultimately show ?thesis using s' by (intro exI [of _ rows] exI [of _ "fst period"] exI [of _ "snd period"]) simp
qed

theorem commits_go_to_open_periods_witness:
  "\<exists>r s'. commit_transaction demo_env True (demo_proposal 100 False) demo_db = Inr (r, s') \<and> gl_entries s' \<noteq> [] \<and>
     (\<forall>g \<in> set (gl_entries s'). gl_year g = 2026 \<and> gl_period g = 7)"
proof -
  obtain r s' where c: "commit_transaction demo_env True (demo_proposal 100 False) demo_db = Inr (r, s')"
    using demo_commit(1) by blast
  have "fiscal_periods demo_db = [\<lparr>fp_tenant = 0, fp_year = 2026, fp_period = 7, fp_start = 739600,
                         fp_end = 739900, fp_locked = False\<rparr>]" "gl_entries demo_db = []"
    "covers_date (demo_proposal 100 False) (hd (fiscal_periods demo_db))"
    by (simp_all add: demo_db_def empty_db_def covers_date_def demo_proposal_def)
  with commits_go_to_open_periods [OF c] c show ?thesis by auto
qed

text \<open>Where a locked and an open period overlap, \<open>LIMIT 1\<close> without an order decides: one order of the two rows
  lets a commit through whose date lies in the locked period, the other rejects it.\<close>

theorem overlapping_lock_depends_on_row_order:
  "let july = \<lparr>fp_tenant = 0, fp_year = 2026, fp_period = 7, fp_start = 739790, fp_end = 739820, fp_locked = True\<rparr>;
       year = \<lparr>fp_tenant = 0, fp_year = 2026, fp_period = 1, fp_start = 739600, fp_end = 739964, fp_locked = False\<rparr>;
       p = demo_proposal 100 False
   in covers_date p july \<and> covers_date p year \<and>
      is_ok (commit_transaction demo_env True p (demo_db\<lparr>fiscal_periods := [year, july]\<rparr>)) \<and>
      \<not> is_ok (commit_transaction demo_env True p (demo_db\<lparr>fiscal_periods := [july, year]\<rparr>))"
  unfolding Let_def by (intro conjI) code_simp+

text \<open>A commit touches one tenant only: every other tenant's ledger rows, accounts, cost
  centers, events and audit records are the same before and after it.\<close>

theorem commit_isolates_tenants:
  assumes "commit_transaction e m p s = Inr (r, s')" and "u \<noteq> pp_tenant p"
  shows "filter (\<lambda>g. gl_tenant g = u) (gl_entries s') = filter (\<lambda>g. gl_tenant g = u) (gl_entries s) \<and>
    filter (\<lambda>a. ac_tenant a = u) (accounts s') = filter (\<lambda>a. ac_tenant a = u) (accounts s) \<and>
    filter (\<lambda>c. cc_tenant c = u) (cost_centers s') = filter (\<lambda>c. cc_tenant c = u) (cost_centers s) \<and>
    filter (\<lambda>b. ob_tenant b = u) (outbox s') = filter (\<lambda>b. ob_tenant b = u) (outbox s) \<and>
    tenant_logs s' u = tenant_logs s u"
proof -
  obtain period n as cs rows ob au where
    rows: "list_all2 (row_of p (co_transaction r) period) (pp_entries p) rows"
    and own: "\<forall>a \<in> set as. ac_tenant a = pp_tenant p" "\<forall>c \<in> set cs. cc_tenant c = pp_tenant p"
      "journal_row p (co_transaction r) ob" "new_audit_record e (pp_tenant p) s au"
    and s': "s' = s\<lparr>next_id := n, accounts := accounts s @ as, cost_centers := cost_centers s @ cs,
      gl_entries := gl_entries s @ rows, outbox := outbox s @ [ob], audit_logs := audit_logs s @ [au]\<rparr>"
    by (rule commit_transaction_Inr [OF assms(1)]) blast
  have "\<forall>g \<in> set rows. gl_tenant g = pp_tenant p"
    using rows by (induction rule: list_all2_induct) (auto simp: row_of_def)
  with assms(2) own show ?thesis
    by (auto simp: s' filter_empty_conv journal_row_def new_audit_record_def tenant_logs_def)
qed

theorem commit_isolates_tenants_witness:
  "\<exists>r s'. commit_transaction demo_env True (demo_proposal 100 False) demo_db = Inr (r, s') \<and>
     tenant_logs s' 7 = tenant_logs demo_db 7"
proof -
  obtain r s' where c: "commit_transaction demo_env True (demo_proposal 100 False) demo_db = Inr (r, s')"
    using demo_commit(1) by blast
  have "7 \<noteq> pp_tenant (demo_proposal 100 False)" by (simp add: demo_proposal_def)
  with commit_isolates_tenants [OF c] c show ?thesis by blast
qed

text \<open>C37: the engine is not stricter than its rules: a balanced list of storable single-sided lines
  with parties, items and warehouses of the tenant, below the second ceiling or approved, dated in
  an open period, naming no deactivated account or cost center, with texts that fit the columns of the audit
  log, is committed, with the sum of its debits as volume. (The lengths of texts in the other tables are not modelled.)\<close>

theorem acceptable_proposal_commits:
  assumes "acceptable e s p"
  shows "\<exists>r s'. commit_transaction e m p s = Inr (r, s') \<and> co_volume r = total_debit (pp_entries p)"
  using assms by (rule acceptable_commits)

theorem acceptable_proposal_commits_witness:
  "\<exists>r s'. commit_transaction demo_env True (demo_proposal 100 False) demo_db = Inr (r, s') \<and>
     co_volume r = 100"
proof -
  have "total_debit (pp_entries (demo_proposal 100 False)) = 100" by code_simp
  with acceptable_proposal_commits [OF demo_acceptable(1), of True] show ?thesis by simp
qed

text \<open>A party on a committed line is a customer or supplier of the same tenant, and an invoice
  it settles belongs to that tenant and party and has the line's currency.\<close>

theorem committed_parties_are_owned:
  assumes "commit_transaction e m p s = Inr (r, s')" and "l \<in> set (pp_entries p)"
    and "\<forall>l \<in> set (pp_entries p). validate_party_reference l = Inr l" and "ll_party_id l = Some pid"
  shows "party_name s (pp_tenant p) (ll_party_type l) pid \<noteq> None \<and>
    (\<forall>doc. ll_against_id l = Some doc \<longrightarrow>
       settles_invoice s (pp_tenant p) (ll_party_type l) pid doc (ll_currency l))"
proof -
  obtain names where n: "validate_party_lines s (pp_tenant p) (pp_entries p) = Inr names"
    using assms(1) by (auto simp: commit_transaction_def Let_def ebind_eq_Inr)
  have w: "\<forall>l \<in> set (pp_entries p). well_formed l" using assms(3) by (simp add: well_formed_def)
  show ?thesis
    using validate_party_lines_Inr [OF n w assms(2,4)] by auto
qed

theorem committed_parties_are_owned_witness:
  "\<exists>l r s'. commit_transaction demo_env True (demo_proposal 100 False) demo_db = Inr (r, s') \<and>
     l \<in> set (pp_entries (demo_proposal 100 False)) \<and> ll_party_id l = Some 1 \<and>
     party_name demo_db 0 (ll_party_type l) 1 \<noteq> None"
proof -
  let ?p = "demo_proposal 100 False"
  obtain r s' where c: "commit_transaction demo_env True ?p demo_db = Inr (r, s')"
    using demo_commit(1) by blast
  have "hd (pp_entries ?p) \<in> set (pp_entries ?p)" "ll_party_id (hd (pp_entries ?p)) = Some 1"
    "\<forall>l \<in> set (pp_entries ?p). validate_party_reference l = Inr l" "pp_tenant ?p = 0"
    by (auto simp: demo_proposal_def plain_line_def validate_party_reference_def)
  with committed_parties_are_owned [OF c] c show ?thesis by metis
qed

definition same_tier :: "autonomy_tier \<Rightarrow> bridge_tier \<Rightarrow> bool" where
  "same_tier a b \<longleftrightarrow> (a = TIER_1) = (b = AUTONOMOUS) \<and> (a = TIER_3) = (b = HUMAN_MANDATORY)"

text \<open>\<open>rust_bridge.py\<close> accepts and rejects the same lists of lines as the ledger, with the
  same volume, but not the same tiers: with the documented ceilings the two tier functions disagree
  exactly at 2,500.\<close>

theorem bridge_agrees_except_at_the_boundary:
  "validate_ledger_entry_invariants ls = validate_zero_sum ls \<and>
   (cfg_tier1 e = 2500 \<and> cfg_tier2 e = 25000 \<longrightarrow>
     (\<exists>r. evaluate_autonomy_tier e amount True None None = Inr r \<and>
        (same_tier (ce_tier r) (bridge_evaluate_autonomy_tier amount) \<longleftrightarrow> amount \<noteq> 2500)))"
  using bridge_validates_the_same
  by (auto simp: evaluate_autonomy_tier_def or_default_def Let_def same_tier_def
      bridge_evaluate_autonomy_tier_def)

theorem bridge_agrees_except_at_the_boundary_witness:
  "\<exists>r. evaluate_autonomy_tier demo_env 2500 True None None = Inr r \<and>
     \<not> same_tier (ce_tier r) (bridge_evaluate_autonomy_tier 2500)"
  using bridge_agrees_except_at_the_boundary [of "[]" demo_env 2500] by (simp add: demo_env_def)

end
