(* ===== verification/Stock.thy ===== *)
theory Stock
  imports LedgerEngine
begin

section \<open>Stock levels and the stock ledger\<close>

text \<open>
  What the stock services share (\<open>src/src/erp/workflows/stock\<close>, \<open>db/models/inventory.py\<close>): the
  level of an item in a warehouse with its unique index, the append-only stock ledger, and the pair
  of general-ledger rows a movement posts. Within one operation a level is an object of the session
  (\<open>db/session.py\<close>: no autoflush, no expiry), which a flush writes to the table but does not read back:
  it keeps the unrounded valuation rate until the operation ends, where \<open>settle\<close> rounds every column.
  (An object that was flushed early, because another level had to be created, and that no variable refers
  to any more may be read again, rounded, by a later line; the model keeps its unrounded rate. Quantities
  have four places and are the same either way.)
  The interface \<open>stock_service\<close> states what an operation owes to the tables: levels agree with the
  ledger and with what is reserved, and the books stay balanced.
\<close>

subsection \<open>Levels\<close>

definition level_key :: "stock_level \<Rightarrow> uuid \<times> uuid \<times> uuid" where
  "level_key l = (sl_tenant l, sl_item l, sl_warehouse l)"

definition sle_key :: "stock_ledger_entry \<Rightarrow> uuid \<times> uuid \<times> uuid" where
  "sle_key x = (sle_tenant x, sle_item x, sle_warehouse x)"

definition find_level :: "uuid \<Rightarrow> uuid \<Rightarrow> uuid \<Rightarrow> db \<Rightarrow> stock_level option result" where
  "find_level t i w s = one_or_none (filter (\<lambda>l. level_key l = (t, i, w)) (stock_levels s))"

definition new_level :: "uuid \<Rightarrow> uuid \<Rightarrow> uuid \<Rightarrow> stock_level" where
  "new_level t i w =
     \<lparr>sl_tenant = t, sl_item = i, sl_warehouse = w, sl_current = 0, sl_reserved = 0, sl_available = 0,
      sl_rate = 0, sl_lot = None, sl_quarantined = False\<rparr>"

definition get_or_create_stock_level :: "uuid \<Rightarrow> uuid \<Rightarrow> uuid \<Rightarrow> db \<Rightarrow> (stock_level \<times> db) result" where
  "get_or_create_stock_level t i w s =
     ebind (find_level t i w s) (\<lambda>r.
       case r of
         Some l \<Rightarrow> Inr (l, s)
       | None \<Rightarrow> Inr (new_level t i w, s\<lparr>stock_levels := stock_levels s @ [new_level t i w]\<rparr>))"

text \<open>An assignment to the attributes of a level; the flush rejects values the columns cannot hold.\<close>

definition level_columns :: "stock_level \<Rightarrow> stock_level result" where
  "level_columns l =
     ebind (numeric 18 4 (sl_current l)) (\<lambda>c.
     ebind (numeric 18 4 (sl_reserved l)) (\<lambda>r.
     ebind (numeric 18 4 (sl_available l)) (\<lambda>a.
     ebind (numeric 18 4 (sl_rate l)) (\<lambda>v.
       Inr (l\<lparr>sl_current := c, sl_reserved := r, sl_available := a, sl_rate := v\<rparr>)))))"

definition put_level :: "stock_level \<Rightarrow> db \<Rightarrow> db result" where
  "put_level l s =
     ebind (level_columns l) (\<lambda>_.
       Inr (s\<lparr>stock_levels := update_where (\<lambda>r. level_key r = level_key l) (\<lambda>_. l) (stock_levels s)\<rparr>))"

definition settle :: "db \<Rightarrow> db result" where
  "settle s = ebind (emap level_columns (stock_levels s)) (\<lambda>ls. Inr (s\<lparr>stock_levels := ls\<rparr>))"

text \<open>The foreign keys of stock documents: items and warehouses that exist, of whatever tenant.\<close>

definition known_item :: "db \<Rightarrow> uuid \<Rightarrow> bool" where
  "known_item s i \<longleftrightarrow> list_ex (\<lambda>x. it_id x = i) (items s)"

definition known_warehouse :: "db \<Rightarrow> uuid option \<Rightarrow> bool" where
  "known_warehouse s w \<longleftrightarrow> (case w of None \<Rightarrow> True | Some i \<Rightarrow> list_ex (\<lambda>x. wh_id x = i) (warehouses s))"

subsection \<open>The ledgers of a movement\<close>

definition add_sle :: "stock_ledger_entry \<Rightarrow> db \<Rightarrow> db result" where
  "add_sle x s =
     ebind (numeric 18 4 (sle_actual x)) (\<lambda>a.
     ebind (numeric 18 4 (sle_after x)) (\<lambda>b.
     ebind (numeric 18 4 (sle_in_rate x)) (\<lambda>c.
     ebind (numeric 18 4 (sle_out_rate x)) (\<lambda>d.
     ebind (numeric 18 4 (sle_rate x)) (\<lambda>v.
     ebind (numeric 18 4 (sle_value x)) (\<lambda>z.
       Inr (s\<lparr>stock_ledger := stock_ledger s @
         [x\<lparr>sle_actual := a, sle_after := b, sle_in_rate := c, sle_out_rate := d, sle_rate := v,
            sle_value := z\<rparr>]\<rparr>)))))))"

text \<open>Two rows of one transaction, added to the session directly, without the ledger engine.\<close>

definition direct_row ::
    "uuid \<Rightarrow> uuid \<Rightarrow> date \<Rightarrow> string \<Rightarrow> string \<Rightarrow> dec \<Rightarrow> dec \<Rightarrow> string \<Rightarrow> string \<Rightarrow> uuid \<Rightarrow> db \<Rightarrow> db result" where
  "direct_row t tx d acct cc debit credit cur src src_id s =
     (let (gid, s1) = uuid4 s
      in insert_gl \<lparr>gl_id = gid, gl_tenant = t, gl_transaction = tx, gl_date = d, gl_year = year_of d,
           gl_period = month_of d, gl_account = acct, gl_cost_center = cc, gl_debit = debit,
           gl_credit = credit, gl_currency = cur, gl_rate = 1, gl_source_type = src,
           gl_source_id = src_id, gl_purpose = None, gl_warehouse = None, gl_item = None,
           gl_party = None, gl_against = None, gl_locked = False\<rparr> s1)"

definition row_pair ::
    "uuid \<Rightarrow> uuid \<Rightarrow> date \<Rightarrow> string \<Rightarrow> string \<Rightarrow> string \<Rightarrow> dec \<Rightarrow> string \<Rightarrow> string \<Rightarrow> uuid \<Rightarrow> db \<Rightarrow> db result" where
  "row_pair t tx d debit_acct credit_acct cc amount cur src src_id s =
     ebind (direct_row t tx d debit_acct cc amount 0 cur src src_id s) (\<lambda>s1.
       direct_row t tx d credit_acct cc 0 amount cur src src_id s1)"

definition direct_pair ::
    "uuid \<Rightarrow> date \<Rightarrow> string \<Rightarrow> string \<Rightarrow> string \<Rightarrow> dec \<Rightarrow> string \<Rightarrow> string \<Rightarrow> uuid \<Rightarrow> db \<Rightarrow> db result" where
  "direct_pair t d debit_acct credit_acct cc amount cur src src_id s =
     (let (tx, s1) = uuid4 s
      in row_pair t tx d debit_acct credit_acct cc amount cur src src_id s1)"

subsection \<open>Agreement of levels and ledger\<close>

definition ledger_qty :: "db \<Rightarrow> uuid \<times> uuid \<times> uuid \<Rightarrow> dec" where
  "ledger_qty s k = (\<Sum>x\<leftarrow>filter (\<lambda>x. sle_key x = k) (stock_ledger s). sle_actual x)"

definition ledger_sum :: "db \<Rightarrow> (uuid \<times> uuid \<times> uuid \<Rightarrow> bool) \<Rightarrow> dec" where
  "ledger_sum s P = (\<Sum>x\<leftarrow>filter (\<lambda>x. P (sle_key x)) (stock_ledger s). sle_actual x)"

lemma ledger_qty_sum: "ledger_qty s k = ledger_sum s (\<lambda>j. j = k)"
  by (simp add: ledger_qty_def ledger_sum_def)

definition level_ok :: "db \<Rightarrow> stock_level \<Rightarrow> bool" where
  "level_ok s l \<longleftrightarrow>
     column_amount (sl_current l) \<and> column_amount (sl_reserved l) \<and>
     sl_available l = sl_current l - sl_reserved l \<and> sl_current l = ledger_qty s (level_key l)"

definition documents_ok :: "db \<Rightarrow> bool" where
  "documents_ok s \<longleftrightarrow>
     list_all (\<lambda>x. list_all (\<lambda>i. column_amount (sei_qty i)) (se_items x)) (stock_entries s) \<and>
     list_all (\<lambda>r. column_amount (rs_qty r) \<and> column_amount (rs_consumed r)) (reservations s)"

definition stock_ok :: "db \<Rightarrow> bool" where
  "stock_ok s \<longleftrightarrow> documents_ok s \<and>
     distinct (map level_key (stock_levels s)) \<and> list_all (level_ok s) (stock_levels s) \<and>
     list_all (\<lambda>x. sle_key x \<in> level_key ` set (stock_levels s)) (stock_ledger s)"

lemma documents_ok_cong [simp]:
  "documents_ok (s\<lparr>stock_levels := x\<rparr>) = documents_ok s"
  "documents_ok (s\<lparr>stock_ledger := y\<rparr>) = documents_ok s"
  "documents_ok (s\<lparr>next_id := n\<rparr>) = documents_ok s"
  "documents_ok (s\<lparr>gl_entries := g\<rparr>) = documents_ok s"
  "documents_ok (s\<lparr>serials := z\<rparr>) = documents_ok s"
  by (simp_all add: documents_ok_def)

lemma level_unique:
  "stock_ok s \<Longrightarrow> l \<in> set (stock_levels s) \<Longrightarrow> m \<in> set (stock_levels s) \<Longrightarrow>
     level_key l = level_key m \<Longrightarrow> l = m"
  by (auto simp: stock_ok_def distinct_map inj_on_def)

lemma find_level_Some:
  "find_level t i w s = Inr (Some l) \<Longrightarrow> l \<in> set (stock_levels s) \<and> level_key l = (t, i, w)"
  unfolding find_level_def by (drule one_or_none_filter) simp

lemma find_level_None:
  "find_level t i w s = Inr None \<Longrightarrow> \<forall>l \<in> set (stock_levels s). level_key l \<noteq> (t, i, w)"
  by (auto simp: find_level_def one_or_none_None filter_empty_conv)

lemma stock_ok_find:
  assumes "stock_ok s"
  shows "\<exists>r. find_level t i w s = Inr r"
  using assms unfolding find_level_def stock_ok_def by (intro one_or_none_distinct) blast

lemma ledger_qty_0: "stock_ok s \<Longrightarrow> k \<notin> level_key ` set (stock_levels s) \<Longrightarrow> ledger_qty s k = 0"
proof -
  assume "stock_ok s" "k \<notin> level_key ` set (stock_levels s)"
  then have "filter (\<lambda>x. sle_key x = k) (stock_ledger s) = []"
    by (auto simp: stock_ok_def list_all_iff filter_empty_conv)
  then show ?thesis by (simp add: ledger_qty_def)
qed

lemma get_or_create_ok:
  assumes "stock_ok s" "get_or_create_stock_level t i w s = Inr (l, s')"
  shows "stock_ok s' \<and> l \<in> set (stock_levels s') \<and> level_key l = (t, i, w) \<and>
    (\<exists>ls. s' = s\<lparr>stock_levels := stock_levels s @ ls\<rparr>)"
proof -
  obtain r where r: "find_level t i w s = Inr r" using stock_ok_find [OF assms(1)] by blast
  show ?thesis
  proof (cases r)
    case (Some m)
    with assms r find_level_Some [of t i w s m] show ?thesis
      by (auto simp: get_or_create_stock_level_def intro: exI [of _ "[]"])
  next
    case None
    have key: "level_key (new_level t i w) = (t, i, w)" by (simp add: new_level_def level_key_def)
    have fresh: "(t, i, w) \<notin> level_key ` set (stock_levels s)"
      using find_level_None r None by fastforce
    have s': "s' = s\<lparr>stock_levels := stock_levels s @ [new_level t i w]\<rparr>" "l = new_level t i w"
      using assms(2) r None by (auto simp: get_or_create_stock_level_def)
    have "level_ok s' m = level_ok s m" for m by (simp add: level_ok_def ledger_qty_def s')
    moreover have "level_ok s (new_level t i w)"
      using ledger_qty_0 [OF assms(1) fresh] by (simp add: level_ok_def key) (simp add: new_level_def)
    ultimately have "stock_ok s'"
      using assms(1) fresh key by (auto simp: stock_ok_def list_all_iff s')
    with key show ?thesis by (auto simp: s')
  qed
qed

subsection \<open>Movements\<close>

lemma update_level:
  assumes "distinct (map level_key ls)" "l \<in> set ls" "level_key l' = level_key l"
  shows "set (update_where (\<lambda>r. level_key r = level_key l') (\<lambda>_. l') ls) = insert l' (set ls - {l})"
    and "map level_key (update_where (\<lambda>r. level_key r = level_key l') (\<lambda>_. l') ls) = map level_key ls"
proof -
  have un: "r = l" if "r \<in> set ls" "level_key r = level_key l" for r
    using assms(1,2) that by (auto simp: distinct_map inj_on_def)
  show "set (update_where (\<lambda>r. level_key r = level_key l') (\<lambda>_. l') ls) = insert l' (set ls - {l})"
  proof (rule set_eqI)
    fix x
    have "x \<in> set (update_where (\<lambda>r. level_key r = level_key l') (\<lambda>_. l') ls) \<longleftrightarrow>
        (\<exists>q \<in> set ls. level_key q = level_key l \<and> x = l' \<or> level_key q \<noteq> level_key l \<and> x = q)"
      by (simp add: set_update_where assms(3))
    also have "\<dots> \<longleftrightarrow> x = l' \<or> x \<in> set ls \<and> level_key x \<noteq> level_key l" using assms(2) by blast
    also have "\<dots> \<longleftrightarrow> x \<in> insert l' (set ls - {l})" using un by auto
    finally show "x \<in> set (update_where (\<lambda>r. level_key r = level_key l') (\<lambda>_. l') ls) \<longleftrightarrow>
        x \<in> insert l' (set ls - {l})" .
  qed
  show "map level_key (update_where (\<lambda>r. level_key r = level_key l') (\<lambda>_. l') ls) = map level_key ls"
    using assms(3) by (auto simp: update_where_def)
qed

lemma put_level_Inr:
  "put_level l s = Inr s' \<longleftrightarrow> (\<exists>m. level_columns l = Inr m) \<and>
     s' = s\<lparr>stock_levels := update_where (\<lambda>r. level_key r = level_key l) (\<lambda>_. l) (stock_levels s)\<rparr>"
  by (auto simp: put_level_def ebind_eq_Inr)

lemma level_columns_Inr:
  "level_columns l = Inr m \<Longrightarrow> places 4 (sl_current l) \<Longrightarrow> places 4 (sl_reserved l) \<Longrightarrow>
     column_amount (sl_current l) \<and> column_amount (sl_reserved l) \<and>
     level_key m = level_key l \<and> sl_current m = sl_current l \<and> sl_reserved m = sl_reserved l \<and>
     (places 4 (sl_available l) \<longrightarrow> sl_available m = sl_available l)"
  by (auto simp: level_columns_def ebind_eq_Inr level_key_def dest: numeric_keeps)

lemma add_sle_Inr:
  assumes "add_sle x s = Inr s'" "places 4 (sle_actual x)"
  shows "\<exists>y. s' = s\<lparr>stock_ledger := stock_ledger s @ [y]\<rparr> \<and> sle_key y = sle_key x \<and>
    sle_actual y = sle_actual x"
  using assms by (auto simp: add_sle_def ebind_eq_Inr sle_key_def dest: numeric_keeps)

lemma replaced_level_ok:
  assumes ok: "stock_ok s" and l: "l \<in> set (stock_levels s)" "level_key l' = level_key l"
    and s': "stock_levels s' = update_where (\<lambda>r. level_key r = level_key l') (\<lambda>_. l') (stock_levels s)"
    and new: "level_ok s' l'" and others: "\<And>k. k \<noteq> level_key l \<Longrightarrow> ledger_qty s' k = ledger_qty s k"
    and docs: "documents_ok s'"
    and keys: "\<And>x. x \<in> set (stock_ledger s') \<Longrightarrow> x \<in> set (stock_ledger s) \<or> sle_key x = level_key l"
  shows "stock_ok s'"
proof -
  have dist: "distinct (map level_key (stock_levels s))" using ok by (simp add: stock_ok_def)
  note up = update_level [OF dist l]
  have "level_ok s' r" if "r \<in> set (stock_levels s)" "r \<noteq> l" for r
  proof -
    have "level_key r \<noteq> level_key l" using level_unique [OF ok that(1) l(1)] that(2) by blast
    moreover have "level_ok s r" using ok that(1) by (simp add: stock_ok_def list_all_iff)
    ultimately show ?thesis using others unfolding level_ok_def by metis
  qed
  then have "list_all (level_ok s') (stock_levels s')"
    unfolding list_all_iff s' up using new by auto
  moreover have "set (map level_key (stock_levels s')) = set (map level_key (stock_levels s))"
    unfolding s' up ..
  then have "level_key ` set (stock_levels s') = level_key ` set (stock_levels s)" by simp
  moreover have "distinct (map level_key (stock_levels s'))" using dist unfolding s' up .
  moreover have "\<forall>x \<in> set (stock_ledger s). sle_key x \<in> level_key ` set (stock_levels s)"
    using ok unfolding stock_ok_def list_all_iff by blast
  ultimately show ?thesis
    using docs keys l(1) unfolding stock_ok_def list_all_iff by (metis imageI)
qed

text \<open>
  The heart of every movement: the level of a key changes by the quantity that is entered in the
  stock ledger under the same key.
\<close>

lemma movement_ok:
  assumes ok: "stock_ok s" and l: "l \<in> set (stock_levels s)" "level_key l' = level_key l"
    and new: "sl_current l' = sl_current l + d" "sl_reserved l' = sl_reserved l"
      "sl_available l' = sl_current l' - sl_reserved l'"
    and put: "put_level l' s = Inr s1"
    and d: "column_amount d" "sle_key x = level_key l" "sle_actual x = d"
    and add: "add_sle x s1 = Inr s'"
  shows "stock_ok s'"
proof -
  have lok: "level_ok s l" using ok l(1) by (auto simp: stock_ok_def list_all_iff)
  then have pl: "places 4 (sl_current l')" "places 4 (sl_reserved l')"
    using d(1) by (auto simp: new level_ok_def column_amount_def)
  obtain m where m: "level_columns l' = Inr m"
    and s1: "s1 = s\<lparr>stock_levels := update_where (\<lambda>r. level_key r = level_key l') (\<lambda>_. l') (stock_levels s)\<rparr>"
    using put put_level_Inr by blast
  have cols: "column_amount (sl_current l')" "column_amount (sl_reserved l')"
    using level_columns_Inr [OF m pl] by auto
  obtain y where s': "s' = s1\<lparr>stock_ledger := stock_ledger s1 @ [y]\<rparr>" "sle_key y = level_key l" "sle_actual y = d"
    using add_sle_Inr [OF add] d by (auto simp: column_amount_def)
  have qty: "ledger_qty s' k = ledger_qty s k + (if k = level_key l then d else 0)" for k
    by (simp add: ledger_qty_def s' s1)
  have docs: "documents_ok s'" using ok by (simp add: s' s1 stock_ok_def)
  show ?thesis
  proof (rule replaced_level_ok [OF ok l _ _ _ docs])
    show "level_ok s' l'" using lok cols by (simp add: level_ok_def qty new l(2))
    show "ledger_qty s' k = ledger_qty s k" if "k \<noteq> level_key l" for k using qty that by simp
  qed (auto simp: s' s1)
qed

text \<open>A level whose reserved quantity changes.\<close>

lemma reserve_ok:
  assumes ok: "stock_ok s" and l: "l \<in> set (stock_levels s)"
    and r: "column_amount r"
    and s': "s' = s\<lparr>stock_levels := update_where (\<lambda>x. level_key x = level_key l)
      (\<lambda>_. l\<lparr>sl_reserved := r, sl_available := sl_current l - r\<rparr>) (stock_levels s)\<rparr>"
  shows "stock_ok s'"
proof -
  have lok: "level_ok s l" using ok l by (simp add: stock_ok_def list_all_iff)
  have docs: "documents_ok s'" using ok by (simp add: s' stock_ok_def)
  have key: "level_key (l\<lparr>sl_reserved := r, sl_available := sl_current l - r\<rparr>) = level_key l"
    by (simp add: level_key_def)
  show ?thesis
  proof (rule replaced_level_ok [OF ok l key _ _ _ docs])
    show "level_ok s' (l\<lparr>sl_reserved := r, sl_available := sl_current l - r\<rparr>)"
      using lok r unfolding level_ok_def key ledger_qty_def s' by simp metis
  qed (auto simp: s' ledger_qty_def key)
qed

lemma stock_ok_cong:
  "stock_levels s' = stock_levels s \<Longrightarrow> stock_ledger s' = stock_ledger s \<Longrightarrow>
     documents_ok s' = documents_ok s \<Longrightarrow> stock_ok s' = stock_ok s"
  by (simp add: stock_ok_def level_ok_def [abs_def] ledger_qty_def)

lemma settle_ok:
  assumes "stock_ok s" "settle s = Inr s'"
  shows "stock_ok s'"
proof -
  obtain ls where ls: "emap level_columns (stock_levels s) = Inr ls" "s' = s\<lparr>stock_levels := ls\<rparr>"
    using assms(2) by (auto simp: settle_def ebind_eq_Inr)
  have each: "level_key (ls ! i) = level_key (stock_levels s ! i) \<and> level_ok s' (ls ! i)"
    if "i < length (stock_levels s)" for i
  proof -
    let ?l = "stock_levels s ! i"
    have ok: "level_ok s ?l" using assms(1) that by (simp add: stock_ok_def list_all_length)
    then have p: "places 4 (sl_current ?l)" "places 4 (sl_reserved ?l)" "places 4 (sl_available ?l)"
      by (auto simp: level_ok_def column_amount_def)
    have "ledger_qty s' k = ledger_qty s k" for k by (simp add: ledger_qty_def ls)
    with level_columns_Inr [OF emap_nth [OF ls(1) that] p(1,2)] p(3) ok show ?thesis
      by (auto simp: level_ok_def)
  qed
  have len: "length ls = length (stock_levels s)" using emap_length [OF ls(1)] .
  then have keys: "map level_key ls = map level_key (stock_levels s)"
    using each by (auto intro: nth_equalityI)
  then have "level_key ` set ls = level_key ` set (stock_levels s)" by (metis set_map)
  moreover have "list_all (level_ok s') ls" using each len by (auto simp: list_all_length)
  ultimately show ?thesis
    using assms(1) keys by (simp add: stock_ok_def ls list_all_iff)
qed

lemma settle_frame:
  "settle s = Inr s' \<Longrightarrow> \<exists>ls. s' = s\<lparr>stock_levels := ls\<rparr>"
  by (auto simp: settle_def ebind_eq_Inr)

lemma direct_row_Inr:
  assumes "direct_row t tx d acct cc debit credit cur src sid s = Inr s'"
  shows "\<exists>g. s' = s\<lparr>next_id := Suc (next_id s), gl_entries := gl_entries s @ [g]\<rparr> \<and> gl_tenant g = t \<and>
    gl_transaction g = tx \<and> gl_date g = d \<and> gl_currency g = cur \<and>
    cents debit < 10 ^ 14 \<and> cents credit < 10 ^ 14 \<and> gl_debit g = cents debit \<and> gl_credit g = cents credit \<and>
    (0 < cents debit \<and> cents credit = 0 \<or> cents debit = 0 \<and> 0 < cents credit) \<and> gl_account g = acct"
proof -
  have "insert_gl \<lparr>gl_id = next_id s, gl_tenant = t, gl_transaction = tx, gl_date = d, gl_year = year_of d,
      gl_period = month_of d, gl_account = acct, gl_cost_center = cc, gl_debit = debit, gl_credit = credit,
      gl_currency = cur, gl_rate = 1, gl_source_type = src, gl_source_id = sid, gl_purpose = None,
      gl_warehouse = None, gl_item = None, gl_party = None, gl_against = None, gl_locked = False\<rparr>
      (s\<lparr>next_id := Suc (next_id s)\<rparr>) = Inr s'"
    using assms by (simp add: direct_row_def uuid4_def)
  from insert_gl_Inr [OF this] show ?thesis by (intro exI conjI) auto
qed

lemma cents_0 [simp]: "cents 0 = 0"
  by (simp add: quant_def)

lemma row_pair_Inr:
  assumes "row_pair t tx d da ca cc v cur src sid s = Inr s'"
  shows "\<exists>g h. s' = s\<lparr>next_id := Suc (Suc (next_id s)), gl_entries := gl_entries s @ [g, h]\<rparr> \<and>
    balanced_block t tx [g, h] \<and> debits [g, h] = cents v \<and> gl_date g = d \<and>
    gl_debit g = cents v \<and> gl_credit g = 0 \<and> gl_debit h = 0 \<and> gl_credit h = cents v \<and>
    0 < cents v \<and> cents v < 10 ^ 14 \<and>
    gl_currency g = cur \<and> gl_currency h = cur \<and> gl_account g = da \<and> gl_account h = ca"
proof -
  obtain u where 1: "direct_row t tx d da cc v 0 cur src sid s = Inr u"
    and 2: "direct_row t tx d ca cc 0 v cur src sid u = Inr s'"
    using assms by (auto simp: row_pair_def ebind_eq_Inr)
  from direct_row_Inr [OF 1] direct_row_Inr [OF 2] obtain g h where
    g: "u = s\<lparr>next_id := Suc (next_id s), gl_entries := gl_entries s @ [g]\<rparr>" "gl_tenant g = t"
      "gl_transaction g = tx" "gl_debit g = cents v" "gl_credit g = 0" "0 < cents v"
      "gl_date g = d" "cents v < 10 ^ 14" "gl_currency g = cur" "gl_account g = da"
    and h: "s' = u\<lparr>next_id := Suc (next_id u), gl_entries := gl_entries u @ [h]\<rparr>" "gl_tenant h = t"
      "gl_transaction h = tx" "gl_debit h = 0" "gl_credit h = cents v" "gl_date h = d"
      "gl_currency h = cur" "gl_account h = ca"
    by auto
  show ?thesis
    by (rule exI [of _ g], rule exI [of _ h]) (use g h in \<open>simp add: balanced_block_def column_amount_def\<close>)
qed

lemma direct_pair_Inr:
  assumes "direct_pair t d da ca cc amount cur src sid s = Inr s'"
  shows "\<exists>n rows. s' = s\<lparr>next_id := n, gl_entries := gl_entries s @ rows\<rparr> \<and>
    balanced_block t (next_id s) rows \<and> debits rows = cents amount"
  using row_pair_Inr assms by (fastforce simp: direct_pair_def uuid4_def)

subsection \<open>Totals over warehouses\<close>

definition on_hand :: "db \<Rightarrow> uuid \<Rightarrow> uuid \<Rightarrow> dec" where
  "on_hand s t i = (\<Sum>l\<leftarrow>filter (\<lambda>l. sl_tenant l = t \<and> sl_item l = i) (stock_levels s). sl_current l)"

lemma on_hand_ledger:
  assumes "stock_ok s"
  shows "on_hand s t i = ledger_sum s (\<lambda>k. fst k = t \<and> fst (snd k) = i)"
proof -
  let ?ls = "filter (\<lambda>l. sl_tenant l = t \<and> sl_item l = i) (stock_levels s)"
  let ?P = "\<lambda>k. fst k = t \<and> fst (snd k) = i"
  let ?xs = "filter (\<lambda>x. ?P (sle_key x)) (stock_ledger s)"
  have P: "?P (level_key l) \<longleftrightarrow> sl_tenant l = t \<and> sl_item l = i" for l by (simp add: level_key_def)
  have each: "sl_current l = (\<Sum>x\<leftarrow>filter (\<lambda>x. sle_key x = level_key l) ?xs. sle_actual x)" if "l \<in> set ?ls" for l
  proof -
    have "level_ok s l" using assms that by (simp add: stock_ok_def list_all_iff)
    then have "sl_current l = ledger_qty s (level_key l)" unfolding level_ok_def by blast
    moreover have "filter (\<lambda>x. sle_key x = level_key l) ?xs = filter (\<lambda>x. sle_key x = level_key l) (stock_ledger s)"
      using that P [of l] by (auto intro: filter_cong)
    ultimately show ?thesis by (simp add: ledger_qty_def)
  qed
  have "on_hand s t i = (\<Sum>l\<leftarrow>?ls. \<Sum>x\<leftarrow>filter (\<lambda>x. sle_key x = level_key l) ?xs. sle_actual x)"
    unfolding on_hand_def using each by (intro arg_cong [of _ _ sum_list] map_cong) auto
  also have "\<dots> = (\<Sum>k\<leftarrow>map level_key ?ls. \<Sum>x\<leftarrow>filter (\<lambda>x. sle_key x = k) ?xs. sle_actual x)"
    by (simp add: o_def)
  also have "\<dots> = (\<Sum>x\<leftarrow>?xs. sle_actual x)"
  proof (rule sum_by_key)
    show "distinct (map level_key ?ls)"
      using assms by (auto simp: stock_ok_def distinct_map inj_on_def)
    show "\<forall>x \<in> set ?xs. sle_key x \<in> set (map level_key ?ls)"
      using assms P by (fastforce simp: stock_ok_def list_all_iff)
  qed
  finally show ?thesis by (simp add: ledger_sum_def)
qed

subsection \<open>The interface of the stock services\<close>

text \<open>\<open>op s s'\<close>: one operation of a service that ended without an exception.\<close>

locale stock_service =
  fixes op :: "db \<Rightarrow> db \<Rightarrow> bool"
  assumes keeps_stock: "op s s' \<Longrightarrow> stock_ok s \<Longrightarrow> stock_ok s'"
    and keeps_books: "op s s' \<Longrightarrow> stock_ok s \<Longrightarrow> books_balanced s \<Longrightarrow> books_balanced s'"
    and keeps_audit: "op s s' \<Longrightarrow> stock_ok s \<Longrightarrow> audit_logs s' = audit_logs s"
begin

lemma runs_keep:
  assumes "op\<^sup>*\<^sup>* s s'" "stock_ok s"
  shows "stock_ok s' \<and> (books_balanced s \<longrightarrow> books_balanced s') \<and> audit_logs s' = audit_logs s"
  using assms by (induction rule: rtranclp_induct) (auto intro: keeps_stock keeps_books dest: keeps_audit)

lemma available_is_free:
  assumes "op\<^sup>*\<^sup>* s s'" "stock_ok s" "l \<in> set (stock_levels s')"
  shows "sl_available l = sl_current l - sl_reserved l \<and> sl_current l = ledger_qty s' (level_key l)"
proof -
  have "level_ok s' l" using runs_keep [OF assms(1,2)] assms(3) by (simp add: stock_ok_def list_all_iff)
  then show ?thesis unfolding level_ok_def by blast
qed

end

text \<open>Two services that share the tables are one service.\<close>

lemma stock_service_union:
  assumes "stock_service p" "stock_service q"
  shows "stock_service (\<lambda>s s'. p s s' \<or> q s s')"
  using assms unfolding stock_service_def by meson

end
