(* ===== verification/StockEntry.thy ===== *)
theory StockEntry
  imports Stock
begin

section \<open>Stock entries\<close>

text \<open>
  \<open>src/src/erp/workflows/stock/stock_entry_service.py\<close>: drafts of material movements, their
  submission line by line (levels, stock ledger, general-ledger pair, serial number) and their
  cancellation.
\<close>

subsection \<open>Drafts\<close>

definition entry_type_str :: "stock_entry_type \<Rightarrow> string" where
  "entry_type_str y = (case y of MATERIAL_RECEIPT \<Rightarrow> ''MATERIAL_RECEIPT''
     | MATERIAL_ISSUE \<Rightarrow> ''MATERIAL_ISSUE'' | MATERIAL_TRANSFER \<Rightarrow> ''MATERIAL_TRANSFER''
     | MANUFACTURE \<Rightarrow> ''MANUFACTURE'' | REPACK \<Rightarrow> ''REPACK'')"

definition parse_entry_type :: "string \<Rightarrow> stock_entry_type option" where
  "parse_entry_type x =
     List.find (\<lambda>y. entry_type_str y = x)
       [MATERIAL_RECEIPT, MATERIAL_ISSUE, MATERIAL_TRANSFER, MANUFACTURE, REPACK]"

definition doc_status_str :: "doc_status \<Rightarrow> string" where
  "doc_status_str d = (case d of DRAFT \<Rightarrow> ''DRAFT'' | SUBMITTED \<Rightarrow> ''SUBMITTED'' | CANCELLED \<Rightarrow> ''CANCELLED'')"

text \<open>One line of the request; a missing warehouse key falls back to that of the entry.\<close>

record stock_item_data =
  sd_item :: uuid
  sd_qty :: dec
  sd_rate :: "dec option"
  sd_source :: "uuid option option"
  sd_target :: "uuid option option"
  sd_uom :: "string option"
  sd_batch :: "string option"
  sd_serial :: "string option"

definition draft_line ::
    "uuid option \<Rightarrow> uuid option \<Rightarrow> stock_item_data \<Rightarrow> stock_entry_item" where
  "draft_line from to x =
     (let rate = or_else (sd_rate x) 0
      in \<lparr>sei_item = sd_item x, sei_source = or_else (sd_source x) from,
          sei_target = or_else (sd_target x) to, sei_qty = sd_qty x, sei_uom = or_else (sd_uom x) ''Nos'',
          sei_rate = rate, sei_amount = dmul (sd_qty x) rate, sei_batch = sd_batch x,
          sei_serial = sd_serial x\<rparr>)"

definition line_columns :: "stock_entry_item \<Rightarrow> stock_entry_item result" where
  "line_columns x =
     ebind (numeric 18 4 (sei_qty x)) (\<lambda>q.
     ebind (numeric 18 4 (sei_rate x)) (\<lambda>r.
     ebind (numeric 18 4 (sei_amount x)) (\<lambda>a.
       Inr (x\<lparr>sei_qty := q, sei_rate := r, sei_amount := a\<rparr>))))"

definition line_references :: "db \<Rightarrow> stock_entry_item \<Rightarrow> bool" where
  "line_references s x \<longleftrightarrow>
     known_item s (sei_item x) \<and> known_warehouse s (sei_source x) \<and> known_warehouse s (sei_target x)"

definition create_stock_entry ::
    "env \<Rightarrow> uuid \<Rightarrow> string \<Rightarrow> string \<Rightarrow> date option \<Rightarrow> timestamp option \<Rightarrow> string option \<Rightarrow> uuid option
     \<Rightarrow> uuid option \<Rightarrow> string option \<Rightarrow> stock_item_data list \<Rightarrow> db \<Rightarrow> (stock_entry \<times> db) result" where
  "create_stock_entry e t number type_name d tm purpose from to notes xs s =
     (case parse_entry_type (upper type_name) of
        None \<Rightarrow> Inl (ValueError (''Invalid stock entry type: '' @ type_name))
      | Some ty \<Rightarrow>
          if list_ex (\<lambda>x. se_tenant x = t \<and> se_number x = number) (stock_entries s) \<or>
             \<not> known_warehouse s from \<or> \<not> known_warehouse s to
          then Inl IntegrityError
          else let (eid, s1) = uuid4 s; lines = map (draft_line from to) xs in
            if \<not> list_all (line_references s) lines then Inl IntegrityError
            else ebind (emap line_columns lines) (\<lambda>stored.
            ebind (numeric 18 4 (dsum (map sei_amount lines))) (\<lambda>total_amount.
              let x = \<lparr>se_tenant = t, se_id = eid, se_number = number, se_type = ty,
                       se_date = or_else d (today e), se_time = or_else tm (now e), se_purpose = purpose,
                       se_from = from, se_to = to, se_total = total_amount, se_status = DRAFT,
                       se_notes = notes, se_items = stored\<rparr>
              in Inr (x, s1\<lparr>stock_entries := stock_entries s1 @ [x]\<rparr>))))"

definition get_stock_entry :: "uuid \<Rightarrow> uuid \<Rightarrow> db \<Rightarrow> stock_entry option result" where
  "get_stock_entry t i s = one_or_none (filter (\<lambda>x. se_tenant x = t \<and> se_id x = i) (stock_entries s))"

text \<open>\<open>ORDER BY created_at DESC\<close>: the newest first.\<close>

definition list_stock_entries :: "uuid \<Rightarrow> string option \<Rightarrow> string option \<Rightarrow> db \<Rightarrow> stock_entry list" where
  "list_stock_entries t ty st s =
     rev (filter (\<lambda>x. se_tenant x = t \<and>
        (case ty of None \<Rightarrow> True | Some y \<Rightarrow> y = [] \<or> entry_type_str (se_type x) = upper y) \<and>
        (case st of None \<Rightarrow> True | Some y \<Rightarrow> y = [] \<or> doc_status_str (se_status x) = upper y))
       (stock_entries s))"

subsection \<open>Movements of one line\<close>

definition movement_row ::
    "stock_entry \<Rightarrow> stock_entry_item \<Rightarrow> uuid \<Rightarrow> dec \<Rightarrow> dec \<Rightarrow> dec \<Rightarrow> dec \<Rightarrow> dec \<Rightarrow> dec \<Rightarrow> stock_ledger_entry" where
  "movement_row x l w actual after in_rate out_rate rate v =
     \<lparr>sle_tenant = se_tenant x, sle_time = (se_date x, se_time x), sle_item = sei_item l,
      sle_warehouse = w, sle_actual = actual, sle_after = after, sle_in_rate = in_rate,
      sle_out_rate = out_rate, sle_rate = rate, sle_value = v, sle_source_type = ''STOCK_ENTRY'',
      sle_source_id = se_id x, sle_lot = sei_batch l, sle_serial = sei_serial l\<rparr>"

text \<open>Into a warehouse: the valuation becomes the weighted average.\<close>

definition receive_into :: "stock_entry \<Rightarrow> stock_entry_item \<Rightarrow> uuid \<Rightarrow> dec \<Rightarrow> db \<Rightarrow> db result" where
  "receive_into x l w rate s =
     ebind (get_or_create_stock_level (se_tenant x) (sei_item l) w s) (\<lambda>(lv, s1).
       let qty = sei_qty l; prev_qty = sl_current lv; new_qty = dadd prev_qty qty in
       ebind (if new_qty > 0 then ddiv (dadd (dmul prev_qty (sl_rate lv)) (dmul qty rate)) new_qty
              else Inr rate) (\<lambda>valuation.
       ebind (put_level (lv\<lparr>sl_current := new_qty, sl_available := dsub new_qty (sl_reserved lv),
                sl_rate := valuation\<rparr>) s1) (\<lambda>s2.
         add_sle (movement_row x l w qty new_qty rate 0 valuation (dmul qty rate)) s2)))"

text \<open>Out of a warehouse, with or without the check of the quantity on hand.\<close>

definition issue_from ::
    "bool \<Rightarrow> (dec \<Rightarrow> exn) \<Rightarrow> stock_entry \<Rightarrow> stock_entry_item \<Rightarrow> uuid \<Rightarrow> db \<Rightarrow> (dec \<times> db) result" where
  "issue_from check err x l w s =
     ebind (get_or_create_stock_level (se_tenant x) (sei_item l) w s) (\<lambda>(lv, s1).
       let qty = sei_qty l in
       if check \<and> sl_current lv < qty then Inl (err (sl_current lv))
       else let new_qty = dsub (sl_current lv) qty;
                rate = (if sei_rate l > 0 then sei_rate l else sl_rate lv)
            in ebind (put_level (lv\<lparr>sl_current := new_qty, sl_available := dsub new_qty (sl_reserved lv)\<rparr>) s1) (\<lambda>s2.
               ebind (add_sle (movement_row x l w (dneg qty) new_qty 0 rate (sl_rate lv) (dneg (dmul qty rate))) s2)
                 (\<lambda>s3. Inr (rate, s3))))"

definition stock_pair :: "stock_entry \<Rightarrow> string \<Rightarrow> string \<Rightarrow> dec \<Rightarrow> db \<Rightarrow> db result" where
  "stock_pair x debit_acct credit_acct v s =
     (if v > 0 then direct_pair (se_tenant x) (se_date x) debit_acct credit_acct ''DEFAULT'' v ''USD''
                      ''STOCK_ENTRY'' (se_id x) s
      else Inr s)"

definition move_line :: "env \<Rightarrow> stock_entry \<Rightarrow> stock_entry_item \<Rightarrow> db \<Rightarrow> db result" where
  "move_line e x l s =
     (case se_type x of
        MATERIAL_RECEIPT \<Rightarrow>
          (case sei_target l of
             None \<Rightarrow> Inl (ValueError (''Target warehouse required for Receipt on item '' @ str_uuid (sei_item l) @ ''.''))
           | Some w \<Rightarrow>
               ebind (receive_into x l w (sei_rate l) s) (\<lambda>s1.
                 stock_pair x ''1300-STOCK-IN-HAND'' ''5200-STOCK-ADJUSTMENT'' (dmul (sei_qty l) (sei_rate l)) s1))
      | MATERIAL_ISSUE \<Rightarrow>
          (case sei_source l of
             None \<Rightarrow> Inl (ValueError (''Source warehouse required for Issue on item '' @ str_uuid (sei_item l) @ ''.''))
           | Some w \<Rightarrow>
               ebind (issue_from True (\<lambda>q. ValueError (''Insufficient stock for item '' @ str_uuid (sei_item l)
                        @ '' in source warehouse. Available: '' @ dec_str e q @ '', Requested: ''
                        @ dec_str e (sei_qty l))) x l w s) (\<lambda>(rate, s1).
                 stock_pair x ''5200-STOCK-ADJUSTMENT'' ''1300-STOCK-IN-HAND'' (dmul (sei_qty l) rate) s1))
      | MATERIAL_TRANSFER \<Rightarrow>
          (case (sei_source l, sei_target l) of
             (Some v, Some w) \<Rightarrow>
               ebind (issue_from True (\<lambda>q. ValueError (''Insufficient stock for transfer in source warehouse. Available: ''
                        @ dec_str e q @ '', Requested: '' @ dec_str e (sei_qty l))) x l v s)
                 (\<lambda>(rate, s1). receive_into x l w rate s1)
           | _ \<Rightarrow> Inl (ValueError (''Both source and target warehouses required for Transfer on item ''
                     @ str_uuid (sei_item l) @ ''.'')))
      | _ \<Rightarrow>
          (case (sei_source l, sei_target l) of
             (Some v, None) \<Rightarrow> ebind (issue_from False (\<lambda>_. RuntimeError []) x l v s) (\<lambda>(rate, s1). Inr s1)
           | (None, Some w) \<Rightarrow> receive_into x l w (sei_rate l) s
           | _ \<Rightarrow> Inr s))"

definition move_serial :: "stock_entry \<Rightarrow> stock_entry_item \<Rightarrow> db \<Rightarrow> db result" where
  "move_serial x l s =
     (case sei_serial l of
        None \<Rightarrow> Inr s
      | Some sn \<Rightarrow>
          if sn = [] then Inr s
          else ebind (one_or_none (filter (\<lambda>r. sn_tenant r = se_tenant x \<and> sn_number r = sn) (serials s))) (\<lambda>r.
            if r = None then Inr s
            else let upd = (\<lambda>f. s\<lparr>serials := update_where
                       (\<lambda>r. sn_tenant r = se_tenant x \<and> sn_number r = sn) f (serials s)\<rparr>)
              in Inr (if se_type x = MATERIAL_RECEIPT \<or> se_type x = MATERIAL_TRANSFER
                   then upd (\<lambda>r. r\<lparr>sn_warehouse := sei_target l, sn_status := SERIAL_ACTIVE\<rparr>)
                   else if se_type x = MATERIAL_ISSUE
                   then upd (\<lambda>r. r\<lparr>sn_warehouse := None, sn_status := SERIAL_DELIVERED\<rparr>)
                   else s)))"

definition submit_line :: "env \<Rightarrow> stock_entry \<Rightarrow> db \<Rightarrow> stock_entry_item \<Rightarrow> db result" where
  "submit_line e x s l = ebind (move_line e x l s) (move_serial x l)"

definition set_entry_status :: "stock_entry \<Rightarrow> doc_status \<Rightarrow> db \<Rightarrow> db" where
  "set_entry_status x st s =
     s\<lparr>stock_entries := update_where (\<lambda>y. se_tenant y = se_tenant x \<and> se_id y = se_id x)
        (\<lambda>y. y\<lparr>se_status := st\<rparr>) (stock_entries s)\<rparr>"

definition submit_stock_entry :: "env \<Rightarrow> uuid \<Rightarrow> uuid \<Rightarrow> db \<Rightarrow> (stock_entry \<times> db) result" where
  "submit_stock_entry e t i s =
     ebind (get_stock_entry t i s) (\<lambda>r.
       case r of
         None \<Rightarrow> Inl (ValueError (''Stock Entry '' @ str_uuid i @ '' not found.''))
       | Some x \<Rightarrow>
           if se_status x \<noteq> DRAFT
           then Inl (ValueError (''Cannot submit Stock Entry in status '' @ quoted (doc_status_str (se_status x)) @ ''.''))
           else ebind (efold (submit_line e x) s (se_items x)) (\<lambda>s1.
                ebind (settle (set_entry_status x SUBMITTED s1)) (\<lambda>s2.
                  Inr (x\<lparr>se_status := SUBMITTED\<rparr>, s2))))"

definition cancel_stock_entry :: "uuid \<Rightarrow> uuid \<Rightarrow> db \<Rightarrow> (stock_entry \<times> db) result" where
  "cancel_stock_entry t i s =
     ebind (get_stock_entry t i s) (\<lambda>r.
       case r of
         None \<Rightarrow> Inl (ValueError (''Stock Entry '' @ str_uuid i @ '' not found.''))
       | Some x \<Rightarrow>
           if se_status x \<noteq> SUBMITTED
           then Inl (ValueError (''Only SUBMITTED entries can be cancelled. Current: '' @ doc_status_str (se_status x)))
           else Inr (x\<lparr>se_status := CANCELLED\<rparr>, set_entry_status x CANCELLED s))"

subsection \<open>Effect of a movement\<close>

definition moved :: "db \<Rightarrow> db \<Rightarrow> uuid \<times> uuid \<times> uuid \<Rightarrow> dec \<Rightarrow> bool" where
  "moved s s' k d \<longleftrightarrow>
     (\<exists>ls y. s' = s\<lparr>stock_levels := ls, stock_ledger := stock_ledger s @ [y]\<rparr> \<and> sle_key y = k \<and> sle_actual y = d)"

lemma moved_qty: "moved s s' k d \<Longrightarrow> ledger_sum s' P = ledger_sum s P + (if P k then d else 0)"
  by (auto simp: moved_def ledger_sum_def)

lemma moved_frame:
  "moved s s' k d \<Longrightarrow> gl_entries s' = gl_entries s \<and> audit_logs s' = audit_logs s \<and>
     stock_entries s' = stock_entries s \<and> reservations s' = reservations s"
  by (auto simp: moved_def)

lemma movement_row_simps [simp]:
  "sle_key (movement_row x l w a b c d v z) = (se_tenant x, sei_item l, w)"
  "sle_actual (movement_row x l w a b c d v z) = a"
  by (simp_all add: movement_row_def sle_key_def)

lemma level_key_update [simp]:
  "level_key (l\<lparr>sl_current := c\<rparr>) = level_key l" "level_key (l\<lparr>sl_available := c\<rparr>) = level_key l"
  "level_key (l\<lparr>sl_rate := c\<rparr>) = level_key l" "level_key (l\<lparr>sl_reserved := c\<rparr>) = level_key l"
  by (simp_all add: level_key_def)

lemma stock_ok_level: "stock_ok s \<Longrightarrow> l \<in> set (stock_levels s) \<Longrightarrow> level_ok s l"
  by (simp add: stock_ok_def list_all_iff)

lemma level_ok_columns: "level_ok s l \<Longrightarrow> column_amount (sl_current l) \<and> column_amount (sl_reserved l)"
  unfolding level_ok_def by blast

lemma numeric_bound: "numeric 18 4 x = Inr y \<Longrightarrow> places 4 x \<Longrightarrow> column_amount x"
  using numeric_keeps by blast

lemma put_level_column: "put_level l s = Inr s' \<Longrightarrow> places 4 (sl_current l) \<Longrightarrow> column_amount (sl_current l)"
  by (auto simp: put_level_def level_columns_def ebind_eq_Inr dest: numeric_bound)

lemma put_add_moved:
  assumes "put_level l s = Inr s1" "add_sle x s1 = Inr s'" "places 4 (sle_actual x)"
  shows "moved s s' (sle_key x) (sle_actual x)"
proof -
  obtain ls where "s1 = s\<lparr>stock_levels := ls\<rparr>" using assms(1) put_level_Inr by blast
  with add_sle_Inr [OF assms(2,3)] show ?thesis by (auto simp: moved_def)
qed

lemma moved_after_create:
  "moved (s\<lparr>stock_levels := ls\<rparr>) s' k d \<Longrightarrow> moved s s' k d"
  by (auto simp: moved_def)

lemma receive_into_ok:
  assumes "receive_into x l w rate s = Inr s'" "stock_ok s" "column_amount (sei_qty l)"
  shows "stock_ok s' \<and> moved s s' (se_tenant x, sei_item l, w) (sei_qty l)"
proof -
  obtain lv s1 v s2 where 1: "get_or_create_stock_level (se_tenant x) (sei_item l) w s = Inr (lv, s1)"
    and 2: "put_level (lv\<lparr>sl_current := dadd (sl_current lv) (sei_qty l),
      sl_available := dsub (dadd (sl_current lv) (sei_qty l)) (sl_reserved lv), sl_rate := v\<rparr>) s1 = Inr s2"
      (is "put_level ?l' s1 = _")
    and 3: "add_sle (movement_row x l w (sei_qty l) (dadd (sl_current lv) (sei_qty l)) rate 0 v
      (dmul (sei_qty l) rate)) s2 = Inr s'"
    using assms(1) by (auto simp: receive_into_def Let_def ebind_eq_Inr)
  obtain ls where g: "stock_ok s1" "lv \<in> set (stock_levels s1)" "level_key lv = (se_tenant x, sei_item l, w)"
    "s1 = s\<lparr>stock_levels := stock_levels s @ ls\<rparr>"
    using get_or_create_ok [OF assms(2) 1] by blast
  have lok: "level_ok s1 lv" using stock_ok_level g by blast
  have cols: "column_amount (sl_current lv)" "column_amount (sl_reserved lv)"
    using level_ok_columns [OF lok] by auto
  have add: "dadd (sl_current lv) (sei_qty l) = sl_current lv + sei_qty l"
    using cols assms(3) by (intro dadd_column)
  have "column_amount (sl_current ?l')"
    using put_level_column [OF 2] cols assms(3) by (auto simp: add column_amount_def)
  then have sub: "dsub (sl_current lv + sei_qty l) (sl_reserved lv) = sl_current lv + sei_qty l - sl_reserved lv"
    using cols by (intro dsub_column) (auto simp: add)
  have "stock_ok s'"
    by (rule movement_ok [OF g(1,2) _ _ _ _ 2 _ _ _ 3, of "sei_qty l"])
      (use assms(3) in \<open>simp_all add: add sub g(3)\<close>)
  moreover have "moved s1 s' (se_tenant x, sei_item l, w) (sei_qty l)"
    using put_add_moved [OF 2 3] assms(3) by (simp add: column_amount_def)
  ultimately show ?thesis using moved_after_create g(4) by blast
qed

lemma issue_from_ok:
  assumes "issue_from check err x l w s = Inr (rate, s')" "stock_ok s" "column_amount (sei_qty l)"
  shows "stock_ok s' \<and> moved s s' (se_tenant x, sei_item l, w) (- sei_qty l) \<and>
    (check \<longrightarrow> sei_qty l \<le> ledger_qty s (se_tenant x, sei_item l, w))"
proof -
  obtain lv s1 s2 where 1: "get_or_create_stock_level (se_tenant x) (sei_item l) w s = Inr (lv, s1)"
    and chk: "\<not> (check \<and> sl_current lv < sei_qty l)"
    and 2: "put_level (lv\<lparr>sl_current := dsub (sl_current lv) (sei_qty l),
      sl_available := dsub (dsub (sl_current lv) (sei_qty l)) (sl_reserved lv)\<rparr>) s1 = Inr s2"
      (is "put_level ?l' s1 = _")
    and 3: "add_sle (movement_row x l w (dneg (sei_qty l)) (dsub (sl_current lv) (sei_qty l)) 0 rate
      (sl_rate lv) (dneg (dmul (sei_qty l) rate))) s2 = Inr s'"
    using assms(1) by (auto simp: issue_from_def Let_def ebind_eq_Inr split: if_splits)
  obtain ls where g: "stock_ok s1" "lv \<in> set (stock_levels s1)" "level_key lv = (se_tenant x, sei_item l, w)"
    "s1 = s\<lparr>stock_levels := stock_levels s @ ls\<rparr>"
    using get_or_create_ok [OF assms(2) 1] by blast
  have lok: "level_ok s1 lv" using stock_ok_level g by blast
  have cols: "column_amount (sl_current lv)" "column_amount (sl_reserved lv)"
    using level_ok_columns [OF lok] by auto
  have sub: "dsub (sl_current lv) (sei_qty l) = sl_current lv - sei_qty l"
    using cols assms(3) by (intro dsub_column)
  have neg: "dneg (sei_qty l) = - sei_qty l"
    using dsub_column [OF column_0 assms(3)] by (simp add: dneg_def dsub_def)
  have "column_amount (sl_current ?l')"
    using put_level_column [OF 2] cols assms(3) by (auto simp: sub column_amount_def)
  then have av: "dsub (sl_current lv - sei_qty l) (sl_reserved lv) = sl_current lv - sei_qty l - sl_reserved lv"
    using cols by (intro dsub_column) (auto simp: sub)
  have d: "column_amount (- sei_qty l)" using assms(3) by (auto simp: column_amount_def)
  have "stock_ok s'"
    by (rule movement_ok [OF g(1,2) _ _ _ _ 2 d _ _ 3]) (simp_all add: sub av neg g(3))
  moreover have "moved s1 s' (se_tenant x, sei_item l, w) (- sei_qty l)"
    using put_add_moved [OF 2 3] d by (simp add: neg column_amount_def)
  moreover have "sl_current lv = ledger_qty s (se_tenant x, sei_item l, w)"
    using lok g(3,4) by (simp add: level_ok_def ledger_qty_def)
  ultimately show ?thesis using moved_after_create g(4) chk by auto
qed

subsection \<open>Effect of a submission\<close>

text \<open>What one line and a whole entry add to the stock ledger under the keys of a set.\<close>

definition line_delta :: "stock_entry \<Rightarrow> stock_entry_item \<Rightarrow> (uuid \<times> uuid \<times> uuid \<Rightarrow> bool) \<Rightarrow> dec" where
  "line_delta x l P =
     (let into = (\<lambda>w. if w \<noteq> None \<and> P (se_tenant x, sei_item l, the w) then sei_qty l else 0);
          out = (\<lambda>w. if w \<noteq> None \<and> P (se_tenant x, sei_item l, the w) then - sei_qty l else 0)
      in case se_type x of
           MATERIAL_RECEIPT \<Rightarrow> into (sei_target l)
         | MATERIAL_ISSUE \<Rightarrow> out (sei_source l)
         | MATERIAL_TRANSFER \<Rightarrow> out (sei_source l) + into (sei_target l)
         | _ \<Rightarrow> (if sei_target l = None then out (sei_source l)
                  else if sei_source l = None then into (sei_target l) else 0))"

text \<open>The frame of a submission: levels, ledgers, serial numbers and identifiers only.\<close>

definition stock_frame :: "db \<Rightarrow> db \<Rightarrow> bool" where
  "stock_frame s s' \<longleftrightarrow>
     audit_logs s' = audit_logs s \<and> stock_entries s' = stock_entries s \<and> reservations s' = reservations s \<and>
     outbox s' = outbox s \<and> fiscal_periods s' = fiscal_periods s"

lemma stock_frame_refl [simp]: "stock_frame s s"
  by (simp add: stock_frame_def)

lemma stock_frame_trans: "stock_frame s u \<Longrightarrow> stock_frame u s' \<Longrightarrow> stock_frame s s'"
  by (simp add: stock_frame_def)

lemma moved_stock_frame: "moved s s' k d \<Longrightarrow> stock_frame s s' \<and> gl_entries s' = gl_entries s"
  by (auto simp: moved_def stock_frame_def)

definition grows_balanced :: "db \<Rightarrow> db \<Rightarrow> bool" where
  "grows_balanced s s' \<longleftrightarrow> (\<exists>gs. gl_entries s' = gl_entries s @ gs \<and> posted gs)"

lemma grows_balanced_same: "gl_entries s' = gl_entries s \<Longrightarrow> grows_balanced s s'"
  using posted_Nil by (auto simp: grows_balanced_def)

lemma grows_balanced_block:
  "balanced_block t tx gs \<Longrightarrow> gl_entries s' = gl_entries s @ gs \<Longrightarrow> grows_balanced s s'"
  using block_posted by (auto simp: grows_balanced_def)

lemma grows_balanced_books: "grows_balanced s s' \<Longrightarrow> books_balanced s \<Longrightarrow> books_balanced s'"
  by (auto simp: grows_balanced_def intro: posted_books)

lemma grows_balanced_trans: "grows_balanced s u \<Longrightarrow> grows_balanced u s' \<Longrightarrow> grows_balanced s s'"
  by (auto simp: grows_balanced_def intro: posted_append)

definition ledger_grows :: "db \<Rightarrow> db \<Rightarrow> bool" where
  "ledger_grows s s' \<longleftrightarrow> grows_balanced s s' \<and> audit_logs s' = audit_logs s"

lemma ledger_grows_same: "gl_entries s' = gl_entries s \<Longrightarrow> audit_logs s' = audit_logs s \<Longrightarrow> ledger_grows s s'"
  by (simp add: ledger_grows_def grows_balanced_same)

lemma ledger_grows_trans: "ledger_grows s u \<Longrightarrow> ledger_grows u s' \<Longrightarrow> ledger_grows s s'"
  by (auto simp: ledger_grows_def intro: grows_balanced_trans)

text \<open>The contract of a service that posts without the ledger engine: balanced blocks, no audit record.\<close>

locale direct_poster =
  fixes op :: "db \<Rightarrow> db \<Rightarrow> bool"
  assumes grows: "op s s' \<Longrightarrow> ledger_grows s s'"
begin

lemma keeps_posted: "posted (gl_entries s) \<Longrightarrow> op s s' \<Longrightarrow> posted (gl_entries s')"
  using grows posted_append by (fastforce simp: ledger_grows_def grows_balanced_def)

lemma keeps_books: "books_balanced s \<Longrightarrow> op s s' \<Longrightarrow> books_balanced s'"
  using grows grows_balanced_books by (auto simp: ledger_grows_def)

lemma keeps_audit: "op s s' \<Longrightarrow> audit_logs s' = audit_logs s"
  using grows by (simp add: ledger_grows_def)

lemma many_steps: "op\<^sup>*\<^sup>* s s' \<Longrightarrow> ledger_grows s s'"
  by (induction rule: rtranclp_induct) (auto simp: ledger_grows_same intro: grows ledger_grows_trans)

end

text \<open>\<open>effect s s' f\<close>: a step that keeps the invariants and moves the stock ledger by \<open>f\<close>.\<close>

definition effect :: "db \<Rightarrow> db \<Rightarrow> ((uuid \<times> uuid \<times> uuid \<Rightarrow> bool) \<Rightarrow> dec) \<Rightarrow> bool" where
  "effect s s' f \<longleftrightarrow>
     stock_ok s' \<and> stock_frame s s' \<and> grows_balanced s s' \<and> (\<forall>P. ledger_sum s' P = ledger_sum s P + f P)"

lemma effect_stock_ok: "effect s s' f \<Longrightarrow> stock_ok s'"
  by (simp add: effect_def)

lemma effect_refl: "stock_ok s \<Longrightarrow> effect s s (\<lambda>k. 0)"
  by (simp add: effect_def grows_balanced_same)

lemma effect_trans:
  assumes "effect s u f" "effect u s' g"
  shows "effect s s' (\<lambda>k. f k + g k)"
  using assms by (auto simp: effect_def add.assoc intro: stock_frame_trans grows_balanced_trans)

lemma effect_cong: "effect s s' f \<Longrightarrow> (\<And>k. f k = g k) \<Longrightarrow> effect s s' g"
  by (simp add: effect_def)

definition at_key :: "uuid \<times> uuid \<times> uuid \<Rightarrow> dec \<Rightarrow> (uuid \<times> uuid \<times> uuid \<Rightarrow> bool) \<Rightarrow> dec" where
  "at_key k d P = (if P k then d else 0)"

lemma effect_moved:
  assumes "stock_ok s'" "moved s s' k d"
  shows "effect s s' (at_key k d)"
  using assms moved_stock_frame [OF assms(2)] moved_qty [OF assms(2)]
  by (simp add: effect_def grows_balanced_same at_key_def)

lemma receive_effect:
  "receive_into x l w rate s = Inr s' \<Longrightarrow> stock_ok s \<Longrightarrow> column_amount (sei_qty l) \<Longrightarrow>
     effect s s' (at_key (se_tenant x, sei_item l, w) (sei_qty l))"
  using receive_into_ok effect_moved by blast

lemma issue_effect:
  "issue_from check err x l w s = Inr (rate, s') \<Longrightarrow> stock_ok s \<Longrightarrow> column_amount (sei_qty l) \<Longrightarrow>
     effect s s' (at_key (se_tenant x, sei_item l, w) (- sei_qty l))"
  using issue_from_ok effect_moved by blast

lemma pair_effect:
  assumes "stock_pair x da ca v s = Inr s'" "stock_ok s"
  shows "effect s s' (\<lambda>k. 0)"
proof (cases "v > 0")
  case True
  with assms(1) have "direct_pair (se_tenant x) (se_date x) da ca ''DEFAULT'' v ''USD'' ''STOCK_ENTRY''
      (se_id x) s = Inr s'" by (simp only: stock_pair_def if_True)
  then obtain n rows where r: "s' = s\<lparr>next_id := n, gl_entries := gl_entries s @ rows\<rparr>"
    "balanced_block (se_tenant x) (next_id s) rows"
    by (blast dest: direct_pair_Inr)
  have "stock_ok s'" using stock_ok_cong [of s' s] assms(2) r by simp
  moreover have "grows_balanced s s'"
    by (rule grows_balanced_block [OF r(2)]) (simp add: r(1))
  ultimately show ?thesis by (simp add: effect_def stock_frame_def r(1) ledger_sum_def)
next
  case False
  then show ?thesis using assms effect_refl by (simp add: stock_pair_def)
qed

lemma line_delta_cases:
  "se_type x = MATERIAL_RECEIPT \<Longrightarrow> sei_target l = Some w \<Longrightarrow>
     line_delta x l = at_key (se_tenant x, sei_item l, w) (sei_qty l)"
  "se_type x = MATERIAL_ISSUE \<Longrightarrow> sei_source l = Some v \<Longrightarrow>
     line_delta x l = at_key (se_tenant x, sei_item l, v) (- sei_qty l)"
  "se_type x = MATERIAL_TRANSFER \<Longrightarrow> sei_source l = Some v \<Longrightarrow> sei_target l = Some w \<Longrightarrow>
     line_delta x l = (\<lambda>k. at_key (se_tenant x, sei_item l, v) (- sei_qty l) k +
       at_key (se_tenant x, sei_item l, w) (sei_qty l) k)"
  "se_type x \<in> {MANUFACTURE, REPACK} \<Longrightarrow> sei_source l = Some v \<Longrightarrow> sei_target l = None \<Longrightarrow>
     line_delta x l = at_key (se_tenant x, sei_item l, v) (- sei_qty l)"
  "se_type x \<in> {MANUFACTURE, REPACK} \<Longrightarrow> sei_source l = None \<Longrightarrow> sei_target l = Some w \<Longrightarrow>
     line_delta x l = at_key (se_tenant x, sei_item l, w) (sei_qty l)"
  by (auto simp: line_delta_def at_key_def fun_eq_iff)

lemma production_effect:
  assumes "move_line e x l s = Inr s'" "stock_ok s" "column_amount (sei_qty l)"
    and "se_type x \<in> {MANUFACTURE, REPACK}"
  shows "effect s s' (line_delta x l)"
proof -
  have m: "move_line e x l s = (case (sei_source l, sei_target l) of
             (Some v, None) \<Rightarrow> ebind (issue_from False (\<lambda>_. RuntimeError []) x l v s) (\<lambda>(rate, s1). Inr s1)
           | (None, Some w) \<Rightarrow> receive_into x l w (sei_rate l) s
           | _ \<Rightarrow> Inr s)"
    using assms(4) by (auto simp: move_line_def)
  consider (out) v where "sei_source l = Some v" "sei_target l = None"
    | (into) w where "sei_source l = None" "sei_target l = Some w"
    | (both) "(sei_source l = None) = (sei_target l = None)"
    by fastforce
  then show ?thesis
  proof cases
    case out
    then obtain rate where "issue_from False (\<lambda>_. RuntimeError []) x l v s = Inr (rate, s')"
      using assms(1) m by (auto simp: ebind_eq_Inr)
    from issue_effect [OF this assms(2,3)] show ?thesis using line_delta_cases(4) assms(4) out by simp
  next
    case into
    then have "receive_into x l w (sei_rate l) s = Inr s'" using assms(1) m by simp
    from receive_effect [OF this assms(2,3)] show ?thesis using line_delta_cases(5) assms(4) into by simp
  next
    case both
    then have "s' = s" using assms(1) m by (auto split: option.splits)
    moreover have "line_delta x l P = 0" for P
      using both assms(4) by (auto simp: line_delta_def)
    ultimately show ?thesis using effect_cong [OF effect_refl [OF assms(2)]] by simp
  qed
qed

lemma move_line_effect:
  assumes "move_line e x l s = Inr s'" "stock_ok s" "column_amount (sei_qty l)"
  shows "effect s s' (line_delta x l)"
proof (cases "se_type x")
  case MATERIAL_RECEIPT
  then obtain w u where 1: "sei_target l = Some w" "receive_into x l w (sei_rate l) s = Inr u"
    "stock_pair x ''1300-STOCK-IN-HAND'' ''5200-STOCK-ADJUSTMENT'' (dmul (sei_qty l) (sei_rate l)) u = Inr s'"
    using assms(1) by (auto simp: move_line_def ebind_eq_Inr split: option.splits)
  note r = receive_effect [OF 1(2) assms(2,3)]
  from effect_trans [OF r pair_effect [OF 1(3) effect_stock_ok [OF r]]]
  show ?thesis by (simp add: line_delta_cases(1) [OF MATERIAL_RECEIPT 1(1)] flip: fun_eq_iff)
next
  case MATERIAL_ISSUE
  then obtain w rate u err where 1: "sei_source l = Some w" "issue_from True err x l w s = Inr (rate, u)"
    "stock_pair x ''5200-STOCK-ADJUSTMENT'' ''1300-STOCK-IN-HAND'' (dmul (sei_qty l) rate) u = Inr s'"
    using assms(1) by (auto simp: move_line_def ebind_eq_Inr split: option.splits)
  note r = issue_effect [OF 1(2) assms(2,3)]
  from effect_trans [OF r pair_effect [OF 1(3) effect_stock_ok [OF r]]]
  show ?thesis by (simp add: line_delta_cases(2) [OF MATERIAL_ISSUE 1(1)] flip: fun_eq_iff)
next
  case MATERIAL_TRANSFER
  then obtain v w rate u err where 1: "sei_source l = Some v" "sei_target l = Some w"
    "issue_from True err x l v s = Inr (rate, u)"
    "receive_into x l w rate u = Inr s'"
    using assms(1) by (auto simp: move_line_def ebind_eq_Inr split: option.splits)
  note r = issue_effect [OF 1(3) assms(2,3)]
  from effect_trans [OF r receive_effect [OF 1(4) effect_stock_ok [OF r] assms(3)]]
  show ?thesis by (simp add: line_delta_cases(3) [OF MATERIAL_TRANSFER 1(1,2)])
qed (use production_effect [OF assms] in simp_all)

lemma move_serial_same:
  "move_serial x l s = Inr s' \<Longrightarrow> s'\<lparr>serials := []\<rparr> = s\<lparr>serials := []\<rparr>"
  by (auto simp: move_serial_def ebind_eq_Inr Let_def split: option.splits if_splits)

lemma move_serial_frame:
  assumes "move_serial x l s = Inr s'"
  shows "\<exists>z. s' = s\<lparr>serials := z\<rparr>"
proof -
  have "s' = (s'\<lparr>serials := []\<rparr>)\<lparr>serials := serials s'\<rparr>" by simp
  also have "\<dots> = s\<lparr>serials := serials s'\<rparr>" unfolding move_serial_same [OF assms] by simp
  finally show ?thesis by blast
qed

lemma submit_line_effect:
  assumes "submit_line e x s l = Inr s'" "stock_ok s" "column_amount (sei_qty l)"
  shows "effect s s' (line_delta x l)"
proof -
  obtain u where u: "move_line e x l s = Inr u" "move_serial x l u = Inr s'"
    using assms(1) by (auto simp: submit_line_def ebind_eq_Inr)
  obtain z where z: "s' = u\<lparr>serials := z\<rparr>" using move_serial_frame [OF u(2)] by blast
  have "stock_ok s' = stock_ok u" by (rule stock_ok_cong) (simp_all add: z)
  moreover have "books_balanced s' = books_balanced u" by (simp add: books_balanced_def z)
  ultimately show ?thesis
    using move_line_effect [OF u(1) assms(2,3)]
    by (simp add: effect_def stock_frame_def grows_balanced_def z ledger_sum_def)
qed

definition entry_delta :: "stock_entry \<Rightarrow> (uuid \<times> uuid \<times> uuid \<Rightarrow> bool) \<Rightarrow> dec" where
  "entry_delta x P = (\<Sum>l\<leftarrow>se_items x. line_delta x l P)"

lemma submit_lines_effect:
  assumes "efold (submit_line e x) s ls = Inr s'" "stock_ok s" "\<forall>l \<in> set ls. column_amount (sei_qty l)"
  shows "effect s s' (\<lambda>k. \<Sum>l\<leftarrow>ls. line_delta x l k)"
  using assms
proof (induction ls arbitrary: s)
  case Nil
  then show ?case using effect_refl by simp
next
  case (Cons l ls)
  then obtain u where u: "submit_line e x s l = Inr u" "efold (submit_line e x) u ls = Inr s'"
    by (auto simp: ebind_eq_Inr)
  have e: "effect s u (line_delta x l)" using submit_line_effect u(1) Cons.prems by simp
  have "effect u s' (\<lambda>k. \<Sum>l\<leftarrow>ls. line_delta x l k)"
    using Cons.IH [OF u(2) effect_stock_ok [OF e]] Cons.prems(3) by simp
  from effect_trans [OF e this] show ?case by simp
qed

lemma get_stock_entry_Some:
  "get_stock_entry t i s = Inr (Some x) \<Longrightarrow> x \<in> set (stock_entries s) \<and> se_tenant x = t \<and> se_id x = i"
  unfolding get_stock_entry_def by (drule one_or_none_filter) simp

lemma set_entry_status_documents [simp]: "documents_ok (set_entry_status x st s) = documents_ok s"
  by (simp add: documents_ok_def set_entry_status_def list_all_update_where)

lemma set_entry_status_frame [simp]:
  "stock_levels (set_entry_status x st s) = stock_levels s"
  "stock_ledger (set_entry_status x st s) = stock_ledger s"
  "gl_entries (set_entry_status x st s) = gl_entries s"
  "audit_logs (set_entry_status x st s) = audit_logs s"
  by (simp_all add: set_entry_status_def)

lemma submit_Inr:
  assumes "submit_stock_entry e t i s = Inr (y, s')" "stock_ok s"
  obtains x where "x \<in> set (stock_entries s)" "se_tenant x = t" "se_id x = i" "se_status x = DRAFT"
    "y = x\<lparr>se_status := SUBMITTED\<rparr>" "stock_ok s'" "grows_balanced s s'" "audit_logs s' = audit_logs s"
    "\<And>P. ledger_sum s' P = ledger_sum s P + entry_delta x P"
    "\<exists>u. efold (submit_line e x) s (se_items x) = Inr u \<and> stock_ledger s' = stock_ledger u"
proof -
  obtain x u where x: "get_stock_entry t i s = Inr (Some x)" "se_status x = DRAFT"
    and u: "efold (submit_line e x) s (se_items x) = Inr u" "settle (set_entry_status x SUBMITTED u) = Inr s'"
    and y: "y = x\<lparr>se_status := SUBMITTED\<rparr>"
    using assms(1) by (auto simp: submit_stock_entry_def ebind_eq_Inr split: option.splits if_splits)
  note mem = get_stock_entry_Some [OF x(1)]
  have "\<forall>l \<in> set (se_items x). column_amount (sei_qty l)"
    using assms(2) mem by (auto simp: stock_ok_def documents_ok_def list_all_iff)
  then have e: "effect s u (entry_delta x)"
    using submit_lines_effect [OF u(1) assms(2)] by (simp add: entry_delta_def [abs_def])
  have "stock_ok (set_entry_status x SUBMITTED u) = stock_ok u" by (rule stock_ok_cong) simp_all
  then have ok: "stock_ok s'" using settle_ok u(2) effect_stock_ok [OF e] by blast
  obtain ls where s': "s' = (set_entry_status x SUBMITTED u)\<lparr>stock_levels := ls\<rparr>"
    using settle_frame [OF u(2)] by blast
  have "books_balanced s' = books_balanced u" "\<And>P. ledger_sum s' P = ledger_sum u P"
    by (simp_all add: books_balanced_def ledger_sum_def s')
  with e ok mem x(2) y u(1) show thesis
    by (intro that [of x]) (auto simp: effect_def grows_balanced_def stock_frame_def s')
qed

lemma create_Inr:
  assumes "create_stock_entry e t number ty d tm purpose from to notes xs s = Inr (x, s')"
  shows "se_tenant x = t \<and> se_status x = DRAFT \<and> length (se_items x) = length xs \<and>
    (\<forall>l \<in> set (se_items x). column_amount (sei_qty l)) \<and>
    s' = s\<lparr>next_id := Suc (next_id s), stock_entries := stock_entries s @ [x]\<rparr>"
proof -
  have col: "column_amount (sei_qty m)" if "emap line_columns ls = Inr ms" "m \<in> set ms" for ls ms m
    using emap_set [OF that] by (auto simp: line_columns_def ebind_eq_Inr dest: numeric_column)
  show ?thesis
    using assms
    by (auto simp: create_stock_entry_def Let_def uuid4_def ebind_eq_Inr split: option.splits if_splits
        dest: col emap_length)
qed

lemma cancel_Inr:
  assumes "cancel_stock_entry t i s = Inr (y, s')"
  obtains x where "get_stock_entry t i s = Inr (Some x)" "se_status x = SUBMITTED"
    "s' = set_entry_status x CANCELLED s"
  using assms by (auto simp: cancel_stock_entry_def ebind_eq_Inr split: option.splits if_splits)

subsection \<open>The service is a stock service\<close>

definition stock_entry_step :: "db \<Rightarrow> db \<Rightarrow> bool" where
  "stock_entry_step s s' \<longleftrightarrow>
     (\<exists>e t number ty d tm purpose from to notes xs x.
        create_stock_entry e t number ty d tm purpose from to notes xs s = Inr (x, s')) \<or>
     (\<exists>e t i x. submit_stock_entry e t i s = Inr (x, s')) \<or>
     (\<exists>t i x. cancel_stock_entry t i s = Inr (x, s'))"

lemma create_keeps:
  assumes "create_stock_entry e t number ty d tm purpose from to notes xs s = Inr (x, s')" "stock_ok s"
  shows "stock_ok s' \<and> grows_balanced s s' \<and> audit_logs s' = audit_logs s"
proof -
  note c = create_Inr [OF assms(1)]
  then have "documents_ok s' = documents_ok s" by (auto simp: documents_ok_def list_all_iff)
  then have "stock_ok s' = stock_ok s" using c by (intro stock_ok_cong) auto
  with c assms(2) show ?thesis by (simp add: grows_balanced_same)
qed

lemma cancel_keeps:
  assumes "cancel_stock_entry t i s = Inr (x, s')" "stock_ok s"
  shows "stock_ok s' \<and> grows_balanced s s' \<and> audit_logs s' = audit_logs s"
proof -
  obtain y where y: "s' = set_entry_status y CANCELLED s" using assms(1) by (rule cancel_Inr)
  have "stock_ok s' = stock_ok s" by (rule stock_ok_cong) (simp_all add: y)
  then show ?thesis using assms(2) by (simp add: y grows_balanced_same)
qed

lemma submit_keeps:
  assumes "submit_stock_entry e t i s = Inr (x, s')" "stock_ok s"
  shows "stock_ok s' \<and> grows_balanced s s' \<and> audit_logs s' = audit_logs s"
  by (rule submit_Inr [OF assms]) simp

lemma stock_entry_step_keeps:
  "stock_entry_step s s' \<Longrightarrow> stock_ok s \<Longrightarrow> stock_ok s' \<and> grows_balanced s s' \<and> audit_logs s' = audit_logs s"
  unfolding stock_entry_step_def
  by (elim disjE exE; blast dest: create_keeps cancel_keeps submit_keeps)

interpretation stock_entries: stock_service stock_entry_step
  by unfold_locales (auto dest!: stock_entry_step_keeps intro: grows_balanced_books)

subsection \<open>Checked issues keep stock nonnegative\<close>

lemma checked_source:
  assumes "move_line e x l s = Inr s'" "stock_ok s" "column_amount (sei_qty l)"
    and "se_type x = MATERIAL_ISSUE \<or> se_type x = MATERIAL_TRANSFER"
  shows "\<exists>v. sei_source l = Some v \<and> sei_qty l \<le> ledger_qty s (se_tenant x, sei_item l, v)"
  using assms(4)
proof
  assume ty: "se_type x = MATERIAL_ISSUE"
  then obtain v rate u err where "sei_source l = Some v" "issue_from True err x l v s = Inr (rate, u)"
    using assms(1) by (auto simp: move_line_def ebind_eq_Inr split: option.splits)
  with issue_from_ok [OF _ assms(2,3)] show ?thesis by blast
next
  assume ty: "se_type x = MATERIAL_TRANSFER"
  then obtain v rate u err where "sei_source l = Some v" "issue_from True err x l v s = Inr (rate, u)"
    using assms(1) by (auto simp: move_line_def ebind_eq_Inr split: option.splits)
  with issue_from_ok [OF _ assms(2,3)] show ?thesis by blast
qed

definition never_negative :: "db \<Rightarrow> bool" where
  "never_negative s \<longleftrightarrow> (\<forall>k. 0 \<le> ledger_qty s k)"

lemma submit_line_nonnegative:
  assumes "submit_line e x s l = Inr s'" "stock_ok s" "column_amount (sei_qty l)" "0 \<le> sei_qty l"
    and "se_type x \<notin> {MANUFACTURE, REPACK}" "never_negative s"
  shows "never_negative s'"
  unfolding never_negative_def
proof
  fix k
  obtain u where u: "move_line e x l s = Inr u" using assms(1) by (auto simp: submit_line_def ebind_eq_Inr)
  have e: "effect s s' (line_delta x l)" by (rule submit_line_effect [OF assms(1-3)])
  then have q: "ledger_qty s' k = ledger_qty s k + line_delta x l (\<lambda>j. j = k)"
    by (simp add: effect_def ledger_qty_sum)
  have nn: "0 \<le> ledger_qty s k" using assms(6) unfolding never_negative_def by blast
  show "0 \<le> ledger_qty s' k"
  proof (cases "se_type x = MATERIAL_RECEIPT")
    case True
    then have "0 \<le> line_delta x l (\<lambda>j. j = k)" using assms(4) by (simp add: line_delta_def Let_def)
    with q nn show ?thesis by simp
  next
    case False
    then have ty: "se_type x = MATERIAL_ISSUE \<or> se_type x = MATERIAL_TRANSFER"
      using assms(5) by (cases "se_type x") auto
    obtain v where v: "sei_source l = Some v" "sei_qty l \<le> ledger_qty s (se_tenant x, sei_item l, v)"
      using checked_source [OF u assms(2,3) ty] by blast
    have "- (if k = (se_tenant x, sei_item l, v) then sei_qty l else 0) \<le> line_delta x l (\<lambda>j. j = k)"
      using ty v(1) assms(4) by (auto simp: line_delta_def Let_def)
    then show ?thesis using q nn v(2) by (auto split: if_splits)
  qed
qed

lemma submit_lines_nonnegative:
  assumes "efold (submit_line e x) s ls = Inr s'" "stock_ok s"
    and "\<forall>l \<in> set ls. column_amount (sei_qty l) \<and> 0 \<le> sei_qty l"
    and "se_type x \<notin> {MANUFACTURE, REPACK}" "never_negative s"
  shows "never_negative s'"
  using assms
proof (induction ls arbitrary: s)
  case (Cons l ls)
  then obtain u where u: "submit_line e x s l = Inr u" "efold (submit_line e x) u ls = Inr s'"
    by (auto simp: ebind_eq_Inr)
  have "stock_ok u" using submit_line_effect [OF u(1) Cons.prems(2)] Cons.prems(3) effect_stock_ok by auto
  moreover have "never_negative u"
    using submit_line_nonnegative [OF u(1) Cons.prems(2)] Cons.prems(3-5) by simp
  ultimately show ?case using Cons.IH [OF u(2)] Cons.prems(3,4) by simp
qed simp

subsection \<open>The service posts on its own\<close>

lemma level_steps_frame:
  "get_or_create_stock_level t i w s = Inr (l, s') \<Longrightarrow> gl_entries s' = gl_entries s \<and> audit_logs s' = audit_logs s"
  "put_level l s = Inr s' \<Longrightarrow> gl_entries s' = gl_entries s \<and> audit_logs s' = audit_logs s"
  "add_sle y s = Inr s' \<Longrightarrow> gl_entries s' = gl_entries s \<and> audit_logs s' = audit_logs s"
  by (auto simp: get_or_create_stock_level_def put_level_def add_sle_def ebind_eq_Inr split: option.splits)

lemma receive_grows: "receive_into x l w rate s = Inr s' \<Longrightarrow> ledger_grows s s'"
  by (intro ledger_grows_same) (auto simp: receive_into_def ebind_eq_Inr Let_def dest!: level_steps_frame)

lemma issue_grows: "issue_from check err x l w s = Inr (rate, s') \<Longrightarrow> ledger_grows s s'"
  by (intro ledger_grows_same)
    (auto simp: issue_from_def ebind_eq_Inr Let_def dest!: level_steps_frame split: if_splits)

lemma pair_grows:
  assumes "stock_pair x da ca v s = Inr s'"
  shows "ledger_grows s s'"
proof (cases "v > 0")
  case True
  with assms have "direct_pair (se_tenant x) (se_date x) da ca ''DEFAULT'' v ''USD'' ''STOCK_ENTRY''
      (se_id x) s = Inr s'" by (simp only: stock_pair_def if_True)
  then obtain n rows where r: "s' = s\<lparr>next_id := n, gl_entries := gl_entries s @ rows\<rparr>"
    "balanced_block (se_tenant x) (next_id s) rows"
    by (blast dest: direct_pair_Inr)
  then show ?thesis
    using grows_balanced_block [OF r(2), of s' s] by (simp add: ledger_grows_def)
qed (use assms in \<open>simp add: stock_pair_def ledger_grows_same\<close>)

lemma move_grows: "move_line e x l s = Inr s' \<Longrightarrow> ledger_grows s s'"
  by (auto simp: move_line_def ebind_eq_Inr ledger_grows_same split: stock_entry_type.splits option.splits
      dest!: receive_grows issue_grows pair_grows intro: ledger_grows_trans)

lemma serial_grows: "move_serial x l s = Inr s' \<Longrightarrow> ledger_grows s s'"
  by (intro ledger_grows_same) (auto simp: move_serial_def ebind_eq_Inr split: option.splits if_splits)

lemma line_grows: "submit_line e x s l = Inr s' \<Longrightarrow> ledger_grows s s'"
  by (auto simp: submit_line_def ebind_eq_Inr dest!: move_grows serial_grows intro: ledger_grows_trans)

lemma lines_grow: "efold (submit_line e x) s ls = Inr s' \<Longrightarrow> ledger_grows s s'"
  by (erule efold_invariant [where P = "ledger_grows s"])
    (auto simp: ledger_grows_same dest!: line_grows intro: ledger_grows_trans)

lemma submission_grows:
  assumes "submit_stock_entry e t i s = Inr (y, s')"
  shows "ledger_grows s s'"
proof -
  obtain x u where u: "efold (submit_line e x) s (se_items x) = Inr u"
    "settle (set_entry_status x SUBMITTED u) = Inr s'"
    using assms by (auto simp: submit_stock_entry_def ebind_eq_Inr split: option.splits if_splits)
  then have "ledger_grows u s'"
    by (intro ledger_grows_same) (auto simp: set_entry_status_def dest!: settle_frame)
  then show ?thesis by (rule ledger_grows_trans [OF lines_grow [OF u(1)]])
qed

definition entry_submission :: "db \<Rightarrow> db \<Rightarrow> bool" where
  "entry_submission s s' \<longleftrightarrow> (\<exists>e t i x. submit_stock_entry e t i s = Inr (x, s'))"

interpretation entry_poster: direct_poster entry_submission
  by unfold_locales (auto simp: entry_submission_def dest: submission_grows)

subsection \<open>A small warehouse\<close>

definition demo_entry :: "stock_entry_type \<Rightarrow> uuid option \<Rightarrow> uuid option \<Rightarrow> dec \<Rightarrow> stock_entry" where
  "demo_entry ty from to qty =
     \<lparr>se_tenant = 0, se_id = 3, se_number = ''SE-1'', se_type = ty, se_date = 739800, se_time = 0,
      se_purpose = None, se_from = from, se_to = to, se_total = 0, se_status = DRAFT, se_notes = None,
      se_items = [\<lparr>sei_item = 1, sei_source = from, sei_target = to, sei_qty = qty, sei_uom = ''Nos'',
        sei_rate = 2, sei_amount = 2 * qty, sei_batch = None, sei_serial = None\<rparr>]\<rparr>"

definition demo_stock :: "dec \<Rightarrow> stock_entry \<Rightarrow> db" where
  "demo_stock reserved x = empty_db\<lparr>next_id := 9,
     stock_levels := [\<lparr>sl_tenant = 0, sl_item = 1, sl_warehouse = 7, sl_current = 10, sl_reserved = reserved,
       sl_available = 10 - reserved, sl_rate = 2, sl_lot = None, sl_quarantined = False\<rparr>],
     stock_ledger := [\<lparr>sle_tenant = 0, sle_time = (739700, 0), sle_item = 1, sle_warehouse = 7,
       sle_actual = 10, sle_after = 10, sle_in_rate = 2, sle_out_rate = 0, sle_rate = 2, sle_value = 20,
       sle_source_type = ''STOCK_ENTRY'', sle_source_id = 2, sle_lot = None, sle_serial = None\<rparr>],
     fiscal_periods := [\<lparr>fp_tenant = 0, fp_year = 2026, fp_period = 7, fp_start = 739600,
       fp_end = 739900, fp_locked = True\<rparr>],
     items := [\<lparr>it_tenant = 0, it_id = 1, it_code = ''IT-1'', it_name = ''Bolt'', it_uom = ''Nos'', it_rate = 2,
       it_group = None, it_weight = 0, it_purchase = True, it_sales = True, it_active = True\<rparr>],
     warehouses := [\<lparr>wh_tenant = 0, wh_id = 7, wh_code = ''W7'', wh_name = ''Stores'', wh_quarantine = False, wh_active = True\<rparr>,
       \<lparr>wh_tenant = 0, wh_id = 8, wh_code = ''W8'', wh_name = ''Shop'', wh_quarantine = False, wh_active = True\<rparr>],
     stock_entries := [x]\<rparr>"

lemma column_amount_int: "\<bar>rat_of_int m\<bar> < 10 ^ 14 \<Longrightarrow> column_amount (of_int m)"
  by (auto simp: column_amount_def intro: placesI [of _ _ "m * 10 ^ 4"])

lemma demo_columns [simp]:
  "column_amount 10" "column_amount 4" "column_amount 8" "column_amount 15" "column_amount 6"
  using column_amount_int [of 10] column_amount_int [of 4] column_amount_int [of 8]
    column_amount_int [of 15] column_amount_int [of 6] by simp_all

lemma demo_stock_ok:
  assumes "column_amount r" "column_amount q"
  shows "stock_ok (demo_stock r (demo_entry ty from to q))"
  using assms
  by (simp add: stock_ok_def documents_ok_def demo_stock_def demo_entry_def empty_db_def level_ok_def
      ledger_qty_def sle_key_def level_key_def)

definition last_level :: "(stock_entry \<times> db) result \<Rightarrow> (dec \<times> dec \<times> nat \<times> nat) option" where
  "last_level r =
     (case r of Inl _ \<Rightarrow> None
      | Inr (x, s) \<Rightarrow> Some (sl_current (hd (stock_levels s)), sl_available (hd (stock_levels s)),
          length (gl_entries s), length (audit_logs s)))"

subsection \<open>Properties\<close>

text \<open>C7: a submitted transfer conserves stock: whatever its lines are, the quantity of every item
  over all warehouses of the tenant is the same before and after it.\<close>

theorem transfer_conserves_stock:
  assumes "submit_stock_entry e t i s = Inr (y, s')" and "stock_ok s" and "se_type y = MATERIAL_TRANSFER"
  shows "on_hand s' u j = on_hand s u j"
proof -
  let ?P = "\<lambda>k. fst k = u \<and> fst (snd k) = j"
  obtain x u0 where x: "y = x\<lparr>se_status := SUBMITTED\<rparr>" "stock_ok s'"
    "\<And>P. ledger_sum s' P = ledger_sum s P + entry_delta x P"
    and lines: "efold (submit_line e x) s (se_items x) = Inr u0"
    by (rule submit_Inr [OF assms(1,2)]) blast
  have "line_delta x l ?P = 0" if l: "l \<in> set (se_items x)" for l
  proof -
    obtain v w where "submit_line e x v l = Inr w" using efold_each [OF lines l] by blast
    then obtain z where "move_line e x l v = Inr z" by (auto simp: submit_line_def ebind_eq_Inr)
    then have "sei_source l \<noteq> None \<and> sei_target l \<noteq> None"
      using assms(3) x(1) by (auto simp: move_line_def split: option.splits)
    then show ?thesis using assms(3) x(1) by (auto simp: line_delta_def Let_def)
  qed
  then have "entry_delta x ?P = 0" by (simp add: entry_delta_def cong: map_cong)
  then show ?thesis using x(3) [of ?P] by (simp add: on_hand_ledger assms(2) x(2))
qed

lemma demo_submit:
  "last_level (submit_stock_entry demo_env 0 3 (demo_stock 0 (demo_entry MATERIAL_TRANSFER (Some 7) (Some 8) 4))) = Some (6, 6, 0, 0)"
  "last_level (submit_stock_entry demo_env 0 3 (demo_stock 8 (demo_entry MATERIAL_ISSUE (Some 7) None 4))) = Some (6, - 2, 2, 0)"
  "last_level (submit_stock_entry demo_env 0 3 (demo_stock 0 (demo_entry MANUFACTURE (Some 7) None 15))) = Some (- 5, - 5, 0, 0)"
  by code_simp+

lemma last_level_Some: "last_level r = Some v \<Longrightarrow> \<exists>y s'. r = Inr (y, s')"
  by (auto simp: last_level_def split: sum.splits)

theorem transfer_conserves_stock_witness:
  "\<exists>y s'. submit_stock_entry demo_env 0 3 (demo_stock 0 (demo_entry MATERIAL_TRANSFER (Some 7) (Some 8) 4)) = Inr (y, s') \<and>
     on_hand s' 0 1 = 10"
proof -
  let ?x = "demo_entry MATERIAL_TRANSFER (Some 7) (Some 8) 4"
  let ?s = "demo_stock 0 ?x"
  have ok: "stock_ok ?s" by (rule demo_stock_ok) simp_all
  obtain y s' where y: "submit_stock_entry demo_env 0 3 ?s = Inr (y, s')"
    using last_level_Some [OF demo_submit(1)] by blast
  then have "se_type y = MATERIAL_TRANSFER"
    by (rule submit_Inr [OF _ ok]) (auto simp: demo_stock_def demo_entry_def)
  from transfer_conserves_stock [OF y ok this, of 0 1] y show ?thesis
    by (simp add: on_hand_def demo_stock_def)
qed

text \<open>C8: receipts, issues and transfers never drive the stock ledger below zero: if no item is
  negative in any warehouse before and the lines have no negative quantities, none is negative
  after. (Consumption lines of manufacture and repack entries have no such check.)\<close>

theorem submission_keeps_stock_nonnegative:
  assumes "submit_stock_entry e t i s = Inr (y, s')" and "stock_ok s" and "never_negative s"
    and "se_type y \<notin> {MANUFACTURE, REPACK}" and "\<forall>l \<in> set (se_items y). 0 \<le> sei_qty l"
  shows "never_negative s'"
proof -
  obtain x u where x: "x \<in> set (stock_entries s)" "y = x\<lparr>se_status := SUBMITTED\<rparr>"
    and lines: "efold (submit_line e x) s (se_items x) = Inr u" "stock_ledger s' = stock_ledger u"
    by (rule submit_Inr [OF assms(1,2)]) blast
  have "\<forall>l \<in> set (se_items x). column_amount (sei_qty l)"
    using assms(2) x(1) by (auto simp: stock_ok_def documents_ok_def list_all_iff)
  then have "never_negative u"
    using submit_lines_nonnegative [OF lines(1) assms(2)] assms(3-5) x(2) by simp
  then show ?thesis by (simp add: never_negative_def ledger_qty_def lines(2))
qed

theorem submission_keeps_stock_nonnegative_witness:
  "\<exists>y s'. submit_stock_entry demo_env 0 3 (demo_stock 0 (demo_entry MATERIAL_TRANSFER (Some 7) (Some 8) 4)) = Inr (y, s') \<and>
     never_negative s'"
proof -
  let ?x = "demo_entry MATERIAL_TRANSFER (Some 7) (Some 8) 4"
  let ?s = "demo_stock 0 ?x"
  have ok: "stock_ok ?s" by (rule demo_stock_ok) simp_all
  obtain y s' where y: "submit_stock_entry demo_env 0 3 ?s = Inr (y, s')"
    using last_level_Some [OF demo_submit(1)] by blast
  then have "se_type y = MATERIAL_TRANSFER \<and> (\<forall>l \<in> set (se_items y). 0 \<le> sei_qty l)"
    by (rule submit_Inr [OF _ ok]) (auto simp: demo_stock_def demo_entry_def)
  moreover have "never_negative ?s" by (simp add: never_negative_def ledger_qty_def demo_stock_def)
  ultimately show ?thesis using submission_keeps_stock_nonnegative [OF y ok] y by auto
qed

text \<open>Cancelling a submitted entry only relabels it: levels, stock ledger and general ledger keep
  everything the submission wrote.\<close>

theorem cancellation_reverses_nothing:
  assumes "cancel_stock_entry t i s = Inr (y, s')"
  shows "stock_levels s' = stock_levels s \<and> stock_ledger s' = stock_ledger s \<and>
    gl_entries s' = gl_entries s \<and> se_status y = CANCELLED"
proof -
  obtain x where "s' = set_entry_status x CANCELLED s" using assms by (rule cancel_Inr)
  moreover have "se_status y = CANCELLED"
    using assms by (auto simp: cancel_stock_entry_def ebind_eq_Inr split: option.splits if_splits)
  ultimately show ?thesis by simp
qed

theorem cancellation_reverses_nothing_witness:
  "let s = demo_stock 0 ((demo_entry MATERIAL_ISSUE (Some 7) None 4)\<lparr>se_status := SUBMITTED\<rparr>)
   in \<exists>y s'. cancel_stock_entry 0 3 s = Inr (y, s') \<and> stock_levels s' = stock_levels s"
proof -
  let ?s = "demo_stock 0 ((demo_entry MATERIAL_ISSUE (Some 7) None 4)\<lparr>se_status := SUBMITTED\<rparr>)"
  have "last_level (cancel_stock_entry 0 3 ?s) = Some (10, 10, 0, 0)" by code_simp
  then obtain y s' where c: "cancel_stock_entry 0 3 ?s = Inr (y, s')" using last_level_Some by blast
  with cancellation_reverses_nothing [OF c] show ?thesis by (simp add: Let_def)
qed

text \<open>What the movement checks leave open, on concrete workspaces: an issue takes stock that is
  reserved for other vouchers (available becomes -2) and is posted to the general ledger into a
  locked period without an audit record; a manufacture entry consumes more than is on hand.\<close>

theorem unchecked_movements:
  "last_level (submit_stock_entry demo_env 0 3 (demo_stock 8 (demo_entry MATERIAL_ISSUE (Some 7) None 4))) = Some (6, - 2, 2, 0) \<and>
   list_all (\<lambda>p. fp_tenant p = 0 \<and> fp_start p \<le> 739800 \<and> 739800 \<le> fp_end p \<and> fp_locked p)
     (fiscal_periods (demo_stock 8 (demo_entry MATERIAL_ISSUE (Some 7) None 4))) \<and>
   last_level (submit_stock_entry demo_env 0 3 (demo_stock 0 (demo_entry MANUFACTURE (Some 7) None 15))) = Some (- 5, - 5, 0, 0)"
  using demo_submit by (simp add: demo_stock_def)

end
