(* ===== verification/StockCount.thy ===== *)
theory StockCount
  imports StockEntry
begin

section \<open>Physical counts\<close>

text \<open>
  \<open>src/src/erp/workflows/stock/reconciliation_service.py\<close>: a draft compares counted quantities with
  the levels of its moment; the submission sets the levels to the counts, enters the differences of
  the draft in the stock ledger and posts the variance. The lemmas say when the two agree, and what
  happens when stock moves in between.
\<close>

subsection \<open>Drafts\<close>

record count_data =
  cd_item :: uuid
  cd_warehouse :: uuid
  cd_counted :: dec
  cd_rate :: "dec option"

definition count_columns :: "count_line \<Rightarrow> count_line result" where
  "count_columns l =
     ebind (numeric 18 4 (cl_current l)) (\<lambda>a.
     ebind (numeric 18 4 (cl_counted l)) (\<lambda>b.
     ebind (numeric 18 4 (cl_diff l)) (\<lambda>d.
     ebind (numeric 18 4 (cl_book_rate l)) (\<lambda>r.
     ebind (numeric 18 4 (cl_rate l)) (\<lambda>v.
     ebind (numeric 18 4 (cl_amount l)) (\<lambda>z.
       Inr (l\<lparr>cl_current := a, cl_counted := b, cl_diff := d, cl_book_rate := r, cl_rate := v, cl_amount := z\<rparr>)))))))"

definition count_line_of :: "uuid \<Rightarrow> db \<Rightarrow> count_data \<Rightarrow> count_line result" where
  "count_line_of t s x =
     ebind (find_level t (cd_item x) (cd_warehouse x) s) (\<lambda>level.
       let current = (case level of None \<Rightarrow> 0 | Some l \<Rightarrow> sl_current l);
           book_rate = (case level of None \<Rightarrow> 0 | Some l \<Rightarrow> sl_rate l);
           counted = cd_counted x; rate = or_else (cd_rate x) book_rate
       in Inr \<lparr>cl_item = cd_item x, cl_warehouse = cd_warehouse x, cl_current = current, cl_counted = counted,
            cl_diff = dsub counted current, cl_book_rate = book_rate, cl_rate = rate,
            cl_amount = dsub (dmul counted rate) (dmul current book_rate)\<rparr>)"

definition add_count_line ::
    "uuid \<Rightarrow> db \<Rightarrow> count_line list \<times> dec \<Rightarrow> count_data \<Rightarrow> (count_line list \<times> dec) result" where
  "add_count_line t s st x =
     ebind (count_line_of t s x) (\<lambda>l.
     ebind (count_columns l) (\<lambda>stored.
       Inr (fst st @ [stored], dadd (snd st) (cl_amount l))))"

definition create_reconciliation ::
    "env \<Rightarrow> uuid \<Rightarrow> string \<Rightarrow> date option \<Rightarrow> timestamp option \<Rightarrow> string \<Rightarrow> string \<Rightarrow> count_data list \<Rightarrow> db
     \<Rightarrow> (stock_count \<times> db) result" where
  "create_reconciliation e t number d tm purpose account xs s =
     (if list_ex (\<lambda>c. ct_tenant c = t \<and> ct_number c = number) (stock_counts s) then Inl IntegrityError
      else if \<not> list_all (\<lambda>x. known_item s (cd_item x) \<and> known_warehouse s (Some (cd_warehouse x))) xs
      then Inl IntegrityError
      else let (cid, s1) = uuid4 s in
        ebind (efold (add_count_line t s1) ([], 0) xs) (\<lambda>(lines, total_variance).
        ebind (numeric 18 4 total_variance) (\<lambda>stored.
          let c = \<lparr>ct_tenant = t, ct_id = cid, ct_number = number, ct_date = or_else d (today e),
                   ct_time = or_else tm (now e), ct_purpose = purpose, ct_account = account, ct_status = DRAFT,
                   ct_variance = stored, ct_lines = lines\<rparr>
          in Inr (c, s1\<lparr>stock_counts := stock_counts s1 @ [c]\<rparr>))))"

definition get_reconciliation :: "uuid \<Rightarrow> uuid \<Rightarrow> db \<Rightarrow> stock_count option result" where
  "get_reconciliation t i s = one_or_none (filter (\<lambda>c. ct_tenant c = t \<and> ct_id c = i) (stock_counts s))"

definition list_reconciliations :: "uuid \<Rightarrow> string option \<Rightarrow> db \<Rightarrow> stock_count list" where
  "list_reconciliations t st s =
     rev (filter (\<lambda>c. ct_tenant c = t \<and>
        (case st of None \<Rightarrow> True | Some y \<Rightarrow> y = [] \<or> doc_status_str (ct_status c) = upper y)) (stock_counts s))"

subsection \<open>Submission\<close>

definition count_row :: "stock_count \<Rightarrow> count_line \<Rightarrow> stock_ledger_entry" where
  "count_row c l =
     \<lparr>sle_tenant = ct_tenant c, sle_time = (ct_date c, ct_time c), sle_item = cl_item l,
      sle_warehouse = cl_warehouse l, sle_actual = cl_diff l, sle_after = cl_counted l,
      sle_in_rate = (if cl_diff l > 0 then cl_rate l else 0),
      sle_out_rate = (if cl_diff l < 0 then cl_book_rate l else 0), sle_rate = cl_rate l,
      sle_value = cl_amount l, sle_source_type = ''STOCK_RECONCILIATION'', sle_source_id = ct_id c,
      sle_lot = None, sle_serial = None\<rparr>"

text \<open>A missing level is created with nothing reserved.\<close>

definition apply_count_line :: "stock_count \<Rightarrow> db \<Rightarrow> count_line \<Rightarrow> db result" where
  "apply_count_line c s l =
     ebind (get_or_create_stock_level (ct_tenant c) (cl_item l) (cl_warehouse l) s) (\<lambda>(lv, s1).
     ebind (put_level (lv\<lparr>sl_current := cl_counted l, sl_available := dsub (cl_counted l) (sl_reserved lv),
              sl_rate := cl_rate l\<rparr>) s1) (\<lambda>s2.
       add_sle (count_row c l) s2))"

definition post_variance :: "stock_count \<Rightarrow> db \<Rightarrow> db result" where
  "post_variance c s =
     (if ct_variance c > 0
      then direct_pair (ct_tenant c) (ct_date c) ''1300-STOCK-IN-HAND'' (ct_account c) ''DEFAULT'' (ct_variance c) ''USD''
             ''STOCK_RECONCILIATION'' (ct_id c) s
      else if ct_variance c < 0
      then direct_pair (ct_tenant c) (ct_date c) (ct_account c) ''1300-STOCK-IN-HAND'' ''DEFAULT'' (dabs (ct_variance c)) ''USD''
             ''STOCK_RECONCILIATION'' (ct_id c) s
      else Inr s)"

definition submit_reconciliation :: "uuid \<Rightarrow> uuid \<Rightarrow> db \<Rightarrow> (stock_count \<times> db) result" where
  "submit_reconciliation t i s =
     ebind (get_reconciliation t i s) (\<lambda>r.
       case r of
         None \<Rightarrow> Inl (ValueError (''Stock Reconciliation '' @ str_uuid i @ '' not found.''))
       | Some c \<Rightarrow>
           if ct_status c \<noteq> DRAFT
           then Inl (ValueError (''Reconciliation already in status '' @ quoted (doc_status_str (ct_status c)) @ ''.''))
           else ebind (efold (apply_count_line c) s (ct_lines c)) (\<lambda>s1.
                ebind (post_variance c s1) (\<lambda>s2.
                ebind (settle (s2\<lparr>stock_counts := update_where (\<lambda>x. ct_tenant x = t \<and> ct_id x = i)
                         (\<lambda>x. x\<lparr>ct_status := SUBMITTED\<rparr>) (stock_counts s2)\<rparr>)) (\<lambda>s3.
                  Inr (c\<lparr>ct_status := SUBMITTED\<rparr>, s3)))))"

subsection \<open>What a submission does\<close>

definition count_key :: "uuid \<Rightarrow> count_line \<Rightarrow> uuid \<times> uuid \<times> uuid" where
  "count_key t l = (t, cl_item l, cl_warehouse l)"

text \<open>The line was drawn up against the stock of \<open>s\<close>.\<close>

definition count_fresh :: "uuid \<Rightarrow> db \<Rightarrow> count_line \<Rightarrow> bool" where
  "count_fresh t s l \<longleftrightarrow>
     column_amount (cl_counted l) \<and> column_amount (cl_diff l) \<and>
     ledger_qty s (count_key t l) + cl_diff l = cl_counted l"

lemma count_row_simps [simp]:
  "sle_key (count_row c l) = count_key (ct_tenant c) l" "sle_actual (count_row c l) = cl_diff l"
  by (simp_all add: count_row_def sle_key_def count_key_def)

lemma apply_count_line_ok:
  assumes "apply_count_line c s l = Inr s'" "stock_ok s" "count_fresh (ct_tenant c) s l"
  shows "stock_ok s' \<and> moved s s' (count_key (ct_tenant c) l) (cl_diff l)"
proof -
  let ?k = "count_key (ct_tenant c) l"
  obtain lv s1 s2 where 1: "get_or_create_stock_level (ct_tenant c) (cl_item l) (cl_warehouse l) s = Inr (lv, s1)"
    and 2: "put_level (lv\<lparr>sl_current := cl_counted l, sl_available := dsub (cl_counted l) (sl_reserved lv),
      sl_rate := cl_rate l\<rparr>) s1 = Inr s2"
    and 3: "add_sle (count_row c l) s2 = Inr s'"
    using assms(1) by (auto simp: apply_count_line_def ebind_eq_Inr)
  obtain ls where g: "stock_ok s1" "lv \<in> set (stock_levels s1)" "level_key lv = ?k"
    "s1 = s\<lparr>stock_levels := stock_levels s @ ls\<rparr>"
    using get_or_create_ok [OF assms(2) 1] unfolding count_key_def by blast
  have lok: "level_ok s1 lv" using stock_ok_level g by blast
  have cols: "column_amount (cl_counted l)" "column_amount (sl_reserved lv)" "column_amount (cl_diff l)"
    using level_ok_columns [OF lok] assms(3) by (auto simp: count_fresh_def)
  have cur: "sl_current lv = ledger_qty s ?k"
    using lok g(3,4) by (simp add: level_ok_def ledger_qty_def)
  then have new: "cl_counted l = sl_current lv + cl_diff l" using assms(3) by (simp add: count_fresh_def)
  have "stock_ok s'"
    by (rule movement_ok [OF g(1,2) _ _ _ _ 2 cols(3) _ _ 3]) (simp_all add: g(3) new [symmetric] dsub_column cols)
  moreover have "moved s1 s' ?k (cl_diff l)"
    using put_add_moved [OF 2 3] cols(3) by (simp add: column_amount_def)
  ultimately show ?thesis using moved_after_create g(4) by blast
qed

lemma ledger_qty_moved: "moved s s' k d \<Longrightarrow> ledger_qty s' j = ledger_qty s j + (if k = j then d else 0)"
  using moved_qty [of s s' k d] by (simp add: ledger_qty_sum)

lemma apply_count_lines_ok:
  assumes "efold (apply_count_line c) s ls = Inr s'" "stock_ok s" "list_all (count_fresh (ct_tenant c) s) ls"
    and "distinct (map (count_key (ct_tenant c)) ls)"
  shows "stock_ok s' \<and> stock_frame s s' \<and> gl_entries s' = gl_entries s \<and>
    (\<forall>l \<in> set ls. ledger_qty s' (count_key (ct_tenant c) l) = cl_counted l) \<and>
    (\<forall>k. k \<notin> count_key (ct_tenant c) ` set ls \<longrightarrow> ledger_qty s' k = ledger_qty s k)"
  using assms
proof (induction ls arbitrary: s)
  case (Cons l ls)
  let ?key = "count_key (ct_tenant c)"
  obtain u where u: "apply_count_line c s l = Inr u" "efold (apply_count_line c) u ls = Inr s'"
    using Cons.prems(1) by (auto simp: ebind_eq_Inr)
  have fresh: "count_fresh (ct_tenant c) s l" using Cons.prems(3) by simp
  have one: "stock_ok u" "moved s u (?key l) (cl_diff l)" using apply_count_line_ok [OF u(1) Cons.prems(2) fresh] by auto
  note q = ledger_qty_moved [OF one(2)]
  have ne: "?key l \<noteq> ?key m" if "m \<in> set ls" for m using Cons.prems(4) that by (metis distinct.simps(2) image_eqI list.simps(9) set_map)
  have "ledger_qty u (?key m) = ledger_qty s (?key m)" if "m \<in> set ls" for m using q [of "?key m"] ne [OF that] by simp
  then have "list_all (count_fresh (ct_tenant c) u) ls"
    using Cons.prems(3) by (auto simp: list_all_iff count_fresh_def)
  from Cons.IH [OF u(2) one(1) this] Cons.prems(4) have ih: "stock_ok s'" "stock_frame u s'" "gl_entries s' = gl_entries u"
    "\<forall>m \<in> set ls. ledger_qty s' (?key m) = cl_counted m" "\<forall>k. k \<notin> ?key ` set ls \<longrightarrow> ledger_qty s' k = ledger_qty u k"
    by auto
  have "?key l \<notin> ?key ` set ls" using Cons.prems(4) by simp
  then have "ledger_qty s' (?key l) = ledger_qty u (?key l)" using ih(5) by blast
  then have "ledger_qty s' (?key l) = cl_counted l" using q [of "?key l"] fresh by (simp add: count_fresh_def)
  moreover have "stock_frame s s'" "gl_entries s' = gl_entries s"
    using stock_frame_trans [OF _ ih(2)] ih(3) moved_stock_frame [OF one(2)] by auto
  ultimately show ?case using ih(1,4,5) q by auto
qed simp

lemma post_variance_grows:
  assumes "post_variance c s = Inr s'"
  shows "grows_balanced s s' \<and> (\<exists>n gs. s' = s\<lparr>next_id := n, gl_entries := gs\<rparr>)"
proof (cases "ct_variance c = 0")
  case True
  then have "s' = s" using assms by (simp add: post_variance_def)
  then show ?thesis
    by (intro conjI grows_balanced_same exI [of _ "next_id s"] exI [of _ "gl_entries s"]) simp_all
next
  case False
  obtain da ca v where "direct_pair (ct_tenant c) (ct_date c) da ca ''DEFAULT'' v ''USD'' ''STOCK_RECONCILIATION'' (ct_id c) s = Inr s'"
    using assms False by (auto simp: post_variance_def split: if_splits)
  from direct_pair_Inr [OF this] obtain n rows where r: "s' = s\<lparr>next_id := n, gl_entries := gl_entries s @ rows\<rparr>"
    "balanced_block (ct_tenant c) (next_id s) rows" by blast
  then show ?thesis using grows_balanced_block [OF r(2), of s' s] by auto
qed

lemma submit_reconciliation_ok:
  assumes "submit_reconciliation t i s = Inr (c', s')" "stock_ok s" "get_reconciliation t i s = Inr (Some c)"
    and "list_all (count_fresh t s) (ct_lines c)" "distinct (map (count_key t) (ct_lines c))"
  shows "stock_ok s' \<and> grows_balanced s s' \<and> audit_logs s' = audit_logs s \<and>
    (\<forall>l \<in> set (ct_lines c). ledger_qty s' (count_key t l) = cl_counted l) \<and>
    (\<forall>k. k \<notin> count_key t ` set (ct_lines c) \<longrightarrow> ledger_qty s' k = ledger_qty s k)"
proof -
  have tc: "ct_tenant c = t"
    using assms(3) unfolding get_reconciliation_def by (auto dest: one_or_none_filter)
  obtain s1 s2 where 1: "efold (apply_count_line c) s (ct_lines c) = Inr s1" and 2: "post_variance c s1 = Inr s2"
    and 3: "settle (s2\<lparr>stock_counts := update_where (\<lambda>x. ct_tenant x = t \<and> ct_id x = i)
        (\<lambda>x. x\<lparr>ct_status := SUBMITTED\<rparr>) (stock_counts s2)\<rparr>) = Inr s'" (is "settle ?s2 = _")
    using assms(1,3) by (auto simp: submit_reconciliation_def ebind_eq_Inr split: if_splits)
  from apply_count_lines_ok [OF 1 assms(2)] assms(4,5) tc have l: "stock_ok s1" "stock_frame s s1" "gl_entries s1 = gl_entries s"
    "\<forall>l \<in> set (ct_lines c). ledger_qty s1 (count_key t l) = cl_counted l"
    "\<forall>k. k \<notin> count_key t ` set (ct_lines c) \<longrightarrow> ledger_qty s1 k = ledger_qty s k" by auto
  obtain n gs where p: "grows_balanced s1 s2" "s2 = s1\<lparr>next_id := n, gl_entries := gs\<rparr>"
    using post_variance_grows [OF 2] by blast
  have "stock_ok ?s2" using stock_ok_cong [of ?s2 s1] l(1) p(2) by (simp add: documents_ok_def)
  from settle_ok [OF this 3] have ok: "stock_ok s'" .
  obtain ls where s': "s' = ?s2\<lparr>stock_levels := ls\<rparr>" using settle_frame [OF 3] by blast
  have "ledger_qty s' k = ledger_qty s1 k" for k by (simp add: s' p(2) ledger_qty_def)
  moreover have "grows_balanced s1 s'" using p(1) by (simp add: s' grows_balanced_def books_balanced_def)
  moreover have "grows_balanced s s1" by (rule grows_balanced_same) (rule l(3))
  ultimately show ?thesis
    using ok l(2,4,5) grows_balanced_trans [of s s1 s'] by (auto simp: s' p(2) stock_frame_def)
qed

subsection \<open>Drafts are fresh when they are drawn up\<close>

lemma count_line_of_Inr:
  assumes "count_line_of t s x = Inr l" "stock_ok s"
  shows "cl_item l = cd_item x \<and> cl_warehouse l = cd_warehouse x \<and> cl_counted l = cd_counted x \<and>
    cl_diff l = dsub (cd_counted x) (ledger_qty s (t, cd_item x, cd_warehouse x)) \<and>
    column_amount (ledger_qty s (t, cd_item x, cd_warehouse x))"
proof -
  obtain r where r: "find_level t (cd_item x) (cd_warehouse x) s = Inr r" using stock_ok_find [OF assms(2)] by blast
  show ?thesis
  proof (cases r)
    case None
    then have "(t, cd_item x, cd_warehouse x) \<notin> level_key ` set (stock_levels s)"
      using find_level_None [of t "cd_item x" "cd_warehouse x" s] r by force
    from ledger_qty_0 [OF assms(2) this] show ?thesis
      using assms(1) r None by (auto simp: count_line_of_def Let_def)
  next
    case (Some m)
    then have m: "m \<in> set (stock_levels s)" "level_key m = (t, cd_item x, cd_warehouse x)"
      using find_level_Some r by blast+
    then have "level_ok s m" using stock_ok_level [OF assms(2)] by blast
    then have "sl_current m = ledger_qty s (t, cd_item x, cd_warehouse x)" "column_amount (sl_current m)"
      unfolding level_ok_def m(2) by auto
    then show ?thesis using assms(1) r Some by (auto simp: count_line_of_def Let_def)
  qed
qed

lemma count_columns_Inr:
  "count_columns l = Inr m \<Longrightarrow> cl_item m = cl_item l \<and> cl_warehouse m = cl_warehouse l \<and>
     numeric 18 4 (cl_counted l) = Inr (cl_counted m) \<and> numeric 18 4 (cl_diff l) = Inr (cl_diff m)"
  by (auto simp: count_columns_def ebind_eq_Inr)

lemma draft_lines_fresh:
  assumes "efold (add_count_line t s) (ls, v) xs = Inr (ms, w)" "stock_ok s" "list_all (\<lambda>x. column_amount (cd_counted x)) xs"
  shows "\<exists>ks. ms = ls @ ks \<and> map (count_key t) ks = map (\<lambda>x. (t, cd_item x, cd_warehouse x)) xs \<and>
    list_all (count_fresh t s) ks \<and> map cl_counted ks = map cd_counted xs"
  using assms
proof (induction xs arbitrary: ls v)
  case (Cons x xs)
  obtain st where st: "add_count_line t s (ls, v) x = Inr st" "efold (add_count_line t s) st xs = Inr (ms, w)"
    using Cons.prems(1) by (auto simp: ebind_eq_Inr)
  obtain l m where l: "count_line_of t s x = Inr l" "count_columns l = Inr m" "st = (ls @ [m], dadd v (cl_amount l))"
    using st(1) by (auto simp: add_count_line_def ebind_eq_Inr)
  from Cons.IH [OF st(2) [unfolded l(3)]] Cons.prems(2,3) obtain ks where ks: "ms = (ls @ [m]) @ ks"
    "map (count_key t) ks = map (\<lambda>x. (t, cd_item x, cd_warehouse x)) xs" "list_all (count_fresh t s) ks"
    "map cl_counted ks = map cd_counted xs" by auto
  let ?q = "ledger_qty s (t, cd_item x, cd_warehouse x)"
  note i = count_line_of_Inr [OF l(1) Cons.prems(2)] and c = count_columns_Inr [OF l(2)]
  have x: "column_amount (cd_counted x)" using Cons.prems(3) by simp
  have d: "cl_diff l = cd_counted x - ?q" using i dsub_column [OF x] by simp
  have "places 4 ?q" using i by (simp add: column_amount_def)
  then have "places 4 (cl_diff l)" using x unfolding d by (auto simp: column_amount_def)
  then have "cl_diff m = cl_diff l \<and> column_amount (cl_diff l)" using c numeric_keeps by blast
  moreover have "cl_counted m = cd_counted x" using c i numeric_column_id [OF x] by simp
  moreover have "count_key t m = (t, cd_item x, cd_warehouse x)" using c i by (simp add: count_key_def)
  ultimately have "count_fresh t s m \<and> count_key t m = (t, cd_item x, cd_warehouse x) \<and> cl_counted m = cd_counted x"
    using x d by (simp add: count_fresh_def)
  with ks show ?case by (intro exI [of _ "m # ks"]) simp
qed simp

lemma create_reconciliation_Inr:
  assumes "create_reconciliation e t number d tm purpose account xs s = Inr (c, s')" "stock_ok s"
    and "list_all (\<lambda>x. column_amount (cd_counted x)) xs"
  shows "map (count_key t) (ct_lines c) = map (\<lambda>x. (t, cd_item x, cd_warehouse x)) xs \<and>
    list_all (count_fresh t s) (ct_lines c) \<and> map cl_counted (ct_lines c) = map cd_counted xs \<and>
    ct_tenant c = t \<and> ct_status c = DRAFT \<and> ct_id c = next_id s \<and> s' = s\<lparr>next_id := Suc (next_id s), stock_counts := stock_counts s @ [c]\<rparr>"
proof -
  let ?s1 = "s\<lparr>next_id := Suc (next_id s)\<rparr>"
  obtain lines v w where 1: "efold (add_count_line t ?s1) ([], 0) xs = Inr (lines, v)"
    and c: "c = \<lparr>ct_tenant = t, ct_id = next_id s, ct_number = number, ct_date = or_else d (today e),
      ct_time = or_else tm (now e), ct_purpose = purpose, ct_account = account, ct_status = DRAFT,
      ct_variance = w, ct_lines = lines\<rparr>"
    and s': "s' = ?s1\<lparr>stock_counts := stock_counts ?s1 @ [c]\<rparr>"
    using assms(1) by (auto simp: create_reconciliation_def uuid4_def ebind_eq_Inr Let_def split: if_splits)
  have "stock_ok ?s1" using stock_ok_cong [of ?s1 s] assms(2) by simp
  from draft_lines_fresh [OF 1 this assms(3)] have
    "map (count_key t) lines = map (\<lambda>x. (t, cd_item x, cd_warehouse x)) xs" "list_all (count_fresh t ?s1) lines"
    "map cl_counted lines = map cd_counted xs" by auto
  moreover have "count_fresh t ?s1 = count_fresh t s" by (intro ext) (simp add: count_fresh_def ledger_qty_def)
  ultimately show ?thesis using c s' by simp
qed

subsection \<open>The service posts on its own\<close>

lemma count_line_grows: "apply_count_line c s l = Inr s' \<Longrightarrow> ledger_grows s s'"
  by (intro ledger_grows_same) (auto simp: apply_count_line_def ebind_eq_Inr dest!: level_steps_frame)

lemma count_lines_grow: "efold (apply_count_line c) s ls = Inr s' \<Longrightarrow> ledger_grows s s'"
  by (erule efold_invariant [where P = "ledger_grows s"])
    (auto simp: ledger_grows_same dest!: count_line_grows intro: ledger_grows_trans)

lemma count_submission_grows:
  assumes "submit_reconciliation t i s = Inr (c, s')"
  shows "ledger_grows s s'"
proof -
  obtain d u v ct where u: "efold (apply_count_line d) s (ct_lines d) = Inr u" "post_variance d u = Inr v"
    "settle (v\<lparr>stock_counts := ct\<rparr>) = Inr s'"
    using assms by (auto simp: submit_reconciliation_def ebind_eq_Inr split: option.splits if_splits)
  have "ledger_grows u v" using post_variance_grows [OF u(2)] by (auto simp: ledger_grows_def)
  moreover have "ledger_grows v s'" using settle_frame [OF u(3)] by (auto intro!: ledger_grows_same)
  ultimately show ?thesis using count_lines_grow [OF u(1)] ledger_grows_trans by blast
qed

definition count_submission :: "db \<Rightarrow> db \<Rightarrow> bool" where
  "count_submission s s' \<longleftrightarrow> (\<exists>t i c. submit_reconciliation t i s = Inr (c, s'))"

interpretation count_poster: direct_poster count_submission
  by unfold_locales (auto simp: count_submission_def dest: count_submission_grows)

subsection \<open>Properties\<close>

text \<open>C11: when nothing moves between the draft of a count and its submission, and the count names no item of
  a warehouse twice and has quantities of at most four places, the submission sets exactly the counted places
  to the counted quantities, and keeps the agreement of levels and stock ledger, the balance of the books and
  the audit log.\<close>

theorem fresh_count_is_applied:
  assumes "create_reconciliation e t number d tm purpose account xs s = Inr (c, s1)" and "stock_ok s"
    and "list_all (\<lambda>x. column_amount (cd_counted x)) xs"
    and "distinct (map (\<lambda>x. (cd_item x, cd_warehouse x)) xs)"
    and "get_reconciliation t (ct_id c) s1 = Inr (Some c)"
    and "submit_reconciliation t (ct_id c) s1 = Inr (c', s2)"
  shows "stock_ok s2 \<and> grows_balanced s s2 \<and> audit_logs s2 = audit_logs s \<and>
    list_all (\<lambda>x. ledger_qty s2 (t, cd_item x, cd_warehouse x) = cd_counted x) xs \<and>
    {k. ledger_qty s2 k \<noteq> ledger_qty s k} \<subseteq> (\<lambda>x. (t, cd_item x, cd_warehouse x)) ` set xs"
proof -
  let ?key = "\<lambda>x. (t, cd_item x, cd_warehouse x)"
  note d = create_reconciliation_Inr [OF assms(1-3)]
  then have s1: "s1 = s\<lparr>next_id := Suc (next_id s), stock_counts := stock_counts s @ [c]\<rparr>" by blast
  have keys: "map (count_key t) (ct_lines c) = map ?key xs" "map cl_counted (ct_lines c) = map cd_counted xs"
    using d by auto
  have "inj (\<lambda>(i, w). (t, i, w))" by (auto intro: injI)
  then have dist: "distinct (map (count_key t) (ct_lines c))"
    using assms(4) unfolding keys by (auto simp: distinct_map inj_on_def)
  have ok: "stock_ok s1" using stock_ok_cong [of s1 s] assms(2) by (simp add: s1 documents_ok_def)
  have "count_fresh t s1 = count_fresh t s" by (intro ext) (simp add: s1 count_fresh_def ledger_qty_def)
  then have fresh: "list_all (count_fresh t s1) (ct_lines c)" using d by simp
  note r = submit_reconciliation_ok [OF assms(6) ok assms(5) fresh dist]
  have set_to: "\<forall>l \<in> set (ct_lines c). ledger_qty s2 (count_key t l) = cl_counted l"
    using r by (elim conjE)
  have rest: "\<forall>k. k \<notin> count_key t ` set (ct_lines c) \<longrightarrow> ledger_qty s2 k = ledger_qty s1 k"
    using r by (elim conjE)
  have "list_all (\<lambda>x. ledger_qty s2 (?key x) = cd_counted x) xs"
  proof -
    have len: "length xs = length (ct_lines c)" using keys(2) by (metis length_map)
    have "ledger_qty s2 (?key (xs ! i)) = cd_counted (xs ! i)" if i: "i < length xs" for i
    proof -
      have "map (count_key t) (ct_lines c) ! i = map ?key xs ! i" "map cl_counted (ct_lines c) ! i = map cd_counted xs ! i"
        unfolding keys by (rule refl)+
      then have "count_key t (ct_lines c ! i) = ?key (xs ! i)" "cl_counted (ct_lines c ! i) = cd_counted (xs ! i)"
        using i len by simp_all
      moreover have "ct_lines c ! i \<in> set (ct_lines c)" using i len by simp
      with set_to have "ledger_qty s2 (count_key t (ct_lines c ! i)) = cl_counted (ct_lines c ! i)" by (rule bspec)
      ultimately show ?thesis by simp
    qed
    then show ?thesis by (simp add: list_all_length)
  qed
  moreover have "count_key t ` set (ct_lines c) = ?key ` set xs" using keys(1) by (metis set_map)
  then have "{k. ledger_qty s2 k \<noteq> ledger_qty s1 k} \<subseteq> ?key ` set xs" using rest by blast
  moreover have "ledger_qty s1 = ledger_qty s" by (intro ext) (simp add: s1 ledger_qty_def)
  moreover have "grows_balanced s s2" "audit_logs s2 = audit_logs s"
    using r by (simp_all add: s1 grows_balanced_def books_balanced_def)
  moreover have "stock_ok s2" using r by (elim conjE)
  ultimately show ?thesis by simp
qed

definition one_count :: "dec \<Rightarrow> count_data list" where
  "one_count q = [\<lparr>cd_item = 1, cd_warehouse = 7, cd_counted = q, cd_rate = None\<rparr>]"

definition count_env :: env where
  "count_env = \<lparr>today = 739800, now = 1000, sha256 = (\<lambda>x. replicate 64 (CHR ''a'')), dec_str = (\<lambda>d. ''1''),
     time_str = (\<lambda>x. ''t''), cfg_tier1 = 0, cfg_tier2 = 0\<rparr>"

definition drafted :: "dec \<Rightarrow> db \<Rightarrow> (stock_count \<times> db) result" where
  "drafted q s = create_reconciliation count_env 0 ''SR-1'' None None ''STOCK_RECONCILIATION'' ''5200-STOCK-ADJUSTMENT'' (one_count q) s"

lemma demo_count:
  "case drafted 8 (demo_stock 0 (demo_entry MATERIAL_RECEIPT None (Some 7) 4)) of
     Inr (c, s) \<Rightarrow> ct_id c = 9 \<and> is_ok (submit_reconciliation 0 9 s) \<and> get_reconciliation 0 9 s = Inr (Some c)
   | Inl _ \<Rightarrow> False"
  by code_simp

theorem fresh_count_is_applied_witness:
  "\<exists>c s c' s'. drafted 8 (demo_stock 0 (demo_entry MATERIAL_RECEIPT None (Some 7) 4)) = Inr (c, s) \<and>
     submit_reconciliation 0 9 s = Inr (c', s') \<and> stock_ok s' \<and> ledger_qty s' (0, 1, 7) = 8"
proof -
  let ?s = "demo_stock 0 (demo_entry MATERIAL_RECEIPT None (Some 7) 4)"
  obtain c s where c: "drafted 8 ?s = Inr (c, s)" "ct_id c = 9" "get_reconciliation 0 9 s = Inr (Some c)"
    and "is_ok (submit_reconciliation 0 9 s)"
    using demo_count by (auto split: sum.splits)
  then obtain c' s' where s': "submit_reconciliation 0 9 s = Inr (c', s')"
    by (cases "submit_reconciliation 0 9 s") auto
  have ok: "stock_ok ?s" by (rule demo_stock_ok) simp_all
  have "list_all (\<lambda>x. column_amount (cd_counted x)) (one_count 8)" "distinct (map (\<lambda>x. (cd_item x, cd_warehouse x)) (one_count 8))"
    by (simp_all add: one_count_def)
  from fresh_count_is_applied [OF c(1) [unfolded drafted_def] ok this, of c' s'] c s'
  show ?thesis by (auto simp: one_count_def)
qed

text \<open>A count that is submitted after stock has moved sets the level to the count but enters the difference
  of the draft: after a receipt of four, the level says eight where the stock ledger says twelve.\<close>

definition stale_count :: "(dec \<times> dec) result" where
  "stale_count =
     ebind (drafted 8 (demo_stock 0 (demo_entry MATERIAL_RECEIPT None (Some 7) 4))) (\<lambda>(c, s1).
     ebind (submit_stock_entry count_env 0 3 s1) (\<lambda>(x, s2).
     ebind (submit_reconciliation 0 (ct_id c) s2) (\<lambda>(c', s3).
       Inr (sl_current (hd (stock_levels s3)), ledger_qty s3 (0, 1, 7)))))"

theorem stale_count_breaks_the_ledger: "stale_count = Inr (8, 12)"
  by code_simp

text \<open>The code accepts a count that names an item of a warehouse twice; both lines enter the difference to the
  same book quantity: with ten on hand and eight counted in two lines, the level says eight and the ledger six.\<close>

definition twice_counted :: "(dec \<times> dec) result" where
  "twice_counted =
     ebind (create_reconciliation count_env 0 ''SR-1'' None None ''STOCK_RECONCILIATION'' ''5200-STOCK-ADJUSTMENT''
       (one_count 8 @ one_count 8) (demo_stock 0 (demo_entry MATERIAL_RECEIPT None (Some 7) 4))) (\<lambda>(c, s1).
     ebind (submit_reconciliation 0 (ct_id c) s1) (\<lambda>(c', s2).
       Inr (sl_current (hd (stock_levels s2)), ledger_qty s2 (0, 1, 7))))"

theorem place_counted_twice_breaks_the_ledger: "twice_counted = Inr (8, 6)"
  by code_simp

end
