(* ===== verification/Currency.thy ===== *)
theory Currency
  imports StockEntry
begin

section \<open>Exchange rates and revaluation\<close>

text \<open>
  \<open>src/src/erp/workflows/currency/exchange_service.py\<close>: the rate of a currency pair by date, its
  lookup (the pair itself, then the reciprocal, then 1), and the period revaluation of the balances
  that asset and liability accounts hold in foreign currencies, which writes pairs of rows to the
  general ledger without the ledger engine. The number of a revaluation, made from its identifier,
  is an argument; the length of a currency code is not checked.
\<close>

subsection \<open>Rates\<close>

definition is_rate :: "uuid \<Rightarrow> string \<Rightarrow> string \<Rightarrow> fx_rate \<Rightarrow> bool" where
  "is_rate t a b r \<longleftrightarrow> fx_tenant r = t \<and> fx_from r = a \<and> fx_to r = b"

definition set_exchange_rate ::
    "env \<Rightarrow> uuid \<Rightarrow> string \<Rightarrow> string \<Rightarrow> dec \<Rightarrow> date option \<Rightarrow> db \<Rightarrow> (fx_rate \<times> db) result" where
  "set_exchange_rate e t a b x d s =
     (let d = or_else d (today e);
          P = (\<lambda>r. is_rate t (upper a) (upper b) r \<and> fx_date r = d);
          r = \<lparr>fx_tenant = t, fx_from = upper a, fx_to = upper b, fx_value = x, fx_date = d\<rparr>
      in ebind (one_or_none (filter P (fx_rates s))) (\<lambda>existing.
         ebind (numeric 18 6 x) (\<lambda>v.
           Inr (r, s\<lparr>fx_rates :=
             (case existing of
                Some q \<Rightarrow> update_where P (\<lambda>q. q\<lparr>fx_value := v\<rparr>) (fx_rates s)
              | None \<Rightarrow> fx_rates s @ [r\<lparr>fx_value := v\<rparr>])\<rparr>))))"

text \<open>The newest stored rate of a pair that is not later than \<open>d\<close>.\<close>

definition stored_rate :: "uuid \<Rightarrow> string \<Rightarrow> string \<Rightarrow> date \<Rightarrow> db \<Rightarrow> dec option" where
  "stored_rate t a b d s =
     map_option fx_value
       (first_row (sort_key (\<lambda>r. - fx_date r) (filter (\<lambda>r. is_rate t a b r \<and> fx_date r \<le> d) (fx_rates s))))"

definition get_latest_rate ::
    "env \<Rightarrow> uuid \<Rightarrow> string \<Rightarrow> string \<Rightarrow> date option \<Rightarrow> db \<Rightarrow> dec result" where
  "get_latest_rate e t a b d s =
     (if upper a = upper b then Inr 1
      else let d = or_else d (today e) in
        case stored_rate t (upper a) (upper b) d s of
          Some v \<Rightarrow> Inr v
        | None \<Rightarrow>
            (case stored_rate t (upper b) (upper a) d s of
               Some v \<Rightarrow> if v > 0 then ebind (ddiv 1 v) (quantize round_even 6) else Inr 1
             | None \<Rightarrow> Inr 1))"

definition list_exchange_rates :: "uuid \<Rightarrow> db \<Rightarrow> fx_rate list" where
  "list_exchange_rates t s = sort_key (\<lambda>r. - fx_date r) (filter (\<lambda>r. fx_tenant r = t) (fx_rates s))"

subsection \<open>Revaluation\<close>

definition fx_account :: string where
  "fx_account = ''4900-UNREALIZED-FX-GAIN-LOSS''"

definition is_foreign :: "uuid \<Rightarrow> date \<Rightarrow> string \<Rightarrow> gl_entry \<Rightarrow> bool" where
  "is_foreign t d base g \<longleftrightarrow>
     gl_tenant g = t \<and> gl_date g \<le> d \<and> gl_currency g \<noteq> upper base \<and>
     (startswith (gl_account g) ''1'' \<or> startswith (gl_account g) ''2'')"

definition foreign_balances :: "uuid \<Rightarrow> date \<Rightarrow> string \<Rightarrow> db \<Rightarrow> ((string \<times> string) \<times> dec) list" where
  "foreign_balances t d base s =
     map (\<lambda>(k, gs). (k, \<Sum>g\<leftarrow>gs. gl_debit g - gl_credit g))
       (group_by (\<lambda>g. (gl_account g, gl_currency g)) (filter (is_foreign t d base) (gl_entries s)))"

text \<open>One group of the loop: the running gain and the pairs (debit, credit, amount) to post.\<close>

definition revalue ::
    "env \<Rightarrow> uuid \<Rightarrow> date \<Rightarrow> string \<Rightarrow> db \<Rightarrow> dec \<times> (string \<times> string \<times> dec) list \<Rightarrow>
     (string \<times> string) \<times> dec \<Rightarrow> (dec \<times> (string \<times> string \<times> dec) list) result" where
  "revalue e t d base s acc row =
     (let (gain, pairs) = acc; ((account, cur), net) = row
      in if net = 0 then Inr acc
         else ebind (get_latest_rate e t cur base (Some d) s) (\<lambda>rate.
              ebind (quantize round_even 4 (dmul net rate)) (\<lambda>revalued.
                let diff = dsub revalued net
                in if diff \<noteq> 0
                   then Inr (dadd gain diff, pairs @
                          [if diff > 0 then (account, fx_account, dabs diff)
                           else (fx_account, account, dabs diff)])
                   else Inr acc)))"

definition post_fx_pair ::
    "uuid \<Rightarrow> uuid \<Rightarrow> uuid \<Rightarrow> date \<Rightarrow> string \<Rightarrow> db \<Rightarrow> string \<times> string \<times> dec \<Rightarrow> db result" where
  "post_fx_pair t tx i d base s p =
     (let (da, ca, v) = p in row_pair t tx d da ca ''DEFAULT'' v base ''EXCHANGE_REVALUATION'' i s)"

definition execute_exchange_revaluation ::
    "env \<Rightarrow> uuid \<Rightarrow> string \<Rightarrow> date \<Rightarrow> string \<Rightarrow> string option \<Rightarrow> db \<Rightarrow> (fx_revaluation \<times> db) result" where
  "execute_exchange_revaluation e t number d base notes s =
     (let (i, s1) = uuid4 s; (tx, s2) = uuid4 s1
      in ebind (efold (revalue e t d base s) (0, []) (foreign_balances t d base s)) (\<lambda>(gain, pairs).
         ebind (efold (post_fx_pair t tx i d base) s2 pairs) (\<lambda>s3.
         if list_ex (\<lambda>r. fr_tenant r = t \<and> fr_number r = number) (fx_revaluations s3) then Inl IntegrityError
         else ebind (numeric 18 4 gain) (\<lambda>g.
           let r = \<lparr>fr_tenant = t, fr_id = i, fr_number = number, fr_date = d, fr_gain = gain,
                    fr_journal = (if pairs = [] then None else Some tx), fr_notes = notes\<rparr>
           in Inr (r, s3\<lparr>fx_revaluations := fx_revaluations s3 @ [r\<lparr>fr_gain := g\<rparr>]\<rparr>)))))"

definition list_revaluations :: "uuid \<Rightarrow> db \<Rightarrow> fx_revaluation list" where
  "list_revaluations t s = sort_key (\<lambda>r. - fr_date r) (filter (\<lambda>r. fr_tenant r = t) (fx_revaluations s))"

subsection \<open>The rows of a revaluation\<close>

definition fx_rows :: "uuid \<Rightarrow> uuid \<Rightarrow> date \<Rightarrow> string \<Rightarrow> gl_entry list \<Rightarrow> bool" where
  "fx_rows t tx d base gs \<longleftrightarrow>
     (gs = [] \<or> balanced_block t tx gs \<and> gl_date (hd gs) = d) \<and> list_all (\<lambda>g. gl_currency g = base) gs"

lemma fx_rows_append: "fx_rows t tx d base gs \<Longrightarrow> fx_rows t tx d base hs \<Longrightarrow> fx_rows t tx d base (gs @ hs)"
  by (cases "gs = []"; cases "hs = []") (auto simp: fx_rows_def intro: block_append)

lemma fx_rows_posted: "fx_rows t tx d base gs \<Longrightarrow> posted gs"
  by (auto simp: fx_rows_def intro: block_posted posted_Nil)

text \<open>The gain of a pair, and the change it makes to the gain account (a credit when positive).\<close>

definition fx_gain :: "string \<times> string \<times> dec \<Rightarrow> dec" where
  "fx_gain p = (if fst p = fx_account then - snd (snd p) else snd (snd p))"

definition fx_pair_ok :: "string \<times> string \<times> dec \<Rightarrow> bool" where
  "fx_pair_ok p \<longleftrightarrow> (fst p = fx_account) \<noteq> (fst (snd p) = fx_account)"

text \<open>The two rows of a pair, and what the rows of a list show of it.\<close>

definition pair_sides :: "string \<times> string \<times> dec \<Rightarrow> (string \<times> dec \<times> dec) list" where
  "pair_sides p = (let (da, ca, v) = p in [(da, cents v, 0), (ca, 0, cents v)])"

definition row_sides :: "gl_entry \<Rightarrow> string \<times> dec \<times> dec" where
  "row_sides g = (gl_account g, gl_debit g, gl_credit g)"

definition account_net :: "string \<Rightarrow> gl_entry list \<Rightarrow> dec" where
  "account_net a gs = (\<Sum>g\<leftarrow>filter (\<lambda>g. gl_account g = a) gs. gl_debit g - gl_credit g)"

lemma account_net_append [simp]: "account_net a (gs @ hs) = account_net a gs + account_net a hs"
  by (simp add: account_net_def)

lemma cents_minus: "cents (- x) = - cents x"
  by (rule quant_up.rnd_minus)

lemma post_fx_pair_Inr:
  assumes "post_fx_pair t tx i d base s p = Inr s'"
  shows "\<exists>n gs. s' = s\<lparr>next_id := n, gl_entries := gl_entries s @ gs\<rparr> \<and> next_id s \<le> n \<and> fx_rows t tx d base gs \<and>
    (fx_pair_ok p \<longrightarrow> account_net fx_account gs = - cents (fx_gain p)) \<and>
    0 < cents (snd (snd p)) \<and> cents (snd (snd p)) < 10 ^ 14 \<and> map row_sides gs = pair_sides p"
proof -
  obtain da ca v where p: "p = (da, ca, v)" by (cases p)
  obtain g h where s': "s' = s\<lparr>next_id := Suc (Suc (next_id s)), gl_entries := gl_entries s @ [g, h]\<rparr>"
    and b: "balanced_block t tx [g, h]" "gl_date g = d" "gl_currency g = base" "gl_currency h = base"
    and rows: "gl_debit g = cents v" "gl_credit g = 0" "gl_debit h = 0" "gl_credit h = cents v"
      "0 < cents v" "cents v < 10 ^ 14" "gl_account g = da" "gl_account h = ca"
    using assms row_pair_Inr [of t tx d da ca "''DEFAULT''" v base "''EXCHANGE_REVALUATION''" i s s']
    by (auto simp: post_fx_pair_def p)
  show ?thesis
    by (rule exI [of _ "Suc (Suc (next_id s))"], rule exI [of _ "[g, h]"])
      (use s' b rows in \<open>auto simp: p fx_rows_def fx_pair_ok_def account_net_def fx_gain_def cents_minus
         row_sides_def pair_sides_def\<close>)
qed

lemma post_fx_pairs_Inr:
  "efold (post_fx_pair t tx i d base) s ps = Inr s' \<Longrightarrow>
     \<exists>n gs. s' = s\<lparr>next_id := n, gl_entries := gl_entries s @ gs\<rparr> \<and> next_id s \<le> n \<and> fx_rows t tx d base gs \<and>
       (list_all fx_pair_ok ps \<longrightarrow> account_net fx_account gs = - (\<Sum>p\<leftarrow>ps. cents (fx_gain p))) \<and>
       list_all (\<lambda>p. 0 < cents (snd (snd p)) \<and> cents (snd (snd p)) < 10 ^ 14) ps \<and>
       map row_sides gs = concat (map pair_sides ps)"
proof (induction ps arbitrary: s)
  case Nil
  then have "s' = s\<lparr>next_id := next_id s, gl_entries := gl_entries s @ []\<rparr>" by simp
  then show ?case by (intro exI [of _ "next_id s"] exI [of _ "[]"]) (simp add: fx_rows_def account_net_def)
next
  case (Cons p ps)
  then obtain u where u: "post_fx_pair t tx i d base s p = Inr u" "efold (post_fx_pair t tx i d base) u ps = Inr s'"
    by (auto simp: ebind_eq_Inr)
  from post_fx_pair_Inr [OF u(1)] Cons.IH [OF u(2)] obtain n gs m hs where
    "u = s\<lparr>next_id := n, gl_entries := gl_entries s @ gs\<rparr>" "next_id s \<le> n" "fx_rows t tx d base gs"
    "s' = u\<lparr>next_id := m, gl_entries := gl_entries u @ hs\<rparr>" "next_id u \<le> m" "fx_rows t tx d base hs"
    and f: "fx_pair_ok p \<Longrightarrow> account_net fx_account gs = - cents (fx_gain p)"
      "list_all fx_pair_ok ps \<Longrightarrow> account_net fx_account hs = - (\<Sum>p\<leftarrow>ps. cents (fx_gain p))"
      "0 < cents (snd (snd p)) \<and> cents (snd (snd p)) < 10 ^ 14"
      "list_all (\<lambda>p. 0 < cents (snd (snd p)) \<and> cents (snd (snd p)) < 10 ^ 14) ps"
      "map row_sides gs = pair_sides p" "map row_sides hs = concat (map pair_sides ps)" by blast
  then show ?case
    by (intro exI [of _ m] exI [of _ "gs @ hs"]) (simp add: fx_rows_append)
qed

subsection \<open>The loop over the balances\<close>

definition balance_ok :: "(string \<times> string) \<times> dec \<Rightarrow> bool" where
  "balance_ok r \<longleftrightarrow> fst (fst r) \<noteq> fx_account \<and> places 4 (snd r)"

definition fx_exact :: "string \<times> string \<times> dec \<Rightarrow> bool" where
  "fx_exact p \<longleftrightarrow> fx_pair_ok p \<and> (\<exists>y. places 4 y \<and> fx_gain p = ctx y) \<and> snd (snd p) = \<bar>fx_gain p\<bar>"

lemma revalue_step:
  assumes "revalue e t d base s (gain, ps) row = Inr (gain', ps')" "balance_ok row"
  shows "\<exists>qs. ps' = ps @ qs \<and> list_all fx_exact qs \<and> length qs \<le> 1 \<and>
    gain' = foldl dadd gain (map fx_gain qs)"
proof -
  obtain a cur net where row: "row = ((a, cur), net)" by (metis surj_pair)
  have a: "a \<noteq> fx_account" "places 4 net" using assms(2) by (simp_all add: balance_ok_def row)
  show ?thesis
  proof (cases "ps' = ps \<and> gain' = gain")
    case True
    then show ?thesis by (intro exI [of _ "[]"]) simp
  next
    case False
    then have net: "net \<noteq> 0" using assms(1) by (auto simp: revalue_def row)
    obtain x v where q: "quantize round_even 4 (dmul net x) = Inr v" and
      r: "(if dsub v net \<noteq> 0 then Inr (dadd gain (dsub v net), ps @
        [if dsub v net > 0 then (a, fx_account, dabs (dsub v net)) else (fx_account, a, dabs (dsub v net))])
        else Inr (gain, ps)) = (Inr (gain', ps') :: _ result)" (is "(if _ then Inr (_, _ @ [?p]) else _) = _")
      using assms(1) unfolding revalue_def row Let_def prod.case if_not_P [OF net] ebind_eq_Inr by blast
    have v: "places 4 v" "dsub v net \<noteq> 0" "gain' = dadd gain (dsub v net)" "ps' = ps @ [?p]"
      using q r False by (auto simp: quantize_places split: if_splits)
    have abs: "dabs (dsub v net) = \<bar>dsub v net\<bar>" by (simp add: dabs_def dsub_def ctx.rnd_abs ctx.rnd_idem)
    have "fx_gain ?p = dsub v net" "fx_pair_ok ?p" "snd (snd ?p) = \<bar>dsub v net\<bar>"
      using v(2) a(1) by (auto simp: fx_gain_def fx_pair_ok_def abs)
    moreover have "\<exists>y. places 4 y \<and> dsub v net = ctx y"
      using v(1) a(2) by (auto simp: dsub_def)
    ultimately show ?thesis using v(3,4) by (intro exI [of _ "[?p]"]) (simp add: fx_exact_def)
  qed
qed

lemma revalue_loop:
  "efold (revalue e t d base s) (gain, ps) rows = Inr (gain', ps') \<Longrightarrow> list_all balance_ok rows \<Longrightarrow>
     \<exists>qs. ps' = ps @ qs \<and> list_all fx_exact qs \<and> length qs \<le> length rows \<and>
       gain' = foldl dadd gain (map fx_gain qs)"
proof (induction rows arbitrary: gain ps)
  case (Cons r rows)
  then obtain g p where u: "revalue e t d base s (gain, ps) r = Inr (g, p)"
    "efold (revalue e t d base s) (g, p) rows = Inr (gain', ps')" by (auto simp: ebind_eq_Inr)
  from revalue_step [OF u(1)] Cons.prems(2) obtain qs where
    q: "p = ps @ qs" "list_all fx_exact qs" "length qs \<le> 1" "g = foldl dadd gain (map fx_gain qs)" by auto
  from Cons.IH [OF u(2)] Cons.prems(2) obtain rs where
    r: "ps' = p @ rs" "list_all fx_exact rs" "length rs \<le> length rows" "gain' = foldl dadd g (map fx_gain rs)"
    by auto
  show ?case by (rule exI [of _ "qs @ rs"]) (use q r in simp)
qed simp

text \<open>An exact pair that could be posted carries a column amount.\<close>

lemma fx_exact_column:
  assumes "fx_exact p" "cents (snd (snd p)) < 10 ^ 14"
  shows "column_amount (fx_gain p)"
proof -
  obtain y where y: "places 4 y" "fx_gain p = ctx y" "snd (snd p) = \<bar>ctx y\<bar>"
    using assms(1) by (auto simp: fx_exact_def)
  have big: "ctx (10 ^ 20) = 10 ^ 20" by (rule ctx_exact [of 0]) (simp_all add: places_def)
  have "\<bar>y\<bar> < 10 ^ 20"
  proof (rule ccontr)
    assume "\<not> \<bar>y\<bar> < 10 ^ 20"
    then have "10 ^ 20 \<le> \<bar>ctx y\<bar>" using ctx.ge_exact [OF big, of "\<bar>y\<bar>"] by (simp add: ctx.rnd_abs)
    moreover have "cents (10 ^ 20) = 10 ^ 20" by (rule quant_places) (simp add: places_def)
    ultimately show False using quant_up.ge_exact [of 4 "10 ^ 20" "\<bar>ctx y\<bar>"] assms(2) y(3) by simp
  qed
  then have "ctx y = y" using y(1) by (intro ctx_exact [of 4]) simp_all
  moreover have "places 4 \<bar>y\<bar>" using y(1) by (auto simp: abs_if)
  ultimately show ?thesis using y assms(2) by (simp add: column_amount_def quant_places)
qed

subsection \<open>A revaluation as a whole\<close>

lemma revaluation_Inr:
  assumes "execute_exchange_revaluation e t number d base notes s = Inr (r, s')"
  obtains n gs ps where
    "efold (revalue e t d base s) (0, []) (foreign_balances t d base s) = Inr (fr_gain r, ps)"
    "s' = s\<lparr>next_id := n, gl_entries := gl_entries s @ gs,
       fx_revaluations := fx_revaluations s @ [r\<lparr>fr_gain := cents (fr_gain r)\<rparr>]\<rparr>"
    "fx_rows t (Suc (next_id s)) d base gs"
    "list_all fx_pair_ok ps \<longrightarrow> account_net fx_account gs = - (\<Sum>p\<leftarrow>ps. cents (fx_gain p))"
    "list_all (\<lambda>p. 0 < cents (snd (snd p)) \<and> cents (snd (snd p)) < 10 ^ 14) ps"
    "map row_sides gs = concat (map pair_sides ps)" "fr_journal r = (if ps = [] then None else Some (Suc (next_id s)))" "Suc (next_id s) < n"
proof -
  let ?L = "efold (revalue e t d base s) (0, []) (foreign_balances t d base s)"
  let ?F = "efold (post_fx_pair t (Suc (next_id s)) (next_id s) d base) (s\<lparr>next_id := Suc (Suc (next_id s))\<rparr>)"
  obtain x where x: "?L = Inr x"
    using assms by (cases ?L) (simp_all add: execute_exchange_revaluation_def uuid4_def)
  obtain gain ps where 1: "?L = Inr (gain, ps)" using x by (cases x) simp
  obtain u where 2: "?F ps = Inr u"
    using assms 1 by (cases "?F ps") (simp_all add: execute_exchange_revaluation_def uuid4_def)
  have 3: "fr_gain r = gain" "fr_journal r = (if ps = [] then None else Some (Suc (next_id s)))" "s' = u\<lparr>fx_revaluations := fx_revaluations u @ [r\<lparr>fr_gain := cents gain\<rparr>]\<rparr>"
    using assms 1 2
    by (auto simp: execute_exchange_revaluation_def uuid4_def ebind_eq_Inr numeric_Inr split: if_splits)
  from post_fx_pairs_Inr [OF 2] obtain n gs where
    "u = s\<lparr>next_id := n, gl_entries := gl_entries s @ gs\<rparr>" "fx_rows t (Suc (next_id s)) d base gs"
    "list_all fx_pair_ok ps \<longrightarrow> account_net fx_account gs = - (\<Sum>p\<leftarrow>ps. cents (fx_gain p))"
    "list_all (\<lambda>p. 0 < cents (snd (snd p)) \<and> cents (snd (snd p)) < 10 ^ 14) ps"
    "map row_sides gs = concat (map pair_sides ps)" "Suc (next_id s) < n" by auto
  with 1 3 show thesis by (intro that [of ps gs n]) simp_all
qed

lemma revaluation_grows:
  assumes "execute_exchange_revaluation e t number d base notes s = Inr (r, s')"
  shows "grows_balanced s s' \<and> audit_logs s' = audit_logs s \<and> outbox s' = outbox s \<and> fx_rates s' = fx_rates s"
proof (rule revaluation_Inr [OF assms])
  fix n gs ps
  assume "s' = s\<lparr>next_id := n, gl_entries := gl_entries s @ gs,
       fx_revaluations := fx_revaluations s @ [r\<lparr>fr_gain := cents (fr_gain r)\<rparr>]\<rparr>"
    and "fx_rows t (Suc (next_id s)) d base gs"
  then show ?thesis using fx_rows_posted by (auto simp: grows_balanced_def)
qed

definition fx_step :: "db \<Rightarrow> db \<Rightarrow> bool" where
  "fx_step s s' \<longleftrightarrow>
     (\<exists>e t number d base notes r. execute_exchange_revaluation e t number d base notes s = Inr (r, s'))"

interpretation fx_poster: direct_poster fx_step
  by unfold_locales (auto simp: fx_step_def ledger_grows_def dest: revaluation_grows)

lemma foreign_balances_ok:
  assumes "list_all (\<lambda>g. places 4 (gl_debit g) \<and> places 4 (gl_credit g)) (gl_entries s)"
  shows "list_all balance_ok (foreign_balances t d base s)"
proof -
  have "balance_ok (k, \<Sum>g\<leftarrow>gs. gl_debit g - gl_credit g)"
    if "(k, gs) \<in> set (group_by (\<lambda>g. (gl_account g, gl_currency g)) (filter (is_foreign t d base) (gl_entries s)))"
    for k gs
  proof -
    have gs: "gs = filter (\<lambda>g. (gl_account g, gl_currency g) = k) (filter (is_foreign t d base) (gl_entries s))" "gs \<noteq> []"
      using group_rows [OF that] by auto
    have "is_foreign t d base g \<and> gl_account g = fst k" if "g \<in> set gs" for g
      using that unfolding gs(1) by auto
    from this [OF hd_in_set [OF gs(2)]] have "fst k \<noteq> fx_account" by (auto simp: is_foreign_def fx_account_def)
    moreover have "places 4 (\<Sum>g\<leftarrow>gs. gl_debit g - gl_credit g)"
      using assms by (intro places_sum_list) (auto simp: gs(1) list_all_iff)
    ultimately show ?thesis by (simp add: balance_ok_def)
  qed
  then show ?thesis by (auto simp: foreign_balances_def list_all_iff)
qed

lemma foreign_balances_length: "length (foreign_balances t d base s) \<le> length (gl_entries s)"
  using length_filter_le [of "is_foreign t d base" "gl_entries s"] length_remdups_leq
  by (fastforce simp: foreign_balances_def group_by_def intro: order_trans)

text \<open>What a revaluation adds: pairs between an account and the gain account, in the base currency, one
  transaction of its own, and on the gain account the reported total.\<close>

lemma revaluation_pairs:
  assumes "execute_exchange_revaluation e t number d base notes s = Inr (r, s')"
    and "list_all (\<lambda>g. places 4 (gl_debit g) \<and> places 4 (gl_credit g)) (gl_entries s)" "length (gl_entries s) < 10 ^ 10"
  shows "\<exists>gs ps. gl_entries s' = gl_entries s @ gs \<and> fx_rows t (Suc (next_id s)) d base gs \<and>
    map row_sides gs = concat (map pair_sides ps) \<and> list_all fx_pair_ok ps \<and>
    list_all (\<lambda>p. 0 < cents (snd (snd p))) ps \<and>
    fr_journal r = (if gs = [] then None else Some (Suc (next_id s))) \<and>
    account_balance s' t fx_account = account_balance s t fx_account - fr_gain r"
proof -
  obtain n gs ps where
    1: "efold (revalue e t d base s) (0, []) (foreign_balances t d base s) = Inr (fr_gain r, ps)"
    and 2: "s' = s\<lparr>next_id := n, gl_entries := gl_entries s @ gs,
       fx_revaluations := fx_revaluations s @ [r\<lparr>fr_gain := cents (fr_gain r)\<rparr>]\<rparr>"
    and 3: "fx_rows t (Suc (next_id s)) d base gs"
    and 4: "list_all fx_pair_ok ps \<longrightarrow> account_net fx_account gs = - (\<Sum>p\<leftarrow>ps. cents (fx_gain p))"
    and 5: "list_all (\<lambda>p. 0 < cents (snd (snd p)) \<and> cents (snd (snd p)) < 10 ^ 14) ps"
    and 6: "map row_sides gs = concat (map pair_sides ps)"
    and 7: "fr_journal r = (if ps = [] then None else Some (Suc (next_id s)))"
    by (rule revaluation_Inr [OF assms(1)])
  have p: "list_all fx_exact ps" "length ps \<le> length (gl_entries s)" "fr_gain r = foldl dadd 0 (map fx_gain ps)"
    using revalue_loop [OF 1 foreign_balances_ok [OF assms(2)]] foreign_balances_length [of t d base s] by auto
  then have col: "list_all column_amount (map fx_gain ps)" and ok: "list_all fx_pair_ok ps"
    using 5 fx_exact_column by (auto simp: list_all_iff fx_exact_def)
  have "fr_gain r = (\<Sum>p\<leftarrow>ps. fx_gain p)"
    using p(2,3) assms(3) dsum_columns [OF col] by (simp add: dsum_def)
  also have "\<dots> = (\<Sum>p\<leftarrow>ps. cents (fx_gain p))"
    using col by (intro arg_cong [of _ _ sum_list] map_cong) (auto simp: list_all_iff column_amount_def quant_places)
  finally have "account_net fx_account gs = - fr_gain r" using 4 ok by simp
  moreover have "filter (\<lambda>g. gl_tenant g = t \<and> gl_account g = fx_account) gs = filter (\<lambda>g. gl_account g = fx_account) gs"
    using 3 by (intro filter_cong) (auto simp: fx_rows_def balanced_block_def list_all_iff)
  ultimately have "account_balance s' t fx_account = account_balance s t fx_account - fr_gain r"
    by (simp add: account_balance_def 2 account_net_def)
  moreover have "gs = [] \<longleftrightarrow> ps = []"
    using arg_cong [OF 6, of length] by (cases ps) (auto simp: pair_sides_def Let_def split: prod.splits)
  moreover have "list_all (\<lambda>p. 0 < cents (snd (snd p))) ps" using 5 by (simp add: list_all_iff)
  ultimately show ?thesis using 2 3 6 7 ok by (intro exI [of _ gs] exI [of _ ps]) simp
qed

lemma is_foreign_own: "fx_rows t tx d base gs \<Longrightarrow> upper base = base \<Longrightarrow> filter (is_foreign t d base) gs = []"
  by (auto simp: fx_rows_def is_foreign_def list_all_iff filter_empty_conv)

lemma revalue_same_rates: "fx_rates s' = fx_rates s \<Longrightarrow> revalue e t d base s' = revalue e t d base s"
proof -
  assume "fx_rates s' = fx_rates s"
  then have st: "stored_rate t a b k s' = stored_rate t a b k s" for a b k by (simp add: stored_rate_def)
  have rt: "get_latest_rate e t cur base (Some d) s' = get_latest_rate e t cur base (Some d) s" for cur
    unfolding get_latest_rate_def st ..
  show ?thesis unfolding revalue_def [abs_def] rt ..
qed

lemma second_revaluation:
  assumes "execute_exchange_revaluation e t number d base notes s = Inr (r, s1)"
    and "execute_exchange_revaluation e t number' d base notes' s1 = Inr (r', s2)" and "upper base = base"
  shows "fr_gain r' = fr_gain r"
proof -
  obtain n gs ps where
    1: "efold (revalue e t d base s) (0, []) (foreign_balances t d base s) = Inr (fr_gain r, ps)"
    and s1: "s1 = s\<lparr>next_id := n, gl_entries := gl_entries s @ gs,
       fx_revaluations := fx_revaluations s @ [r\<lparr>fr_gain := cents (fr_gain r)\<rparr>]\<rparr>"
    and gs: "fx_rows t (Suc (next_id s)) d base gs"
    by (rule revaluation_Inr [OF assms(1)])
  have "foreign_balances t d base s1 = foreign_balances t d base s"
    by (simp add: foreign_balances_def s1 is_foreign_own [OF gs assms(3)])
  moreover have "revalue e t d base s1 = revalue e t d base s" by (rule revalue_same_rates) (simp add: s1)
  moreover obtain qs where "efold (revalue e t d base s1) (0, []) (foreign_balances t d base s1) = Inr (fr_gain r', qs)"
    by (rule revaluation_Inr [OF assms(2)])
  ultimately show ?thesis using 1 by simp
qed

subsection \<open>Lookup and storage of rates\<close>

lemma sort_desc_first:
  assumes "x \<in> set xs" "\<forall>y \<in> set xs. y \<noteq> x \<longrightarrow> k y < (k x :: int)"
  shows "first_row (sort_key (\<lambda>y. - k y) xs) = Some x"
proof -
  let ?ys = "sort_key (\<lambda>y. - k y) xs"
  have mem: "set ?ys = set xs" by simp
  then obtain y ys where ys: "?ys = y # ys" using assms(1) by (cases ?ys) auto
  have "sorted (map (\<lambda>y. - k y) ?ys)" by simp
  then have "\<forall>z \<in> set ys. k z \<le> k y" by (auto simp: ys)
  moreover have "x = y \<or> x \<in> set ys" using assms(1) mem ys by auto
  moreover have "y \<in> set xs" using mem ys by (metis list.set_intros(1))
  ultimately have "x = y" using assms(2) by force
  then show ?thesis by (simp add: ys)
qed

text \<open>A rate that was set is the one found, and its reciprocal in the other direction, from its day
  until a later one is set.\<close>

lemma set_rate_stored:
  assumes "set_exchange_rate e t a b x (Some d) s = Inr (r, s')"
    and "\<forall>q \<in> set (fx_rates s). is_rate t (upper a) (upper b) q \<longrightarrow> fx_date q \<le> d" and "d \<le> d'"
  shows "stored_rate t (upper a) (upper b) d' s' = Some (quant round_half_up 6 x)"
proof -
  let ?P = "\<lambda>r. is_rate t (upper a) (upper b) r \<and> fx_date r = d"
  let ?v = "quant round_half_up 6 x"
  let ?Q = "\<lambda>q. is_rate t (upper a) (upper b) q \<and> fx_date q \<le> d'"
  obtain ex where ex: "one_or_none (filter ?P (fx_rates s)) = Inr ex"
    and s': "s' = s\<lparr>fx_rates := (case ex of
        Some q \<Rightarrow> update_where ?P (\<lambda>q. q\<lparr>fx_value := ?v\<rparr>) (fx_rates s)
      | None \<Rightarrow> fx_rates s @ [\<lparr>fx_tenant = t, fx_from = upper a, fx_to = upper b, fx_value = x, fx_date = d\<rparr>
                          \<lparr>fx_value := ?v\<rparr>])\<rparr>"
    using assms(1) by (auto simp: set_exchange_rate_def or_else_def Let_def ebind_eq_Inr numeric_Inr)
  have "\<exists>q. q \<in> set (filter ?Q (fx_rates s')) \<and> fx_value q = ?v \<and> ?P q \<and>
      (\<forall>p \<in> set (filter ?Q (fx_rates s')). p \<noteq> q \<longrightarrow> fx_date p < fx_date q)"
  proof (cases ex)
    case None
    then have "filter ?P (fx_rates s) = []" using ex by (simp add: one_or_none_None)
    then have "\<forall>p \<in> set (fx_rates s). \<not> ?P p" by (simp add: filter_empty_conv)
    then show ?thesis using assms(2,3)
      by (intro exI [of _ "\<lparr>fx_tenant = t, fx_from = upper a, fx_to = upper b, fx_value = ?v, fx_date = d\<rparr>"])
        (auto simp: s' None is_rate_def less_le)
  next
    case (Some q)
    then have q: "filter ?P (fx_rates s) = [q]" using ex by (simp add: one_or_none_Some)
    have only: "p = q" if "p \<in> set (fx_rates s)" "?P p" for p
    proof -
      have "p \<in> set (filter ?P (fx_rates s))" using that by simp
      then show ?thesis unfolding q by simp
    qed
    have "q \<in> set (filter ?P (fx_rates s))" by (simp add: q)
    then have m: "q \<in> set (fx_rates s)" "?P q" by auto
    let ?q = "q\<lparr>fx_value := ?v\<rparr>"
    have in': "p \<in> set (fx_rates s') \<longleftrightarrow> (\<exists>z \<in> set (fx_rates s). ?P z \<and> p = z\<lparr>fx_value := ?v\<rparr> \<or> \<not> ?P z \<and> p = z)" for p
      by (simp add: s' Some set_update_where)
    have "fx_date p < fx_date ?q" if "p \<in> set (fx_rates s')" "?Q p" "p \<noteq> ?q" for p
    proof -
      from iffD1 [OF in' that(1)] obtain z where z: "z \<in> set (fx_rates s)" "?P z \<and> p = z\<lparr>fx_value := ?v\<rparr> \<or> \<not> ?P z \<and> p = z"
        by (elim bexE)
      have "\<not> ?P z" using only [OF z(1)] z(2) that(3) by metis
      then have "p = z" using z(2) by blast
      with \<open>\<not> ?P z\<close> that(2) have "fx_date z \<noteq> d" by blast
      moreover have "fx_date z \<le> d" using assms(2) z(1) that(2) \<open>p = z\<close> by blast
      ultimately show ?thesis using m(2) by (simp add: \<open>p = z\<close>)
    qed
    moreover have "?q \<in> set (fx_rates s')" using m by (intro iffD2 [OF in'] bexI [of _ q]) simp_all
    moreover have "?Q ?q" "?P ?q" using m(2) assms(3) by (simp_all add: is_rate_def)
    ultimately show ?thesis by (intro exI [of _ ?q]) simp
  qed
  then show ?thesis using sort_desc_first [of _ "filter ?Q (fx_rates s')" fx_date]
    by (auto simp: stored_rate_def)
qed

lemma set_rate_found:
  assumes "set_exchange_rate e t a b x (Some d) s = Inr (r, s')" "upper a \<noteq> upper b"
    and "\<forall>q \<in> set (fx_rates s). is_rate t (upper a) (upper b) q \<longrightarrow> fx_date q \<le> d" and "d \<le> d'"
  shows "get_latest_rate e' t a b (Some d') s' = Inr (quant round_half_up 6 x)"
  using set_rate_stored [OF assms(1,3,4)] assms(2) by (simp add: get_latest_rate_def or_else_def)

text \<open>The other direction of a pair does not see the new rate; the lookup takes its reciprocal, and is off by less
  than one unit of the sixth place.\<close>

lemma set_rate_other:
  assumes "set_exchange_rate e t a b x (Some d) s = Inr (r, s')" "upper a \<noteq> upper b"
  shows "stored_rate t (upper b) (upper a) d' s' = stored_rate t (upper b) (upper a) d' s"
proof -
  let ?P = "\<lambda>r. is_rate t (upper a) (upper b) r \<and> fx_date r = d"
  let ?R = "\<lambda>r. is_rate t (upper b) (upper a) r \<and> fx_date r \<le> d'"
  let ?v = "quant round_half_up 6 x"
  obtain ex where ex: "one_or_none (filter ?P (fx_rates s)) = Inr ex" and s': "s' = s\<lparr>fx_rates := (case ex of
        Some q \<Rightarrow> update_where ?P (\<lambda>q. q\<lparr>fx_value := ?v\<rparr>) (fx_rates s)
      | None \<Rightarrow> fx_rates s @ [\<lparr>fx_tenant = t, fx_from = upper a, fx_to = upper b, fx_value = x, fx_date = d\<rparr>
                          \<lparr>fx_value := ?v\<rparr>])\<rparr>"
    using assms(1) by (auto simp: set_exchange_rate_def or_else_def Let_def ebind_eq_Inr numeric_Inr)
  have "filter ?R (update_where ?P (\<lambda>q. q\<lparr>fx_value := v\<rparr>) rs) = filter ?R rs" for v rs
    using assms(2) by (induction rs) (auto simp: update_where_def is_rate_def)
  then have "filter ?R (fx_rates s') = filter ?R (fx_rates s)"
    using assms(2) by (cases ex) (simp_all add: s' is_rate_def)
  then show ?thesis by (simp add: stored_rate_def)
qed

lemma reciprocal_close:
  assumes "places 6 v" "0 < v"
  shows "\<exists>y. ebind (ddiv 1 v) (quantize round_even 6) = Inr y \<and> places 6 y \<and> \<bar>y - 1 / v\<bar> < 1 / 10 ^ 6"
proof -
  define z where "z = 1 / v"
  define m where "m = \<lfloor>z * 10 ^ 6\<rfloor>"
  have vm: "1 / 10 ^ 6 \<le> v"
  proof -
    obtain k where k: "v = of_int k / 10 ^ 6" using placesE [OF assms(1)] by blast
    with assms(2) have "1 \<le> k" by (simp add: field_simps)
    then have "(1 :: rat) \<le> of_int k" by simp
    then show ?thesis by (simp add: k divide_right_mono)
  qed
  have z0: "0 < z" using assms(2) by (simp add: z_def)
  have z6: "z \<le> 10 ^ 6" using vm assms(2) by (simp add: z_def field_simps)
  have m: "of_int m / 10 ^ 6 \<le> z" "z < of_int (m + 1) / 10 ^ 6"
    using floor_correct [of "z * 10 ^ 6"] by (simp_all add: m_def field_simps)
  have m0: "0 \<le> m" using z0 by (simp add: m_def)
  have m12: "m \<le> 10 ^ 12" using z6 by (simp add: m_def floor_le_iff)
  have ex: "ctx (of_int k / 10 ^ 6) = of_int k / 10 ^ 6" "quant round_even 6 (of_int k / 10 ^ 6) = of_int k / 10 ^ 6"
    if "0 \<le> k" "k \<le> 10 ^ 12 + 1" for k
  proof -
    have "places 6 (of_int k / 10 ^ 6)" by (rule placesI [of _ _ k]) simp
    moreover have "(of_int k :: rat) < 10 ^ 28"
    proof -
      have "k < 10 ^ 28" using that(2) by simp
      then have "(of_int k :: rat) < of_int (10 ^ 28)" by (simp only: of_int_less_iff)
      then show ?thesis by simp
    qed
    ultimately show "ctx (of_int k / 10 ^ 6) = of_int k / 10 ^ 6" "quant round_even 6 (of_int k / 10 ^ 6) = of_int k / 10 ^ 6"
      using that(1) ctx_exact [of 6 "of_int k / 10 ^ 6"] quant_exact [of round_even 6 "of_int k / 10 ^ 6"] by simp_all
  qed
  let ?y = "quant round_even 6 (ctx z)"
  note lo = ex [of m] and hi = ex [of "m + 1"]
  have "of_int m / 10 ^ 6 \<le> ctx z" "ctx z \<le> of_int (m + 1) / 10 ^ 6"
    using ctx.ge_exact [of "of_int m / 10 ^ 6" z] ctx.le_exact [of "of_int (m + 1) / 10 ^ 6" z] lo(1) hi(1) m m0 m12 by auto
  then have y: "of_int m / 10 ^ 6 \<le> ?y" "?y \<le> of_int (m + 1) / 10 ^ 6"
    using quant_even.ge_exact [of 6 "of_int m / 10 ^ 6" "ctx z"] quant_even.le_exact [of 6 "of_int (m + 1) / 10 ^ 6" "ctx z"]
      lo(2) hi(2) m0 m12 by auto
  have "\<bar>?y - z\<bar> < 1 / 10 ^ 6"
  proof (cases "z = of_int m / 10 ^ 6")
    case True
    have "?y = z" 
    proof -
      have c: "ctx (of_int m / 10 ^ 6) = of_int m / 10 ^ 6" "quant round_even 6 (of_int m / 10 ^ 6) = of_int m / 10 ^ 6"
        by (rule lo; use m0 m12 in simp)+
      show ?thesis unfolding True c ..
    qed
    then show ?thesis by simp
  next
    case False
    then show ?thesis using m y by (auto simp: abs_if add_divide_distrib)
  qed
  moreover have "quantize round_even 6 (ctx z) = Inr ?y"
  proof -
    have "?y * 10 ^ 6 = of_int (round_even (ctx z * 10 ^ 6))" by (simp add: quant_def)
    moreover have "0 \<le> ?y * 10 ^ 6" "?y * 10 ^ 6 \<le> of_int (m + 1)" using y m0 by (simp_all add: field_simps)
    ultimately have "0 \<le> round_even (ctx z * 10 ^ 6)" "round_even (ctx z * 10 ^ 6) \<le> m + 1"
      by (simp_all only: of_int_0_le_iff of_int_le_iff)
    then show ?thesis using m12 by (simp add: quantize_def)
  qed
  ultimately show ?thesis using assms(2) by (intro exI [of _ ?y]) (simp add: ddiv_def z_def)
qed

subsection \<open>Properties\<close>

text \<open>A euro receivable of 100 in a locked period, entered at the rate that still holds.\<close>

definition demo_fx :: db where
  "demo_fx = empty_db\<lparr>next_id := 9,
     gl_entries :=
       [\<lparr>gl_id = 1, gl_tenant = 0, gl_transaction = 3, gl_date = 100, gl_year = 1, gl_period = 4,
         gl_account = ''1'', gl_cost_center = [], gl_debit = 100, gl_credit = 0, gl_currency = ''E'',
         gl_rate = 11 / 10, gl_source_type = [], gl_source_id = 0, gl_purpose = None,
         gl_warehouse = None, gl_item = None, gl_party = None, gl_against = None, gl_locked = True\<rparr>,
        \<lparr>gl_id = 2, gl_tenant = 0, gl_transaction = 3, gl_date = 100, gl_year = 1, gl_period = 4,
         gl_account = ''4'', gl_cost_center = [], gl_debit = 0, gl_credit = 100, gl_currency = ''E'',
         gl_rate = 11 / 10, gl_source_type = [], gl_source_id = 0, gl_purpose = None,
         gl_warehouse = None, gl_item = None, gl_party = None, gl_against = None, gl_locked = True\<rparr>],
     fiscal_periods := [\<lparr>fp_tenant = 0, fp_year = 1, fp_period = 4, fp_start = 91, fp_end = 120, fp_locked = True\<rparr>],
     fx_rates := [\<lparr>fx_tenant = 0, fx_from = ''E'', fx_to = ''U'', fx_value = 11 / 10, fx_date = 100\<rparr>]\<rparr>"

lemma demo_fx_posted: "posted (gl_entries demo_fx)"
  by (rule block_posted [of 0 3])
    (simp add: balanced_block_def demo_fx_def empty_db_def column_amount_def places_def debits_def credits_def)

lemma demo_revaluation:
  "\<exists>r s. execute_exchange_revaluation demo_env 0 ''A'' 101 ''U'' None demo_fx = Inr (r, s) \<and> fr_gain r = 10 \<and>
     map (\<lambda>g. (gl_account g, gl_debit g, gl_credit g)) (drop 2 (gl_entries s)) = [(''1'', 10, 0), (fx_account, 0, 10)]"
proof -
  have "(case execute_exchange_revaluation demo_env 0 ''A'' 101 ''U'' None demo_fx of Inl _ \<Rightarrow> False
     | Inr (r, s) \<Rightarrow> fr_gain r = 10 \<and> map (\<lambda>g. (gl_account g, gl_debit g, gl_credit g)) (drop 2 (gl_entries s)) =
         [(''1'', 10, 0), (fx_account, 0, 10)])"
    by code_simp
  then show ?thesis by (auto split: sum.splits)
qed

text \<open>C15: a revaluation posts exactly the gain it reports. Whatever balances and rates it meets, the rows
  it adds are pairs of one debit and one credit of the same amount, one of the two on the gain and loss
  account; they are rows of the tenant, of the posting date, in the base currency, and form one balanced
  transaction under an identifier of its own, which the result names. The balance of the gain and loss
  account moves by the reported total, to the last place: no group is dropped, posted twice or posted on
  the wrong side. (The ledger has amounts of four places and fewer than ten thousand million rows.)\<close>

theorem revaluation_posts_its_gain:
  assumes "execute_exchange_revaluation e t number d base notes s = Inr (r, s')"
    and "list_all (\<lambda>g. places 4 (gl_debit g) \<and> places 4 (gl_credit g)) (gl_entries s)"
    and "length (gl_entries s) < 10 ^ 10"
  shows "account_balance s' t fx_account = account_balance s t fx_account - fr_gain r \<and>
    (\<exists>gs ps tx. gl_entries s' = gl_entries s @ gs \<and>
       map (\<lambda>g. (gl_account g, gl_debit g, gl_credit g)) gs =
         concat (map (\<lambda>(da, ca, v). [(da, v, 0), (ca, 0, v)]) ps) \<and>
       list_all (\<lambda>(da, ca, v). 0 < v \<and> (da = fx_account) \<noteq> (ca = fx_account)) ps \<and>
       list_all (\<lambda>g. gl_tenant g = t \<and> gl_transaction g = tx \<and> gl_date g = d \<and> gl_currency g = base) gs \<and>
       next_id s \<le> tx \<and> tx < next_id s' \<and> fr_journal r = (if gs = [] then None else Some tx))"
proof -
  obtain gs ps where gs: "gl_entries s' = gl_entries s @ gs" "fx_rows t (Suc (next_id s)) d base gs"
    "map row_sides gs = concat (map pair_sides ps)" "list_all fx_pair_ok ps"
    "list_all (\<lambda>p. 0 < cents (snd (snd p))) ps" "fr_journal r = (if gs = [] then None else Some (Suc (next_id s)))"
    "account_balance s' t fx_account = account_balance s t fx_account - fr_gain r"
    using revaluation_pairs [OF assms] by blast
  let ?qs = "map (\<lambda>(da, ca, v). (da, ca, cents v)) ps"
  have rows: "map (\<lambda>g. (gl_account g, gl_debit g, gl_credit g)) gs =
      concat (map (\<lambda>(da, ca, v). [(da, v, 0), (ca, 0, v)]) ?qs)"
    using gs(3) by (simp add: row_sides_def [abs_def] pair_sides_def [abs_def] comp_def case_prod_unfold)
  have "list_all (\<lambda>(da, ca, v). 0 < v \<and> (da = fx_account) \<noteq> (ca = fx_account)) ?qs"
    using gs(4,5) by (fastforce simp: list_all_iff fx_pair_ok_def)
  moreover have "list_all (\<lambda>g. gl_tenant g = t \<and> gl_transaction g = Suc (next_id s) \<and> gl_date g = d \<and> gl_currency g = base) gs"
    using gs(2) by (auto simp: fx_rows_def balanced_block_def list_all_iff)
  moreover have "Suc (next_id s) < next_id s'"
    by (rule revaluation_Inr [OF assms(1)]) simp
  ultimately show ?thesis
    using gs(1,6,7) rows by (intro conjI exI [of _ gs] exI [of _ ?qs] exI [of _ "Suc (next_id s)"]) simp_all
qed

theorem revaluation_posts_its_gain_witness:
  "\<exists>r s. execute_exchange_revaluation demo_env 0 ''A'' 101 ''U'' None demo_fx = Inr (r, s) \<and>
     account_balance s 0 fx_account = - 10"
proof -
  obtain r s where r: "execute_exchange_revaluation demo_env 0 ''A'' 101 ''U'' None demo_fx = Inr (r, s)" "fr_gain r = 10"
    using demo_revaluation by blast
  have "length (gl_entries demo_fx) < 10 ^ 10" "account_balance demo_fx 0 fx_account = 0"
    "list_all (\<lambda>g. places 4 (gl_debit g) \<and> places 4 (gl_credit g)) (gl_entries demo_fx)"
    by (simp_all add: demo_fx_def empty_db_def account_balance_def fx_account_def places_def)
  with revaluation_posts_its_gain [OF r(1)] r show ?thesis by auto
qed

text \<open>A revaluation is not idempotent. Its rows are in the base currency, so the balances in foreign
  currency stay as they are and a second run for the same day finds, reports and posts the same gain
  again.\<close>

theorem second_revaluation_repeats_the_gain:
  assumes "execute_exchange_revaluation e t number d base notes s = Inr (r, s1)"
    and "execute_exchange_revaluation e t number' d base notes' s1 = Inr (r', s2)" and "upper base = base"
  shows "fr_gain r' = fr_gain r"
  by (rule second_revaluation [OF assms])

text \<open>It compares an amount in foreign currency with its value in base currency: a balance that was
  entered at a rate of 1.1 yields a gain of a tenth of it although the rate has not changed; and it posts
  into a period that is locked.\<close>

theorem unchanged_rate_yields_gain:
  "\<exists>r s. execute_exchange_revaluation demo_env 0 ''A'' 101 ''U'' None demo_fx = Inr (r, s) \<and> fr_gain r = 10 \<and>
     list_all (\<lambda>g. gl_rate g = 11 / 10) (gl_entries demo_fx) \<and>
     get_latest_rate demo_env 0 ''E'' ''U'' (Some 101) demo_fx = Inr (11 / 10) \<and>
     list_all (\<lambda>p. fp_locked p \<and> fp_start p \<le> 101 \<and> 101 \<le> fp_end p) (fiscal_periods demo_fx)"
proof -
  have "list_all (\<lambda>g. gl_rate g = 11 / 10) (gl_entries demo_fx)"
    "get_latest_rate demo_env 0 ''E'' ''U'' (Some 101) demo_fx = Inr (11 / 10)"
    "list_all (\<lambda>p. fp_locked p \<and> fp_start p \<le> 101 \<and> 101 \<le> fp_end p) (fiscal_periods demo_fx)"
    by code_simp+
  with demo_revaluation show ?thesis by blast
qed

text \<open>C16: a rate that was set is the rate that is found. After a rate was set for a day, replacing the
  one of that day or adding a new one, the lookup for that day or any later one returns it, rounded to the
  six places of its column (and unchanged when it has six), as long as no rate of a later day is stored. The
  lookup of the reversed pair, when that has no rate of its own up to the day, succeeds and returns a number of
  six places that differs from the reciprocal of the stored rate by less than one unit of the sixth place.\<close>

theorem latest_rate_is_found:
  assumes "set_exchange_rate e t a b x (Some d) s = Inr (r, s')" and "upper a \<noteq> upper b" and "d \<le> d'"
    and "\<forall>q \<in> set (fx_rates s). is_rate t (upper a) (upper b) q \<longrightarrow> fx_date q \<le> d"
  shows "\<exists>v. get_latest_rate e' t a b (Some d') s' = Inr v \<and> v = quant round_half_up 6 x \<and> (places 6 x \<longrightarrow> v = x) \<and>
    (0 < v \<and> stored_rate t (upper b) (upper a) d' s = None \<longrightarrow>
      (\<exists>y. get_latest_rate e' t b a (Some d') s' = Inr y \<and> places 6 y \<and> \<bar>y - 1 / v\<bar> < 1 / 10 ^ 6))"
proof -
  let ?v = "quant round_half_up 6 x"
  have "get_latest_rate e' t b a (Some d') s' = ebind (ddiv 1 ?v) (quantize round_even 6)"
    if "0 < ?v" "stored_rate t (upper b) (upper a) d' s = None"
    using that set_rate_other [OF assms(1,2), of d'] set_rate_stored [OF assms(1,4,3)] assms(2)
    by (simp add: get_latest_rate_def or_else_def)
  then show ?thesis
    using set_rate_found [OF assms(1,2,4,3)] reciprocal_close [of ?v] by (auto simp: quant_places)
qed

theorem latest_rate_is_found_witness:
  "\<exists>r s. set_exchange_rate demo_env 0 ''e'' ''u'' (6 / 5) (Some 101) demo_fx = Inr (r, s) \<and>
     get_latest_rate demo_env 0 ''E'' ''U'' (Some 105) s = Inr (6 / 5) \<and>
     (\<exists>y. get_latest_rate demo_env 0 ''U'' ''E'' (Some 105) s = Inr y \<and> \<bar>y - 5 / 6\<bar> < 1 / 10 ^ 6)"
proof -
  have "is_ok (set_exchange_rate demo_env 0 ''e'' ''u'' (6 / 5) (Some 101) demo_fx)" by code_simp
  then obtain r s where r: "set_exchange_rate demo_env 0 ''e'' ''u'' (6 / 5) (Some 101) demo_fx = Inr (r, s)"
    by (auto simp: is_ok_def split: sum.splits)
  have "places 6 (6 / 5)" by (rule placesI [of _ _ 1200000]) simp
  moreover have "\<exists>v. get_latest_rate demo_env 0 ''e'' ''u'' (Some 105) s = Inr v \<and> v = quant round_half_up 6 (6 / 5) \<and>
      (places 6 (6 / 5) \<longrightarrow> v = 6 / 5) \<and> (0 < v \<and> stored_rate 0 (upper ''u'') (upper ''e'') 105 demo_fx = None \<longrightarrow>
      (\<exists>y. get_latest_rate demo_env 0 ''u'' ''e'' (Some 105) s = Inr y \<and> places 6 y \<and> \<bar>y - 1 / v\<bar> < 1 / 10 ^ 6))"
    by (rule latest_rate_is_found [OF r]) (code_simp | simp add: demo_fx_def)+
  moreover have "stored_rate 0 (upper ''u'') (upper ''e'') 105 demo_fx = None" by code_simp
  moreover have up: "upper ''e'' = upper ''E''" "upper ''u'' = upper ''U''" by code_simp+
  have "get_latest_rate demo_env 0 ''e'' ''u'' (Some 105) s = get_latest_rate demo_env 0 ''E'' ''U'' (Some 105) s"
    "get_latest_rate demo_env 0 ''u'' ''e'' (Some 105) s = get_latest_rate demo_env 0 ''U'' ''E'' (Some 105) s"
    unfolding get_latest_rate_def up by (rule refl)+
  moreover have "quant round_half_up 6 (6 / 5) = 6 / 5" by code_simp
  ultimately have "get_latest_rate demo_env 0 ''E'' ''U'' (Some 105) s = Inr (6 / 5) \<and>
    (\<exists>y. get_latest_rate demo_env 0 ''U'' ''E'' (Some 105) s = Inr y \<and> \<bar>y - 1 / (6 / 5)\<bar> < 1 / 10 ^ 6)"
    by (metis zero_less_divide_iff zero_less_numeral)
  moreover have "1 / (6 / 5) = (5 / 6 :: rat)" by simp
  ultimately show ?thesis using r by metis
qed

end
