(* ===== verification/Assets.thy ===== *)
theory Assets
  imports StockEntry
begin

section \<open>Fixed assets\<close>

text \<open>
  \<open>src/src/erp/workflows/assets/asset_service.py\<close>: categories, assets with their depreciation
  schedules, the posting of a period, movements, repairs, value adjustments, disposal and maintenance
  teams. The postings are written to the general ledger without the ledger engine.
  \<open>dateutil.relativedelta\<close> is a parameter: \<open>rd d k\<close> is the day \<open>k\<close> months after \<open>d\<close>, and \<open>None\<close> where
  the addition raises because that day is outside the years 1 to 9999. Values that a
  method computes stay unrounded until the columns round them at the flush.
\<close>

subsection \<open>Master data\<close>

definition create_category ::
    "uuid \<Rightarrow> string \<Rightarrow> string \<Rightarrow> int \<Rightarrow> int \<Rightarrow> string \<Rightarrow> string \<Rightarrow> string \<Rightarrow> db \<Rightarrow> (asset_category \<times> db) result" where
  "create_category t name method periods months asset_acct acc_acct exp_acct s =
     (let (i, s1) = uuid4 s;
          c = \<lparr>ca_tenant = t, ca_id = i, ca_name = name, ca_method = upper method, ca_periods = periods,
               ca_months = months, ca_asset_account = asset_acct, ca_accumulated_account = acc_acct,
               ca_expense_account = exp_acct\<rparr>
      in if list_ex (\<lambda>x. ca_tenant x = t \<and> ca_name x = name) (asset_categories s1) then Inl IntegrityError
         else Inr (c, s1\<lparr>asset_categories := asset_categories s1 @ [c]\<rparr>))"

definition get_category :: "uuid \<Rightarrow> uuid \<Rightarrow> db \<Rightarrow> asset_category option result" where
  "get_category t i s = one_or_none (filter (\<lambda>c. ca_tenant c = t \<and> ca_id c = i) (asset_categories s))"

definition known_location :: "uuid option \<Rightarrow> db \<Rightarrow> bool" where
  "known_location loc s = (case loc of None \<Rightarrow> True | Some l \<Rightarrow> list_ex (\<lambda>x. lo_id x = l) (asset_locations s))"

definition create_location :: "uuid \<Rightarrow> string \<Rightarrow> uuid option \<Rightarrow> db \<Rightarrow> (asset_location \<times> db) result" where
  "create_location t name parent s =
     (let (i, s1) = uuid4 s;
          l = \<lparr>lo_tenant = t, lo_id = i, lo_name = name, lo_parent = parent\<rparr>
      in if list_ex (\<lambda>x. lo_tenant x = t \<and> lo_name x = name) (asset_locations s1) \<or> \<not> known_location parent s1 then Inl IntegrityError
         else Inr (l, s1\<lparr>asset_locations := asset_locations s1 @ [l]\<rparr>))"

text \<open>The team is inserted first, then its members, each employee once.\<close>

definition create_maintenance_team ::
    "uuid \<Rightarrow> string \<Rightarrow> string option \<Rightarrow> (uuid \<times> string option) list \<Rightarrow> db \<Rightarrow> (asset_team \<times> db) result" where
  "create_maintenance_team t name txt members s =
     (if strip name = [] then Inl (ValueError ''Maintenance team name is required.'')
      else if \<not> distinct (map fst members)
      then Inl (ValueError ''A team cannot contain the same employee more than once.'')
      else if list_ex (\<lambda>x. tm_tenant x = t \<and> tm_name x = strip name) (asset_teams s) then Inl IntegrityError
      else let m = \<lparr>tm_tenant = t, tm_name = strip name, tm_text = txt, tm_members = members\<rparr>
           in Inr (m, s\<lparr>asset_teams := asset_teams s @ [m]\<rparr>))"

subsection \<open>Depreciation schedules\<close>

text \<open>The running values of a schedule: accumulated depreciation, book value and the rows so far, each
  the number of the period with its amount and the two values after it.\<close>

type_synonym run = "dec \<times> dec \<times> (int \<times> dec \<times> dec \<times> dec) list"

definition add_period :: "run \<Rightarrow> int \<Rightarrow> dec \<Rightarrow> run" where
  "add_period r i dep =
     (let (acc, book, rows) = r; acc' = dadd acc dep; book' = dsub book dep
      in (acc', book', rows @ [(i, dep, acc', book')]))"

definition straight_period :: "dec \<Rightarrow> dec \<Rightarrow> int \<Rightarrow> run \<Rightarrow> int \<Rightarrow> run" where
  "straight_period base amount n r i =
     (let dep = if i = n then dsub base (fst r) else amount in add_period r i dep)"

definition declining_period :: "dec \<Rightarrow> dec \<Rightarrow> int \<Rightarrow> run \<Rightarrow> int \<Rightarrow> run result" where
  "declining_period salvage rate n r i =
     (let book = fst (snd r); rest = max 0 (dsub book salvage)
      in ebind (if book \<le> salvage then Inr 0
                else ebind (quantize round_even 4 (dmul book rate)) (\<lambda>proposed.
                     Inr (if dsub book proposed < salvage then rest else proposed))) (\<lambda>dep.
         Inr (add_period r i (if i = n \<and> book > salvage then rest else dep))))"

definition schedule_of :: "asset_category \<Rightarrow> asset_row \<Rightarrow> (int \<times> dec \<times> dec \<times> dec) list result" where
  "schedule_of c a =
     (let n = ca_periods c; base = dsub (as_gross a) (as_salvage a); r0 = (0, as_gross a, []); ks = [1..n]
      in if base \<le> 0 \<or> n \<le> 0 then Inr []
         else if upper (ca_method c) = ''STRAIGHT_LINE''
         then ebind (ddiv base (of_int n)) (\<lambda>q. ebind (quantize round_even 4 q) (\<lambda>amount.
              Inr (snd (snd (foldl (straight_period base amount n) r0 ks)))))
         else if upper (ca_method c) \<in> {''DOUBLE_DECLINING'', ''WRITTEN_DOWN_VALUE''}
         then ebind (ddiv 2 (of_int n)) (\<lambda>rate.
              ebind (efold (declining_period (as_salvage a) rate n) r0 ks) (\<lambda>r. Inr (snd (snd r))))
         else Inr [])"

definition insert_period ::
    "(date \<Rightarrow> int \<Rightarrow> date option) \<Rightarrow> uuid \<Rightarrow> asset_category \<Rightarrow> asset_row \<Rightarrow> db \<Rightarrow> int \<times> dec \<times> dec \<times> dec \<Rightarrow> db result" where
  "insert_period rd t c a s row =
     (let (k, dep, acc, book) = row; (i, s1) = uuid4 s
      in case rd (as_available a) (k * ca_months c) of
           None \<Rightarrow> Inl (ValueError ''year is out of range'')
         | Some day \<Rightarrow>
             ebind (numeric 18 4 dep) (\<lambda>x. ebind (numeric 18 4 acc) (\<lambda>y. ebind (numeric 18 4 book) (\<lambda>z.
               Inr (s1\<lparr>depreciations := depreciations s1 @
                 [\<lparr>dp_tenant = t, dp_id = i, dp_asset = as_id a, dp_date = day,
                   dp_amount = x, dp_accumulated = y, dp_book = z, dp_posted = False, dp_posted_at = None,
                   dp_journal = None\<rparr>]\<rparr>)))))"

definition is_open_period :: "uuid \<Rightarrow> uuid \<Rightarrow> depreciation_row \<Rightarrow> bool" where
  "is_open_period t i d \<longleftrightarrow> dp_tenant d = t \<and> dp_asset d = i \<and> \<not> dp_posted d"

definition generate_depreciation_schedule ::
    "(date \<Rightarrow> int \<Rightarrow> date option) \<Rightarrow> uuid \<Rightarrow> asset_row \<Rightarrow> asset_category \<Rightarrow> db \<Rightarrow> db result" where
  "generate_depreciation_schedule rd t a c s =
     (let s1 = s\<lparr>depreciations := filter (\<lambda>d. \<not> is_open_period t (as_id a) d) (depreciations s)\<rparr>
      in ebind (schedule_of c a) (\<lambda>rows. efold (insert_period rd t c a) s1 rows))"

definition asset_columns :: "asset_row \<Rightarrow> asset_row result" where
  "asset_columns a =
     ebind (numeric 18 4 (as_gross a)) (\<lambda>g. ebind (numeric 18 4 (as_salvage a)) (\<lambda>v.
     ebind (numeric 18 4 (as_book a)) (\<lambda>b. ebind (numeric 18 4 (as_accumulated a)) (\<lambda>x.
       Inr (a\<lparr>as_gross := g, as_salvage := v, as_book := b, as_accumulated := x\<rparr>)))))"

definition create_asset ::
    "(date \<Rightarrow> int \<Rightarrow> date option) \<Rightarrow> uuid \<Rightarrow> string \<Rightarrow> string \<Rightarrow> uuid \<Rightarrow> date \<Rightarrow> date \<Rightarrow> dec \<Rightarrow> dec \<Rightarrow> uuid option \<Rightarrow>
     uuid option \<Rightarrow> string option \<Rightarrow> bool \<Rightarrow> db \<Rightarrow> (asset_row \<times> db) result" where
  "create_asset rd t code name cat bought available gross salvage loc cust notes auto s =
     ebind (get_category t cat s) (\<lambda>r.
       case r of
         None \<Rightarrow> Inl (ValueError (''Asset Category '' @ str_uuid cat @ '' not found.''))
       | Some c \<Rightarrow>
           let (i, s1) = uuid4 s;
               a = \<lparr>as_tenant = t, as_id = i, as_code = code, as_name = name, as_category = cat, as_location = loc,
                    as_custodian = cust, as_purchased = bought, as_available = available, as_gross = gross,
                    as_salvage = salvage, as_book = gross, as_accumulated = 0, as_status = ''SUBMITTED'',
                    as_notes = notes\<rparr>
           in if list_ex (\<lambda>x. as_tenant x = t \<and> as_code x = code) (assets_table s1) \<or>
                 \<not> known_location loc s1 then Inl IntegrityError
              else ebind (asset_columns a) (\<lambda>b.
                   let s2 = s1\<lparr>assets_table := assets_table s1 @ [b]\<rparr>
                   in if auto then ebind (generate_depreciation_schedule rd t a c s2) (\<lambda>s3. Inr (a, s3))
                      else Inr (a, s2)))"

subsection \<open>Postings\<close>

definition get_asset :: "uuid \<Rightarrow> uuid \<Rightarrow> db \<Rightarrow> asset_row option result" where
  "get_asset t i s = one_or_none (filter (\<lambda>a. as_tenant a = t \<and> as_id a = i) (assets_table s))"

definition put_asset :: "asset_row \<Rightarrow> db \<Rightarrow> db result" where
  "put_asset a s =
     ebind (asset_columns a) (\<lambda>b.
       Inr (s\<lparr>assets_table := update_where (\<lambda>x. as_id x = as_id a) (\<lambda>_. b) (assets_table s)\<rparr>))"

definition asset_not_found :: "uuid \<Rightarrow> exn" where
  "asset_not_found i = ValueError (''Asset '' @ str_uuid i @ '' not found.'')"

definition post_depreciation_entry :: "env \<Rightarrow> uuid \<Rightarrow> uuid \<Rightarrow> db \<Rightarrow> db result" where
  "post_depreciation_entry e t i s =
     ebind (one_or_none (filter (\<lambda>d. dp_tenant d = t \<and> dp_id d = i) (depreciations s))) (\<lambda>r.
       case r of
         None \<Rightarrow> Inl (ValueError (''Depreciation Schedule '' @ str_uuid i @ '' not found.''))
       | Some d \<Rightarrow>
           if dp_posted d
           then Inl (ValueError ''This depreciation schedule period has already been posted to the General Ledger.'')
           else
             (case (first_row (filter (\<lambda>a. as_id a = dp_asset d) (assets_table s))) of
                None \<Rightarrow> Inl AttributeError
              | Some a \<Rightarrow>
                (case first_row (filter (\<lambda>c. ca_id c = as_category a) (asset_categories s)) of
                   None \<Rightarrow> Inl AttributeError
                 | Some c \<Rightarrow>
                     let (tx, s1) = uuid4 s; dep = dp_amount d; book = dsub (as_book a) dep
                     in ebind (row_pair t tx (dp_date d) (ca_expense_account c) (ca_accumulated_account c) ''OPERATIONS''
                               dep ''USD'' ''ASSET_DEPRECIATION'' i s1) (\<lambda>s2.
                        put_asset (a\<lparr>as_accumulated := dadd (as_accumulated a) dep, as_book := book,
                            as_status := (if book \<le> as_salvage a then ''FULLY_DEPRECIATED'' else ''IN_USE'')\<rparr>)
                          (s2\<lparr>depreciations := update_where (\<lambda>x. dp_id x = i)
                             (\<lambda>x. x\<lparr>dp_posted := True, dp_posted_at := Some (now e), dp_journal := Some tx\<rparr>)
                             (depreciations s2)\<rparr>)))))"

definition record_asset_movement ::
    "env \<Rightarrow> uuid \<Rightarrow> uuid \<Rightarrow> uuid option \<Rightarrow> uuid option \<Rightarrow> date option \<Rightarrow> string option \<Rightarrow> db \<Rightarrow> (asset_movement \<times> db) result" where
  "record_asset_movement e t i loc cust d purpose s =
     ebind (get_asset t i s) (\<lambda>r.
       case r of
         None \<Rightarrow> Inl (asset_not_found i)
       | Some a \<Rightarrow>
           let m = \<lparr>mv_tenant = t, mv_asset = i, mv_from_location = as_location a, mv_to_location = loc,
                    mv_from_custodian = as_custodian a, mv_to_custodian = cust, mv_date = or_else d (today e),
                    mv_purpose = purpose\<rparr>
           in if \<not> known_location loc s then Inl IntegrityError
              else ebind (put_asset (a\<lparr>as_location := (if loc = None then as_location a else loc),
                        as_custodian := (if cust = None then as_custodian a else cust)\<rparr>)
                      (s\<lparr>asset_movements := asset_movements s @ [m]\<rparr>)) (\<lambda>s1. Inr (m, s1)))"

definition asset_account :: "asset_category option \<Rightarrow> string" where
  "asset_account c = (case c of Some x \<Rightarrow> ca_asset_account x | None \<Rightarrow> ''1500-FIXED-ASSETS'')"

definition accumulated_account :: "asset_category option \<Rightarrow> string" where
  "accumulated_account c = (case c of Some x \<Rightarrow> ca_accumulated_account x | None \<Rightarrow> ''1550-ACCUMULATED-DEPRECIATION'')"

definition record_asset_repair ::
    "env \<Rightarrow> uuid \<Rightarrow> uuid \<Rightarrow> dec \<Rightarrow> string \<Rightarrow> date option \<Rightarrow> bool \<Rightarrow> db \<Rightarrow> (asset_repair \<times> db) result" where
  "record_asset_repair e t i cost txt d cap s =
     ebind (get_asset t i s) (\<lambda>r.
       case r of
         None \<Rightarrow> Inl (asset_not_found i)
       | Some a \<Rightarrow>
           let (rid, s1) = uuid4 s; day = or_else d (today e);
               rep = \<lparr>rp_tenant = t, rp_id = rid, rp_asset = i, rp_date = day, rp_cost = cost, rp_text = txt,
                      rp_capitalized = cap, rp_journal = None\<rparr>
           in ebind (numeric 18 4 cost) (\<lambda>x.
              if cap \<and> cost > 0
              then ebind (get_category t (as_category a) s1) (\<lambda>c.
                   let (tx, s2) = uuid4 s1; rep = rep\<lparr>rp_journal := Some tx\<rparr>
                   in ebind (row_pair t tx day (asset_account c) ''1110-OPERATING-CASH'' ''OPERATIONS'' cost ''USD''
                              ''ASSET_REPAIR_CAPITALIZATION'' rid s2) (\<lambda>s3.
                      ebind (put_asset (a\<lparr>as_gross := dadd (as_gross a) cost, as_book := dadd (as_book a) cost\<rparr>)
                              (s3\<lparr>asset_repairs := asset_repairs s3 @ [rep\<lparr>rp_cost := x\<rparr>]\<rparr>)) (\<lambda>s4. Inr (rep, s4))))
              else Inr (rep, s1\<lparr>asset_repairs := asset_repairs s1 @ [rep\<lparr>rp_cost := x\<rparr>]\<rparr>)))"

definition scrap_asset ::
    "env \<Rightarrow> uuid \<Rightarrow> uuid \<Rightarrow> date option \<Rightarrow> string option \<Rightarrow> db \<Rightarrow> db result" where
  "scrap_asset e t i d notes s =
     ebind (get_asset t i s) (\<lambda>r.
       case r of
         None \<Rightarrow> Inl (asset_not_found i)
       | Some a \<Rightarrow>
           ebind (get_category t (as_category a) s) (\<lambda>c.
             let (tx, s1) = uuid4 s; day = or_else d (today e);
                 row = (\<lambda>acct debit credit. direct_row t tx day acct ''OPERATIONS'' debit credit ''USD''
                          ''ASSET_DISPOSAL'' (as_id a))
             in ebind (if as_book a > 0 then row ''5300-LOSS-ON-ASSET-DISPOSAL'' (as_book a) 0 s1 else Inr s1) (\<lambda>s2.
                ebind (if as_accumulated a > 0 then row (accumulated_account c) (as_accumulated a) 0 s2
                       else Inr s2) (\<lambda>s3.
                ebind (row (asset_account c) 0 (as_gross a) s3) (\<lambda>s4.
                  put_asset (a\<lparr>as_status := ''SCRAPPED'', as_book := 0,
                      as_notes := (case notes of
                          None \<Rightarrow> as_notes a
                        | Some n \<Rightarrow> if n = [] then as_notes a
                                    else Some (or_else (as_notes a) [] @ '' [Scrapped: '' @ n @ '']''))\<rparr>) s4)))))"

text \<open>A value adjustment spreads the new value over the periods that are still open.\<close>

definition respread_straight :: "dec \<Rightarrow> dec \<Rightarrow> nat \<Rightarrow> run \<Rightarrow> int \<Rightarrow> run" where
  "respread_straight base amount n r k =
     add_period r k (if k = int n - 1 then dsub base (dmul amount (of_int k)) else amount)"

definition respread_declining :: "dec \<Rightarrow> dec \<Rightarrow> nat \<Rightarrow> run \<Rightarrow> int \<Rightarrow> run result" where
  "respread_declining salvage rate n r k =
     (let book = fst (snd r); rest = max 0 (dsub book salvage)
      in ebind (quantize round_even 4 (dmul book rate)) (\<lambda>q.
           Inr (add_period r k (if k = int n - 1 then rest else min rest q))))"

definition respread :: "asset_category option \<Rightarrow> asset_row \<Rightarrow> dec \<Rightarrow> nat \<Rightarrow> (int \<times> dec \<times> dec \<times> dec) list result" where
  "respread c a book n =
     (let base = max 0 (dsub book (as_salvage a)); r0 = (as_accumulated a, book, []); ks = [0..int n - 1];
          method = (case c of None \<Rightarrow> ''STRAIGHT_LINE'' | Some x \<Rightarrow> upper (ca_method x))
      in ebind (ddiv base (of_nat n)) (\<lambda>q. ebind (quantize round_even 4 q) (\<lambda>amount.
         ebind (case c of None \<Rightarrow> Inr 0
                | Some x \<Rightarrow> if ca_periods x = 0 then Inr 0 else ddiv 2 (of_int (ca_periods x))) (\<lambda>rate.
         ebind (if method = ''STRAIGHT_LINE'' then Inr (foldl (respread_straight base amount n) r0 ks)
                else efold (respread_declining (as_salvage a) rate n) r0 ks) (\<lambda>r.
           Inr (snd (snd r)))))))"

definition write_period :: "db \<Rightarrow> depreciation_row \<times> int \<times> dec \<times> dec \<times> dec \<Rightarrow> db result" where
  "write_period s p =
     (let (d, k, dep, acc, book) = p
      in ebind (numeric 18 4 dep) (\<lambda>x. ebind (numeric 18 4 acc) (\<lambda>y. ebind (numeric 18 4 book) (\<lambda>z.
           Inr (s\<lparr>depreciations := update_where (\<lambda>q. dp_id q = dp_id d)
             (\<lambda>q. q\<lparr>dp_amount := x, dp_accumulated := y, dp_book := z\<rparr>) (depreciations s)\<rparr>)))))"

definition adjust_asset_value ::
    "uuid \<Rightarrow> uuid \<Rightarrow> dec \<Rightarrow> date \<Rightarrow> string \<Rightarrow> db \<Rightarrow> (asset_adjustment \<times> db) result" where
  "adjust_asset_value t i v d reason s =
     ebind (get_asset t i s) (\<lambda>r.
       case r of
         None \<Rightarrow> Inl (asset_not_found i)
       | Some a \<Rightarrow>
           if as_status a = ''SCRAPPED'' \<or> as_status a = ''SOLD''
           then Inl (ValueError ''A disposed asset cannot be revalued.'')
           else if v < 0 \<or> v < as_accumulated a
           then Inl (ValueError ''New book value must be non-negative and cannot be below accumulated depreciation.'')
           else
             let delta = dsub v (as_book a)
             in if delta = 0 then Inl (ValueError ''New book value must differ from the current book value.'')
                else if strip reason = [] then Inl (ValueError ''An adjustment reason is required.'')
                else
                  let (aid, s1) = uuid4 s; amount = dabs delta
                  in ebind (numeric 18 4 v) (\<lambda>x. ebind (numeric 18 4 delta) (\<lambda>y.
                     ebind (get_category t (as_category a) s1) (\<lambda>c.
                     let (tx, s2) = uuid4 s1;
                         j = \<lparr>aj_tenant = t, aj_id = aid, aj_asset = i, aj_date = d, aj_previous = as_book a, aj_new = v,
                              aj_amount = delta, aj_reason = strip reason, aj_journal = Some tx\<rparr>;
                         fixed = asset_account c;
                         other = (if delta > 0 then ''4200-ASSET-REVALUATION-GAIN'' else ''5300-ASSET-REVALUATION-LOSS'')
                     in ebind (row_pair t tx d (if delta > 0 then fixed else other) (if delta > 0 then other else fixed)
                                ''OPERATIONS'' amount ''USD'' ''ASSET_VALUE_ADJUSTMENT'' aid s2) (\<lambda>s3.
                        ebind (put_asset (a\<lparr>as_book := v, as_gross := dadd (as_gross a) delta\<rparr>)
                                (s3\<lparr>asset_adjustments := asset_adjustments s3 @ [j\<lparr>aj_new := x, aj_amount := y\<rparr>]\<rparr>)) (\<lambda>s4.
                        let future = sort_key dp_date (filter (is_open_period t i) (depreciations s4))
                        in if future = [] then Inr (j, s4)
                           else ebind (respread c a v (length future)) (\<lambda>rows.
                                ebind (efold write_period s4 (zip future rows)) (\<lambda>s5. Inr (j, s5)))))))))"

definition list_assets :: "uuid \<Rightarrow> string option \<Rightarrow> uuid option \<Rightarrow> db \<Rightarrow> asset_row list" where
  "list_assets t status cat s =
     rev (filter (\<lambda>a. as_tenant a = t \<and>
            (case status of None \<Rightarrow> True | Some st \<Rightarrow> st = [] \<or> as_status a = upper st) \<and>
            (case cat of None \<Rightarrow> True | Some c \<Rightarrow> as_category a = c)) (assets_table s))"

subsection \<open>What a schedule adds up to\<close>

definition row_amount :: "int \<times> dec \<times> dec \<times> dec \<Rightarrow> dec" where
  "row_amount r = fst (snd r)"

definition row_accumulated :: "int \<times> dec \<times> dec \<times> dec \<Rightarrow> dec" where
  "row_accumulated r = fst (snd (snd r))"

definition row_book :: "int \<times> dec \<times> dec \<times> dec \<Rightarrow> dec" where
  "row_book r = snd (snd (snd r))"

lemmas row_defs = row_amount_def row_accumulated_def row_book_def

text \<open>The rows of a run over an asset of gross value \<open>g\<close>.\<close>

definition run_ok :: "dec \<Rightarrow> run \<Rightarrow> bool" where
  "run_ok g r \<longleftrightarrow>
     fst r + fst (snd r) = g \<and> (\<Sum>x\<leftarrow>snd (snd r). row_amount x) = fst r \<and>
     list_all (\<lambda>x. row_accumulated x + row_book x = g) (snd (snd r)) \<and>
     (snd (snd r) \<noteq> [] \<longrightarrow> row_accumulated (last (snd (snd r))) = fst r)"

lemma add_period_exact:
  assumes "small v acc" "small u book" "small w dep" "v + w < 10 ^ 24" "u + w < 10 ^ 24"
  shows "add_period (acc, book, rows) i dep = (acc + dep, book - dep, rows @ [(i, dep, acc + dep, book - dep)])"
  using dadd_small [OF assms(1,3,4)] dsub_small [OF assms(2,3,5)] by (simp add: add_period_def Let_def)

lemma run_ok_period:
  "run_ok g (acc, book, rows) \<Longrightarrow> run_ok g (acc + dep, book - dep, rows @ [(i, dep, acc + dep, book - dep)])"
  by (simp add: run_ok_def row_defs)

lemma run_ok_start: "run_ok g (0, g, [])"
  by (simp add: run_ok_def)

lemma upto_snoc: "[1..int (Suc m)] = [1..int m] @ [int m + 1]"
  using upto_rec2 [of 1 "int m + 1"] by (simp add: add.commute)

text \<open>The rounded share of a period lies between zero and what is to be shared.\<close>

lemma share_bounds:
  assumes "quantize round_even 4 q = Inr amount" "ddiv base n = Inr q" "0 \<le> base" "1 \<le> n" "column_amount base"
  shows "places 4 amount \<and> 0 \<le> amount \<and> amount \<le> base"
proof -
  have q: "q = ctx (base / n)" using assms(2,4) by (auto simp: ddiv_def split: if_splits)
  have amount: "amount = quant round_even 4 q" using assms(1) by (simp add: quantize_Inr)
  have b: "ctx base = base" "quant round_even 4 base = base"
    using assms(5) by (auto simp: column_amount_def intro: ctx_exact [of 4] quant_exact)
  have "0 \<le> base / n" "base / n \<le> base" using assms(3,4) by (simp_all add: divide_le_eq mult_le_cancel_left1)
  then have "0 \<le> q" "q \<le> base" using ctx.rnd_nonneg ctx.le_exact [OF b(1)] q by simp_all
  then have "0 \<le> amount" "amount \<le> base"
    using quant_even.rnd_nonneg quant_even.le_exact [OF b(2)] amount by simp_all
  then show ?thesis using quantize_places [OF assms(1)] by simp
qed

lemma multiple_small:
  assumes "places 4 amount" "0 \<le> amount" "amount \<le> b"
  shows "small (of_nat m * b) (of_nat m * amount)"
proof -
  have "places (0 + 4) (of_nat m * amount)"
    by (rule places_mult [OF _ assms(1)]) (simp add: places_def)
  moreover have "of_nat m * amount \<le> of_nat m * b" using assms(3) by (simp add: mult_left_mono)
  ultimately show ?thesis using assms(2) by (simp add: small_def)
qed

lemma straight_run:
  assumes a: "places 4 amount" "0 \<le> amount" "amount \<le> 10 ^ 14" and g: "small (10 ^ 14) g"
    and n: "n \<le> 2 ^ 31"
  shows "int m < n \<Longrightarrow> \<exists>rows. foldl (straight_period base amount n) (0, g, []) [1..int m] =
      (of_nat m * amount, g - of_nat m * amount, rows) \<and>
    run_ok g (of_nat m * amount, g - of_nat m * amount, rows) \<and> length rows = m"
proof (induction m)
  case 0
  then show ?case using run_ok_start by simp
next
  case (Suc m)
  then obtain rows where r: "foldl (straight_period base amount n) (0, g, []) [1..int m] =
      (of_nat m * amount, g - of_nat m * amount, rows)"
    "run_ok g (of_nat m * amount, g - of_nat m * amount, rows)" "length rows = m" by auto
  have "of_nat m \<le> (2 ^ 31 :: rat)"
    using Suc.prems n of_nat_le_iff [of m "2 ^ 31", where 'a = rat] by simp
  then have lim: "of_nat m * (10 :: rat) ^ 14 \<le> 2 ^ 31 * 10 ^ 14" by (rule mult_right_mono) simp
  have s: "small (of_nat m * 10 ^ 14) (of_nat m * amount)" by (rule multiple_small [OF a])
  have d: "small (10 ^ 14) amount" using a by (simp add: small_def)
  have "straight_period base amount n (of_nat m * amount, g - of_nat m * amount, rows) (int m + 1) =
      add_period (of_nat m * amount, g - of_nat m * amount, rows) (int m + 1) amount"
    using Suc.prems by (simp add: straight_period_def)
  also have "\<dots> = (of_nat m * amount + amount, g - of_nat m * amount - amount,
      rows @ [(int m + 1, amount, of_nat m * amount + amount, g - of_nat m * amount - amount)])"
    using lim by (intro add_period_exact [OF s small_minus [OF g s] d]) simp_all
  finally have step: "foldl (straight_period base amount n) (0, g, []) [1..int (Suc m)] =
      (of_nat m * amount + amount, g - of_nat m * amount - amount,
       rows @ [(int m + 1, amount, of_nat m * amount + amount, g - of_nat m * amount - amount)])"
    unfolding upto_snoc using r(1) by simp
  have e: "of_nat (Suc m) * amount = of_nat m * amount + amount" by (simp add: algebra_simps)
  show ?case
    unfolding e using step run_ok_period [OF r(2), of amount "int m + 1"] r(3) by (auto simp: diff_diff_eq)
qed

lemma straight_schedule:
  assumes c: "upper (ca_method c) = ''STRAIGHT_LINE''" "0 < ca_periods c" "ca_periods c \<le> 2 ^ 31"
    and a: "column_amount (as_gross a)" "column_amount (as_salvage a)" "0 \<le> as_salvage a" "as_salvage a < as_gross a"
    and r: "schedule_of c a = Inr rows"
  shows "\<exists>acc. run_ok (as_gross a) (acc, as_salvage a, rows) \<and> length rows = nat (ca_periods c)"
proof -
  let ?g = "as_gross a" and ?b = "as_gross a - as_salvage a"
  obtain m where m: "ca_periods c = int (Suc m)" using c(2) by (metis zero_less_imp_eq_int Suc_pred of_nat_0_less_iff)
  have b: "dsub ?g (as_salvage a) = ?b" "column_amount ?b" "0 < ?b"
    using dsub_column a by (auto simp: column_amount_def)
  obtain q amount where q: "ddiv ?b (of_int (int (Suc m))) = Inr q" "quantize round_even 4 q = Inr amount"
    and rows: "rows = snd (snd (foldl (straight_period ?b amount (int (Suc m))) (0, ?g, []) [1..int (Suc m)]))"
    using r c(1) b(3) unfolding schedule_of_def Let_def m b(1) by (auto simp: ebind_eq_Inr split: if_splits)
  have am: "places 4 amount" "0 \<le> amount" "amount \<le> ?b"
    using share_bounds [OF q(2,1)] b by (auto simp: less_imp_le)
  have g: "small (10 ^ 14) ?g" "small (10 ^ 14) ?b" using a(1) b(2) by (auto simp: small_def column_amount_def)
  have le: "amount \<le> 10 ^ 14" using am(3) b(2,3) by (auto simp: column_amount_def abs_if split: if_splits)
  have n: "int (Suc m) \<le> 2 ^ 31" using c(3) m by simp
  from straight_run [OF am(1,2) le g(1) n, of m ?b] obtain rs where
    s: "foldl (straight_period ?b amount (int (Suc m))) (0, ?g, []) [1..int m] =
      (of_nat m * amount, ?g - of_nat m * amount, rs)"
    "run_ok ?g (of_nat m * amount, ?g - of_nat m * amount, rs)" "length rs = m" by auto
  have "of_nat m \<le> (2 ^ 31 :: rat)"
    using n of_nat_le_iff [of m "2 ^ 31", where 'a = rat] by simp
  then have lim: "of_nat m * (10 :: rat) ^ 14 \<le> 2 ^ 31 * 10 ^ 14" by (rule mult_right_mono) simp
  have acc: "small (of_nat m * 10 ^ 14) (of_nat m * amount)" by (rule multiple_small [OF am(1,2) le])
  let ?d = "?b - of_nat m * amount"
  have d: "dsub ?b (of_nat m * amount) = ?d" using lim by (intro dsub_small [OF g(2) acc]) simp
  have "straight_period ?b amount (int (Suc m)) (of_nat m * amount, ?g - of_nat m * amount, rs) (int m + 1) =
      add_period (of_nat m * amount, ?g - of_nat m * amount, rs) (int m + 1) ?d"
    by (simp add: straight_period_def d)
  also have "\<dots> = (of_nat m * amount + ?d, ?g - of_nat m * amount - ?d,
      rs @ [(int m + 1, ?d, of_nat m * amount + ?d, ?g - of_nat m * amount - ?d)])"
    using lim by (intro add_period_exact [OF acc small_minus [OF g(1) acc] small_minus [OF g(2) acc]]) simp_all
  finally have "rows = rs @ [(int m + 1, ?d, of_nat m * amount + ?d, ?g - of_nat m * amount - ?d)]"
    unfolding rows upto_snoc using s(1) by simp
  with run_ok_period [OF s(2), of ?d "int m + 1"] s(3) m show ?thesis
    by (intro exI [of _ "of_nat m * amount + ?d"]) simp
qed

text \<open>The declining methods never fall below the salvage value.\<close>

lemma declining_amount:
  assumes "declining_period v rate n (acc, book, rows) i = Inr r" "column_amount book" "column_amount v"
    and "v \<le> book" "0 \<le> v" "0 \<le> rate" "rate \<le> 2"
  shows "\<exists>dep. r = add_period (acc, book, rows) i dep \<and> places 4 dep \<and> 0 \<le> dep \<and> dep \<le> book - v \<and>
    (i = n \<longrightarrow> dep = book - v)"
proof -
  have rest: "dsub book v = book - v" using dsub_column assms(2,3) .
  have pl: "places 4 (book - v)" using assms(2,3) by (auto simp: column_amount_def)
  show ?thesis
  proof (cases "book \<le> v")
    case True
    then show ?thesis using assms(1,4) by (auto simp: declining_period_def Let_def)
  next
    case False
    then obtain q where q: "quantize round_even 4 (dmul book rate) = Inr q"
      and r: "r = add_period (acc, book, rows) i (if i = n then book - v else
        if dsub book q < v then book - v else q)"
      using assms(1) by (auto simp: declining_period_def Let_def rest ebind_eq_Inr max_def)
    have b2: "ctx (2 * book) = 2 * book" "quant round_even 4 (2 * book) = 2 * book" "places 4 (2 * book)"
      using assms(2) places_add [of 4 book book] by (auto simp: column_amount_def intro: ctx_exact [of 4] quant_exact)
    have bp: "0 \<le> book" using assms(4,5) by simp
    have "0 \<le> book * rate" "book * rate \<le> 2 * book"
      using mult_left_mono [OF assms(7) bp] bp assms(6) by (simp_all add: mult.commute)
    then have "0 \<le> dmul book rate" "dmul book rate \<le> 2 * book"
      using ctx.rnd_nonneg ctx.le_exact [OF b2(1)] by (simp_all add: dmul_def)
    then have q2: "0 \<le> q" "q \<le> 2 * book" "places 4 q"
      using quant_even.rnd_nonneg quant_even.le_exact [OF b2(2)] q by (auto simp: quantize_Inr)
    have "dsub book q = book - q"
      by (rule dsub_small [of "10 ^ 14" _ "2 * 10 ^ 14"]) (use assms(2) q2 in \<open>auto simp: small_def column_amount_def\<close>)
    then show ?thesis using r q2 pl False by auto
  qed
qed

lemma declining_run:
  "efold (declining_period v rate n) (acc, book, rows) ks = Inr r \<Longrightarrow>
     run_ok g (acc, book, rows) \<Longrightarrow> column_amount g \<Longrightarrow> column_amount v \<Longrightarrow> places 4 book \<Longrightarrow>
     v \<le> book \<Longrightarrow> book \<le> g \<Longrightarrow> 0 \<le> v \<Longrightarrow> 0 \<le> rate \<Longrightarrow> rate \<le> 2 \<Longrightarrow>
     list_all (\<lambda>x. 0 \<le> row_amount x \<and> v \<le> row_book x) rows \<Longrightarrow>
     run_ok g r \<and> v \<le> fst (snd r) \<and> list_all (\<lambda>x. 0 \<le> row_amount x \<and> v \<le> row_book x) (snd (snd r)) \<and>
     length (snd (snd r)) = length rows + length ks \<and> (ks \<noteq> [] \<and> last ks = n \<longrightarrow> fst (snd r) = v)"
proof (induction ks arbitrary: acc book rows)
  case (Cons i ks)
  from Cons.prems(1) obtain u where u: "declining_period v rate n (acc, book, rows) i = Inr u"
    "efold (declining_period v rate n) u ks = Inr r" by (auto simp: ebind_eq_Inr)
  have col: "column_amount book" using Cons.prems by (auto simp: column_amount_def)
  from declining_amount [OF u(1) col Cons.prems(4,6,8,9,10)] obtain dep where
    d: "u = add_period (acc, book, rows) i dep" "places 4 dep" "0 \<le> dep" "dep \<le> book - v" "i = n \<longrightarrow> dep = book - v"
    by blast
  have acc: "acc = g - book" using Cons.prems(2) by (simp add: run_ok_def)
  have sm: "small (10 ^ 14) acc" "small (10 ^ 14) book" "small (10 ^ 14) dep"
    using Cons.prems col d by (auto simp: small_def column_amount_def acc)
  have u': "u = (acc + dep, book - dep, rows @ [(i, dep, acc + dep, book - dep)])"
    unfolding d(1) by (rule add_period_exact [OF sm]) simp_all
  have "run_ok g r \<and> v \<le> fst (snd r) \<and> list_all (\<lambda>x. 0 \<le> row_amount x \<and> v \<le> row_book x) (snd (snd r)) \<and>
     length (snd (snd r)) = length (rows @ [(i, dep, acc + dep, book - dep)]) + length ks \<and>
     (ks \<noteq> [] \<and> last ks = n \<longrightarrow> fst (snd r) = v)"
    by (rule Cons.IH [OF u(2) [unfolded u']])
      (use Cons.prems d run_ok_period [OF Cons.prems(2), of dep i] in \<open>auto simp: row_defs\<close>)
  moreover have "fst (snd r) = v" if "ks = []" "i = n" using u(2) u' d(5) that by auto
  ultimately show ?case by (cases "ks = []") auto
qed auto

lemma declining_schedule:
  assumes c: "upper (ca_method c) \<in> {''DOUBLE_DECLINING'', ''WRITTEN_DOWN_VALUE''}" "0 < ca_periods c"
    and a: "column_amount (as_gross a)" "column_amount (as_salvage a)" "0 \<le> as_salvage a" "as_salvage a < as_gross a"
    and r: "schedule_of c a = Inr rows"
  shows "(\<exists>acc. run_ok (as_gross a) (acc, as_salvage a, rows)) \<and> length rows = nat (ca_periods c) \<and>
    list_all (\<lambda>x. 0 \<le> row_amount x \<and> as_salvage a \<le> row_book x) rows"
proof -
  let ?n = "ca_periods c" and ?g = "as_gross a" and ?v = "as_salvage a"
  have b: "dsub ?g ?v = ?g - ?v" using dsub_column a by simp
  have nm: "upper (ca_method c) \<noteq> ''STRAIGHT_LINE''" using c(1) by auto
  have pos: "\<not> (?g - ?v \<le> 0 \<or> ?n \<le> 0)" using a(4) c(2) by simp
  obtain rate u where q: "ddiv 2 (of_int ?n) = Inr rate"
    and e: "efold (declining_period ?v rate ?n) (0, ?g, []) [1..?n] = Inr u" and rows: "rows = snd (snd u)"
    using r unfolding schedule_of_def Let_def b if_not_P [OF pos] if_not_P [OF nm] if_P [OF c(1)]
    by (auto simp: ebind_eq_Inr)
  have two: "ctx 2 = 2" by (rule ctx_exact [of 0]) (simp_all add: places_def)
  have n1: "(1 :: rat) \<le> of_int ?n" using c(2) by simp
  have rt: "rate = ctx (2 / of_int ?n)" using q c(2) by (auto simp: ddiv_def split: if_splits)
  have "0 \<le> 2 / (of_int ?n :: rat)" "2 / (of_int ?n :: rat) \<le> 2" using n1 by (simp_all add: divide_le_eq)
  then have "0 \<le> rate" "rate \<le> 2" using ctx.rnd_nonneg ctx.le_exact [OF two] rt by simp_all
  moreover have "places 4 ?g" using a(1) by (simp add: column_amount_def)
  ultimately have d: "run_ok ?g u \<and> ?v \<le> fst (snd u) \<and>
      list_all (\<lambda>x. 0 \<le> row_amount x \<and> ?v \<le> row_book x) (snd (snd u)) \<and>
      length (snd (snd u)) = length ([] :: (int \<times> dec \<times> dec \<times> dec) list) + length [1..?n] \<and>
      ([1..?n] \<noteq> [] \<and> last [1..?n] = ?n \<longrightarrow> fst (snd u) = ?v)"
    by (intro declining_run [OF e run_ok_start a(1,2)]) (use a in simp_all)
  have "[1..?n] = [1..?n - 1] @ [?n]" using upto_rec2 [of 1 ?n] c(2) by simp
  then have "fst (snd u) = ?v" using d by simp
  then have "u = (fst u, ?v, rows)" using rows by (cases u) auto
  with d show ?thesis by (metis length_upto list.size(3) add_0 diff_add_cancel rows)
qed

text \<open>What both say of the rows.\<close>

lemma run_ok_rows:
  "run_ok g (acc, v, rows) \<Longrightarrow> rows \<noteq> [] \<Longrightarrow>
     (\<Sum>x\<leftarrow>rows. row_amount x) = g - v \<and> row_accumulated (last rows) = g - v \<and> row_book (last rows) = v \<and>
     list_all (\<lambda>x. row_accumulated x + row_book x = g) rows"
proof -
  assume ok: "run_ok g (acc, v, rows)" and ne: "rows \<noteq> []"
  have "row_accumulated (last rows) + row_book (last rows) = g"
    using ok last_in_set [OF ne] by (auto simp: run_ok_def list_all_iff)
  with ok ne show ?thesis by (auto simp: run_ok_def)
qed

text \<open>No step of a schedule of amounts that fit their columns raises.\<close>

lemma quantize_column:
  assumes "\<bar>x\<bar> \<le> 10 ^ 20"
  shows "\<exists>y. quantize round_even 4 x = Inr y"
proof -
  have "\<bar>of_int (round_even (x * 10 ^ 4)) - x * 10 ^ 4\<bar> \<le> 1 / 2" by (rule round_even_close)
  then have "\<bar>of_int (round_even (x * 10 ^ 4))\<bar> \<le> \<bar>x\<bar> * 10 ^ 4 + 1 / 2" by (simp add: abs_if split: if_splits)
  also have "\<dots> < of_int (10 ^ 28)" using assms by simp
  finally have "rat_of_int \<bar>round_even (x * 10 ^ 4)\<bar> < of_int (10 ^ 28)" by simp
  then have "\<bar>round_even (x * 10 ^ 4)\<bar> < 10 ^ 28" by (simp only: of_int_less_iff)
  then show ?thesis by (simp add: quantize_def)
qed

lemma declining_step_returns:
  assumes "column_amount book" "0 \<le> book" "0 \<le> rate" "rate \<le> 2"
  shows "\<exists>r. declining_period v rate n (acc, book, rows) i = Inr r"
proof -
  have big: "ctx (10 ^ 20) = 10 ^ 20" by (rule ctx_exact [of 0]) (simp_all add: places_def)
  have "book \<le> 10 ^ 14" using assms by (simp add: column_amount_def)
  then have "book * rate \<le> 10 ^ 14 * 2" by (rule mult_mono) (use assms in simp_all)
  moreover have "0 \<le> book * rate" using assms by simp
  ultimately have "0 \<le> dmul book rate" "dmul book rate \<le> 10 ^ 20"
    using ctx.rnd_nonneg ctx.le_exact [OF big] by (simp_all add: dmul_def)
  then obtain q where "quantize round_even 4 (dmul book rate) = Inr q" using quantize_column by force
  then have "declining_period v rate n (acc, book, rows) i \<noteq> Inl e" for e
    by (simp add: declining_period_def Let_def)
  then show ?thesis by (cases "declining_period v rate n (acc, book, rows) i") blast+
qed

lemma declining_returns:
  "column_amount g \<Longrightarrow> column_amount v \<Longrightarrow> places 4 book \<Longrightarrow> acc = g - book \<Longrightarrow> v \<le> book \<Longrightarrow> book \<le> g \<Longrightarrow>
     0 \<le> v \<Longrightarrow> 0 \<le> rate \<Longrightarrow> rate \<le> 2 \<Longrightarrow> \<exists>r. efold (declining_period v rate n) (acc, book, rows) ks = Inr r"
proof (induction ks arbitrary: acc book rows)
  case (Cons i ks)
  have col: "column_amount book" "0 \<le> book" using Cons.prems by (auto simp: column_amount_def)
  obtain u where u: "declining_period v rate n (acc, book, rows) i = Inr u"
    using declining_step_returns [OF col Cons.prems(8,9)] by blast
  obtain dep where d: "u = add_period (acc, book, rows) i dep" "places 4 dep" "0 \<le> dep" "dep \<le> book - v"
    using declining_amount [OF u col(1) Cons.prems(2,5,7,8,9)] by blast
  have sm: "small (10 ^ 14) acc" "small (10 ^ 14) book" "small (10 ^ 14) dep"
    using Cons.prems col d by (auto simp: small_def column_amount_def)
  have u': "u = (acc + dep, book - dep, rows @ [(i, dep, acc + dep, book - dep)])"
    unfolding d(1) by (rule add_period_exact [OF sm]) simp_all
  have "\<exists>r. efold (declining_period v rate n) u ks = Inr r"
    unfolding u' by (rule Cons.IH) (use Cons.prems d in auto)
  with u show ?case by simp
qed simp

lemma schedule_returns:
  assumes c: "upper (ca_method c) \<in> {''STRAIGHT_LINE'', ''DOUBLE_DECLINING'', ''WRITTEN_DOWN_VALUE''}" "0 < ca_periods c"
    and a: "column_amount (as_gross a)" "column_amount (as_salvage a)" "0 \<le> as_salvage a" "as_salvage a < as_gross a"
  shows "\<exists>rows. schedule_of c a = Inr rows"
proof -
  let ?n = "ca_periods c" and ?g = "as_gross a" and ?v = "as_salvage a"
  have b: "dsub ?g ?v = ?g - ?v" "0 < ?g - ?v" using dsub_column a by simp_all
  have n1: "(1 :: rat) \<le> of_int ?n" using c(2) by simp
  have big: "ctx (10 ^ 20) = 10 ^ 20" and two: "ctx 2 = 2"
    by (rule ctx_exact [of 0]; simp add: places_def)+
  have nz: "(of_int ?n :: rat) \<noteq> 0" using c(2) by simp
  have "0 \<le> (?g - ?v) / of_int ?n" "(?g - ?v) / of_int ?n \<le> ?g - ?v"
    using b(2) n1 by (simp_all add: divide_le_eq mult_le_cancel_left1)
  moreover have "?g - ?v \<le> 10 ^ 20" using a by (simp add: column_amount_def)
  ultimately have "0 \<le> ctx ((?g - ?v) / of_int ?n)" "ctx ((?g - ?v) / of_int ?n) \<le> 10 ^ 20"
    using ctx.rnd_nonneg ctx.le_exact [OF big] by simp_all
  then obtain amount where q: "quantize round_even 4 (ctx ((?g - ?v) / of_int ?n)) = Inr amount"
    using quantize_column by force
  have "0 \<le> 2 / (of_int ?n :: rat)" "2 / (of_int ?n :: rat) \<le> 2" using n1 by (simp_all add: divide_le_eq)
  then have "0 \<le> ctx (2 / of_int ?n)" "ctx (2 / of_int ?n) \<le> 2" using ctx.rnd_nonneg ctx.le_exact [OF two] by simp_all
  moreover have "places 4 ?g" using a(1) by (simp add: column_amount_def)
  ultimately obtain r where r: "efold (declining_period ?v (ctx (2 / of_int ?n)) ?n) (0, ?g, []) [1..?n] = Inr r"
    using declining_returns [OF a(1,2), of ?g 0 "ctx (2 / of_int ?n)" ?n "[]" "[1..?n]"] a by auto
  show ?thesis using nz b(2) q r by (simp add: schedule_of_def Let_def b(1) ddiv_def)
qed

subsection \<open>Properties of schedules\<close>

text \<open>C17: a depreciation schedule writes off the asset. For each of the three methods, every number of
  periods from 1 to \<open>2 ^ 31\<close> and every asset whose salvage value is not negative and below its gross value
  (both amounts as their columns hold them), the amounts of the schedule are computed without an error: one row per period, its
  amounts add up to the gross value less the salvage value, the last book value is the salvage value and in
  every row accumulated depreciation and book value add up to the gross value, although the share of a
  period is rounded; the declining methods never write off a negative amount nor below the salvage value.\<close>

theorem schedule_writes_off_the_asset:
  assumes "upper (ca_method c) \<in> {''STRAIGHT_LINE'', ''DOUBLE_DECLINING'', ''WRITTEN_DOWN_VALUE''}"
    and "0 < ca_periods c" and "ca_periods c \<le> 2 ^ 31"
    and "column_amount (as_gross a)" and "column_amount (as_salvage a)"
    and "0 \<le> as_salvage a" and "as_salvage a < as_gross a"
  shows "\<exists>rows. schedule_of c a = Inr rows \<and> length rows = nat (ca_periods c) \<and>
    (\<Sum>x\<leftarrow>rows. row_amount x) = as_gross a - as_salvage a \<and> row_book (last rows) = as_salvage a \<and>
    list_all (\<lambda>x. row_accumulated x + row_book x = as_gross a) rows \<and>
    (upper (ca_method c) \<noteq> ''STRAIGHT_LINE'' \<longrightarrow>
       list_all (\<lambda>x. 0 \<le> row_amount x \<and> as_salvage a \<le> row_book x) rows)"
proof -
  obtain rows where r: "schedule_of c a = Inr rows"
    using schedule_returns [OF assms(1,2,4-7)] by blast
  have "(\<exists>acc. run_ok (as_gross a) (acc, as_salvage a, rows)) \<and> length rows = nat (ca_periods c) \<and>
      (upper (ca_method c) \<noteq> ''STRAIGHT_LINE'' \<longrightarrow>
         list_all (\<lambda>x. 0 \<le> row_amount x \<and> as_salvage a \<le> row_book x) rows)"
  proof (cases "upper (ca_method c) = ''STRAIGHT_LINE''")
    case True
    then show ?thesis using straight_schedule [OF True assms(2-7) r] by blast
  next
    case False
    then show ?thesis using declining_schedule [OF _ assms(2,4-7) r] assms(1) by blast
  qed
  moreover from this assms(2) have "rows \<noteq> []" by auto
  ultimately show ?thesis using run_ok_rows r by blast
qed

definition demo_category :: "string \<Rightarrow> int \<Rightarrow> asset_category" where
  "demo_category method n =
     \<lparr>ca_tenant = 0, ca_id = 1, ca_name = ''M'', ca_method = method, ca_periods = n, ca_months = 1,
      ca_asset_account = ''15'', ca_accumulated_account = ''155'', ca_expense_account = ''52''\<rparr>"

definition demo_asset :: "dec \<Rightarrow> dec \<Rightarrow> asset_row" where
  "demo_asset gross salvage =
     \<lparr>as_tenant = 0, as_id = 2, as_code = ''A'', as_name = ''A'', as_category = 1, as_location = None,
      as_custodian = None, as_purchased = 100, as_available = 100, as_gross = gross, as_salvage = salvage,
      as_book = gross, as_accumulated = 0, as_status = ''SUBMITTED'', as_notes = None\<rparr>"

theorem schedule_writes_off_the_asset_witness:
  "\<exists>rows. schedule_of (demo_category ''WRITTEN_DOWN_VALUE'' 3) (demo_asset 100 10) = Inr rows \<and>
     (\<Sum>x\<leftarrow>rows. row_amount x) = 90 \<and> length rows = 3"
proof -
  have "upper ''WRITTEN_DOWN_VALUE'' = ''WRITTEN_DOWN_VALUE''" by code_simp
  then show ?thesis
    using schedule_writes_off_the_asset [of "demo_category ''WRITTEN_DOWN_VALUE'' 3" "demo_asset 100 10"]
    by (simp add: demo_category_def demo_asset_def column_amount_def places_def) blast
qed

text \<open>The straight line may overshoot: when the share of a period is below half of the last place, rounding
  it up writes off more than the base before the last period, whose amount is then negative.\<close>

theorem straight_line_overshoots:
  "(case schedule_of (demo_category ''STRAIGHT_LINE'' 5) (demo_asset (3 / 10000) 0) of
      Inl _ \<Rightarrow> False | Inr rows \<Rightarrow> row_amount (last rows) = - 1 / 10000)"
proof -
  have u: "upper ''STRAIGHT_LINE'' = ''STRAIGHT_LINE''" by code_simp
  have c: "ctx (3 / 50000) = 3 / 50000" by (rule ctx_exact [of 5]) (simp_all add: places_def)
  have e: "ctx (1 / 10000) = 1 / 10000" "ctx (1 / 5000) = 1 / 5000" "ctx (3 / 10000) = 3 / 10000"
    "ctx (1 / 2500) = 1 / 2500" "ctx (- 1 / 10000) = - 1 / 10000" "ctx (- (1 / 10000)) = - (1 / 10000)"
    "ctx 0 = 0"
    by (rule ctx_exact [of 4]; simp add: places_def)+
  have l: "[1..5] = [1, 2, 3, 4, 5 :: int]" by code_simp
  have q: "quantize round_even 4 (3 / 50000) = Inr (1 / 10000)" by code_simp
  have d: "ddiv (3 / 10000) 5 = Inr (3 / 50000)" "dsub (3 / 10000) 0 = 3 / 10000"
    using c e by (simp_all add: ddiv_def dsub_def)
  show ?thesis
    by (simp add: schedule_of_def demo_category_def demo_asset_def u d q l)
      (simp add: straight_period_def add_period_def dadd_def dsub_def e Let_def row_defs)
qed

end
