(* ===== verification/AssetLedger.thy ===== *)
theory AssetLedger
  imports Assets
begin

section \<open>Assets and the general ledger\<close>

text \<open>
  What the operations of \<open>Assets\<close> (\<open>workflows/assets/asset_service.py\<close>) do to the table of assets and to
  the general ledger, one lemma per operation, the steps of the service as a relation, the invariant that
  book value and accumulated depreciation make up the gross value, and the interface \<open>direct_poster\<close>.
\<close>

subsection \<open>The invariant\<close>

text \<open>\<open>D\<close> is a set of assets of which nothing is said but that their columns hold what was written.\<close>

definition asset_ok :: "uuid set \<Rightarrow> asset_row \<Rightarrow> bool" where
  "asset_ok D a \<longleftrightarrow>
     column_amount (as_gross a) \<and> column_amount (as_book a) \<and> column_amount (as_accumulated a) \<and>
     0 \<le> as_accumulated a \<and> (as_id a \<notin> D \<longrightarrow> as_book a + as_accumulated a = as_gross a)"

definition assets_ok :: "uuid set \<Rightarrow> db \<Rightarrow> bool" where
  "assets_ok D s \<longleftrightarrow>
     list_all (asset_ok D) (assets_table s) \<and> list_all (\<lambda>d. column_amount (dp_amount d)) (depreciations s)"

lemma assets_ok_frame:
  "assets_ok D s \<Longrightarrow> assets_table s' = assets_table s \<Longrightarrow> depreciations s' = depreciations s \<Longrightarrow> assets_ok D s'"
  by (simp add: assets_ok_def)

lemma assets_ok_more: "assets_ok D s \<Longrightarrow> assets_ok (insert i D) s"
  by (auto simp: assets_ok_def asset_ok_def list_all_iff)

lemma asset_columns_Inr:
  assumes "asset_columns a = Inr b"
  shows "\<exists>v. b = a\<lparr>as_gross := cents (as_gross a), as_salvage := v, as_book := cents (as_book a),
    as_accumulated := cents (as_accumulated a)\<rparr> \<and>
    column_amount (cents (as_gross a)) \<and> column_amount (cents (as_book a)) \<and> column_amount (cents (as_accumulated a))"
  using assms by (auto simp: asset_columns_def ebind_eq_Inr numeric_Inr column_amount_def)

lemma asset_columns_ok:
  assumes "asset_columns a = Inr b" "0 \<le> as_accumulated a"
    and "as_id a \<notin> D \<Longrightarrow> places 4 (as_gross a) \<and> places 4 (as_book a) \<and> places 4 (as_accumulated a) \<and>
      as_book a + as_accumulated a = as_gross a"
  shows "asset_ok D b"
  using asset_columns_Inr [OF assms(1)] assms(2,3) quant_up.rnd_nonneg by (auto simp: asset_ok_def quant_places)

lemma put_asset_Inr:
  "put_asset a s = Inr s' \<Longrightarrow> \<exists>b. asset_columns a = Inr b \<and>
     s' = s\<lparr>assets_table := update_where (\<lambda>x. as_id x = as_id a) (\<lambda>_. b) (assets_table s)\<rparr>"
  by (auto simp: put_asset_def ebind_eq_Inr)

lemma put_asset_ok:
  assumes "put_asset a s = Inr s'" "assets_ok D s" "0 \<le> as_accumulated a"
    and "as_id a \<notin> D \<Longrightarrow> places 4 (as_gross a) \<and> places 4 (as_book a) \<and> places 4 (as_accumulated a) \<and>
      as_book a + as_accumulated a = as_gross a"
  shows "assets_ok D s'"
proof -
  obtain b where b: "asset_columns a = Inr b"
    "s' = s\<lparr>assets_table := update_where (\<lambda>x. as_id x = as_id a) (\<lambda>_. b) (assets_table s)\<rparr>"
    using put_asset_Inr [OF assms(1)] by blast
  have "asset_ok D b" by (rule asset_columns_ok [OF b(1) assms(3,4)])
  with assms(2) show ?thesis unfolding b(2) by (auto simp: assets_ok_def list_all_iff set_update_where)
qed

lemma put_asset_frame:
  "put_asset a s = Inr s' \<Longrightarrow>
     gl_entries s' = gl_entries s \<and> audit_logs s' = audit_logs s \<and> depreciations s' = depreciations s"
  using put_asset_Inr by fastforce

lemma get_asset_Inr: "get_asset t i s = Inr (Some a) \<Longrightarrow> a \<in> set (assets_table s) \<and> as_tenant a = t \<and> as_id a = i"
  unfolding get_asset_def using one_or_none_filter by fast

lemma got_asset_ok: "get_asset t i s = Inr (Some a) \<Longrightarrow> assets_ok D s \<Longrightarrow> asset_ok D a"
  using get_asset_Inr by (fastforce simp: assets_ok_def list_all_iff)

lemma row_pair_grows:
  assumes "row_pair t tx d da ca cc v cur src sid s = Inr s'"
  shows "ledger_grows s s' \<and> assets_table s' = assets_table s \<and> depreciations s' = depreciations s"
  using row_pair_Inr [OF assms] block_posted by (auto simp: ledger_grows_def grows_balanced_def)

subsection \<open>Depreciation\<close>

lemma post_depreciation_Inr:
  assumes "post_depreciation_entry e t i s = Inr s'"
  obtains d a u where
    "d \<in> set (depreciations s)" "dp_tenant d = t" "dp_id d = i" "\<not> dp_posted d" "a \<in> set (assets_table s)"
    "as_id a = dp_asset d" "0 < cents (dp_amount d)" "ledger_grows s u"
    "assets_table u = assets_table s" "depreciations u = depreciations s"
    "put_asset (a\<lparr>as_accumulated := dadd (as_accumulated a) (dp_amount d), as_book := dsub (as_book a) (dp_amount d),
       as_status := (if dsub (as_book a) (dp_amount d) \<le> as_salvage a then ''FULLY_DEPRECIATED'' else ''IN_USE'')\<rparr>)
       (u\<lparr>depreciations := update_where (\<lambda>x. dp_id x = i)
       (\<lambda>x. x\<lparr>dp_posted := True, dp_posted_at := Some (now e), dp_journal := Some (next_id s)\<rparr>) (depreciations u)\<rparr>) = Inr s'"
proof -
  let ?Q = "one_or_none (filter (\<lambda>d. dp_tenant d = t \<and> dp_id d = i) (depreciations s))"
  obtain r where r: "?Q = Inr r" using assms by (cases ?Q) (simp_all add: post_depreciation_entry_def)
  obtain d where r': "r = Some d" using assms r by (cases r) (simp_all add: post_depreciation_entry_def)
  with r have "?Q = Inr (Some d)" by simp
  moreover from this have "\<not> dp_posted d" using assms by (cases "dp_posted d") (simp_all add: post_depreciation_entry_def)
  ultimately have d: "?Q = Inr (Some d)" "\<not> dp_posted d" by blast+
  obtain a where a: "first_row (filter (\<lambda>a. as_id a = dp_asset d) (assets_table s)) = Some a"
    using assms d by (cases "first_row (filter (\<lambda>a. as_id a = dp_asset d) (assets_table s))")
      (simp_all add: post_depreciation_entry_def)
  obtain c where c: "first_row (filter (\<lambda>c. ca_id c = as_category a) (asset_categories s)) = Some c"
    using assms d a by (cases "first_row (filter (\<lambda>c. ca_id c = as_category a) (asset_categories s))")
      (simp_all add: post_depreciation_entry_def)
  obtain u where u: "row_pair t (next_id s) (dp_date d) (ca_expense_account c) (ca_accumulated_account c) ''OPERATIONS''
      (dp_amount d) ''USD'' ''ASSET_DEPRECIATION'' i (s\<lparr>next_id := Suc (next_id s)\<rparr>) = Inr u"
    and p: "put_asset (a\<lparr>as_accumulated := dadd (as_accumulated a) (dp_amount d), as_book := dsub (as_book a) (dp_amount d),
       as_status := (if dsub (as_book a) (dp_amount d) \<le> as_salvage a then ''FULLY_DEPRECIATED'' else ''IN_USE'')\<rparr>)
       (u\<lparr>depreciations := update_where (\<lambda>x. dp_id x = i)
       (\<lambda>x. x\<lparr>dp_posted := True, dp_posted_at := Some (now e), dp_journal := Some (next_id s)\<rparr>) (depreciations u)\<rparr>) = Inr s'"
    using assms d a c unfolding post_depreciation_entry_def by (auto simp: uuid4_def Let_def ebind_eq_Inr)
  have g: "ledger_grows s u" "assets_table u = assets_table s" "depreciations u = depreciations s"
    using row_pair_grows [OF u] by (simp_all add: ledger_grows_def grows_balanced_def)
  have "0 < cents (dp_amount d)" using row_pair_Inr [OF u] by blast
  with d p g one_or_none_filter [OF d(1)] first_row_Some_in [OF a] show thesis by (intro that [of d a u]) simp_all
qed

lemma depreciation_grows:
  assumes "post_depreciation_entry e t i s = Inr s'"
  shows "ledger_grows s s'"
proof (rule post_depreciation_Inr [OF assms])
  fix d a u
  assume "ledger_grows s u" and p: "put_asset a (u\<lparr>depreciations := d\<rparr>) = Inr s'"
  then show ?thesis using put_asset_frame [OF p] by (simp add: ledger_grows_def grows_balanced_def)
qed

lemma depreciation_ok:
  assumes "post_depreciation_entry e t i s = Inr s'" "assets_ok D s"
  shows "assets_ok D s'"
proof (rule post_depreciation_Inr [OF assms(1)])
  fix d a and u :: db
  let ?P = "update_where (\<lambda>x. dp_id x = i)
    (\<lambda>x. x\<lparr>dp_posted := True, dp_posted_at := Some (now e), dp_journal := Some (next_id s)\<rparr>) (depreciations u)"
  assume d: "d \<in> set (depreciations s)" "dp_id d = i" "a \<in> set (assets_table s)" "as_id a = dp_asset d"
      "0 < cents (dp_amount d)"
    and u: "assets_table u = assets_table s" "depreciations u = depreciations s"
    and p: "put_asset (a\<lparr>as_accumulated := dadd (as_accumulated a) (dp_amount d),
       as_book := dsub (as_book a) (dp_amount d),
       as_status := (if dsub (as_book a) (dp_amount d) \<le> as_salvage a then ''FULLY_DEPRECIATED'' else ''IN_USE'')\<rparr>)
       (u\<lparr>depreciations := ?P\<rparr>) = Inr s'"
  have c: "column_amount (dp_amount d)" "asset_ok D a" using d assms(2) by (simp_all add: assets_ok_def list_all_iff)
  then have dep: "0 < dp_amount d" using d(5) by (simp add: column_amount_def quant_places)
  have e: "dadd (as_accumulated a) (dp_amount d) = as_accumulated a + dp_amount d"
    "dsub (as_book a) (dp_amount d) = as_book a - dp_amount d"
    using c by (simp_all add: asset_ok_def dadd_column dsub_column)
  have "assets_ok D (u\<lparr>depreciations := ?P\<rparr>)"
    using assms(2) u by (simp add: assets_ok_def list_all_update_where)
  then show ?thesis
    by (rule put_asset_ok [OF p]) (use c dep e in \<open>auto simp: asset_ok_def column_amount_def\<close>)
qed

subsection \<open>Movements and repairs\<close>

lemma movement_Inr:
  assumes "record_asset_movement e t i loc cust d purpose s = Inr (m, s')"
  obtains a l c u where "get_asset t i s = Inr (Some a)" "assets_table u = assets_table s"
    "depreciations u = depreciations s" "gl_entries u = gl_entries s" "audit_logs u = audit_logs s"
    "put_asset (a\<lparr>as_location := l, as_custodian := c\<rparr>) u = Inr s'"
proof -
  obtain a where a: "get_asset t i s = Inr (Some a)"
    using assms unfolding record_asset_movement_def found_eq_Inr by blast
  show thesis
    by (rule that [of a "s\<lparr>asset_movements := asset_movements s @ [m]\<rparr>" "if cust = None then as_custodian a else cust"
          "if loc = None then as_location a else loc"])
      (use assms a in \<open>auto simp: record_asset_movement_def Let_def ebind_eq_Inr split: if_splits\<close>)
qed

lemma movement_grows:
  assumes "record_asset_movement e t i loc cust d purpose s = Inr (m, s')"
  shows "ledger_grows s s'"
  by (rule movement_Inr [OF assms], drule put_asset_frame) (simp add: ledger_grows_same)

lemma asset_movement_ok:
  assumes "record_asset_movement e t i loc cust d purpose s = Inr (m, s')" "assets_ok D s"
  shows "assets_ok D s'"
proof (rule movement_Inr [OF assms(1)])
  fix a l c and u :: db
  assume a: "get_asset t i s = Inr (Some a)" and u: "assets_table u = assets_table s" "depreciations u = depreciations s"
    and p: "put_asset (a\<lparr>as_location := l, as_custodian := c\<rparr>) u = Inr s'"
  show ?thesis
    by (rule put_asset_ok [OF p]) (use got_asset_ok [OF a assms(2)] assms(2) u in
      \<open>auto simp: assets_ok_def asset_ok_def column_amount_def\<close>)
qed

lemma repair_Inr:
  assumes "record_asset_repair e t i cost txt d cap s = Inr (r, s')"
  obtains (booked) a u where "get_asset t i s = Inr (Some a)" "0 < cost" "ledger_grows s u"
      "assets_table u = assets_table s" "depreciations u = depreciations s"
      "put_asset (a\<lparr>as_gross := dadd (as_gross a) cost, as_book := dadd (as_book a) cost\<rparr>) u = Inr s'"
    | (noted) "assets_table s' = assets_table s" "depreciations s' = depreciations s" "ledger_grows s s'"
proof -
  obtain a where a: "get_asset t i s = Inr (Some a)"
    using assms unfolding record_asset_repair_def found_eq_Inr by blast
  show thesis
  proof (cases "cap \<and> cost > 0")
    case False
    then show thesis
      using assms a by (intro noted) (auto simp: record_asset_repair_def uuid4_def Let_def ebind_eq_Inr ledger_grows_same)
  next
    case True
    let ?s = "\<lambda>n. s\<lparr>next_id := n\<rparr>"
    obtain c tx u da ca rid rows n where u: "row_pair t tx (or_else d (today e)) da ca ''OPERATIONS'' cost ''USD''
        ''ASSET_REPAIR_CAPITALIZATION'' rid (?s n) = Inr u"
      and p: "put_asset (a\<lparr>as_gross := dadd (as_gross a) cost, as_book := dadd (as_book a) cost\<rparr>)
        (u\<lparr>asset_repairs := rows\<rparr>) = Inr s'"
      using assms a True unfolding record_asset_repair_def uuid4_def Let_def
      by (auto simp: ebind_eq_Inr)
    have g: "ledger_grows s (u\<lparr>asset_repairs := rows\<rparr>)" "assets_table u = assets_table s" "depreciations u = depreciations s"
      using row_pair_grows [OF u] by (simp_all add: ledger_grows_def grows_balanced_def)
    show thesis by (rule booked [OF a _ g(1) _ _ p]) (use True g in simp_all)
  qed
qed

lemma put_after_growth: "ledger_grows s u \<Longrightarrow> put_asset a u = Inr s' \<Longrightarrow> ledger_grows s s'"
  using put_asset_frame by (fastforce simp: ledger_grows_def grows_balanced_def)

lemma repair_grows:
  assumes "record_asset_repair e t i cost txt d cap s = Inr (r, s')"
  shows "ledger_grows s s'"
  by (rule repair_Inr [OF assms]) (auto intro: put_after_growth)

text \<open>An amount from outside with more than four places is rounded in each column on its own: nothing is said
  of the asset from then on.\<close>

definition touched :: "dec \<Rightarrow> uuid \<Rightarrow> uuid set \<Rightarrow> uuid set" where
  "touched x i D = (if column_amount x then D else insert i D)"

lemma assets_ok_touched: "assets_ok D s \<Longrightarrow> assets_ok (touched x i D) s"
  by (simp add: touched_def assets_ok_more)

lemma repair_ok:
  assumes "record_asset_repair e t i cost txt d cap s = Inr (r, s')" "assets_ok D s"
  shows "assets_ok (touched cost i D) s'"
proof (rule repair_Inr [OF assms(1)])
  fix a :: asset_row and u :: db
  let ?D = "touched cost i D"
  assume a: "get_asset t i s = Inr (Some a)" and u: "assets_table u = assets_table s" "depreciations u = depreciations s"
    and p: "put_asset (a\<lparr>as_gross := dadd (as_gross a) cost, as_book := dadd (as_book a) cost\<rparr>) u = Inr s'"
  have ok: "asset_ok ?D a" "assets_ok ?D u" "as_id a = i"
    using got_asset_ok [OF a assets_ok_touched] assets_ok_frame [OF assets_ok_touched] assms(2) u get_asset_Inr [OF a] by blast+
  show ?thesis
  proof (rule put_asset_ok [OF p ok(2)])
    let ?a = "a\<lparr>as_gross := dadd (as_gross a) cost, as_book := dadd (as_book a) cost\<rparr>"
    assume "as_id ?a \<notin> ?D"
    then have "column_amount cost" "i \<notin> ?D" using ok(3) by (auto simp: touched_def split: if_splits)
    then show "places 4 (as_gross ?a) \<and> places 4 (as_book ?a) \<and> places 4 (as_accumulated ?a) \<and>
        as_book ?a + as_accumulated ?a = as_gross ?a"
      using ok(1,3) by (auto simp: asset_ok_def dadd_column)
        (auto simp: column_amount_def)
  qed (use ok(1) in \<open>simp add: asset_ok_def\<close>)
next
  assume "assets_table s' = assets_table s" "depreciations s' = depreciations s"
  then show ?thesis using assets_ok_touched [OF assms(2)] assets_ok_frame by blast
qed

subsection \<open>Value adjustments\<close>

text \<open>The table of schedules changed, but not the rest of what the invariants are about.\<close>

definition respread_of :: "db \<Rightarrow> db \<Rightarrow> bool" where
  "respread_of s s' \<longleftrightarrow>
     gl_entries s' = gl_entries s \<and> audit_logs s' = audit_logs s \<and> assets_table s' = assets_table s \<and>
     (list_all (\<lambda>d. column_amount (dp_amount d)) (depreciations s) \<longrightarrow>
      list_all (\<lambda>d. column_amount (dp_amount d)) (depreciations s'))"

lemma respread_refl: "respread_of s s"
  by (simp add: respread_of_def)

lemma respread_trans: "respread_of s u \<Longrightarrow> respread_of u s' \<Longrightarrow> respread_of s s'"
  by (simp add: respread_of_def)

lemma respread_ok: "respread_of s s' \<Longrightarrow> assets_ok D s \<Longrightarrow> assets_ok D s'"
  by (simp add: respread_of_def assets_ok_def)

lemma respread_grows: "ledger_grows s u \<Longrightarrow> respread_of u s' \<Longrightarrow> ledger_grows s s'"
  by (simp add: respread_of_def ledger_grows_def grows_balanced_def)

lemma write_period_respread: "write_period s p = Inr s' \<Longrightarrow> respread_of s s'"
  by (cases p) (auto simp: write_period_def respread_of_def ebind_eq_Inr numeric_column list_all_iff set_update_where)

lemma write_periods_respread: "efold write_period s ps = Inr s' \<Longrightarrow> respread_of s s'"
proof (induction ps arbitrary: s)
  case (Cons p ps)
  then obtain u where "write_period s p = Inr u" "efold write_period u ps = Inr s'" by (auto simp: ebind_eq_Inr)
  with Cons.IH show ?case by (blast intro: write_period_respread respread_trans)
qed (simp add: respread_refl)

lemma adjustment_Inr:
  assumes "adjust_asset_value t i v d reason s = Inr (j, s')"
  obtains a u w where "get_asset t i s = Inr (Some a)" "as_status a \<noteq> ''SCRAPPED''" "0 \<le> v" "as_accumulated a \<le> v"
    "dsub v (as_book a) \<noteq> 0" "ledger_grows s u" "assets_table u = assets_table s" "depreciations u = depreciations s"
    "put_asset (a\<lparr>as_book := v, as_gross := dadd (as_gross a) (dsub v (as_book a))\<rparr>) u = Inr w" "respread_of w s'"
proof -
  obtain a where a: "get_asset t i s = Inr (Some a)"
    using assms unfolding adjust_asset_value_def found_eq_Inr by blast
  have st: "as_status a \<noteq> ''SCRAPPED''" "as_status a \<noteq> ''SOLD''"
    using assms a by (cases "as_status a = ''SCRAPPED'' \<or> as_status a = ''SOLD''", auto simp: adjust_asset_value_def)+
  have v: "0 \<le> v" "as_accumulated a \<le> v"
    using assms a st by (cases "v < 0 \<or> v < as_accumulated a", auto simp: adjust_asset_value_def)+
  have df: "dsub v (as_book a) \<noteq> 0"
    using assms a st v by (cases "dsub v (as_book a) = 0") (auto simp: adjust_asset_value_def)
  have rs: "strip reason \<noteq> []"
    using assms a st v df by (cases "strip reason = []") (auto simp: adjust_asset_value_def)
  let ?a = "a\<lparr>as_book := v, as_gross := dadd (as_gross a) (dsub v (as_book a))\<rparr>"
  have guard: "\<not> (as_status a = ''SCRAPPED'' \<or> as_status a = ''SOLD'')" "\<not> (v < 0 \<or> v < as_accumulated a)"
    using st v by auto
  obtain c u n tx da ca aid rows w k where u: "row_pair t tx d da ca ''OPERATIONS'' (dabs (dsub v (as_book a))) ''USD''
        ''ASSET_VALUE_ADJUSTMENT'' aid (s\<lparr>next_id := n\<rparr>) = Inr u"
    and p: "put_asset ?a (u\<lparr>asset_adjustments := rows\<rparr>) = Inr w"
    and r: "(let future = sort_key dp_date (filter (is_open_period t i) (depreciations w))
      in if future = [] then Inr (k, w)
         else ebind (respread c a v (length future)) (\<lambda>rows.
              ebind (efold write_period w (zip future rows)) (\<lambda>s5. Inr (k, s5)))) = Inr (j, s')"
    using assms a unfolding adjust_asset_value_def
    by (simp only: a ebind.simps option.case guard if_False df rs Let_def uuid4_def prod.case)
      (auto simp: ebind_eq_Inr Let_def split del: if_split)
  have "respread_of w s'"
    using r by (auto simp: Let_def ebind_eq_Inr respread_refl intro: write_periods_respread split: if_splits)
  moreover have "ledger_grows s (u\<lparr>asset_adjustments := rows\<rparr>)" "assets_table u = assets_table s"
      "depreciations u = depreciations s"
    using row_pair_grows [OF u] by (simp_all add: ledger_grows_def grows_balanced_def)
  ultimately show thesis using p a st v df by (intro that [of a "u\<lparr>asset_adjustments := rows\<rparr>" w]) simp_all
qed

lemma adjustment_grows:
  assumes "adjust_asset_value t i v d reason s = Inr (j, s')"
  shows "ledger_grows s s'"
  by (rule adjustment_Inr [OF assms]) (blast intro: respread_grows put_after_growth)

lemma adjustment_ok:
  assumes "adjust_asset_value t i v d reason s = Inr (j, s')" "assets_ok D s"
  shows "assets_ok (touched v i D) s'"
proof (rule adjustment_Inr [OF assms(1)])
  fix a :: asset_row and u w :: db
  let ?D = "touched v i D"
  let ?a = "a\<lparr>as_book := v, as_gross := dadd (as_gross a) (dsub v (as_book a))\<rparr>"
  assume a: "get_asset t i s = Inr (Some a)"
    and u: "assets_table u = assets_table s" "depreciations u = depreciations s"
    and p: "put_asset ?a u = Inr w" and r: "respread_of w s'"
  have ok: "asset_ok ?D a" "assets_ok ?D u" "as_id a = i"
    using got_asset_ok [OF a assets_ok_touched] assets_ok_frame [OF assets_ok_touched] assms(2) u get_asset_Inr [OF a] by blast+
  have "assets_ok ?D w"
  proof (rule put_asset_ok [OF p ok(2)])
    assume "as_id ?a \<notin> ?D"
    then have v: "column_amount v" "i \<notin> ?D" using ok(3) by (auto simp: touched_def split: if_splits)
    then have d: "dsub v (as_book a) = v - as_book a" using ok(1) by (simp add: asset_ok_def dsub_column)
    have "dadd (as_gross a) (v - as_book a) = as_gross a + (v - as_book a)"
      using ok(1) v(1) by (intro dadd_small [of "10 ^ 14" _ "10 ^ 14 + 10 ^ 14"] small_minus)
        (auto simp: asset_ok_def column_amount_def small_def)
    then show "places 4 (as_gross ?a) \<and> places 4 (as_book ?a) \<and> places 4 (as_accumulated ?a) \<and>
        as_book ?a + as_accumulated ?a = as_gross ?a"
      using ok(1,3) v by (auto simp: d asset_ok_def column_amount_def)
  qed (use ok(1) in \<open>simp add: asset_ok_def\<close>)
  with r show ?thesis by (rule respread_ok)
qed

subsection \<open>Disposal\<close>

text \<open>One side of a transaction \<open>tx\<close> on day \<open>d\<close>, as the columns of the ledger hold it.\<close>

definition side_of :: "uuid \<Rightarrow> uuid \<Rightarrow> date \<Rightarrow> gl_entry \<Rightarrow> bool" where
  "side_of t tx d g \<longleftrightarrow> gl_tenant g = t \<and> gl_transaction g = tx \<and> gl_date g = d \<and>
     column_amount (gl_debit g) \<and> column_amount (gl_credit g) \<and>
     (0 < gl_debit g \<and> gl_credit g = 0 \<or> gl_debit g = 0 \<and> 0 < gl_credit g)"

lemma sides_block:
  assumes "list_all (side_of t tx d) gs" "gs \<noteq> []" "debits gs = credits gs"
  shows "balanced_block t tx gs"
proof -
  have "gl_date (hd gs) = d" using assms(1,2) by (cases gs) (simp_all add: side_of_def)
  with assms show ?thesis by (simp add: balanced_block_def side_of_def list_all_iff)
qed

lemma direct_side:
  assumes "direct_row t tx d acct cc debit credit cur src sid u = Inr u'"
  shows "\<exists>g. u' = u\<lparr>next_id := Suc (next_id u), gl_entries := gl_entries u @ [g]\<rparr> \<and> side_of t tx d g \<and>
    gl_debit g = cents debit \<and> gl_credit g = cents credit"
  using direct_row_Inr [OF assms] by (fastforce simp: side_of_def column_amount_def)

lemma optional_side:
  assumes "(if x > 0 then direct_row t tx d acct cc x 0 cur src sid u else Inr u) = Inr u'"
  shows "\<exists>n gs. u' = u\<lparr>next_id := n, gl_entries := gl_entries u @ gs\<rparr> \<and> list_all (side_of t tx d) gs \<and>
    debits gs = (if 0 < x then cents x else 0) \<and> credits gs = 0"
proof (cases "x > 0")
  case True
  then show ?thesis using direct_side [of t tx d acct cc x 0 cur src sid u u'] assms by fastforce
next
  case False
  then show ?thesis using assms by (intro exI [of _ "next_id u"] exI [of _ "[]"]) simp
qed

text \<open>A disposal debits what is left and what was written off, and credits the gross value.\<close>

lemma disposal_Inr:
  assumes "scrap_asset e t i d notes s = Inr s'"
  obtains a gs n where "get_asset t i s = Inr (Some a)"
    "debits gs = (if 0 < as_book a then cents (as_book a) else 0) +
       (if 0 < as_accumulated a then cents (as_accumulated a) else 0)"
    "credits gs = cents (as_gross a)" "gs \<noteq> []" "list_all (side_of t (next_id s) (or_else d (today e))) gs"
    "\<exists>m. put_asset (a\<lparr>as_status := ''SCRAPPED'', as_book := 0, as_notes := m\<rparr>)
       (s\<lparr>next_id := n, gl_entries := gl_entries s @ gs\<rparr>) = Inr s'"
proof -
  let ?s1 = "s\<lparr>next_id := Suc (next_id s)\<rparr>"
  let ?row = "\<lambda>acct debit credit. direct_row t (next_id s) (or_else d (today e)) acct ''OPERATIONS'' debit credit ''USD''
    ''ASSET_DISPOSAL'' i"
  obtain a where a: "get_asset t i s = Inr (Some a)"
    using assms unfolding scrap_asset_def found_eq_Inr by blast
  then have id: "as_id a = i" using get_asset_Inr by blast
  obtain c where c: "get_category t (as_category a) s = Inr c"
    using assms a by (auto simp: scrap_asset_def ebind_eq_Inr)
  obtain s2 s3 s4 m where
    r1: "(if as_book a > 0 then ?row ''5300-LOSS-ON-ASSET-DISPOSAL'' (as_book a) 0 ?s1 else Inr ?s1) = Inr s2" and
    r2: "(if as_accumulated a > 0 then ?row (accumulated_account c) (as_accumulated a) 0 s2 else Inr s2) = Inr s3" and
    r3: "?row (asset_account c) 0 (as_gross a) s3 = Inr s4" and
    p: "put_asset (a\<lparr>as_status := ''SCRAPPED'', as_book := 0, as_notes := m\<rparr>) s4 = Inr s'"
    using assms a c by (auto simp: id scrap_asset_def uuid4_def Let_def ebind_eq_Inr split del: if_split)
  from optional_side [OF r1] obtain n1 g1 where 1: "s2 = s\<lparr>next_id := n1, gl_entries := gl_entries s @ g1\<rparr>"
    "list_all (side_of t (next_id s) (or_else d (today e))) g1"
    "debits g1 = (if 0 < as_book a then cents (as_book a) else 0)" "credits g1 = 0" by auto
  from optional_side [OF r2] obtain n2 g2 where 2: "s3 = s\<lparr>next_id := n2, gl_entries := gl_entries s @ g1 @ g2\<rparr>"
    "list_all (side_of t (next_id s) (or_else d (today e))) g2"
    "debits g2 = (if 0 < as_accumulated a then cents (as_accumulated a) else 0)" "credits g2 = 0" using 1 by auto
  from direct_side [OF r3] obtain g n where 3: "s4 = s\<lparr>next_id := n, gl_entries := gl_entries s @ g1 @ g2 @ [g]\<rparr>"
    "side_of t (next_id s) (or_else d (today e)) g" "gl_debit g = 0" "gl_credit g = cents (as_gross a)"
    using 2 by auto
  show thesis by (rule that [OF a, of "g1 @ g2 @ [g]" n]) (use 1 2 3 p in auto)
qed

text \<open>Disposing of an asset that is not overdrawn and whose values add up posts a balanced transaction.\<close>

definition regular :: "asset_row \<Rightarrow> bool" where
  "regular a \<longleftrightarrow> places 4 (as_gross a) \<and> places 4 (as_book a) \<and> places 4 (as_accumulated a) \<and>
     0 \<le> as_book a \<and> 0 \<le> as_accumulated a \<and> as_book a + as_accumulated a = as_gross a"

lemma disposal_block:
  assumes "scrap_asset e t i d notes s = Inr s'" "get_asset t i s = Inr (Some a)" "regular a"
  shows "\<exists>gs. gl_entries s' = gl_entries s @ gs \<and> balanced_block t (next_id s) gs \<and> audit_logs s' = audit_logs s"
proof (rule disposal_Inr [OF assms(1)])
  fix b gs n
  let ?u = "s\<lparr>next_id := n, gl_entries := gl_entries s @ gs\<rparr>"
  assume b: "get_asset t i s = Inr (Some b)"
    and d: "debits gs = (if 0 < as_book b then cents (as_book b) else 0) +
       (if 0 < as_accumulated b then cents (as_accumulated b) else 0)" "credits gs = cents (as_gross b)" "gs \<noteq> []"
      "list_all (side_of t (next_id s) (or_else d (today e))) gs"
    and "\<exists>m. put_asset (b\<lparr>as_status := ''SCRAPPED'', as_book := 0, as_notes := m\<rparr>) ?u = Inr s'"
  then obtain m where p: "put_asset (b\<lparr>as_status := ''SCRAPPED'', as_book := 0, as_notes := m\<rparr>) ?u = Inr s'" by blast
  have "b = a" using b assms(2) by simp
  then have "debits gs = credits gs" using d(1,2) assms(3) by (auto simp: regular_def quant_places)
  from sides_block [OF d(4,3) this] put_asset_frame [OF p] show ?thesis by auto
qed

text \<open>Whatever the asset is, a disposal appends rows of one new transaction and leaves the asset scrapped.\<close>

lemma disposal_rows:
  assumes "scrap_asset e t i d notes s = Inr s'"
  shows "\<exists>gs. gl_entries s' = gl_entries s @ gs \<and> list_all (side_of t (next_id s) (or_else d (today e))) gs \<and>
    audit_logs s' = audit_logs s"
  by (rule disposal_Inr [OF assms]) (auto dest: put_asset_frame)

lemma disposal_ok:
  assumes "scrap_asset e t i d notes s = Inr s'" "assets_ok D s"
  shows "assets_ok (insert i D) s'"
proof (rule disposal_Inr [OF assms(1)])
  fix a gs n
  let ?u = "s\<lparr>next_id := n, gl_entries := gl_entries s @ gs\<rparr>"
  assume a: "get_asset t i s = Inr (Some a)"
    and "\<exists>m. put_asset (a\<lparr>as_status := ''SCRAPPED'', as_book := 0, as_notes := m\<rparr>) ?u = Inr s'"
  then obtain m where p: "put_asset (a\<lparr>as_status := ''SCRAPPED'', as_book := 0, as_notes := m\<rparr>) ?u = Inr s'" by blast
  have "assets_ok (insert i D) ?u" using assets_ok_more [OF assms(2)] by (rule assets_ok_frame) simp_all
  then show ?thesis
    by (rule put_asset_ok [OF p]) (use got_asset_ok [OF a assms(2)] get_asset_Inr [OF a] in \<open>auto simp: asset_ok_def\<close>)
qed

text \<open>Nothing in the code looks at the status of the asset: disposing of it again posts its whole gross
  value against what was written off, a transaction that does not balance.\<close>

theorem second_disposal_is_unbalanced:
  assumes "scrap_asset e t i d notes s = Inr s'" and "get_asset t i s = Inr (Some a)"
    and "as_status a = ''SCRAPPED''" and "as_book a = 0"
    and "places 4 (as_gross a)" and "places 4 (as_accumulated a)" and "0 \<le> as_accumulated a"
  shows "\<exists>gs. gl_entries s' = gl_entries s @ gs \<and> credits gs - debits gs = as_gross a - as_accumulated a"
proof (rule disposal_Inr [OF assms(1)])
  fix b gs n
  let ?u = "s\<lparr>next_id := n, gl_entries := gl_entries s @ gs\<rparr>"
  assume "get_asset t i s = Inr (Some b)"
    and d: "debits gs = (if 0 < as_book b then cents (as_book b) else 0) +
       (if 0 < as_accumulated b then cents (as_accumulated b) else 0)" "credits gs = cents (as_gross b)"
    and "\<exists>m. put_asset (b\<lparr>as_status := ''SCRAPPED'', as_book := 0, as_notes := m\<rparr>) ?u = Inr s'"
  then obtain m where b: "b = a" "put_asset (a\<lparr>as_status := ''SCRAPPED'', as_book := 0, as_notes := m\<rparr>) ?u = Inr s'"
    using assms(2) by auto
  then have "gl_entries s' = gl_entries s @ gs" using put_asset_frame [OF b(2)] by simp
  moreover have "credits gs - debits gs = as_gross a - as_accumulated a"
    using d b(1) assms(4-7) by (auto simp: quant_places)
  ultimately show ?thesis by blast
qed

subsection \<open>Creation\<close>

lemma insert_period_respread: "insert_period rd t c a s row = Inr s' \<Longrightarrow> respread_of s s'"
  by (cases row) (auto simp: insert_period_def respread_of_def uuid4_def Let_def ebind_eq_Inr numeric_column split: option.splits)

lemma insert_periods_respread: "efold (insert_period rd t c a) s rows = Inr s' \<Longrightarrow> respread_of s s'"
proof (induction rows arbitrary: s)
  case (Cons r rows)
  then obtain u where "insert_period rd t c a s r = Inr u" "efold (insert_period rd t c a) u rows = Inr s'"
    by (auto simp: ebind_eq_Inr)
  with Cons.IH show ?case by (blast intro: insert_period_respread respread_trans)
qed (simp add: respread_refl)

lemma generate_respread:
  assumes "generate_depreciation_schedule rd t a c s = Inr s'"
  shows "respread_of s s'"
proof -
  let ?u = "s\<lparr>depreciations := filter (\<lambda>d. \<not> is_open_period t (as_id a) d) (depreciations s)\<rparr>"
  obtain rows where "efold (insert_period rd t c a) ?u rows = Inr s'"
    using assms by (auto simp: generate_depreciation_schedule_def ebind_eq_Inr)
  moreover have "respread_of s ?u" by (simp add: respread_of_def list_all_iff)
  ultimately show ?thesis by (blast intro: insert_periods_respread respread_trans)
qed

lemma creation_Inr:
  assumes "create_asset rd t code name cat bought available gross salvage loc cust notes auto s = Inr (a, s')"
  obtains b n where "asset_columns a = Inr b" "as_gross a = gross" "as_book a = gross" "as_accumulated a = 0"
    "respread_of (s\<lparr>next_id := n, assets_table := assets_table s @ [b]\<rparr>) s'"
proof -
  let ?a = "\<lparr>as_tenant = t, as_id = next_id s, as_code = code, as_name = name, as_category = cat, as_location = loc,
    as_custodian = cust, as_purchased = bought, as_available = available, as_gross = gross, as_salvage = salvage,
    as_book = gross, as_accumulated = 0, as_status = ''SUBMITTED'', as_notes = notes\<rparr>"
  obtain c where c: "get_category t cat s = Inr (Some c)"
    using assms unfolding create_asset_def found_eq_Inr by blast
  let ?s1 = "s\<lparr>next_id := Suc (next_id s)\<rparr>"
  have ok: "\<not> (list_ex (\<lambda>x. as_tenant x = t \<and> as_code x = code) (assets_table ?s1) \<or> \<not> known_location loc ?s1)"
    using assms c by (cases "list_ex (\<lambda>x. as_tenant x = t \<and> as_code x = code) (assets_table ?s1) \<or> \<not> known_location loc ?s1")
      (auto simp: create_asset_def uuid4_def Let_def)
  obtain b where b: "asset_columns ?a = Inr b"
    using assms c ok by (cases "asset_columns ?a") (auto simp: create_asset_def uuid4_def Let_def)
  have "a = ?a \<and> respread_of (?s1\<lparr>assets_table := assets_table ?s1 @ [b]\<rparr>) s'"
    using assms c ok b
    by (auto simp: create_asset_def uuid4_def Let_def ebind_eq_Inr respread_refl intro: generate_respread split: if_splits)
  with b show thesis by (intro that [of b "Suc (next_id s)"]) auto
qed

lemma creation_grows:
  assumes "create_asset rd t code name cat bought available gross salvage loc cust notes auto s = Inr (a, s')"
  shows "ledger_grows s s'"
  by (rule creation_Inr [OF assms]) (rule respread_grows [rotated], assumption, simp add: ledger_grows_same)

lemma creation_ok:
  assumes "create_asset rd t code name cat bought available gross salvage loc cust notes auto s = Inr (a, s')" "assets_ok D s"
  shows "assets_ok D s'"
proof (rule creation_Inr [OF assms(1)])
  fix b n
  let ?u = "s\<lparr>next_id := n, assets_table := assets_table s @ [b]\<rparr>"
  assume b: "asset_columns a = Inr b" "as_gross a = gross" "as_book a = gross" "as_accumulated a = 0" and r: "respread_of ?u s'"
  have "asset_ok D b" using asset_columns_Inr [OF b(1)] b(2-4) by (auto simp: asset_ok_def)
  then have "assets_ok D ?u" using assms(2) by (simp add: assets_ok_def)
  with r show ?thesis by (rule respread_ok)
qed

subsection \<open>The steps of the service\<close>

text \<open>
  Everything the service does to the assets, with no condition on the state of an asset but those of the
  code. \<open>D\<close> collects the assets that were disposed of, and those that were given a repair cost or a new value
  with more than four places.
\<close>

inductive asset_step :: "uuid set \<Rightarrow> db \<Rightarrow> uuid set \<Rightarrow> db \<Rightarrow> bool" where
  created: "create_asset rd t code name cat bought available gross salvage loc cust notes auto s = Inr (a, s') \<Longrightarrow>
    asset_step D s D s'"
| depreciated: "post_depreciation_entry e t i s = Inr s' \<Longrightarrow> asset_step D s D s'"
| movement: "record_asset_movement e t i loc cust d purpose s = Inr (m, s') \<Longrightarrow> asset_step D s D s'"
| repaired: "record_asset_repair e t i cost txt d cap s = Inr (r, s') \<Longrightarrow> asset_step D s (touched cost i D) s'"
| adjusted: "adjust_asset_value t i v d reason s = Inr (j, s') \<Longrightarrow> asset_step D s (touched v i D) s'"
| disposed: "scrap_asset e t i d notes s = Inr s' \<Longrightarrow> asset_step D s (insert i D) s'"

lemma asset_step_ok: "asset_step D s D' s' \<Longrightarrow> assets_ok D s \<Longrightarrow> assets_ok D' s'"
  by (induction rule: asset_step.induct)
    (blast intro: creation_ok depreciation_ok asset_movement_ok repair_ok adjustment_ok disposal_ok)+

text \<open>The steps that post balanced pairs whatever the asset is: all but the disposals.\<close>

definition asset_posting :: "db \<Rightarrow> db \<Rightarrow> bool" where
  "asset_posting s s' \<longleftrightarrow>
     (\<exists>rd t code name cat bought available gross salvage loc cust notes auto a.
        create_asset rd t code name cat bought available gross salvage loc cust notes auto s = Inr (a, s')) \<or>
     (\<exists>e t i. post_depreciation_entry e t i s = Inr s') \<or>
     (\<exists>e t i loc cust d purpose m. record_asset_movement e t i loc cust d purpose s = Inr (m, s')) \<or>
     (\<exists>e t i cost txt d cap r. record_asset_repair e t i cost txt d cap s = Inr (r, s')) \<or>
     (\<exists>t i v d reason j. adjust_asset_value t i v d reason s = Inr (j, s'))"

interpretation asset_poster: direct_poster asset_posting
  by unfold_locales (auto simp: asset_posting_def
    dest: creation_grows depreciation_grows movement_grows repair_grows adjustment_grows)

text \<open>Everything that can happen to the assets: steps of the service, and changes of other tables.\<close>

inductive asset_history :: "uuid set \<Rightarrow> db \<Rightarrow> bool" where
  start: "assets_table s = [] \<Longrightarrow> depreciations s = [] \<Longrightarrow> asset_history {} s"
| step: "asset_history D s \<Longrightarrow> asset_step D s D' s' \<Longrightarrow> asset_history D' s'"
| other: "asset_history D s \<Longrightarrow> assets_table s' = assets_table s \<Longrightarrow> depreciations s' = depreciations s \<Longrightarrow>
    asset_history D s'"

lemma history_assets: "asset_history D s \<Longrightarrow> assets_ok D s"
  by (induction rule: asset_history.induct) (auto simp: assets_ok_def dest: asset_step_ok [unfolded assets_ok_def])

text \<open>Posting the open periods of an asset that was disposed of brings it back with a negative book value.\<close>

theorem depreciation_revives_disposed:
  assumes "post_depreciation_entry e t i s = Inr s'" and "asset_history D s"
    and "\<forall>a \<in> set (assets_table s). as_status a = ''SCRAPPED'' \<and> as_book a = 0"
  shows "\<exists>b \<in> set (assets_table s'). as_status b \<in> {''IN_USE'', ''FULLY_DEPRECIATED''} \<and> as_book b < 0"
proof (rule post_depreciation_Inr [OF assms(1)])
  fix d :: depreciation_row and a :: asset_row and u :: db
  let ?v = "u\<lparr>depreciations := update_where (\<lambda>x. dp_id x = i)
       (\<lambda>x. x\<lparr>dp_posted := True, dp_posted_at := Some (now e), dp_journal := Some (next_id s)\<rparr>) (depreciations u)\<rparr>"
  let ?a = "a\<lparr>as_accumulated := dadd (as_accumulated a) (dp_amount d), as_book := dsub (as_book a) (dp_amount d),
       as_status := (if dsub (as_book a) (dp_amount d) \<le> as_salvage a then ''FULLY_DEPRECIATED'' else ''IN_USE'')\<rparr>"
  assume d: "d \<in> set (depreciations s)" "a \<in> set (assets_table s)" "0 < cents (dp_amount d)"
    and u: "assets_table u = assets_table s" and p: "put_asset ?a ?v = Inr s'"
  have c: "column_amount (dp_amount d)" "as_book a = 0"
    using d history_assets [OF assms(2)] assms(3) by (simp_all add: assets_ok_def list_all_iff)
  then have b: "dsub (as_book a) (dp_amount d) = - dp_amount d" "0 < dp_amount d"
    using d(3) dsub_column [of 0 "dp_amount d"] by (simp_all add: column_amount_def quant_places)
  obtain r where r: "asset_columns ?a = Inr r" "s' = ?v\<lparr>assets_table := update_where (\<lambda>x. as_id x = as_id a) (\<lambda>_. r) (assets_table ?v)\<rparr>"
    using put_asset_Inr [OF p] by auto
  have "as_status r = as_status ?a" "as_book r = - dp_amount d"
    using asset_columns_Inr [OF r(1)] b c quant_places [of 4 "- dp_amount d"] places_minus
    by (auto simp: column_amount_def)
  moreover have "r \<in> set (assets_table s')" using d(2) u r(2) by (auto simp: set_update_where)
  ultimately show ?thesis using b(2) by (intro bexI [of _ r]) simp_all
qed

subsection \<open>Properties\<close>

definition demo_assets :: "asset_row list \<Rightarrow> db" where
  "demo_assets as =
     empty_db\<lparr>next_id := 3, asset_categories := [demo_category ''STRAIGHT_LINE'' 2], assets_table := as\<rparr>"

definition demo_months :: "date \<Rightarrow> int \<Rightarrow> date option" where
  "demo_months d k = (if d + 30 * k \<le> 3652059 then Some (d + 30 * k) else None)"

text \<open>C18: an asset stays reconciled until it is disposed of. Whatever the service does to the assets, in any
  order and in any state of them (creation, depreciation, capitalized repairs, revaluations, movements,
  disposals), and whatever happens to other tables, an asset that was never disposed of and was given no
  repair cost or new value of more than four places has a book value and an accumulated depreciation that add
  up to its gross value exactly, and no negative depreciation. When its book value is not negative either, its
  disposal posts one balanced transaction. (A disposed asset may be depreciated and disposed of again, which
  the code does not prevent: nothing is said of it.)\<close>

theorem assets_stay_reconciled:
  assumes "asset_history D s" and "a \<in> set (assets_table s)" and "as_id a \<notin> D"
  shows "as_book a + as_accumulated a = as_gross a \<and> 0 \<le> as_accumulated a \<and>
    (\<forall>e t i d m s'. scrap_asset e t i d m s = Inr s' \<and> get_asset t i s = Inr (Some a) \<and> 0 \<le> as_book a \<longrightarrow>
       (\<exists>gs. gl_entries s' = gl_entries s @ gs \<and> balanced_block t (next_id s) gs))"
proof -
  have "asset_ok D a" using history_assets [OF assms(1)] assms(2) by (simp add: assets_ok_def list_all_iff)
  then have a: "as_book a + as_accumulated a = as_gross a" "0 \<le> as_accumulated a" "0 \<le> as_book a \<Longrightarrow> regular a"
    using assms(3) by (simp_all add: asset_ok_def regular_def column_amount_def)
  then show ?thesis using disposal_block by blast
qed

theorem assets_stay_reconciled_witness:
  "\<exists>s. \<exists>a \<in> set (assets_table s). asset_history {} s \<and> as_book a = 105 \<and> as_gross a = 105 \<and> as_book a + as_accumulated a = as_gross a"
proof -
  have "(case ebind (create_asset demo_months 0 ''A'' ''A'' 1 100 100 100 10 None None None False (demo_assets []))
      (\<lambda>(a, s). record_asset_repair demo_env 0 3 5 [] None True s) of
        Inl _ \<Rightarrow> False | Inr (r, s) \<Rightarrow> map (\<lambda>a. (as_status a, as_book a, as_gross a)) (assets_table s) = [(''SUBMITTED'', 105, 105)])"
    by code_simp
  then obtain a u r s where c: "create_asset demo_months 0 ''A'' ''A'' 1 100 100 100 10 None None None False (demo_assets []) = Inr (a, u)"
    and r: "record_asset_repair demo_env 0 3 5 [] None True u = Inr (r, s)"
    and l: "map (\<lambda>a. (as_status a, as_book a, as_gross a)) (assets_table s) = [(''SUBMITTED'', 105, 105)]"
    by (auto simp: ebind_eq_Inr split: sum.splits prod.splits)
  have "asset_history {} (demo_assets [])" by (rule asset_history.start) (simp_all add: demo_assets_def empty_db_def)
  moreover have "column_amount 5" by (simp add: column_amount_def places_def)
  then have "asset_step {} u {} s" using asset_step.repaired [OF r, of "{}"] by (simp add: touched_def)
  ultimately have "asset_history {} s" using asset_step.created [OF c, of "{}"] by (blast intro: asset_history.step)
  moreover obtain b where b: "assets_table s = [b]" "as_status b = ''SUBMITTED''" "as_book b = 105" "as_gross b = 105"
    using l by auto
  moreover have "as_book b + as_accumulated b = as_gross b"
    using assets_stay_reconciled [OF calculation(1), of b] b(1) by simp
  ultimately show ?thesis by (intro exI [of _ s] bexI [of _ b]) simp_all
qed

theorem second_disposal_is_unbalanced_witness:
  "\<exists>s s' gs. scrap_asset demo_env 0 2 None None s = Inr s' \<and> gl_entries s' = gl_entries s @ gs \<and> credits gs - debits gs = 100"
proof -
  have "(case scrap_asset demo_env 0 2 None None (demo_assets [demo_asset 100 10]) of
      Inl _ \<Rightarrow> False | Inr s \<Rightarrow> is_ok (scrap_asset demo_env 0 2 None None s) \<and>
        (case get_asset 0 2 s of Inr (Some a) \<Rightarrow> as_status a = ''SCRAPPED'' \<and> as_book a = 0 \<and> as_gross a = 100 \<and> as_accumulated a = 0
      | _ \<Rightarrow> False))"
    by code_simp
  then obtain a s s' where s: "get_asset 0 2 s = Inr (Some a)" "scrap_asset demo_env 0 2 None None s = Inr s'"
    "as_status a = ''SCRAPPED''" "as_book a = 0" "as_gross a = 100" "as_accumulated a = 0"
    by (auto simp: is_ok_def split: sum.splits option.splits)
  then show ?thesis using second_disposal_is_unbalanced [OF s(2,1,3,4)] by (auto simp: places_def)
qed

end
