(* ===== verification/LedgerHistory.thy ===== *)
theory LedgerHistory
  imports StockCount Currency AssetLedger
begin

section \<open>Histories of the ledger\<close>

text \<open>
  Every database that the modelled writers of the ledger and the audit log can reach: an empty ledger, then
  any interleaving of commits (\<open>LedgerEngine.commit_transaction\<close>), calls of the audit logger and the set-up
  entries of tenants, steps of the services that write to the general ledger without the engine (submissions of
  stock entries and counts, revaluations, what happens to fixed assets) and changes of other tables, by any
  tenants. Nothing that the code allows is left out of a step; what a later property cannot hold for is recorded
  as the history goes: \<open>X\<close> are the transactions of disposals of assets that were overdrawn or disposed of before,
  which the code posts unbalanced, and \<open>T\<close> the tenants whose log got a record at a clock that had not advanced,
  or one whose payload \<open>JSONB\<close> does not keep. The services that are not modelled (payroll, expense advances,
  subcontracting, the completion of work orders) only append rows, too: \<open>foreign\<close>
  lets them append any rows the table accepts, and records the transactions, unless the rows are blocks of
  balanced transactions, and the tenants of the audit records. The invariants are proved by rule induction from
  the interfaces \<open>ledger_poster\<close>, \<open>audit_writer\<close> and \<open>direct_poster\<close>.
\<close>

subsection \<open>The services that post on their own\<close>

text \<open>One step of any service that writes to the general ledger without the engine, but for disposals.\<close>

definition direct_step :: "db \<Rightarrow> db \<Rightarrow> bool" where
  "direct_step s s' \<longleftrightarrow> entry_submission s s' \<or> count_submission s s' \<or> fx_step s s' \<or> asset_posting s s'"

interpretation direct: direct_poster direct_step
  by unfold_locales
    (auto simp: direct_step_def intro: entry_poster.grows count_poster.grows fx_poster.grows asset_poster.grows)

subsection \<open>Rows\<close>

text \<open>What the column types and check constraints of the table (\<open>Tables.insert_gl\<close>) let in, whoever writes.\<close>

definition ledger_row :: "gl_entry \<Rightarrow> bool" where
  "ledger_row g \<longleftrightarrow> column_amount (gl_debit g) \<and> column_amount (gl_credit g) \<and>
     (0 < gl_debit g \<and> gl_credit g = 0 \<or> gl_debit g = 0 \<and> 0 < gl_credit g)"

subsection \<open>Histories\<close>

definition late :: "env \<Rightarrow> uuid \<Rightarrow> db \<Rightarrow> uuid set" where
  "late e t s = (if clock_ahead e t s then {} else {t})"

definition irregular :: "uuid \<Rightarrow> uuid \<Rightarrow> db \<Rightarrow> (uuid \<times> uuid) set" where
  "irregular t i s =
     (case get_asset t i s of Inr (Some a) \<Rightarrow> if regular a then {} else {(t, next_id s)} | _ \<Rightarrow> {})"

text \<open>The transactions of appended rows that are not blocks of balanced transactions.\<close>

definition unbalanced_of :: "gl_entry list \<Rightarrow> (uuid \<times> uuid) set" where
  "unbalanced_of gs = (if posted gs then {} else (\<lambda>g. (gl_tenant g, gl_transaction g)) ` set gs)"

inductive ledger_run :: "(string \<Rightarrow> string) \<Rightarrow> (uuid \<times> uuid) set \<Rightarrow> uuid set \<Rightarrow> db \<Rightarrow> bool" for h where
  start: "gl_entries s = [] \<Longrightarrow> audit_logs s = [] \<Longrightarrow> ledger_run h {} {} s"
| post: "ledger_run h X T s \<Longrightarrow> sha256 e = h \<Longrightarrow> engine_step e t s s' \<Longrightarrow> ledger_run h X (T \<union> late e t s) s'"
| log: "ledger_run h X T s \<Longrightarrow> sha256 e = h \<Longrightarrow> logger_step e t s s' \<Longrightarrow> ledger_run h X (T \<union> late e t s) s'"
| log_other: "ledger_run h X T s \<Longrightarrow> sha256 e = h \<Longrightarrow> logged (\<lambda>j. \<not> jsonb_safe j) e t s s' \<Longrightarrow>
    ledger_run h X (insert t T) s'"
| direct: "ledger_run h X T s \<Longrightarrow> direct_step s s' \<Longrightarrow> ledger_run h X T s'"
| disposal: "ledger_run h X T s \<Longrightarrow> scrap_asset e t i d m s = Inr s' \<Longrightarrow> ledger_run h (X \<union> irregular t i s) T s'"
| foreign: "ledger_run h X T s \<Longrightarrow> gl_entries s' = gl_entries s @ gs \<Longrightarrow> list_all ledger_row gs \<Longrightarrow>
    audit_logs s' = audit_logs s @ as \<Longrightarrow> ledger_run h (X \<union> unbalanced_of gs) (T \<union> au_tenant ` set as) s'"
| other: "ledger_run h X T s \<Longrightarrow> gl_entries s' = gl_entries s \<Longrightarrow> audit_logs s' = audit_logs s \<Longrightarrow>
    ledger_run h X T s'"

definition ledger_history :: "(string \<Rightarrow> string) \<Rightarrow> db \<Rightarrow> bool" where
  "ledger_history h s \<longleftrightarrow> (\<exists>X T. ledger_run h X T s)"

subsection \<open>What the steps append\<close>

lemma insert_gl_row: "insert_gl g s = Inr s' \<Longrightarrow> \<exists>r. gl_entries s' = gl_entries s @ [r] \<and> ledger_row r"
  using insert_gl_Inr [of g s s']
  by (intro exI [of _ "g\<lparr>gl_debit := cents (gl_debit g), gl_credit := cents (gl_credit g),
    gl_rate := quant round_half_up 6 (gl_rate g)\<rparr>"]) (auto simp: ledger_row_def column_amount_def)

lemma block_rows: "balanced_block t tx gs \<Longrightarrow> list_all ledger_row gs"
  by (auto simp: balanced_block_def ledger_row_def list_all_iff)

lemma posted_ledger_rows: "posted gs \<Longrightarrow> list_all ledger_row gs"
  by (induction rule: posted.induct) (simp_all add: block_rows)

lemma side_rows: "list_all (side_of t tx d) gs \<Longrightarrow> list_all ledger_row gs"
  by (auto simp: side_of_def ledger_row_def list_all_iff)

lemma engine_appends: "engine_step e t s s' \<Longrightarrow> \<exists>gs. gl_entries s' = gl_entries s @ gs \<and> posted gs"
  using engine.posts_block block_posted by metis

lemma direct_appends: "direct_step s s' \<Longrightarrow> \<exists>gs. gl_entries s' = gl_entries s @ gs \<and> posted gs"
  using direct.grows by (fastforce simp: ledger_grows_def grows_balanced_def)

lemma disposal_appends:
  assumes "scrap_asset e t i d m s = Inr s'"
  shows "\<exists>gs. gl_entries s' = gl_entries s @ gs \<and> list_all (side_of t (next_id s) (or_else d (today e))) gs \<and>
    (irregular t i s = {} \<longrightarrow> posted gs) \<and> irregular t i s \<subseteq> {(t, next_id s)}"
proof -
  obtain gs where gs: "gl_entries s' = gl_entries s @ gs" "list_all (side_of t (next_id s) (or_else d (today e))) gs"
    using disposal_rows [OF assms] by blast
  obtain a where a: "get_asset t i s = Inr (Some a)" by (rule disposal_Inr [OF assms]) blast
  have "posted gs" if "regular a"
    using disposal_block [OF assms a that] gs(1) block_posted by auto
  with gs a show ?thesis by (auto simp: irregular_def)
qed

lemma run_rows: "ledger_run h X T s \<Longrightarrow> list_all ledger_row (gl_entries s)"
proof (induction rule: ledger_run.induct)
  case (post X T s e t s')
  then show ?case using engine_appends posted_ledger_rows by fastforce
next
  case (direct X T s s')
  then show ?case using direct_appends posted_ledger_rows by fastforce
next
  case (disposal X T s e t i d m s')
  then show ?case using disposal_appends side_rows by fastforce
qed (auto simp: logger_step_def dest: logged_frame)

lemma posted_rows_of: "posted gs \<Longrightarrow> debits (rows_of t tx gs) = credits (rows_of t tx gs)"
  using posted_books [of gs "empty_db" "empty_db\<lparr>gl_entries := gs\<rparr>"]
  by (simp add: books_balanced_iff empty_db_def rows_of_def)

lemma rows_of_append [simp]: "rows_of t tx (a @ b) = rows_of t tx a @ rows_of t tx b"
  by (simp add: rows_of_def)

lemma rows_of_sides: "list_all (side_of t tx d) gs \<Longrightarrow> (u, ux) \<noteq> (t, tx) \<Longrightarrow> rows_of u ux gs = []"
  by (auto simp: rows_of_def side_of_def list_all_iff filter_empty_conv)

lemma run_balanced:
  assumes "ledger_run h X T s" "(u, ux) \<notin> X"
  shows "debits (rows_of u ux (gl_entries s)) = credits (rows_of u ux (gl_entries s))"
  using assms
proof (induction rule: ledger_run.induct)
  case (post X T s e t s')
  obtain gs where "gl_entries s' = gl_entries s @ gs" "posted gs" using engine_appends post.hyps(3) by blast
  with post show ?case by (simp add: posted_rows_of)
next
  case (direct X T s s')
  obtain gs where "gl_entries s' = gl_entries s @ gs" "posted gs" using direct_appends direct.hyps(2) by blast
  with direct show ?case by (simp add: posted_rows_of)
next
  case (disposal X T s e t i d m s')
  obtain gs where gs: "gl_entries s' = gl_entries s @ gs" "list_all (side_of t (next_id s) (or_else d (today e))) gs"
    "irregular t i s = {} \<longrightarrow> posted gs" "irregular t i s \<subseteq> {(t, next_id s)}"
    using disposal_appends [OF disposal.hyps(2)] by blast
  have "debits (rows_of u ux gs) = credits (rows_of u ux gs)"
  proof (cases "irregular t i s = {}")
    case True
    then show ?thesis using gs(3) posted_rows_of by blast
  next
    case False
    then have "(u, ux) \<noteq> (t, next_id s)" using gs(4) disposal.prems by auto
    then show ?thesis by (simp add: rows_of_sides [OF gs(2)])
  qed
  with disposal gs(1) show ?case by simp
next
  case (foreign X T s s' gs as)
  have "debits (rows_of u ux gs) = credits (rows_of u ux gs)"
  proof (cases "posted gs")
    case False
    then have "(u, ux) \<notin> (\<lambda>g. (gl_tenant g, gl_transaction g)) ` set gs"
      using foreign.prems by (simp add: unbalanced_of_def)
    then have "rows_of u ux gs = []" by (auto simp: rows_of_def filter_empty_conv)
    then show ?thesis by simp
  qed (rule posted_rows_of)
  with foreign show ?case by simp
qed (auto simp: logger_step_def rows_of_def dest: logged_frame)

text \<open>The rows of a tenant without an irregular disposal were posted block by block.\<close>

definition tenant_rows :: "uuid \<Rightarrow> gl_entry list \<Rightarrow> gl_entry list" where
  "tenant_rows t gs = filter (\<lambda>g. gl_tenant g = t) gs"

lemma tenant_rows_append [simp]: "tenant_rows t (a @ b) = tenant_rows t a @ tenant_rows t b"
  by (simp add: tenant_rows_def)

lemma tenant_block: "balanced_block u tx b \<Longrightarrow> tenant_rows t b = (if u = t then b else [])"
  by (auto simp: balanced_block_def tenant_rows_def list_all_iff filter_empty_conv intro!: filter_True)

lemma posted_tenant: "posted gs \<Longrightarrow> posted (tenant_rows t gs)"
proof (induction rule: posted.induct)
  case (posted_block gs u tx b)
  then show ?case
    using posted.posted_block [OF posted_block.IH posted_block.hyps(2)] tenant_block [OF posted_block.hyps(2), of t] by auto
qed (simp add: tenant_rows_def posted_Nil)

lemma run_posted:
  assumes "ledger_run h X T s" "\<forall>tx. (u, tx) \<notin> X"
  shows "posted (tenant_rows u (gl_entries s))"
  using assms
proof (induction rule: ledger_run.induct)
  case (start s)
  then show ?case by (simp add: tenant_rows_def posted_Nil)
next
  case (post X T s e t s')
  obtain gs where "gl_entries s' = gl_entries s @ gs" "posted gs" using engine_appends post.hyps(3) by blast
  with post show ?case by (simp add: posted_append posted_tenant)
next
  case (direct X T s s')
  obtain gs where "gl_entries s' = gl_entries s @ gs" "posted gs" using direct_appends direct.hyps(2) by blast
  with direct show ?case by (simp add: posted_append posted_tenant)
next
  case (disposal X T s e t i d m s')
  obtain gs where gs: "gl_entries s' = gl_entries s @ gs" "list_all (side_of t (next_id s) (or_else d (today e))) gs"
    "irregular t i s = {} \<longrightarrow> posted gs" "irregular t i s \<subseteq> {(t, next_id s)}"
    using disposal_appends [OF disposal.hyps(2)] by blast
  have "posted (tenant_rows u gs)"
  proof (cases "irregular t i s = {}")
    case True
    then show ?thesis using gs(3) posted_tenant by blast
  next
    case False
    then have "u \<noteq> t" using gs(4) disposal.prems by auto
    then have "tenant_rows u gs = []"
      using gs(2) by (auto simp: tenant_rows_def side_of_def list_all_iff filter_empty_conv)
    then show ?thesis by (simp add: posted_Nil)
  qed
  with disposal gs(1) show ?case by (simp add: posted_append)
next
  case (foreign X T s s' gs as)
  have "posted (tenant_rows u gs)"
  proof (cases "posted gs")
    case False
    then have "tenant_rows u gs = []"
      using foreign.prems by (auto simp: unbalanced_of_def tenant_rows_def filter_empty_conv)
    then show ?thesis by (simp add: posted_Nil)
  qed (rule posted_tenant)
  with foreign show ?case by (simp add: posted_append)
qed (auto simp: logger_step_def dest: logged_frame)

subsection \<open>The audit log\<close>

lemma recompute_same_hash: "sha256 e = sha256 e' \<Longrightarrow> recompute e r = recompute e' r"
  by (simp add: recompute_raw)

lemma linked_same_hash: "sha256 e = sha256 e' \<Longrightarrow> linked e p rs = linked e' p rs"
  by (induction rs arbitrary: p) (simp_all add: recompute_raw)

lemma audit_ok_same_hash: "sha256 e = sha256 e' \<Longrightarrow> audit_ok e t s = audit_ok e' t s"
  by (simp add: audit_ok_def linked_same_hash [of e e'])

lemma digest64_same_hash: "sha256 e = sha256 e' \<Longrightarrow> digest64 e = digest64 e'"
  by (simp add: digest64_def)

text \<open>A writer of the log keeps the chains of all tenants, its own where its clock is ahead.\<close>

lemma writer_keeps:
  assumes "audit_writer w" "w e u s s'" "sha256 e = h" "\<forall>x. length (h x) = 64" "sha256 e' = h"
    and "t \<noteq> u \<or> clock_ahead e u s" "audit_ok e' t s"
  shows "audit_ok e' t s'"
proof -
  have "audit_ok e t s" using assms(7) audit_ok_same_hash [of e e'] assms(3,5) by simp
  moreover have "digest64 e" using assms(3,4) by (simp add: digest64_def)
  ultimately have "audit_ok e t s'"
    using assms(2,6) audit_writer.keeps_chain [OF assms(1)] audit_writer.keeps_other_chains [OF assms(1)] by metis
  then show ?thesis using audit_ok_same_hash [of e e'] assms(3,5) by simp
qed

lemma run_audit:
  assumes "ledger_run h X T s" "\<forall>x. length (h x) = 64" "sha256 e = h" "t \<notin> T"
  shows "audit_ok e t s"
  using assms
proof (induction rule: ledger_run.induct)
  case (start s)
  then show ?case by (simp add: audit_ok_def tenant_logs_def)
next
  case (post X T s e' u s')
  show ?case
    by (rule writer_keeps [OF engine.audit_writer_axioms post.hyps(3,2) post.prems(1,2)])
      (use post in \<open>auto simp: late_def split: if_splits\<close>)
next
  case (log X T s e' u s')
  show ?case
    by (rule writer_keeps [OF logger.audit_writer_axioms log.hyps(3,2) log.prems(1,2)])
      (use log in \<open>auto simp: late_def split: if_splits\<close>)
next
  case (log_other X T s e' u s')
  obtain a where "au_tenant a = u" "audit_logs s' = audit_logs s @ [a]" using logged_frame [OF log_other.hyps(3)] by blast
  with log_other show ?case using audit_ok_other_tenant [of a t s' s e] by auto
next
  case (direct X T s s')
  then show ?case using direct.keeps_audit audit_ok_frame by blast
next
  case (disposal X T s e' u i d m s')
  then show ?case using disposal_rows audit_ok_frame by metis
next
  case (foreign X T s s' gs as)
  have "tenant_logs s' t = tenant_logs s t"
    using foreign.hyps(4) foreign.prems(3) by (auto simp: tenant_logs_def filter_empty_conv)
  with foreign show ?case by (simp add: audit_ok_def)
next
  case (other X T s s')
  then show ?case using audit_ok_frame by blast
qed

lemma demo_books:
  "\<exists>s. ledger_run (sha256 demo_env) {} {} s \<and> tenant_logs s 0 \<noteq> [] \<and>
     list_all2 (\<lambda>l g. gl_tenant g = 0 \<and> gl_date g = pp_date (demo_proposal 100 False) \<and> gl_account g = ll_account l \<and>
       gl_debit g = line_debit l \<and> gl_credit g = line_credit l) (pp_entries (demo_proposal 100 False)) (gl_entries s)"
proof -
  let ?p = "demo_proposal 100 False"
  obtain r s' where c: "commit_transaction demo_env True ?p demo_db = Inr (r, s')"
    using demo_commit(1) by blast
  have t: "pp_tenant ?p = 0" by (simp add: demo_proposal_def)
  then have step: "engine_step demo_env 0 demo_db s'"
    using c demo_length unfolding engine_step_def by blast
  have "ledger_run (sha256 demo_env) {} {} demo_db"
    by (rule start) (simp_all add: demo_db_def empty_db_def)
  moreover have "late demo_env 0 demo_db = {}"
    by (simp add: late_def clock_ahead_def tenant_logs_def demo_db_def empty_db_def)
  ultimately have "ledger_run (sha256 demo_env) {} {} s'" using post [OF _ refl step] by fastforce
  moreover have "tenant_logs s' 0 \<noteq> []"
    using engine.writes_one [OF step] by (auto simp: tenant_logs_def new_audit_record_def)
  moreover obtain period rows where "list_all2 (row_of ?p (co_transaction r) period) (pp_entries ?p) rows"
    "gl_entries s' = gl_entries demo_db @ rows" by (rule commit_transaction_Inr [OF c]) simp
  then have "list_all2 (row_of ?p (co_transaction r) period) (pp_entries ?p) (gl_entries s')"
    by (simp add: demo_db_def empty_db_def)
  then have "list_all2 (\<lambda>l g. gl_tenant g = 0 \<and> gl_date g = pp_date ?p \<and> gl_account g = ll_account l \<and>
       gl_debit g = line_debit l \<and> gl_credit g = line_credit l) (pp_entries ?p) (gl_entries s')"
    by (rule list_all2_mono) (simp add: row_of_def t)
  ultimately show ?thesis by blast
qed

lemma demo_history: "\<exists>s. ledger_run (sha256 demo_env) {} {} s \<and> tenant_logs s 0 \<noteq> []"
  using demo_books by blast

subsection \<open>Properties\<close>

text \<open>C1: the books balance. In every database the program reaches (commits of the engine of up to ten thousand
  million lines, submissions of stock entries and counts, revaluations, every operation on fixed assets, in any
  interleaving with audit calls, changes of other tables and whatever else appends rows to the ledger), each
  transaction of each tenant has equal debits and credits, and each row one positive side. The only exceptions
  are the transactions \<open>X\<close>: those of disposals of an asset that was overdrawn or had been disposed of before,
  which the code does not reject, and those that services outside the model append unbalanced.\<close>

theorem books_always_balance:
  assumes "ledger_run h X T s" and "(t, tx) \<notin> X"
  shows "debits (rows_of t tx (gl_entries s)) = credits (rows_of t tx (gl_entries s)) \<and>
    list_all (\<lambda>g. 0 < gl_debit g \<and> gl_credit g = 0 \<or> gl_debit g = 0 \<and> 0 < gl_credit g) (gl_entries s)"
  using run_balanced [OF assms] run_rows [OF assms(1)] by (auto simp: ledger_row_def list_all_iff)

theorem books_always_balance_witness:
  "\<exists>s. tenant_logs s 0 \<noteq> [] \<and> gl_entries s \<noteq> [] \<and> (\<forall>tx. debits (rows_of 0 tx (gl_entries s)) = credits (rows_of 0 tx (gl_entries s)))"
proof -
  obtain s where s: "ledger_run (sha256 demo_env) {} {} s" "tenant_logs s 0 \<noteq> []"
    "list_all2 (\<lambda>l g. gl_tenant g = 0 \<and> gl_date g = pp_date (demo_proposal 100 False) \<and> gl_account g = ll_account l \<and>
       gl_debit g = line_debit l \<and> gl_credit g = line_credit l) (pp_entries (demo_proposal 100 False)) (gl_entries s)"
    using demo_books by blast
  have "pp_entries (demo_proposal 100 False) \<noteq> []" by (simp add: demo_proposal_def)
  then have "gl_entries s \<noteq> []" using s(3) by auto
  with s(2) books_always_balance [OF s(1)] show ?thesis by blast
qed

text \<open>An irregular disposal is reachable: an asset disposed of twice leaves a transaction of one side.\<close>

theorem disposed_twice_is_unbalanced:
  "\<exists>s tx. ledger_run (sha256 demo_env) {(0, tx)} {} s \<and>
     debits (rows_of 0 tx (gl_entries s)) = 0 \<and> credits (rows_of 0 tx (gl_entries s)) = 100"
proof -
  let ?s = "demo_assets [demo_asset 100 10]"
  have "(case scrap_asset demo_env 0 2 None None ?s of
      Inl _ \<Rightarrow> False | Inr s \<Rightarrow> (case scrap_asset demo_env 0 2 None None s of Inl _ \<Rightarrow> False | Inr s' \<Rightarrow>
        (case get_asset 0 2 ?s of Inr (Some a) \<Rightarrow> as_gross a = 100 \<and> as_book a = 100 \<and> as_accumulated a = 0 | _ \<Rightarrow> False) \<and>
        (case get_asset 0 2 s of Inr (Some a) \<Rightarrow> as_gross a = 100 \<and> as_book a = 0 \<and> as_accumulated a = 0 | _ \<Rightarrow> False) \<and>
        debits (rows_of 0 (next_id s) (gl_entries s')) = 0 \<and> credits (rows_of 0 (next_id s) (gl_entries s')) = 100))"
    by code_simp
  then obtain a b s s' where a: "get_asset 0 2 ?s = Inr (Some a)" "as_gross a = 100" "as_book a = 100" "as_accumulated a = 0"
    and s: "scrap_asset demo_env 0 2 None None ?s = Inr s" "scrap_asset demo_env 0 2 None None s = Inr s'"
    and b: "get_asset 0 2 s = Inr (Some b)" "as_gross b = 100" "as_book b = 0" "as_accumulated b = 0"
    and d: "debits (rows_of 0 (next_id s) (gl_entries s')) = 0" "credits (rows_of 0 (next_id s) (gl_entries s')) = 100"
    by (auto split: sum.splits option.splits)
  have "irregular 0 2 ?s = {}" "irregular 0 2 s = {(0, next_id s)}"
    using a b by (simp_all add: irregular_def regular_def places_def)
  moreover have "ledger_run (sha256 demo_env) {} {} ?s"
    by (rule start) (simp_all add: demo_assets_def empty_db_def)
  ultimately have "ledger_run (sha256 demo_env) {(0, next_id s)} {} s'"
    using disposal [OF disposal [OF _ s(1)] s(2)] by fastforce
  with d show ?thesis by blast
qed

text \<open>C2: the audit log verifies. The auditor certifies the log of every tenant that has a record, in every
  database the program reaches, with no tampered block and every record verified, although the ledger engine,
  the audit logger and the set-up of tenants append to it independently and the payloads pass through \<open>JSONB\<close>
  columns; unless the tenant's log got a record at a clock that had not advanced since its last one, or a payload
  with a float from \<open>1e16\<close> on, or a record from outside the model (the tenants \<open>T\<close>). The engine's own payloads
  never have such a float.\<close>

theorem audit_chain_always_verifies:
  assumes "ledger_run (sha256 e) X T s" and "digest64 e" and "t \<notin> T" and "tenant_logs s t \<noteq> []"
  shows "cr_unbroken (verify_database_audit_chain e t s) \<and> cr_tampered (verify_database_audit_chain e t s) = 0 \<and>
    cr_total (verify_database_audit_chain e t s) = length (tenant_logs s t)"
proof -
  have "audit_ok e t s" using run_audit [OF assms(1) _ refl assms(3)] assms(2) by (simp add: digest64_def)
  from audit_ok_verifies [OF this assms(4)] show ?thesis
    by (auto simp: verify_database_audit_chain_def verify_in_memory_chain_def Let_def split: prod.splits)
qed

theorem audit_chain_always_verifies_witness:
  "\<exists>s. tenant_logs s 0 \<noteq> [] \<and> cr_unbroken (verify_database_audit_chain demo_env 0 s)"
proof -
  have "digest64 demo_env" by (simp add: digest64_def demo_env_def)
  then show ?thesis using demo_history audit_chain_always_verifies by blast
qed

end
