(* ===== verification/Reports.thy ===== *)
theory Reports
  imports LedgerHistory "HOL-Library.Multiset"
begin

section \<open>Financial reports\<close>

text \<open>
  \<open>src/src/erp/workflows/reports/financial_reports_service.py\<close>: trial balance, balance sheet, profit
  and loss, cash flow, ageing and the ledger of one account, each a function of the general ledger.
  Sums made by the database are exact, what Python adds up afterwards rounds to 28 digits. Groups come
  in the order in which their accounts occur, where the code does not sort them; the rows of one day in
  the order of their insertion (\<open>created_at\<close> is a statement clock).
\<close>

subsection \<open>Sums by account\<close>

definition account_totals :: "gl_entry list \<Rightarrow> (string \<times> dec \<times> dec) list" where
  "account_totals gs = map (\<lambda>(a, ys). (a, debits ys, credits ys)) (group_by gl_account gs)"

definition totals_of :: "(string \<times> dec \<times> dec) list \<Rightarrow> string \<Rightarrow> dec \<times> dec" where
  "totals_of m a = or_else (map_of m a) (0, 0)"

definition sort_strings :: "string list \<Rightarrow> string list" where
  "sort_strings ks = map fst (sort_members (map (\<lambda>k. (k, ())) ks))"

subsection \<open>Trial balance\<close>

record trial_row =
  tr_account :: string
  tr_open_debit :: dec
  tr_open_credit :: dec
  tr_debit :: dec
  tr_credit :: dec
  tr_close_debit :: dec
  tr_close_credit :: dec
  tr_net :: dec

record trial_balance =
  tb_rows :: "trial_row list"
  tb_open_debit :: dec
  tb_open_credit :: dec
  tb_debit :: dec
  tb_credit :: dec
  tb_close_debit :: dec
  tb_close_credit :: dec
  tb_difference :: dec
  tb_balanced :: bool

definition trial_row_of :: "(string \<times> dec \<times> dec) list \<Rightarrow> (string \<times> dec \<times> dec) list \<Rightarrow> string \<Rightarrow> trial_row" where
  "trial_row_of opening period a =
     (let (od, oc) = totals_of opening a; (pd, pc) = totals_of period a;
          net_op = dsub od oc;
          od' = max net_op 0; oc' = max (dneg net_op) 0;
          cd = dadd od' pd; cc = dadd oc' pc;
          net = dsub cd cc
      in \<lparr>tr_account = a, tr_open_debit = od', tr_open_credit = oc', tr_debit = pd, tr_credit = pc,
          tr_close_debit = (if net > 0 then net else 0),
          tr_close_credit = (if net < 0 then dneg net else 0), tr_net = net\<rparr>)"

definition in_center :: "string option \<Rightarrow> gl_entry \<Rightarrow> bool" where
  "in_center cc g \<longleftrightarrow> (case cc of None \<Rightarrow> True | Some c \<Rightarrow> c = [] \<or> gl_cost_center g = c)"

definition get_trial_balance :: "uuid \<Rightarrow> date \<Rightarrow> date \<Rightarrow> string option \<Rightarrow> db \<Rightarrow> trial_balance result" where
  "get_trial_balance t from to cc s =
     (if from > to then Inl (ValueError ''From date must be on or before To date.'')
      else
        let opening = account_totals (filter (\<lambda>g. gl_tenant g = t \<and> gl_date g < from \<and> in_center cc g) (gl_entries s));
            period = account_totals (filter (\<lambda>g. gl_tenant g = t \<and> from \<le> gl_date g \<and> gl_date g \<le> to \<and> in_center cc g)
                       (gl_entries s));
            codes = remdups (map fst opening @ map fst period);
            codes = (if codes = [] then remdups (map ac_code (filter (\<lambda>a. ac_tenant a = t) (accounts s))) else codes);
            rows = map (trial_row_of opening period) (sort_strings codes);
            sum_up = (\<lambda>f. foldl dadd 0 (map f rows))
        in Inr \<lparr>tb_rows = rows, tb_open_debit = sum_up tr_open_debit, tb_open_credit = sum_up tr_open_credit,
                tb_debit = sum_up tr_debit, tb_credit = sum_up tr_credit,
                tb_close_debit = sum_up tr_close_debit, tb_close_credit = sum_up tr_close_credit,
                tb_difference = dabs (dsub (sum_up tr_close_debit) (sum_up tr_close_credit)),
                tb_balanced = (sum_up tr_debit = sum_up tr_credit \<and> sum_up tr_close_debit = sum_up tr_close_credit)\<rparr>)"

subsection \<open>Balance sheet, profit and loss\<close>

record balance_sheet =
  bs_assets :: "(string \<times> dec) list"
  bs_total_assets :: dec
  bs_liabilities :: "(string \<times> dec) list"
  bs_total_liabilities :: dec
  bs_equity :: "(string \<times> dec) list"
  bs_total_equity :: dec
  bs_retained :: dec
  bs_total :: dec
  bs_balanced :: bool
  bs_difference :: dec

text \<open>The accounts of a class, by the first character of their codes, with their net amount.\<close>

definition of_class :: "string list \<Rightarrow> (dec \<times> dec \<Rightarrow> dec) \<Rightarrow> (string \<times> dec \<times> dec) list \<Rightarrow> (string \<times> dec) list" where
  "of_class ps f rows =
     map (\<lambda>(a, x). (a, f x)) (filter (\<lambda>(a, x). list_ex (startswith a) ps) rows)"

definition class_total :: "(string \<times> dec) list \<Rightarrow> dec" where
  "class_total xs = foldl dadd 0 (map snd xs)"

definition debit_net :: "dec \<times> dec \<Rightarrow> dec" where
  "debit_net x = dsub (fst x) (snd x)"

definition credit_net :: "dec \<times> dec \<Rightarrow> dec" where
  "credit_net x = dsub (snd x) (fst x)"

definition get_balance_sheet :: "uuid \<Rightarrow> date \<Rightarrow> db \<Rightarrow> balance_sheet" where
  "get_balance_sheet t d s =
     (let rows = account_totals (filter (\<lambda>g. gl_tenant g = t \<and> gl_date g \<le> d) (gl_entries s));
          assets = of_class [''1''] debit_net rows;
          liabilities = of_class [''2''] (\<lambda>x. dneg (debit_net x)) rows;
          equity = of_class [''3''] (\<lambda>x. dneg (debit_net x)) rows;
          revenue = class_total (of_class [''4''] credit_net rows);
          expense = class_total (of_class [''5'', ''6''] debit_net rows);
          retained = dsub revenue expense;
          both = dadd (dadd (class_total liabilities) (class_total equity)) retained;
          diff = dabs (dsub (class_total assets) both)
      in \<lparr>bs_assets = assets, bs_total_assets = class_total assets, bs_liabilities = liabilities,
          bs_total_liabilities = class_total liabilities, bs_equity = equity, bs_total_equity = class_total equity,
          bs_retained = retained, bs_total = both, bs_balanced = (diff < 1 / 1000), bs_difference = diff\<rparr>)"

record profit_and_loss =
  pl_revenue :: "(string \<times> dec) list"
  pl_total_revenue :: dec
  pl_cogs :: "(string \<times> dec) list"
  pl_total_cogs :: dec
  pl_gross :: dec
  pl_expenses :: "(string \<times> dec) list"
  pl_total_expenses :: dec
  pl_net :: dec

definition get_profit_and_loss :: "uuid \<Rightarrow> date \<Rightarrow> date \<Rightarrow> db \<Rightarrow> profit_and_loss" where
  "get_profit_and_loss t from to s =
     (let rows = account_totals (filter (\<lambda>g. gl_tenant g = t \<and> from \<le> gl_date g \<and> gl_date g \<le> to) (gl_entries s));
          revenue = of_class [''4''] credit_net rows;
          cogs = of_class [''5''] debit_net rows;
          expenses = of_class [''6''] debit_net rows;
          gross = dsub (class_total revenue) (class_total cogs)
      in \<lparr>pl_revenue = revenue, pl_total_revenue = class_total revenue, pl_cogs = cogs,
          pl_total_cogs = class_total cogs, pl_gross = gross, pl_expenses = expenses,
          pl_total_expenses = class_total expenses, pl_net = dsub gross (class_total expenses)\<rparr>)"

subsection \<open>Cash flow\<close>

record cash_flow =
  cf_income :: dec
  cf_capex :: dec
  cf_investing :: dec
  cf_financing :: dec
  cf_net :: dec

text \<open>\<open>ILIKE '%sub%'\<close>.\<close>

definition icontains :: "string \<Rightarrow> string \<Rightarrow> bool" where
  "icontains a sub \<longleftrightarrow> contains (upper a) (upper sub)"

definition is_cash_account :: "string \<Rightarrow> bool" where
  "is_cash_account a \<longleftrightarrow>
     icontains a ''CASH'' \<or> icontains a ''BANK'' \<or> startswith a ''1110'' \<or> startswith a ''1120''"

definition get_cash_flow_statement :: "uuid \<Rightarrow> date \<Rightarrow> date \<Rightarrow> db \<Rightarrow> cash_flow" where
  "get_cash_flow_statement t from to s =
     (let income = pl_net (get_profit_and_loss t from to s);
          rows = filter (\<lambda>g. gl_tenant g = t \<and> from \<le> gl_date g \<and> gl_date g \<le> to) (gl_entries s);
          cash = filter (\<lambda>g. is_cash_account (gl_account g)) rows;
          net_cash = dsub (debits cash) (credits cash);
          capex = (\<Sum>g\<leftarrow>filter (\<lambda>g. startswith (gl_account g) ''15'') rows. gl_debit g - gl_credit g);
          investing = dneg capex;
          financing = dsub (dsub net_cash income) investing
      in \<lparr>cf_income = income, cf_capex = capex, cf_investing = investing, cf_financing = financing,
          cf_net = net_cash\<rparr>)"

subsection \<open>Ageing\<close>

record ageing_line =
  ag_account :: string
  ag_date :: date
  ag_days :: int
  ag_bucket :: string
  ag_amount :: dec
  ag_source_type :: string
  ag_source_id :: uuid

record ageing =
  ag_total :: dec
  ag_30 :: dec
  ag_60 :: dec
  ag_90 :: dec
  ag_120 :: dec
  ag_older :: dec
  ag_lines :: "ageing_line list"

definition bucket_name :: "int \<Rightarrow> string" where
  "bucket_name days =
     (if days \<le> 30 then ''0-30'' else if days \<le> 60 then ''31-60'' else if days \<le> 90 then ''61-90''
      else if days \<le> 120 then ''91-120'' else ''120+'')"

text \<open>One entry of the loop; an amount that is not positive is skipped.\<close>

definition age_entry :: "date \<Rightarrow> (gl_entry \<Rightarrow> dec) \<Rightarrow> ageing \<Rightarrow> gl_entry \<Rightarrow> ageing" where
  "age_entry d net r g =
     (let amt = net g; days = d - gl_date g; r1 = r\<lparr>ag_total := dadd (ag_total r) amt\<rparr>;
          r2 = (if days \<le> 30 then r1\<lparr>ag_30 := dadd (ag_30 r) amt\<rparr>
                else if days \<le> 60 then r1\<lparr>ag_60 := dadd (ag_60 r) amt\<rparr>
                else if days \<le> 90 then r1\<lparr>ag_90 := dadd (ag_90 r) amt\<rparr>
                else if days \<le> 120 then r1\<lparr>ag_120 := dadd (ag_120 r) amt\<rparr>
                else r1\<lparr>ag_older := dadd (ag_older r) amt\<rparr>)
      in if amt \<le> 0 then r
         else r2\<lparr>ag_lines := ag_lines r @
           [\<lparr>ag_account = gl_account g, ag_date = gl_date g, ag_days = max days 0, ag_bucket = bucket_name days,
             ag_amount = amt, ag_source_type = gl_source_type g, ag_source_id = gl_source_id g\<rparr>]\<rparr>)"

definition no_ageing :: ageing where
  "no_ageing = \<lparr>ag_total = 0, ag_30 = 0, ag_60 = 0, ag_90 = 0, ag_120 = 0, ag_older = 0, ag_lines = []\<rparr>"

definition is_receivable_code :: "string \<Rightarrow> bool" where
  "is_receivable_code a \<longleftrightarrow> icontains a ''RECEIVABLE'' \<or> startswith a ''1200'' \<or> startswith a ''1310''"

definition is_payable :: "string \<Rightarrow> bool" where
  "is_payable a \<longleftrightarrow> icontains a ''PAYABLE'' \<or> startswith a ''2100'' \<or> startswith a ''2110''"

definition get_ar_ageing :: "env \<Rightarrow> uuid \<Rightarrow> date option \<Rightarrow> db \<Rightarrow> ageing" where
  "get_ar_ageing e t d s =
     (let d = or_else d (today e)
      in foldl (age_entry d (\<lambda>g. gl_debit g - gl_credit g)) no_ageing
           (filter (\<lambda>g. gl_tenant g = t \<and> gl_date g \<le> d \<and> is_receivable_code (gl_account g)) (gl_entries s)))"

definition get_ap_ageing :: "env \<Rightarrow> uuid \<Rightarrow> date option \<Rightarrow> db \<Rightarrow> ageing" where
  "get_ap_ageing e t d s =
     (let d = or_else d (today e)
      in foldl (age_entry d (\<lambda>g. gl_credit g - gl_debit g)) no_ageing
           (filter (\<lambda>g. gl_tenant g = t \<and> gl_date g \<le> d \<and> is_payable (gl_account g)) (gl_entries s)))"

subsection \<open>The ledger of one account\<close>

fun running :: "dec \<Rightarrow> gl_entry list \<Rightarrow> (gl_entry \<times> dec) list" where
  "running b [] = []"
| "running b (g # gs) =
     (let b' = dadd b (dsub (gl_debit g) (gl_credit g)) in (g, b') # running b' gs)"

record drilldown =
  dd_opening :: dec
  dd_closing :: dec
  dd_rows :: "(gl_entry \<times> dec) list"

definition get_general_ledger_drilldown :: "uuid \<Rightarrow> string \<Rightarrow> date \<Rightarrow> date \<Rightarrow> db \<Rightarrow> drilldown" where
  "get_general_ledger_drilldown t a from to s =
     (let own = filter (\<lambda>g. gl_tenant g = t \<and> gl_account g = a) (gl_entries s);
          opening = (\<Sum>g\<leftarrow>filter (\<lambda>g. gl_date g < from) own. gl_debit g - gl_credit g);
          rows = running opening (sort_key gl_date (filter (\<lambda>g. from \<le> gl_date g \<and> gl_date g \<le> to) own))
      in \<lparr>dd_opening = opening, dd_closing = (if rows = [] then opening else snd (last rows)), dd_rows = rows\<rparr>)"

subsection \<open>Rows by account\<close>

lemma ledger_rows_small: "list_all ledger_row gs \<Longrightarrow>
    list_all (\<lambda>g. small (10 ^ 14) (gl_debit g) \<and> small (10 ^ 14) (gl_credit g)) (filter P gs)"
  by (auto simp: list_all_iff small_def column_amount_def ledger_row_def)

lemma history_rows: "ledger_history h s \<Longrightarrow> list_all ledger_row (gl_entries s)"
  using run_rows by (auto simp: ledger_history_def)

definition weight :: "gl_entry list \<Rightarrow> rat" where
  "weight gs = (\<Sum>g\<leftarrow>gs. 10 ^ 14)"

lemma weight_length: "weight gs = of_nat (length gs) * 10 ^ 14"
  by (induction gs) (simp_all add: weight_def algebra_simps)

lemma weight_twice: "(\<Sum>g\<leftarrow>gs. 2 * 10 ^ 14) = 2 * weight gs"
  by (induction gs) (simp_all add: weight_def)

lemma weight_filter_le: "weight (filter P gs) \<le> weight gs"
  by (induction gs) (auto simp: weight_def)

lemma debits_small: "list_all (\<lambda>g. small (10 ^ 14) (gl_debit g) \<and> small (10 ^ 14) (gl_credit g)) gs \<Longrightarrow>
    small (weight gs) (debits gs) \<and> small (weight gs) (credits gs)"
  unfolding weight_def debits_def credits_def by (auto simp: list_all_iff intro!: small_sum)

definition of_account :: "string \<Rightarrow> gl_entry list \<Rightarrow> gl_entry list" where
  "of_account a gs = filter (\<lambda>g. gl_account g = a) gs"

lemma totals_of_account: "totals_of (account_totals gs) a = (debits (of_account a gs), credits (of_account a gs))"
proof -
  have m: "map_of (map (\<lambda>k. (k, F k)) ks) a = (if a \<in> set ks then Some (F a) else None)" for F :: "string \<Rightarrow> dec \<times> dec" and ks
    by (induction ks) auto
  have "account_totals gs = map (\<lambda>k. (k, debits (of_account k gs), credits (of_account k gs))) (remdups (map gl_account gs))"
    by (simp add: account_totals_def group_by_def of_account_def)
  moreover have "of_account a gs = []" if "a \<notin> gl_account ` set gs"
    using that by (auto simp: of_account_def filter_empty_conv)
  ultimately show ?thesis by (auto simp: totals_of_def or_else_def m)
qed

lemma account_totals_keys: "map fst (account_totals gs) = remdups (map gl_account gs)"
  by (simp add: account_totals_def group_by_def comp_def)

text \<open>A sum over accounts of sums over their rows is the sum over all rows.\<close>

lemma sum_over_accounts:
  assumes "distinct as" "gl_account ` set gs \<subseteq> set as"
  shows "(\<Sum>a\<leftarrow>as. debits (of_account a gs)) = debits gs" "(\<Sum>a\<leftarrow>as. credits (of_account a gs)) = credits gs"
    "(\<Sum>a\<leftarrow>as. weight (of_account a gs)) = weight gs"
  using sum_by_key [OF assms(1), of gs gl_account] assms(2)
  by (auto simp: debits_def credits_def weight_def of_account_def)

lemma sort_members_length: "set (sort_members ps) = set ps \<and> length (sort_members ps) = length ps"
proof -
  have "set (insert_member p qs) = insert p (set qs) \<and> length (insert_member p qs) = Suc (length qs)"
    for p :: "string \<times> 'a" and qs by (induction qs) auto
  then show ?thesis unfolding sort_members_def by (induction ps) auto
qed

lemma sort_strings_set: "set (sort_strings ks) = set ks" "distinct ks \<Longrightarrow> distinct (sort_strings ks)"
proof -
  show 1: "set (sort_strings ks) = set ks"
    using sort_members_length [of "map (\<lambda>k. (k, ())) ks"] by (force simp: sort_strings_def)
  assume "distinct ks"
  moreover have "length (sort_strings ks) = length ks"
    using sort_members_length [of "map (\<lambda>k. (k, ())) ks"] by (simp add: sort_strings_def)
  ultimately show "distinct (sort_strings ks)"
    using 1 by (metis card_distinct distinct_card)
qed

subsection \<open>The trial balance\<close>

abbreviation rows_small :: "gl_entry list \<Rightarrow> bool" where
  "rows_small gs \<equiv> list_all (\<lambda>g. small (10 ^ 14) (gl_debit g) \<and> small (10 ^ 14) (gl_credit g)) gs"

lemma rows_small_of_account: "rows_small gs \<Longrightarrow> rows_small (of_account a gs)"
  by (auto simp: of_account_def list_all_iff)

lemma small_max: "small v x \<Longrightarrow> small v (max x 0)"
  by (auto simp: small_def max_def)

definition account_weight :: "gl_entry list \<Rightarrow> gl_entry list \<Rightarrow> string \<Rightarrow> rat" where
  "account_weight os ps a = 4 * weight (of_account a os) + 2 * weight (of_account a ps)"

definition net_of :: "gl_entry list \<Rightarrow> string \<Rightarrow> dec" where
  "net_of gs a = debits (of_account a gs) - credits (of_account a gs)"

lemma trial_row_exact:
  fixes a os ps
  defines "net \<equiv> net_of os a + net_of ps a"
  assumes "rows_small os" "rows_small ps" "account_weight os ps a < 10 ^ 24"
  shows "trial_row_of (account_totals os) (account_totals ps) a =
      \<lparr>tr_account = a, tr_open_debit = max (net_of os a) 0, tr_open_credit = max (- net_of os a) 0,
       tr_debit = debits (of_account a ps), tr_credit = credits (of_account a ps),
       tr_close_debit = max net 0, tr_close_credit = max (- net) 0, tr_net = net\<rparr>"
    and "small (account_weight os ps a) net" "small (account_weight os ps a) (debits (of_account a ps))"
    "small (account_weight os ps a) (credits (of_account a ps))" "small (account_weight os ps a) (net_of os a)"
proof -
  let ?u = "weight (of_account a os)" and ?v = "weight (of_account a ps)"
  let ?n = "net_of os a"
  note o' = debits_small [OF rows_small_of_account [OF assms(2)], of a]
  note p = debits_small [OF rows_small_of_account [OF assms(3)], of a]
  have nn: "0 \<le> ?u" "0 \<le> ?v" using o' p small_nonneg by blast+
  have w: "4 * ?u + 2 * ?v < 10 ^ 24" using assms(4) by (simp add: account_weight_def)
  have n: "small (2 * ?u) ?n"
    using small_minus [OF o' [THEN conjunct1] o' [THEN conjunct2]] by (simp add: net_of_def)
  have cd: "small (2 * ?u + ?v) (max ?n 0 + debits (of_account a ps))"
    using small_plus [OF small_max [OF n] p [THEN conjunct1]] .
  have cc: "small (2 * ?u + ?v) (max (- ?n) 0 + credits (of_account a ps))"
    using small_plus [OF small_max p [THEN conjunct2], of "2 * ?u" "- ?n"] n by simp
  have net: "max ?n 0 + debits (of_account a ps) - (max (- ?n) 0 + credits (of_account a ps)) = net"
    by (simp add: net_def net_of_def [of ps] max_def)
  have m: "small (4 * ?u + 2 * ?v) net" using small_minus [OF cd cc] by (simp add: net)
  have e1: "dsub (debits (of_account a os)) (credits (of_account a os)) = ?n"
    using dsub_small [OF o' [THEN conjunct1] o' [THEN conjunct2]] w nn by (simp add: net_of_def)
  have e2: "dneg ?n = - ?n" using dneg_small [OF n] w nn by simp
  have e3: "dadd (max ?n 0) (debits (of_account a ps)) = max ?n 0 + debits (of_account a ps)"
    using dadd_small [OF small_max [OF n] p [THEN conjunct1]] w nn by simp
  have e4: "dadd (max (- ?n) 0) (credits (of_account a ps)) = max (- ?n) 0 + credits (of_account a ps)"
    using dadd_small [OF small_max p [THEN conjunct2], of "2 * ?u" "- ?n"] n w nn by simp
  have e5: "dsub (max ?n 0 + debits (of_account a ps)) (max (- ?n) 0 + credits (of_account a ps)) = net"
    using dsub_small [OF cd cc] w nn by (simp add: net)
  have e6: "dneg net = - net" using dneg_small [OF m w] .
  have e7: "(if 0 < net then net else 0) = max net 0" "(if net < 0 then - net else 0) = max (- net) 0"
    by (simp_all add: max_def)
  show "trial_row_of (account_totals os) (account_totals ps) a =
      \<lparr>tr_account = a, tr_open_debit = max ?n 0, tr_open_credit = max (- ?n) 0,
       tr_debit = debits (of_account a ps), tr_credit = credits (of_account a ps),
       tr_close_debit = max net 0, tr_close_credit = max (- net) 0, tr_net = net\<rparr>"
    by (simp only: trial_row_of_def totals_of_account Let_def prod.case e1 e2 e3 e4 e5 e6 e7)
  show "small (account_weight os ps a) net" using m by (simp add: account_weight_def)
  show "small (account_weight os ps a) (debits (of_account a ps))" "small (account_weight os ps a) (credits (of_account a ps))"
    "small (account_weight os ps a) ?n"
    using p n nn by (auto simp: account_weight_def elim!: small_mono)
qed

lemma account_weights:
  assumes "distinct as" "gl_account ` set os \<subseteq> set as" "gl_account ` set ps \<subseteq> set as"
  shows "(\<Sum>a\<leftarrow>as. account_weight os ps a) = 4 * weight os + 2 * weight ps"
  using sum_over_accounts(3) [OF assms(1,2)] sum_over_accounts(3) [OF assms(1,3)]
  by (simp add: account_weight_def sum_list_addf sum_list_const_mult)

lemma net_over_accounts:
  "distinct as \<Longrightarrow> gl_account ` set gs \<subseteq> set as \<Longrightarrow> (\<Sum>a\<leftarrow>as. net_of gs a) = debits gs - credits gs"
  by (simp add: net_of_def sum_list_subtractf sum_over_accounts)

text \<open>The opening, period and closing columns of a list of accounts that covers all rows.\<close>

definition opening_rows :: "uuid \<Rightarrow> date \<Rightarrow> string option \<Rightarrow> db \<Rightarrow> gl_entry list" where
  "opening_rows t from cc s = filter (\<lambda>g. gl_tenant g = t \<and> gl_date g < from \<and> in_center cc g) (gl_entries s)"

definition period_rows :: "uuid \<Rightarrow> date \<Rightarrow> date \<Rightarrow> string option \<Rightarrow> db \<Rightarrow> gl_entry list" where
  "period_rows t from to cc s =
     filter (\<lambda>g. gl_tenant g = t \<and> from \<le> gl_date g \<and> gl_date g \<le> to \<and> in_center cc g) (gl_entries s)"

lemma trial_balance_exact:
  fixes t d1 d2 cc s
  assumes "d1 \<le> d2" "list_all ledger_row (gl_entries s)" "length (gl_entries s) < 10 ^ 9"
  defines "os \<equiv> opening_rows t d1 cc s" and "ps \<equiv> period_rows t d1 d2 cc s"
  shows "\<exists>as b. get_trial_balance t d1 d2 cc s = Inr b \<and> distinct as \<and>
    gl_account ` set os \<subseteq> set as \<and> gl_account ` set ps \<subseteq> set as \<and> map tr_account (tb_rows b) = as \<and>
    tb_open_debit b = (\<Sum>a\<leftarrow>as. max (net_of os a) 0) \<and> tb_open_credit b = (\<Sum>a\<leftarrow>as. max (- net_of os a) 0) \<and>
    tb_debit b = debits ps \<and> tb_credit b = credits ps \<and>
    tb_close_debit b = (\<Sum>a\<leftarrow>as. max (net_of os a + net_of ps a) 0) \<and>
    tb_close_credit b = (\<Sum>a\<leftarrow>as. max (- (net_of os a + net_of ps a)) 0) \<and>
    tb_balanced b = (tb_debit b = tb_credit b \<and> tb_close_debit b = tb_close_credit b) \<and>
    tb_difference b = dabs (dsub (tb_close_debit b) (tb_close_credit b))"
proof -
  have sm: "rows_small os" "rows_small ps"
    unfolding os_def ps_def opening_rows_def period_rows_def by (rule ledger_rows_small [OF assms(2)])+
  let ?c = "remdups (map fst (account_totals os) @ map fst (account_totals ps))"
  let ?codes = "if ?c = [] then remdups (map ac_code (filter (\<lambda>a. ac_tenant a = t) (accounts s))) else ?c"
  define as where "as = sort_strings ?codes"
  have d: "distinct as" unfolding as_def by (rule sort_strings_set(2)) simp
  have "set ?c = gl_account ` (set os \<union> set ps)" by (auto simp: account_totals_keys)
  then have cov: "gl_account ` set os \<subseteq> set as" "gl_account ` set ps \<subseteq> set as"
    by (auto simp: as_def sort_strings_set(1) account_totals_keys)
  let ?W = "account_weight os ps"
  have "weight os + weight ps \<le> 2 * of_nat (length (gl_entries s)) * 10 ^ 14"
    using add_mono [OF weight_filter_le weight_filter_le, of _ "gl_entries s" _ "gl_entries s"]
    by (simp add: weight_length [of "gl_entries s"] os_def ps_def opening_rows_def period_rows_def)
  also have "\<dots> < 2 * 10 ^ 9 * 10 ^ 14"
    using assms(3) of_nat_less_iff [of "length (gl_entries s)" "10 ^ 9", where 'a = rat] by simp
  finally have lim: "(\<Sum>a\<leftarrow>as. ?W a) < 10 ^ 24"
    using weight_length [of ps] by (simp add: account_weights [OF d cov])
  have each: "?W a < 10 ^ 24" if "a \<in> set as" for a
  proof -
    have "0 \<le> ?W b" for b by (simp add: account_weight_def weight_length)
    then have "?W a \<le> (\<Sum>a\<leftarrow>as. ?W a)" using that by (intro sum_list_member_le)
    with lim show ?thesis by simp
  qed
  define R where "R = trial_row_of (account_totals os) (account_totals ps)"
  note row = trial_row_exact [OF sm each, folded R_def]
  have sums: "foldl dadd 0 (map f (map R as)) = (\<Sum>a\<leftarrow>as. h a)"
    if "\<And>a. a \<in> set as \<Longrightarrow> f (R a) = h a \<and> small (?W a) (h a)" for f h
  proof -
    have "map f (map R as) = map h as" using that by simp
    then show ?thesis using sum_small [OF _ lim, of h] that by (simp only:)
  qed
  let ?b = "\<lparr>tb_rows = map R as, tb_open_debit = foldl dadd 0 (map tr_open_debit (map R as)),
     tb_open_credit = foldl dadd 0 (map tr_open_credit (map R as)),
     tb_debit = foldl dadd 0 (map tr_debit (map R as)), tb_credit = foldl dadd 0 (map tr_credit (map R as)),
     tb_close_debit = foldl dadd 0 (map tr_close_debit (map R as)),
     tb_close_credit = foldl dadd 0 (map tr_close_credit (map R as)),
     tb_difference = dabs (dsub (foldl dadd 0 (map tr_close_debit (map R as))) (foldl dadd 0 (map tr_close_credit (map R as)))),
     tb_balanced = (foldl dadd 0 (map tr_debit (map R as)) = foldl dadd 0 (map tr_credit (map R as)) \<and>
       foldl dadd 0 (map tr_close_debit (map R as)) = foldl dadd 0 (map tr_close_credit (map R as)))\<rparr>"
  have "get_trial_balance t d1 d2 cc s = Inr ?b"
    using assms(1) unfolding get_trial_balance_def Let_def opening_rows_def [symmetric] period_rows_def [symmetric]
      os_def [symmetric] ps_def [symmetric] as_def [symmetric] R_def [symmetric] by simp
  moreover have "map tr_account (map R as) = as" using row(1) by (simp add: map_idI)
  moreover have "foldl dadd 0 (map tr_open_debit (map R as)) = (\<Sum>a\<leftarrow>as. max (net_of os a) 0)"
    by (rule sums) (use row in \<open>auto intro!: small_max\<close>)
  moreover have "foldl dadd 0 (map tr_open_credit (map R as)) = (\<Sum>a\<leftarrow>as. max (- net_of os a) 0)"
    by (rule sums) (use row in \<open>auto intro!: small_max\<close>)
  moreover have "foldl dadd 0 (map tr_debit (map R as)) = (\<Sum>a\<leftarrow>as. debits (of_account a ps))"
    by (rule sums) (use row in auto)
  moreover have "foldl dadd 0 (map tr_credit (map R as)) = (\<Sum>a\<leftarrow>as. credits (of_account a ps))"
    by (rule sums) (use row in auto)
  moreover have "foldl dadd 0 (map tr_close_debit (map R as)) = (\<Sum>a\<leftarrow>as. max (net_of os a + net_of ps a) 0)"
    by (rule sums) (use row in \<open>auto intro!: small_max\<close>)
  moreover have "foldl dadd 0 (map tr_close_credit (map R as)) = (\<Sum>a\<leftarrow>as. max (- (net_of os a + net_of ps a)) 0)"
    by (rule sums) (use row in \<open>auto intro!: small_max simp del: minus_add_distrib simp: minus_add_distrib [symmetric]\<close>)
  ultimately show ?thesis
    using d cov sum_over_accounts [OF d cov(2)] by (intro exI [of _ as] exI [of _ ?b]) simp
qed


text \<open>Rows of a tenant whose every transaction was posted balanced, in a range of days.\<close>

definition regular_books :: "uuid \<Rightarrow> db \<Rightarrow> bool" where
  "regular_books t s \<longleftrightarrow> (\<exists>h X T. ledger_run h X T s \<and> (\<forall>tx. (t, tx) \<notin> X))"

lemma regular_days:
  assumes "regular_books t s"
  shows "debits (filter (\<lambda>g. gl_tenant g = t \<and> D (gl_date g)) (gl_entries s)) =
    credits (filter (\<lambda>g. gl_tenant g = t \<and> D (gl_date g)) (gl_entries s))"
proof -
  have "posted (tenant_rows t (gl_entries s))" using assms run_posted by (auto simp: regular_books_def)
  from posted_days [OF this, of t D] show ?thesis by (simp add: tenant_rows_def conj_ac)
qed



subsection \<open>Classes of accounts\<close>

definition in_class :: "string list \<Rightarrow> string \<Rightarrow> bool" where
  "in_class ps a \<longleftrightarrow> list_ex (startswith a) ps"

definition class_net :: "string list \<Rightarrow> gl_entry list \<Rightarrow> dec" where
  "class_net ps gs = (\<Sum>g\<leftarrow>filter (\<lambda>g. in_class ps (gl_account g)) gs. gl_debit g - gl_credit g)"

lemma small_class_net:
  assumes "rows_small gs"
  shows "small (2 * weight gs) (class_net ps gs)"
proof -
  let ?gs = "filter (\<lambda>g. in_class ps (gl_account g)) gs"
  have "rows_small ?gs" using assms by (auto simp: list_all_iff)
  from debits_small [OF this] have "small (weight ?gs + weight ?gs) (debits ?gs - credits ?gs)"
    by (blast intro: small_minus)
  moreover have "weight ?gs \<le> weight gs" by (rule weight_filter_le)
  ultimately show ?thesis
    by (simp add: class_net_def sum_list_subtractf debits_def credits_def small_def)
qed

text \<open>The total of a class, for amounts that are the net debit times \<open>\<sigma>\<close>.\<close>

lemma class_total_exact:
  assumes "rows_small gs" "2 * weight gs < 10 ^ 24" "\<bar>\<sigma>\<bar> = 1"
    and "\<And>x v. small v (fst x) \<Longrightarrow> small v (snd x) \<Longrightarrow> 2 * v < 10 ^ 24 \<Longrightarrow> f x = \<sigma> * (fst x - snd x)"
  shows "class_total (of_class ps f (account_totals gs)) = \<sigma> * class_net ps gs"
proof -
  let ?P = "\<lambda>g. in_class ps (gl_account g)"
  let ?gs = "filter ?P gs"
  define as where "as = filter (in_class ps) (remdups (map gl_account gs))"
  have own: "of_account a ?gs = of_account a gs" if "a \<in> set as" for a
    using that by (auto simp: of_account_def as_def intro!: filter_cong)
  have cov: "distinct as" "gl_account ` set ?gs \<subseteq> set as" by (auto simp: as_def)
  have rs: "rows_small ?gs" using assms(1) by (auto simp: list_all_iff)
  have w: "(\<Sum>a\<leftarrow>as. 2 * weight (of_account a ?gs)) < 10 ^ 24"
    using sum_over_accounts(3) [OF cov] weight_filter_le [of ?P gs] assms(2) by (simp add: sum_list_const_mult)
  have val: "f (debits (of_account a ?gs), credits (of_account a ?gs)) = \<sigma> * net_of ?gs a \<and>
      small (2 * weight (of_account a ?gs)) (\<sigma> * net_of ?gs a)" if "a \<in> set as" for a
  proof -
    have s': "small (weight (of_account a ?gs)) (debits (of_account a ?gs))"
      "small (weight (of_account a ?gs)) (credits (of_account a ?gs))"
      using debits_small [OF rows_small_of_account [OF rs]] by blast+
    have "0 \<le> 2 * weight (of_account b ?gs)" for b by (simp add: weight_length)
    then have "2 * weight (of_account a ?gs) \<le> (\<Sum>a\<leftarrow>as. 2 * weight (of_account a ?gs))"
      using that by (intro sum_list_member_le)
    then have "f (debits (of_account a ?gs), credits (of_account a ?gs)) = \<sigma> * net_of ?gs a"
      using assms(4) [of "weight (of_account a ?gs)" "(debits (of_account a ?gs), credits (of_account a ?gs))"] s' w
      by (simp add: net_of_def)
    moreover have "small (2 * weight (of_account a ?gs)) (net_of ?gs a)"
      using small_minus [OF s'] by (simp add: net_of_def)
    moreover have "\<sigma> = 1 \<or> \<sigma> = - 1" using assms(3) by (auto simp: abs_if split: if_splits)
    ultimately show ?thesis by auto
  qed
  have "map snd (of_class ps f (account_totals gs)) =
      map (\<lambda>a. f (debits (of_account a gs), credits (of_account a gs))) as"
    by (simp add: of_class_def account_totals_def group_by_def as_def of_account_def filter_map comp_def
        split_beta in_class_def [abs_def])
  also have "\<dots> = map (\<lambda>a. \<sigma> * net_of ?gs a) as" using val own by simp
  finally have "class_total (of_class ps f (account_totals gs)) = (\<Sum>a\<leftarrow>as. \<sigma> * net_of ?gs a)"
    using sum_small [OF _ w, of "\<lambda>a. \<sigma> * net_of ?gs a"] val by (simp add: class_total_def)
  also have "\<dots> = \<sigma> * (debits ?gs - credits ?gs)"
    by (simp add: sum_list_const_mult net_over_accounts [OF cov])
  finally show ?thesis by (simp add: class_net_def debits_def credits_def sum_list_subtractf)
qed

lemma debit_net_exact: "small v (fst x) \<Longrightarrow> small v (snd x) \<Longrightarrow> 2 * v < 10 ^ 24 \<Longrightarrow> debit_net x = 1 * (fst x - snd x)"
  using dsub_small [of v "fst x" v "snd x"] by (simp add: debit_net_def)

lemma credit_net_exact: "small v (fst x) \<Longrightarrow> small v (snd x) \<Longrightarrow> 2 * v < 10 ^ 24 \<Longrightarrow> credit_net x = - 1 * (fst x - snd x)"
  using dsub_small [of v "snd x" v "fst x"] by (simp add: credit_net_def)

lemma liability_net_exact:
  "small v (fst x) \<Longrightarrow> small v (snd x) \<Longrightarrow> 2 * v < 10 ^ 24 \<Longrightarrow> dneg (debit_net x) = - 1 * (fst x - snd x)"
  using dneg_small [of "v + v" "fst x - snd x"] small_minus [of v "fst x" v "snd x"] debit_net_exact [of v x] by simp

text \<open>The rows of the books in a range of days, and the classes of a chart of six.\<close>

definition day_rows :: "uuid \<Rightarrow> (date \<Rightarrow> bool) \<Rightarrow> db \<Rightarrow> gl_entry list" where
  "day_rows t D s = filter (\<lambda>g. gl_tenant g = t \<and> D (gl_date g)) (gl_entries s)"

lemma day_rows_small:
  assumes "list_all ledger_row (gl_entries s)" "length (gl_entries s) < 10 ^ 9"
  shows "rows_small (day_rows t D s)" "weight (day_rows t D s) < 10 ^ 23"
proof -
  show "rows_small (day_rows t D s)" unfolding day_rows_def by (rule ledger_rows_small [OF assms(1)])
  have "weight (day_rows t D s) \<le> weight (gl_entries s)" unfolding day_rows_def by (rule weight_filter_le)
  also have "\<dots> < 10 ^ 9 * 10 ^ 14"
    using assms(2) of_nat_less_iff [of "length (gl_entries s)" "10 ^ 9", where 'a = rat] by (simp add: weight_length)
  finally show "weight (day_rows t D s) < 10 ^ 23" by simp
qed

definition chart_of_six :: "gl_entry list \<Rightarrow> bool" where
  "chart_of_six gs \<longleftrightarrow> list_all (\<lambda>g. in_class [''1'', ''2'', ''3'', ''4'', ''5'', ''6''] (gl_account g)) gs"

lemma in_class_cases:
  "in_class [] a = False"
  "in_class ([c] # ps) [] = in_class ps []"
  "in_class ([c] # ps) (d # a) \<longleftrightarrow> d = c \<or> in_class ps (d # a)"
  by (auto simp: in_class_def)

lemma class_net_Cons:
  "class_net ps (g # gs) = (if in_class ps (gl_account g) then gl_debit g - gl_credit g else 0) + class_net ps gs"
  by (simp add: class_net_def)

lemma classes_cover:
  assumes "chart_of_six gs"
  shows "class_net [''1''] gs + class_net [''2''] gs + class_net [''3''] gs + class_net [''4''] gs +
    class_net [''5'', ''6''] gs = debits gs - credits gs"
  using assms
proof (induction gs)
  case Nil
  then show ?case by (simp add: class_net_def)
next
  case (Cons g gs)
  show ?case using Cons by (cases "gl_account g") (auto simp: class_net_Cons in_class_cases chart_of_six_def)
qed

lemma class_net_56: "class_net [''5'', ''6''] gs = class_net [''5''] gs + class_net [''6''] gs"
proof (induction gs)
  case (Cons g gs)
  then show ?case by (cases "gl_account g") (auto simp: class_net_Cons in_class_cases)
qed (simp add: class_net_def)

lemma balance_sheet_exact:
  fixes t d s
  assumes "list_all ledger_row (gl_entries s)" "length (gl_entries s) < 10 ^ 9"
  defines "b \<equiv> get_balance_sheet t d s" and "N \<equiv> (\<lambda>ps. class_net ps (day_rows t (\<lambda>x. x \<le> d) s))"
  shows "bs_total_assets b = N [''1'']" "bs_total_liabilities b = - N [''2'']" "bs_total_equity b = - N [''3'']"
    "bs_retained b = - N [''4''] - N [''5'', ''6'']" "bs_total b = - N [''2''] - N [''3''] - N [''4''] - N [''5'', ''6'']"
    "bs_difference b = \<bar>N [''1''] + N [''2''] + N [''3''] + N [''4''] + N [''5'', ''6'']\<bar>"
    "bs_balanced b \<longleftrightarrow> bs_difference b < 1 / 1000"
proof -
  let ?gs = "day_rows t (\<lambda>x. x \<le> d) s"
  note rs = day_rows_small [OF assms(1,2), of t "\<lambda>x. x \<le> d"]
  have w: "2 * weight ?gs < 10 ^ 24" using rs(2) by simp
  let ?rows = "account_totals ?gs"
  have A: "class_total (of_class [''1''] debit_net ?rows) = N [''1'']"
    using class_total_exact [OF rs(1) w, of 1 debit_net] debit_net_exact by (simp add: N_def)
  have L: "class_total (of_class [''2''] (\<lambda>x. dneg (debit_net x)) ?rows) = - N [''2'']"
    using class_total_exact [OF rs(1) w, of "- 1" "\<lambda>x. dneg (debit_net x)"] liability_net_exact by (simp add: N_def)
  have E: "class_total (of_class [''3''] (\<lambda>x. dneg (debit_net x)) ?rows) = - N [''3'']"
    using class_total_exact [OF rs(1) w, of "- 1" "\<lambda>x. dneg (debit_net x)"] liability_net_exact by (simp add: N_def)
  have R: "class_total (of_class [''4''] credit_net ?rows) = - N [''4'']"
    using class_total_exact [OF rs(1) w, of "- 1" credit_net] credit_net_exact by (simp add: N_def)
  have X: "class_total (of_class [''5'', ''6''] debit_net ?rows) = N [''5'', ''6'']"
    using class_total_exact [OF rs(1) w, of 1 debit_net] debit_net_exact by (simp add: N_def)
  define v where "v = 2 * weight ?gs"
  have sm: "small v (N ps)" "small v (- N ps)" for ps
    using small_class_net [OF rs(1), of ps] by (simp_all add: N_def v_def)
  note p1 = small_minus [OF sm(2) sm(1), of "[''4'']" "[''5'', ''6'']"]
  note p2 = small_plus [OF sm(2) sm(2), of "[''2'']" "[''3'']"]
  have lim: "v + v < 10 ^ 24" "v + v + (v + v) < 10 ^ 24" "v + (v + v + (v + v)) < 10 ^ 24"
    using rs(2) by (simp_all add: v_def)
  have retained: "dsub (- N [''4'']) (N [''5'', ''6'']) = - N [''4''] - N [''5'', ''6'']"
    by (rule dsub_small [OF sm(2) sm(1) lim(1)])
  have le: "dadd (- N [''2'']) (- N [''3'']) = - N [''2''] + - N [''3'']" by (rule dadd_small [OF sm(2) sm(2) lim(1)])
  have both: "dadd (- N [''2''] + - N [''3'']) (- N [''4''] - N [''5'', ''6'']) =
      - N [''2''] + - N [''3''] + (- N [''4''] - N [''5'', ''6''])"
    by (rule dadd_small [OF p2 p1 lim(2)])
  have diff: "dsub (N [''1'']) (- N [''2''] + - N [''3''] + (- N [''4''] - N [''5'', ''6''])) =
      N [''1''] - (- N [''2''] + - N [''3''] + (- N [''4''] - N [''5'', ''6'']))"
    by (rule dsub_small [OF sm(1) small_plus [OF p2 p1] lim(3)])
  have abs: "dabs (N [''1''] - (- N [''2''] + - N [''3''] + (- N [''4''] - N [''5'', ''6'']))) =
      \<bar>N [''1''] - (- N [''2''] + - N [''3''] + (- N [''4''] - N [''5'', ''6'']))\<bar>"
    by (rule dabs_small [OF small_minus [OF sm(1) small_plus [OF p2 p1]] lim(3)])
  have G: "filter (\<lambda>g. gl_tenant g = t \<and> gl_date g \<le> d) (gl_entries s) = ?gs" by (simp add: day_rows_def)
  have "b = \<lparr>bs_assets = of_class [''1''] debit_net ?rows, bs_total_assets = N [''1''],
      bs_liabilities = of_class [''2''] (\<lambda>x. dneg (debit_net x)) ?rows, bs_total_liabilities = - N [''2''],
      bs_equity = of_class [''3''] (\<lambda>x. dneg (debit_net x)) ?rows, bs_total_equity = - N [''3''],
      bs_retained = - N [''4''] - N [''5'', ''6''], bs_total = - N [''2''] + - N [''3''] + (- N [''4''] - N [''5'', ''6'']),
      bs_balanced = (\<bar>N [''1''] - (- N [''2''] + - N [''3''] + (- N [''4''] - N [''5'', ''6'']))\<bar> < 1 / 1000),
      bs_difference = \<bar>N [''1''] - (- N [''2''] + - N [''3''] + (- N [''4''] - N [''5'', ''6'']))\<bar>\<rparr>"
    unfolding b_def get_balance_sheet_def Let_def G A L E R X retained le both diff abs ..
  then show "bs_total_assets b = N [''1'']" "bs_total_liabilities b = - N [''2'']" "bs_total_equity b = - N [''3'']"
    "bs_retained b = - N [''4''] - N [''5'', ''6'']" "bs_total b = - N [''2''] - N [''3''] - N [''4''] - N [''5'', ''6'']"
    "bs_difference b = \<bar>N [''1''] + N [''2''] + N [''3''] + N [''4''] + N [''5'', ''6'']\<bar>"
    "bs_balanced b \<longleftrightarrow> bs_difference b < 1 / 1000"
    by (simp_all add: algebra_simps)
qed

lemma sheet_totals:
  assumes "list_all ledger_row (gl_entries s)" "length (gl_entries s) < 10 ^ 9" "chart_of_six (day_rows t (\<lambda>x. x \<le> d) s)"
  defines "gap \<equiv> debits (day_rows t (\<lambda>x. x \<le> d) s) - credits (day_rows t (\<lambda>x. x \<le> d) s)"
  shows "bs_total_assets (get_balance_sheet t d s) - bs_total (get_balance_sheet t d s) = gap"
    "bs_difference (get_balance_sheet t d s) = \<bar>gap\<bar>"
    "bs_balanced (get_balance_sheet t d s) \<longleftrightarrow> \<bar>gap\<bar> < 1 / 1000"
  using balance_sheet_exact(1,5,6,7) [OF assms(1,2), of t d] classes_cover [OF assms(3)]
  by (simp_all add: gap_def)

lemma profit_exact:
  fixes t d1 d2 s
  assumes "list_all ledger_row (gl_entries s)" "length (gl_entries s) < 10 ^ 9"
  defines "N \<equiv> (\<lambda>ps. class_net ps (day_rows t (\<lambda>x. d1 \<le> x \<and> x \<le> d2) s))"
  shows "pl_net (get_profit_and_loss t d1 d2 s) = - N [''4''] - N [''5''] - N [''6'']"
proof -
  let ?gs = "day_rows t (\<lambda>x. d1 \<le> x \<and> x \<le> d2) s"
  note rs = day_rows_small [OF assms(1,2), of t "\<lambda>x. d1 \<le> x \<and> x \<le> d2"]
  have w: "2 * weight ?gs < 10 ^ 24" using rs(2) by simp
  let ?rows = "account_totals ?gs"
  have R: "class_total (of_class [''4''] credit_net ?rows) = - N [''4'']"
    using class_total_exact [OF rs(1) w, of "- 1" credit_net] credit_net_exact by (simp add: N_def)
  have C: "class_total (of_class [''5''] debit_net ?rows) = N [''5'']"
    and X: "class_total (of_class [''6''] debit_net ?rows) = N [''6'']"
    using class_total_exact [OF rs(1) w, of 1 debit_net] debit_net_exact by (simp_all add: N_def)
  define v where "v = 2 * weight ?gs"
  have sm: "small v (N ps)" "small v (- N ps)" for ps
    using small_class_net [OF rs(1), of ps] by (simp_all add: N_def v_def)
  have lim: "v + v < 10 ^ 24" "v + v + v < 10 ^ 24" using rs(2) by (simp_all add: v_def)
  have g: "dsub (- N [''4'']) (N [''5'']) = - N [''4''] - N [''5'']" by (rule dsub_small [OF sm(2) sm(1) lim(1)])
  have n: "dsub (- N [''4''] - N [''5'']) (N [''6'']) = - N [''4''] - N [''5''] - N [''6'']"
    by (rule dsub_small [OF small_minus [OF sm(2) sm(1)] sm(1) lim(2)])
  have G: "filter (\<lambda>g. gl_tenant g = t \<and> d1 \<le> gl_date g \<and> gl_date g \<le> d2) (gl_entries s) = ?gs"
    by (simp add: day_rows_def)
  show ?thesis unfolding get_profit_and_loss_def Let_def G R C X g n by simp
qed

lemma class_net_days:
  assumes "d1 \<le> d2"
  shows "class_net ps (day_rows t (\<lambda>x. x \<le> d2) s) =
    class_net ps (day_rows t (\<lambda>x. x \<le> d1 - 1) s) + class_net ps (day_rows t (\<lambda>x. d1 \<le> x \<and> x \<le> d2) s)"
proof -
  have "class_net ps (filter (\<lambda>g. gl_tenant g = t \<and> gl_date g \<le> d2) gs) =
    class_net ps (filter (\<lambda>g. gl_tenant g = t \<and> gl_date g \<le> d1 - 1) gs) +
    class_net ps (filter (\<lambda>g. gl_tenant g = t \<and> d1 \<le> gl_date g \<and> gl_date g \<le> d2) gs)" for gs
    using assms by (induction gs) (auto simp: class_net_Cons class_net_def)
  then show ?thesis by (simp add: day_rows_def)
qed

subsection \<open>Ageing\<close>

definition open_amounts :: "(gl_entry \<Rightarrow> dec) \<Rightarrow> (gl_entry \<Rightarrow> bool) \<Rightarrow> gl_entry list \<Rightarrow> dec list" where
  "open_amounts net P gs = map net (filter (\<lambda>g. 0 < net g \<and> P g) gs)"

lemma ageing_folds:
  "ag_total (foldl (age_entry d net) r gs) = foldl dadd (ag_total r) (open_amounts net (\<lambda>g. True) gs)"
  "ag_30 (foldl (age_entry d net) r gs) = foldl dadd (ag_30 r) (open_amounts net (\<lambda>g. d - gl_date g \<le> 30) gs)"
  "ag_60 (foldl (age_entry d net) r gs) =
     foldl dadd (ag_60 r) (open_amounts net (\<lambda>g. 30 < d - gl_date g \<and> d - gl_date g \<le> 60) gs)"
  "ag_90 (foldl (age_entry d net) r gs) =
     foldl dadd (ag_90 r) (open_amounts net (\<lambda>g. 60 < d - gl_date g \<and> d - gl_date g \<le> 90) gs)"
  "ag_120 (foldl (age_entry d net) r gs) =
     foldl dadd (ag_120 r) (open_amounts net (\<lambda>g. 90 < d - gl_date g \<and> d - gl_date g \<le> 120) gs)"
  "ag_older (foldl (age_entry d net) r gs) = foldl dadd (ag_older r) (open_amounts net (\<lambda>g. 120 < d - gl_date g) gs)"
  by (induction gs arbitrary: r) (auto simp: age_entry_def open_amounts_def Let_def)

lemma open_amounts_exact:
  assumes "rows_small gs" "weight gs < 10 ^ 23"
    and net: "\<And>g. small (10 ^ 14) (gl_debit g) \<Longrightarrow> small (10 ^ 14) (gl_credit g) \<Longrightarrow> small (2 * 10 ^ 14) (net g)"
  shows "foldl dadd 0 (open_amounts net P gs) = sum_list (open_amounts net P gs)"
proof -
  let ?gs = "filter (\<lambda>g. 0 < net g \<and> P g) gs"
  have "weight ?gs \<le> weight gs" by (rule weight_filter_le)
  then have "(\<Sum>g\<leftarrow>?gs. 2 * 10 ^ 14) < (10 ^ 24 :: rat)"
    using assms(2) unfolding weight_twice by simp
  then show ?thesis
    using sum_small [of ?gs "\<lambda>g. 2 * 10 ^ 14" net] assms(1) net by (simp add: open_amounts_def list_all_iff)
qed

lemma buckets_cover:
  "sum_list (open_amounts net (\<lambda>g. True) gs) =
     sum_list (open_amounts net (\<lambda>g. d - gl_date g \<le> 30) gs) +
     sum_list (open_amounts net (\<lambda>g. 30 < d - gl_date g \<and> d - gl_date g \<le> 60) gs) +
     sum_list (open_amounts net (\<lambda>g. 60 < d - gl_date g \<and> d - gl_date g \<le> 90) gs) +
     sum_list (open_amounts net (\<lambda>g. 90 < d - gl_date g \<and> d - gl_date g \<le> 120) gs) +
     sum_list (open_amounts net (\<lambda>g. 120 < d - gl_date g) gs)"
  by (induction gs) (auto simp: open_amounts_def)

lemma ageing_adds_up:
  fixes net d
  assumes "rows_small gs" "weight gs < 10 ^ 23"
    and "\<And>g. small (10 ^ 14) (gl_debit g) \<Longrightarrow> small (10 ^ 14) (gl_credit g) \<Longrightarrow> small (2 * 10 ^ 14) (net g)"
  defines "r \<equiv> foldl (age_entry d net) no_ageing gs"
  shows "ag_total r = ag_30 r + ag_60 r + ag_90 r + ag_120 r + ag_older r"
    "ag_total r = (\<Sum>g\<leftarrow>filter (\<lambda>g. 0 < net g) gs. net g)"
  unfolding r_def ageing_folds
  using open_amounts_exact [OF assms(1-3)] buckets_cover [of net gs d]
  by (simp_all add: no_ageing_def) (simp add: open_amounts_def)

text \<open>Rows that are not open amounts leave the report as it is.\<close>

lemma age_skips: "list_all (\<lambda>g. net g \<le> 0) gs \<Longrightarrow> foldl (age_entry d net) r gs = r"
  by (induction gs arbitrary: r) (simp_all add: age_entry_def)

subsection \<open>The ledger of one account\<close>

lemma running_last:
  "gs \<noteq> [] \<Longrightarrow> snd (last (running b gs)) = foldl (\<lambda>b g. dadd b (dsub (gl_debit g) (gl_credit g))) b gs"
  by (induction gs arbitrary: b rule: list_nonempty_induct) (auto simp: Let_def neq_Nil_conv)

lemma running_Nil [simp]: "running b gs = [] \<longleftrightarrow> gs = []"
  by (cases gs) (simp_all add: Let_def)

lemma row_net_small: "small (10 ^ 14) (gl_debit g) \<Longrightarrow> small (10 ^ 14) (gl_credit g) \<Longrightarrow>
    small (2 * 10 ^ 14) (gl_debit g - gl_credit g)"
  using small_minus [of "10 ^ 14" "gl_debit g" "10 ^ 14" "gl_credit g"] by simp

lemma foldl_running:
  assumes "rows_small gs" "small v b" "v + 2 * weight gs < 10 ^ 24"
  shows "foldl (\<lambda>b g. dadd b (dsub (gl_debit g) (gl_credit g))) b gs = b + (debits gs - credits gs)"
proof -
  have e: "map (\<lambda>g. dsub (gl_debit g) (gl_credit g)) gs = map (\<lambda>g. gl_debit g - gl_credit g) gs"
    using assms(1) by (auto simp: list_all_iff intro!: dsub_small [of "10 ^ 14" _ "10 ^ 14"])
  have "foldl (\<lambda>b g. dadd b (dsub (gl_debit g) (gl_credit g))) b gs =
      foldl dadd b (map (\<lambda>g. dsub (gl_debit g) (gl_credit g)) gs)"
    by (simp add: foldl_map)
  also have "\<dots> = b + (\<Sum>g\<leftarrow>gs. gl_debit g - gl_credit g)"
    unfolding e
  proof (rule foldl_dadd_small [OF assms(2)])
    show "small (2 * 10 ^ 14) (gl_debit g - gl_credit g)" if "g \<in> set gs" for g
      using assms(1) that row_net_small by (auto simp: list_all_iff)
    show "v + (\<Sum>g\<leftarrow>gs. 2 * 10 ^ 14) < 10 ^ 24"
      using assms(3) unfolding weight_twice .
  qed
  finally show ?thesis by (simp add: debits_def credits_def sum_list_subtractf)
qed

lemma drilldown_exact:
  assumes "list_all ledger_row (gl_entries s)" "length (gl_entries s) < 10 ^ 9"
  shows "dd_opening (get_general_ledger_drilldown t a d1 d2 s) = net_of (opening_rows t d1 None s) a \<and>
    dd_closing (get_general_ledger_drilldown t a d1 d2 s) =
      net_of (opening_rows t d1 None s) a + net_of (period_rows t d1 d2 None s) a"
proof -
  let ?own = "filter (\<lambda>g. gl_tenant g = t \<and> gl_account g = a) (gl_entries s)"
  let ?A = "of_account a (opening_rows t d1 None s)" and ?B = "of_account a (period_rows t d1 d2 None s)"
  have A: "filter (\<lambda>g. gl_date g < d1) ?own = ?A"
    by (auto simp: of_account_def opening_rows_def in_center_def intro!: filter_cong)
  have B: "filter (\<lambda>g. d1 \<le> gl_date g \<and> gl_date g \<le> d2) ?own = ?B"
    by (auto simp: of_account_def period_rows_def in_center_def intro!: filter_cong)
  have sm: "rows_small ?A" "rows_small ?B"
    unfolding A [symmetric] B [symmetric] filter_filter by (rule ledger_rows_small [OF assms(1)])+
  have le: "weight ?A \<le> weight (gl_entries s)" "weight ?B \<le> weight (gl_entries s)"
    unfolding A [symmetric] B [symmetric] filter_filter by (rule weight_filter_le)+
  have "weight (gl_entries s) < 10 ^ 23"
    using assms(2) of_nat_less_iff [of "length (gl_entries s)" "10 ^ 9", where 'a = rat] by (simp add: weight_length)
  with le have w: "2 * weight ?A + 2 * weight ?B < 10 ^ 24" by simp
  let ?S = "sort_key gl_date ?B"
  have perm: "(\<Sum>g\<leftarrow>?S. f g) = (\<Sum>g\<leftarrow>?B. f g)" for f :: "gl_entry \<Rightarrow> dec"
    by (metis mset_map mset_sort sum_mset_sum_list)
  have "debits ?S = debits ?B" "credits ?S = credits ?B" "weight ?S = weight ?B" "rows_small ?S"
    using sm(2) by (simp_all only: debits_def credits_def weight_def perm) (simp add: list_all_iff)
  moreover have "small (2 * weight ?A) (debits ?A - credits ?A)"
    using small_minus debits_small [OF sm(1)] by fastforce
  moreover have o': "(\<Sum>g\<leftarrow>?A. gl_debit g - gl_credit g) = debits ?A - credits ?A"
    by (simp add: debits_def credits_def sum_list_subtractf)
  ultimately have f: "foldl (\<lambda>b g. dadd b (dsub (gl_debit g) (gl_credit g))) (debits ?A - credits ?A) ?S =
      debits ?A - credits ?A + (debits ?B - credits ?B)"
    using foldl_running [of ?S "2 * weight ?A" "debits ?A - credits ?A"] w by simp
  have "dd_closing (get_general_ledger_drilldown t a d1 d2 s) =
      (if ?S = [] then debits ?A - credits ?A else snd (last (running (debits ?A - credits ?A) ?S)))"
    by (simp add: get_general_ledger_drilldown_def Let_def A B o' del: filter_filter)
  also have "\<dots> = debits ?A - credits ?A + (debits ?B - credits ?B)"
    using f running_last [of ?S "debits ?A - credits ?A"] by (cases "?S = []") auto
  finally show ?thesis
    by (simp add: get_general_ledger_drilldown_def Let_def A o' net_of_def del: filter_filter)
qed

subsection \<open>Properties\<close>

lemma demo_two_rows:
  "\<exists>s g h. ledger_run (sha256 demo_env) {} {} s \<and> ledger_history (sha256 demo_env) s \<and> gl_entries s = [g, h] \<and>
     gl_tenant g = 0 \<and> gl_tenant h = 0 \<and> gl_date g = 739800 \<and> gl_date h = 739800 \<and>
     gl_account g = ''1200-AR'' \<and> gl_account h = ''4000-REV'' \<and>
     gl_debit g = 100 \<and> gl_credit g = 0 \<and> gl_debit h = 0 \<and> gl_credit h = 100"
proof -
  have "pp_date (demo_proposal 100 False) = 739800"
    "map ll_account (pp_entries (demo_proposal 100 False)) = [''1200-AR'', ''4000-REV'']"
    "map line_debit (pp_entries (demo_proposal 100 False)) = [100, 0]"
    "map line_credit (pp_entries (demo_proposal 100 False)) = [0, 100]"
    by code_simp+
  then obtain l m where p: "pp_date (demo_proposal 100 False) = 739800" "pp_entries (demo_proposal 100 False) = [l, m]"
    "ll_account l = ''1200-AR''" "ll_account m = ''4000-REV''" "line_debit l = 100" "line_debit m = 0"
    "line_credit l = 0" "line_credit m = 100" by (auto simp: map_eq_Cons_conv)
  obtain s where s: "ledger_run (sha256 demo_env) {} {} s"
    "list_all2 (\<lambda>l g. gl_tenant g = 0 \<and> gl_date g = pp_date (demo_proposal 100 False) \<and> gl_account g = ll_account l \<and>
       gl_debit g = line_debit l \<and> gl_credit g = line_credit l) (pp_entries (demo_proposal 100 False)) (gl_entries s)"
    using demo_books by blast
  then obtain g h where "gl_entries s = [g, h]" unfolding p(2) by (auto simp: list_all2_Cons1)
  moreover have "ledger_history (sha256 demo_env) s" using s(1) by (auto simp: ledger_history_def)
  ultimately show ?thesis by (intro exI [of _ s] exI [of _ g] exI [of _ h]) (use s p in simp)
qed



text \<open>C13: the balance sheet tells whether the books balance. For every ledger the table can hold (up to a
  thousand million rows) in which the tenant's accounts up to the day belong to the six classes of the chart
  (codes that begin with 1 to 6), assets less liabilities, equity and the earnings computed from revenue and
  expense are the gap between the debits and the credits up to the day; the difference of the report is its
  size, and the flag says that it is below a thousandth. The gap is zero in every database the program
  reaches in which the tenant disposed of no asset that was overdrawn or disposed of before, nor has unbalanced
  rows from outside the model.\<close>

theorem balance_sheet_balances:
  fixes t d s
  assumes "list_all ledger_row (gl_entries s)" and "length (gl_entries s) < 10 ^ 9"
    and "chart_of_six (filter (\<lambda>g. gl_tenant g = t \<and> gl_date g \<le> d) (gl_entries s))"
  defines "rows \<equiv> filter (\<lambda>g. gl_tenant g = t \<and> gl_date g \<le> d) (gl_entries s)" and "b \<equiv> get_balance_sheet t d s"
  shows "bs_total_assets b - bs_total b = debits rows - credits rows \<and>
    bs_difference b = \<bar>debits rows - credits rows\<bar> \<and> (bs_balanced b \<longleftrightarrow> \<bar>debits rows - credits rows\<bar> < 1 / 1000) \<and>
    (regular_books t s \<longrightarrow> bs_balanced b \<and> bs_difference b = 0 \<and> bs_total_assets b = bs_total b)"
proof -
  have "chart_of_six (day_rows t (\<lambda>x. x \<le> d) s)" using assms(3) by (simp add: day_rows_def)
  note x = sheet_totals [OF assms(1,2) this, folded b_def, unfolded day_rows_def, folded rows_def]
  have "debits rows = credits rows" if "regular_books t s"
    unfolding rows_def by (rule regular_days [OF that, of "\<lambda>x. x \<le> d"])
  with x show ?thesis by auto
qed

theorem balance_sheet_balances_witness:
  "\<exists>s. bs_total_assets (get_balance_sheet 0 739800 s) = 100 \<and> bs_total (get_balance_sheet 0 739800 s) = 100"
proof -
  obtain s g h where s: "ledger_run (sha256 demo_env) {} {} s" "gl_entries s = [g, h]"
    and r: "gl_tenant g = 0" "gl_tenant h = 0" "gl_date g = 739800" "gl_date h = 739800"
      "gl_account g = ''1200-AR''" "gl_account h = ''4000-REV''" "gl_debit g = 100" "gl_credit g = 0"
      "gl_debit h = 0" "gl_credit h = 100" using demo_two_rows by blast
  have p: "list_all ledger_row (gl_entries s)" "length (gl_entries s) < 10 ^ 9"
    "chart_of_six (filter (\<lambda>g. gl_tenant g = 0 \<and> gl_date g \<le> 739800) (gl_entries s))" "regular_books 0 s"
    using s r run_rows [OF s(1)] by (auto simp: chart_of_six_def in_class_cases regular_books_def)
  from balance_sheet_balances [OF p(1-3)] p(4)
  have e: "bs_total_assets (get_balance_sheet 0 739800 s) = bs_total (get_balance_sheet 0 739800 s)" by blast
  have "bs_total_assets (get_balance_sheet 0 739800 s) = class_net [''1''] (day_rows 0 (\<lambda>x. x \<le> 739800) s)"
    by (rule balance_sheet_exact(1) [OF p(1,2)])
  also have "\<dots> = 100" by (simp add: day_rows_def s(2) r class_net_def in_class_cases)
  finally show ?thesis using e by auto
qed

text \<open>C14: profit and loss articulates with the balance sheet. The profit of a range of days is the
  change of the retained earnings between the sheets of its last day and of the day before its first,
  although one report takes classes 5 and 6 apart and the other adds them in the order of the accounts.\<close>

theorem profit_is_the_change_of_earnings:
  assumes "ledger_history h s" and "d1 \<le> d2" and "length (gl_entries s) < 10 ^ 9"
  shows "pl_net (get_profit_and_loss t d1 d2 s) =
    bs_retained (get_balance_sheet t d2 s) - bs_retained (get_balance_sheet t (d1 - 1) s)"
proof -
  note p = history_rows [OF assms(1)]
  show ?thesis
    unfolding profit_exact [OF p assms(3)] balance_sheet_exact(4) [OF p assms(3)] class_net_56
    using class_net_days [OF assms(2)] by simp
qed

theorem profit_is_the_change_of_earnings_witness:
  "\<exists>s. pl_net (get_profit_and_loss 0 739800 739800 s) = 100 \<and>
     bs_retained (get_balance_sheet 0 739800 s) - bs_retained (get_balance_sheet 0 739799 s) = 100"
proof -
  obtain s g h where s: "ledger_history (sha256 demo_env) s" "gl_entries s = [g, h]"
    and r: "gl_tenant g = 0" "gl_tenant h = 0" "gl_date g = 739800" "gl_date h = 739800"
      "gl_account g = ''1200-AR''" "gl_account h = ''4000-REV''" "gl_debit g = 100" "gl_credit g = 0"
      "gl_debit h = 0" "gl_credit h = 100" using demo_two_rows by blast
  have l: "length (gl_entries s) < 10 ^ 9" by (simp add: s(2))
  have "pl_net (get_profit_and_loss 0 739800 739800 s) = 100"
    unfolding profit_exact [OF history_rows [OF s(1)] l]
    by (simp add: day_rows_def s(2) r class_net_def in_class_cases)
  with profit_is_the_change_of_earnings [OF s(1) order_refl l, of 0 739800] show ?thesis by auto
qed

text \<open>Two algorithms, one balance. The running balance at the end of the drilldown of an account is
  the net closing amount of its row in the trial balance of the same days.\<close>

theorem drilldown_agrees_with_trial_balance:
  assumes "ledger_history h s" and "d1 \<le> d2" and "length (gl_entries s) < 10 ^ 9"
    and "get_trial_balance t d1 d2 None s = Inr b" and "r \<in> set (tb_rows b)"
  shows "tr_net r = dd_closing (get_general_ledger_drilldown t (tr_account r) d1 d2 s)"
proof -
  note p = history_rows [OF assms(1)]
  have "r \<in> trial_row_of (account_totals (opening_rows t d1 None s)) (account_totals (period_rows t d1 d2 None s)) `
      UNIV"
    using assms(2,4,5)
    by (auto simp: get_trial_balance_def opening_rows_def period_rows_def Let_def)
  then obtain a where r: "r = trial_row_of (account_totals (opening_rows t d1 None s))
      (account_totals (period_rows t d1 d2 None s)) a" by blast
  have sm: "rows_small (opening_rows t d1 None s)" "rows_small (period_rows t d1 d2 None s)"
    unfolding opening_rows_def period_rows_def by (rule ledger_rows_small [OF p])+
  have "weight (of_account a (opening_rows t d1 None s)) \<le> weight (gl_entries s)"
    "weight (of_account a (period_rows t d1 d2 None s)) \<le> weight (gl_entries s)"
    unfolding of_account_def opening_rows_def period_rows_def filter_filter by (rule weight_filter_le)+
  moreover have "weight (gl_entries s) < 10 ^ 23"
    using assms(3) of_nat_less_iff [of "length (gl_entries s)" "10 ^ 9", where 'a = rat] by (simp add: weight_length)
  ultimately have "account_weight (opening_rows t d1 None s) (period_rows t d1 d2 None s) a < 10 ^ 24"
    by (simp add: account_weight_def)
  from trial_row_exact(1) [OF sm this] drilldown_exact [OF p assms(3), of t a d1 d2] r show ?thesis by simp
qed

theorem drilldown_agrees_with_trial_balance_witness:
  "\<exists>s b r. get_trial_balance 0 739800 739800 None s = Inr b \<and> r \<in> set (tb_rows b) \<and>
     tr_net r = dd_closing (get_general_ledger_drilldown 0 (tr_account r) 739800 739800 s)"
proof -
  obtain s g h where s: "ledger_history (sha256 demo_env) s" "gl_entries s = [g, h]"
    and r: "gl_tenant g = 0" "gl_date g = 739800" using demo_two_rows by blast
  have l: "length (gl_entries s) < 10 ^ 9" by (simp add: s(2))
  obtain as b where b: "get_trial_balance 0 739800 739800 None s = Inr b"
    "gl_account ` set (period_rows 0 739800 739800 None s) \<subseteq> set as" "map tr_account (tb_rows b) = as"
    using trial_balance_exact [OF order_refl history_rows [OF s(1)] l, of 0 739800 None] by blast
  have "g \<in> set (period_rows 0 739800 739800 None s)" by (simp add: period_rows_def s(2) r in_center_def)
  with b(2,3) have "tb_rows b \<noteq> []" by auto
  then have "hd (tb_rows b) \<in> set (tb_rows b)" by simp
  with drilldown_agrees_with_trial_balance [OF s(1) order_refl l b(1)] b(1) show ?thesis by blast
qed

text \<open>The buckets of the ageing add up to its total, which is the sum of the open amounts.\<close>

theorem ageing_buckets_add_up:
  fixes e t d s
  assumes "ledger_history h s" and "length (gl_entries s) < 10 ^ 9"
  defines "r \<equiv> get_ar_ageing e t (Some d) s"
  shows "ag_total r = ag_30 r + ag_60 r + ag_90 r + ag_120 r + ag_older r"
proof -
  let ?gs = "filter (\<lambda>g. gl_tenant g = t \<and> gl_date g \<le> d \<and> is_receivable_code (gl_account g)) (gl_entries s)"
  have "weight ?gs \<le> weight (gl_entries s)" by (rule weight_filter_le)
  also have "\<dots> < 10 ^ 23"
    using assms(2) of_nat_less_iff [of "length (gl_entries s)" "10 ^ 9", where 'a = rat] by (simp add: weight_length)
  finally have "weight ?gs < 10 ^ 23" .
  from ageing_adds_up(1) [OF ledger_rows_small [OF history_rows [OF assms(1)]] this row_net_small]
  show ?thesis by (simp add: r_def get_ar_ageing_def or_else_def)
qed

theorem ageing_buckets_add_up_witness:
  "\<exists>s r. gl_entries s \<noteq> [] \<and> r = get_ar_ageing demo_env 0 (Some 739800) s \<and>
     ag_total r = ag_30 r + ag_60 r + ag_90 r + ag_120 r + ag_older r"
proof -
  obtain s g h where s: "ledger_history (sha256 demo_env) s" "gl_entries s = [g, h]" using demo_two_rows by blast
  then have "length (gl_entries s) < 10 ^ 9" by simp
  from ageing_buckets_add_up [OF s(1) this] s(2) show ?thesis by (intro exI [of _ s]) auto
qed

text \<open>But the total is not what the customers owe: a receipt credits the receivable account, and rows
  whose credit is not below their debit leave the report as it is, so that an invoice stays in its bucket
  after it was paid in full.\<close>

theorem receipts_do_not_reduce_ageing:
  assumes "gl_entries s' = gl_entries s @ gs" and "list_all (\<lambda>g. gl_debit g \<le> gl_credit g) gs"
  shows "get_ar_ageing e t d s' = get_ar_ageing e t d s"
proof -
  have "list_all (\<lambda>g. gl_debit g - gl_credit g \<le> 0) (filter P gs)" for P
    using assms(2) by (auto simp: list_all_iff)
  then show ?thesis by (simp add: get_ar_ageing_def assms(1) Let_def age_skips)
qed

end
