(* ===== verification/Tolerance.thy ===== *)
theory Tolerance
  imports Outbox
begin

section \<open>Three-way tolerances\<close>

text \<open>
  \<open>src/src/erp/workflows/accounts_payable\<close>: \<open>tolerance.py\<close>, which compares the lines of a
  supplier invoice with those of the purchase order and the goods receipt, and
  \<open>dispute_generator.py\<close>. The lemmas show that on amounts of the column types the comparison in
  28-digit arithmetic decides the exact one.
\<close>

subsection \<open>The evaluator\<close>

definition PRICE_TOLERANCE_LIMIT :: dec where
  "PRICE_TOLERANCE_LIMIT = 1 / 100"

record match_line =
  ml_code :: string
  ml_qty :: dec
  ml_price :: dec

record line_evaluation =
  le_code :: string
  le_sku :: bool
  le_inv_qty :: dec
  le_grn_qty :: dec
  le_qty_ok :: bool
  le_inv_price :: dec
  le_po_price :: dec
  le_variance :: dec
  le_price_ok :: bool
  le_matched :: bool
  le_reason :: "string option"

record tolerance_summary =
  ts_matched :: bool
  ts_overall :: dec
  ts_qty_var :: dec
  ts_price_var :: dec
  ts_discrepancies :: "string list"
  ts_lines :: "line_evaluation list"

text \<open>A dictionary keyed by item code: a later line replaces an earlier one.\<close>

definition item_map :: "match_line list \<Rightarrow> (string \<times> match_line) list" where
  "item_map ls = foldl (\<lambda>d l. AList.update (ml_code l) l d) [] ls"

record tolerance_state =
  tl_evals :: "line_evaluation list"
  tl_discs :: "string list"
  tl_price :: dec
  tl_qty :: dec

definition price_variance :: "dec \<Rightarrow> dec \<Rightarrow> dec result" where
  "price_variance inv_price po_price =
     (if po_price > 0 then ddiv (dabs (dsub inv_price po_price)) po_price else Inr 0)"

definition quantity_variance :: "dec \<Rightarrow> dec \<Rightarrow> dec \<Rightarrow> dec result" where
  "quantity_variance inv_qty grn_qty po_qty =
     (if po_qty > 0 then ddiv (max (dsub inv_qty grn_qty) 0) po_qty else Inr 1)"

definition last_two :: "'a list \<Rightarrow> 'a list" where
  "last_two xs = drop (length xs - 2) xs"

definition evaluate_unknown_line ::
    "match_line \<Rightarrow> tolerance_state \<Rightarrow> tolerance_state" where
  "evaluate_unknown_line l st =
     st\<lparr>tl_discs := tl_discs st @ [''SKU mismatch: Item '' @ quoted (ml_code l)
          @ '' on invoice does not exist in Purchase Order.''],
        tl_qty := max (tl_qty st) 1, tl_price := max (tl_price st) 1,
        tl_evals := tl_evals st @
          [\<lparr>le_code = ml_code l, le_sku = False, le_inv_qty = ml_qty l, le_grn_qty = 0,
            le_qty_ok = False, le_inv_price = ml_price l, le_po_price = 0, le_variance = 100,
            le_price_ok = False, le_matched = False,
            le_reason = Some (''SKU '' @ quoted (ml_code l) @ '' not on PO'')\<rparr>]\<rparr>"

definition evaluate_known_line ::
    "env \<Rightarrow> match_line \<Rightarrow> match_line \<Rightarrow> match_line option \<Rightarrow> tolerance_state \<Rightarrow> tolerance_state result" where
  "evaluate_known_line e l po grn st =
     (let inv_qty = ml_qty l; inv_price = ml_price l; po_price = ml_price po;
          grn_qty = (case grn of None \<Rightarrow> 0 | Some g \<Rightarrow> ml_qty g);
          qty_ok = (inv_qty \<le> grn_qty) in
      ebind (if qty_ok then Inr st
             else ebind (quantity_variance inv_qty grn_qty (ml_qty po)) (\<lambda>v.
               Inr (st\<lparr>tl_qty := max (tl_qty st) v,
                 tl_discs := tl_discs st @ [''Quantity violation on '' @ quoted (ml_code l) @ '': Billed ''
                   @ dec_str e inv_qty @ '' exceeds warehouse received '' @ dec_str e grn_qty @ ''.'']\<rparr>))) (\<lambda>st1.
      ebind (price_variance inv_price po_price) (\<lambda>variance.
        let price_ok = (variance \<le> PRICE_TOLERANCE_LIMIT);
            st2 = st1\<lparr>tl_price := if variance > tl_price st1 then variance else tl_price st1\<rparr>;
            st3 = (if price_ok then st2
                   else st2\<lparr>tl_discs := tl_discs st2 @ [''Price variance on '' @ quoted (ml_code l) @ '': ''
                     @ format_2f (dmul variance 100) @ ''% exceeds allowable 1.00% tolerance (Invoice: $''
                     @ dec_str e inv_price @ '', PO: $'' @ dec_str e po_price @ '').'']\<rparr>);
            line_ok = (qty_ok \<and> price_ok)
        in ebind (quantize round_even 4 (dmul variance 100)) (\<lambda>pct.
             Inr (st3\<lparr>tl_evals := tl_evals st3 @
               [\<lparr>le_code = ml_code l, le_sku = True, le_inv_qty = inv_qty, le_grn_qty = grn_qty,
                 le_qty_ok = qty_ok, le_inv_price = inv_price, le_po_price = po_price,
                 le_variance = pct, le_price_ok = price_ok, le_matched = line_ok,
                 le_reason = (if line_ok then None else Some (join ''; '' (last_two (tl_discs st3))))\<rparr>]\<rparr>)))))"

definition evaluate_line ::
    "env \<Rightarrow> (string \<times> match_line) list \<Rightarrow> (string \<times> match_line) list \<Rightarrow> tolerance_state \<Rightarrow> match_line
     \<Rightarrow> tolerance_state result" where
  "evaluate_line e po_map grn_map st l =
     (case map_of po_map (ml_code l) of
        None \<Rightarrow> Inr (evaluate_unknown_line l st)
      | Some po \<Rightarrow> evaluate_known_line e l po (map_of grn_map (ml_code l)) st)"

definition evaluate_three_way_tolerances ::
    "env \<Rightarrow> match_line list \<Rightarrow> match_line list \<Rightarrow> match_line list \<Rightarrow> tolerance_summary result" where
  "evaluate_three_way_tolerances e invoice po grn =
     ebind (efold (evaluate_line e (item_map po) (item_map grn))
              \<lparr>tl_evals = [], tl_discs = [], tl_price = 0, tl_qty = 0\<rparr> invoice) (\<lambda>st.
     ebind (quantize round_even 4 (dmul (tl_price st) 100)) (\<lambda>pv.
     ebind (quantize round_even 4 (dmul (tl_qty st) 100)) (\<lambda>qv.
       Inr \<lparr>ts_matched = (tl_discs st = [] \<and> tl_evals st \<noteq> []), ts_overall = pv, ts_qty_var = qv,
            ts_price_var = pv, ts_discrepancies = tl_discs st, ts_lines = tl_evals st\<rparr>)))"

subsection \<open>Dispute notices\<close>

record dispute_notice =
  dn_id :: string
  dn_invoice :: string
  dn_supplier :: string
  dn_created :: timestamp
  dn_variance :: dec
  dn_details :: "string list"
  dn_instructions :: string
  dn_formatted :: string
  dn_reason :: string
  dn_action :: string

definition newline :: string where
  "newline = [char_of (10 :: int)]"

definition generate_notice ::
    "env \<Rightarrow> string \<Rightarrow> string \<Rightarrow> string \<Rightarrow> tolerance_summary \<Rightarrow> db \<Rightarrow> dispute_notice \<times> db" where
  "generate_notice e invoice_number code name ts s =
     (let (u, s1) = uuid4 s;
          did = ''disp_'' @ take 8 (str_uuid u);
          rule = replicate 65 (CHR ''=''); thin = replicate 65 (CHR ''-'');
          action = ''Submit credit memo or corrected invoice via portal within 5 business days.'';
          formatted = join newline
            ([rule, ''          ACCOUNTS PAYABLE AUTOMATED DISCREPANCY NOTICE          '', rule,
              ''Dispute ID: '' @ did, ''Notice Date: '' @ time_str e (now e),
              ''Supplier: '' @ name @ '' ('' @ code @ '')'', ''Invoice Reference: '' @ invoice_number,
              ''Overall Variance Detected: '' @ dec_str e (ts_overall ts) @ ''%'',
              ''Allowable Price Tolerance Floor: 1.00%'', thin, ''ITEMIZED DISCREPANCIES IDENTIFIED:'',
              join newline (map (\<lambda>d. ''- '' @ d) (ts_discrepancies ts)), thin, ''ACTION REQUIRED:'',
              ''Invoice '' @ quoted invoice_number @ '' has been placed in '' @ quoted ''DISPUTED'' @ '' status and'',
              ''will not be scheduled for ledger settlement until resolved.'',
              ''Please submit a revised credit memo or corrected commercial invoice'',
              ''directly via the Supplier Portal within 5 business days.'', rule])
      in (\<lparr>dn_id = did, dn_invoice = invoice_number, dn_supplier = code, dn_created = now e,
           dn_variance = ts_overall ts, dn_details = ts_discrepancies ts, dn_instructions = action,
           dn_formatted = formatted,
           dn_reason = (if ts_discrepancies ts \<noteq> [] then join ''; '' (ts_discrepancies ts)
                        else ''Discrepancy detected during 3-way matching''),
           dn_action = action\<rparr>, s1))"

subsection \<open>The comparison is exact on column amounts\<close>

lemma ctx_column_diff: "column_amount a \<Longrightarrow> column_amount b \<Longrightarrow> ctx \<bar>a - b\<bar> = \<bar>a - b\<bar>"
  by (rule ctx_exact [of 4]) (auto simp: column_amount_def abs_if split: if_splits)

lemma column_scaled:
  assumes "column_amount x"
  obtains m where "x = of_int m / 10 ^ 4" "\<bar>m\<bar> < 10 ^ 18"
proof -
  obtain m where m: "x = of_int m / 10 ^ 4"
    using assms placesE [of 4 x] by (auto simp: column_amount_def)
  have "rat_of_int \<bar>m\<bar> < of_int (10 ^ 18)" using assms by (simp add: column_amount_def m)
  then have "\<bar>m\<bar> < 10 ^ 18" by (simp only: of_int_less_iff)
  with m that show thesis by blast
qed

lemma ctx_power10 [simp]: "k < 28 \<Longrightarrow> ctx (10 ^ k) = 10 ^ k"
proof (rule ctx_exact [of 0])
  show "places 0 ((10 :: rat) ^ k)" by (rule placesI [of _ _ "10 ^ k"]) simp
  assume "k < 28"
  then have "(10 :: rat) ^ k < 10 ^ 28" by (intro power_strict_increasing) auto
  then show "\<bar>(10 :: rat) ^ k\<bar> * 10 ^ 0 < 10 ^ 28" by simp
qed

lemma ctx_large [simp]:
  "ctx 10000000000000000000 = 10000000000000000000"
  "ctx 1000000000000000000000 = 1000000000000000000000"
  using ctx_power10 [of 19] ctx_power10 [of 21] by simp_all

lemma ctx_le_hundredth:
  assumes "0 < b" "0 \<le> a" "b < 10 ^ 18"
  shows "ctx (rat_of_int a / of_int b) \<le> 1 / 100 \<longleftrightarrow> rat_of_int a / of_int b \<le> 1 / 100"
proof
  assume "rat_of_int a / of_int b \<le> 1 / 100"
  moreover have "ctx (1 / 100) = 1 / 100"
    by (rule ctx_exact [of 2]) (auto intro: placesI [of _ _ 1])
  ultimately show "ctx (rat_of_int a / of_int b) \<le> 1 / 100" by (rule ctx.le_exact [rotated])
next
  assume c: "ctx (rat_of_int a / of_int b) \<le> 1 / 100"
  show "rat_of_int a / of_int b \<le> 1 / 100"
  proof (rule ccontr)
    let ?c = "1 / 100 + 1 / 10 ^ 20 :: rat"
    assume "\<not> rat_of_int a / of_int b \<le> 1 / 100"
    then have "rat_of_int b < of_int (100 * a)" using assms by (simp add: field_simps)
    then have "b + 1 \<le> 100 * a" by (simp only: of_int_less_iff zless_imp_add1_zle)
    then have "rat_of_int (b + 1) \<le> of_int (100 * a)" by (simp only: of_int_le_iff)
    then have "rat_of_int (b + 1) / (100 * of_int b) \<le> of_int (100 * a) / (100 * of_int b)"
      using assms(1) by (intro divide_right_mono) auto
    moreover have "rat_of_int (b + 1) / (100 * of_int b) = 1 / 100 + 1 / (100 * of_int b)"
      using assms(1) by (simp add: field_simps)
    ultimately have "1 / 100 + 1 / (100 * of_int b) \<le> rat_of_int a / of_int b" by simp
    moreover have "rat_of_int b < of_int (10 ^ 18)" using assms(3) by (simp only: of_int_less_iff)
    then have "1 / 10 ^ 20 \<le> 1 / (100 * rat_of_int b)"
      using assms(1) by (intro divide_left_mono) auto
    ultimately have "?c \<le> rat_of_int a / of_int b" by linarith
    moreover have "ctx ?c = ?c"
      by (rule ctx_exact [of 20]) (auto intro: placesI [of _ _ "10 ^ 18 + 1"])
    ultimately have "?c \<le> ctx (rat_of_int a / of_int b)" by (rule ctx.ge_exact [rotated])
    with c show False by simp
  qed
qed

lemma quotient_bound:
  assumes "column_amount a" "column_amount b" "column_amount d" "0 < d" "0 \<le> x" "x \<le> \<bar>a - b\<bar>"
  shows "ctx (x / d) \<le> 10 ^ 19"
proof -
  obtain m where m: "d = of_int m / 10 ^ 4" "\<bar>m\<bar> < 10 ^ 18" by (rule column_scaled [OF assms(3)])
  have "1 \<le> m" using assms(4) m by (simp add: zero_less_divide_iff)
  then have "1 / 10 ^ 4 \<le> d" using m by simp
  moreover have "x < 2 * 10 ^ 14"
    using assms(1,2,6) by (auto simp: column_amount_def abs_if split: if_splits)
  ultimately have "x / d \<le> 2 * 10 ^ 14 / (1 / 10 ^ 4)"
    using assms(4,5) by (intro frac_le) auto
  then have "x / d \<le> 10 ^ 19" by simp
  then show ?thesis by (rule ctx.le_exact [rotated]) simp
qed

lemma price_variance_decides:
  assumes "column_amount p" "column_amount q"
  shows "\<exists>v. price_variance p q = Inr v \<and> 0 \<le> v \<and> v \<le> 10 ^ 19 \<and>
    (v \<le> PRICE_TOLERANCE_LIMIT \<longleftrightarrow> (0 < q \<longrightarrow> \<bar>p - q\<bar> \<le> q / 100))"
proof (cases "0 < q")
  case False
  then show ?thesis by (simp add: price_variance_def PRICE_TOLERANCE_LIMIT_def)
next
  case True
  have v: "price_variance p q = Inr (ctx (\<bar>p - q\<bar> / q))"
    using True assms
    by (simp add: price_variance_def ddiv_def dabs_def dsub_column ctx_column_diff)
  obtain m n where mn: "p = of_int m / 10 ^ 4" "q = of_int n / 10 ^ 4" "\<bar>n\<bar> < 10 ^ 18"
    using column_scaled [OF assms(1)] column_scaled [OF assms(2)] by metis
  have n: "0 < n" using True mn by (simp add: zero_less_divide_iff)
  have quot: "\<bar>p - q\<bar> / q = of_int \<bar>m - n\<bar> / of_int n"
    using n by (simp add: mn flip: diff_divide_distrib of_int_diff of_int_abs)
  have "ctx (\<bar>p - q\<bar> / q) \<le> 1 / 100 \<longleftrightarrow> \<bar>p - q\<bar> / q \<le> 1 / 100"
    unfolding quot using n mn(3) by (intro ctx_le_hundredth) auto
  also have "\<dots> \<longleftrightarrow> \<bar>p - q\<bar> \<le> q / 100" using True by (simp add: field_simps)
  finally have "ctx (\<bar>p - q\<bar> / q) \<le> PRICE_TOLERANCE_LIMIT \<longleftrightarrow> (0 < q \<longrightarrow> \<bar>p - q\<bar> \<le> q / 100)"
    using True by (simp add: PRICE_TOLERANCE_LIMIT_def)
  moreover have "ctx (\<bar>p - q\<bar> / q) \<le> 10 ^ 19"
    using quotient_bound [OF assms assms(2) True] by simp
  moreover have "0 \<le> ctx (\<bar>p - q\<bar> / q)" using True by (intro ctx.rnd_nonneg) simp
  ultimately show ?thesis using v by blast
qed

lemma quantity_variance_bound:
  assumes "column_amount p" "column_amount q" "column_amount d"
  shows "\<exists>v. quantity_variance p q d = Inr v \<and> 0 \<le> v \<and> v \<le> 10 ^ 19"
proof (cases "0 < d")
  case True
  have "ctx (max (p - q) 0 / d) \<le> 10 ^ 19"
    by (rule quotient_bound [OF assms True]) auto
  moreover have "0 \<le> ctx (max (p - q) 0 / d)" using True by (intro ctx.rnd_nonneg) simp
  ultimately show ?thesis
    using True assms by (simp add: quantity_variance_def ddiv_def dsub_column)
qed (simp add: quantity_variance_def)

lemma percent_ok:
  assumes "0 \<le> v" "v \<le> 10 ^ 19"
  shows "\<exists>y. quantize round_even 4 (dmul v 100) = Inr y"
proof -
  have "dmul v 100 \<le> 10 ^ 21"
    unfolding dmul_def using assms(2) by (intro ctx.le_exact) auto
  moreover have "0 \<le> dmul v 100"
    unfolding dmul_def using assms(1) by (intro ctx.rnd_nonneg) simp
  ultimately have "round_even (dmul v 100 * 10 ^ 4) \<le> round_even (of_int (10 ^ 25))"
    "round_even 0 \<le> round_even (dmul v 100 * 10 ^ 4)"
    by (intro round_even_mono; simp)+
  then show ?thesis unfolding round_even_of_int by (auto simp: quantize_def)
qed

subsection \<open>What a full match means\<close>

definition priced_in_columns :: "match_line \<Rightarrow> bool" where
  "priced_in_columns l \<longleftrightarrow> column_amount (ml_qty l) \<and> column_amount (ml_price l)"

text \<open>The line is on the order, billed within the received quantity and within one percent.\<close>

definition conforms ::
    "(string \<times> match_line) list \<Rightarrow> (string \<times> match_line) list \<Rightarrow> match_line \<Rightarrow> bool" where
  "conforms po_map grn_map l \<longleftrightarrow>
     (case map_of po_map (ml_code l) of
        None \<Rightarrow> False
      | Some po \<Rightarrow>
          ml_qty l \<le> (case map_of grn_map (ml_code l) of None \<Rightarrow> 0 | Some g \<Rightarrow> ml_qty g) \<and>
          (0 < ml_price po \<longrightarrow> \<bar>ml_price l - ml_price po\<bar> \<le> ml_price po / 100))"

definition state_bounded :: "tolerance_state \<Rightarrow> bool" where
  "state_bounded st \<longleftrightarrow> 0 \<le> tl_price st \<and> tl_price st \<le> 10 ^ 19 \<and> 0 \<le> tl_qty st \<and> tl_qty st \<le> 10 ^ 19"

lemma item_map_lines:
  "(k, l) \<in> set (item_map ls) \<Longrightarrow> l \<in> set ls"
proof -
  have "(k, l) \<in> set (foldl (\<lambda>d l. AList.update (ml_code l) l d) d ls) \<Longrightarrow>
      l \<in> set ls \<or> (k, l) \<in> set d" for d
  proof (induction ls arbitrary: d)
    case (Cons x xs)
    have "(k, l) \<in> set (AList.update (ml_code x) x d) \<Longrightarrow> l = x \<or> (k, l) \<in> set d" for d
      by (induction d) (auto split: if_splits)
    with Cons show ?case by fastforce
  qed simp
  from this [of "[]"] show "(k, l) \<in> set (item_map ls) \<Longrightarrow> l \<in> set ls" by (simp add: item_map_def)
qed

lemma item_map_of: "map_of (item_map ls) k = Some l \<Longrightarrow> l \<in> set ls"
  using item_map_lines by (auto dest: map_of_SomeD)

lemma evaluate_line_ok:
  assumes "priced_in_columns l" "\<forall>q \<in> set po. priced_in_columns q" "\<forall>q \<in> set grn. priced_in_columns q"
    and "state_bounded st"
  shows "\<exists>st'. evaluate_line e (item_map po) (item_map grn) st l = Inr st' \<and> state_bounded st' \<and>
    tl_evals st' \<noteq> [] \<and>
    (tl_discs st' = [] \<longleftrightarrow> tl_discs st = [] \<and> conforms (item_map po) (item_map grn) l)"
proof (cases "map_of (item_map po) (ml_code l)")
  case None
  then show ?thesis
    using assms(4)
    by (auto simp: evaluate_line_def evaluate_unknown_line_def conforms_def state_bounded_def max_def)
next
  case (Some q)
  have q: "column_amount (ml_qty q)" "column_amount (ml_price q)"
    using item_map_of [OF Some] assms(2) by (auto simp: priced_in_columns_def)
  let ?g = "case map_of (item_map grn) (ml_code l) of None \<Rightarrow> 0 | Some g \<Rightarrow> ml_qty g"
  have g: "column_amount ?g"
    using item_map_of [of grn "ml_code l"] assms(3)
    by (auto simp: priced_in_columns_def split: option.split)
  obtain v where v: "price_variance (ml_price l) (ml_price q) = Inr v" "0 \<le> v" "v \<le> 10 ^ 19"
    "v \<le> PRICE_TOLERANCE_LIMIT \<longleftrightarrow> (0 < ml_price q \<longrightarrow> \<bar>ml_price l - ml_price q\<bar> \<le> ml_price q / 100)"
    using price_variance_decides [of "ml_price l" "ml_price q"] q assms(1)
    by (auto simp: priced_in_columns_def)
  obtain w where w: "quantity_variance (ml_qty l) ?g (ml_qty q) = Inr w" "0 \<le> w" "w \<le> 10 ^ 19"
    using quantity_variance_bound [of "ml_qty l" ?g "ml_qty q"] q g assms(1)
    by (auto simp: priced_in_columns_def)
  obtain y where y: "quantize round_even 4 (dmul v 100) = Inr y" using percent_ok [OF v(2,3)] by blast
  have conf: "conforms (item_map po) (item_map grn) l \<longleftrightarrow> ml_qty l \<le> ?g \<and> v \<le> PRICE_TOLERANCE_LIMIT"
    by (simp add: conforms_def Some v(4))
  show ?thesis
    unfolding evaluate_line_def evaluate_known_line_def Let_def Some option.case v(1) conf w(1) y
    using assms(4) v(2,3) w(2,3)
    by (cases "ml_qty l \<le> ?g"; cases "v \<le> PRICE_TOLERANCE_LIMIT") (auto simp: state_bounded_def y)
qed

lemma evaluate_lines_ok:
  assumes "\<forall>l \<in> set ls. priced_in_columns l" "\<forall>q \<in> set po. priced_in_columns q"
    and "\<forall>q \<in> set grn. priced_in_columns q" and "state_bounded st"
  shows "\<exists>st'. efold (evaluate_line e (item_map po) (item_map grn)) st ls = Inr st' \<and> state_bounded st' \<and>
    (tl_evals st' = [] \<longleftrightarrow> ls = [] \<and> tl_evals st = []) \<and>
    (tl_discs st' = [] \<longleftrightarrow> tl_discs st = [] \<and> (\<forall>l \<in> set ls. conforms (item_map po) (item_map grn) l))"
  using assms
proof (induction ls arbitrary: st)
  case (Cons l ls)
  then obtain u where u: "evaluate_line e (item_map po) (item_map grn) st l = Inr u" "state_bounded u"
    "tl_evals u \<noteq> []"
    "tl_discs u = [] \<longleftrightarrow> tl_discs st = [] \<and> conforms (item_map po) (item_map grn) l"
    using evaluate_line_ok [of l po grn st e] by auto
  from Cons.IH [OF _ Cons.prems(2,3) u(2)] Cons.prems(1) u show ?case by auto
qed simp

lemma tolerances_decide:
  assumes "\<forall>l \<in> set inv_lines. priced_in_columns l" "\<forall>l \<in> set po. priced_in_columns l"
    and "\<forall>l \<in> set grn. priced_in_columns l"
  shows "\<exists>ts. evaluate_three_way_tolerances e inv_lines po grn = Inr ts \<and>
    (ts_matched ts \<longleftrightarrow> inv_lines \<noteq> [] \<and> (\<forall>l \<in> set inv_lines. conforms (item_map po) (item_map grn) l))"
proof -
  let ?s0 = "\<lparr>tl_evals = [], tl_discs = [], tl_price = 0, tl_qty = 0\<rparr>"
  have "state_bounded ?s0" by (simp add: state_bounded_def)
  then obtain st where st: "efold (evaluate_line e (item_map po) (item_map grn)) ?s0 inv_lines = Inr st"
    "state_bounded st" "tl_evals st = [] \<longleftrightarrow> inv_lines = []"
    "tl_discs st = [] \<longleftrightarrow> (\<forall>l \<in> set inv_lines. conforms (item_map po) (item_map grn) l)"
    using evaluate_lines_ok [OF assms, of ?s0 e] by auto
  obtain pv qv where "quantize round_even 4 (dmul (tl_price st) 100) = Inr pv"
    "quantize round_even 4 (dmul (tl_qty st) 100) = Inr qv"
    using st(2) percent_ok unfolding state_bounded_def by metis
  with st show ?thesis by (auto simp: evaluate_three_way_tolerances_def)
qed

subsection \<open>Properties\<close>

definition demo_line :: "string \<Rightarrow> dec \<Rightarrow> dec \<Rightarrow> match_line" where
  "demo_line c q p = \<lparr>ml_code = c, ml_qty = q, ml_price = p\<rparr>"

definition plain_env :: env where
  "plain_env = \<lparr>today = 739800, now = 0, sha256 = (\<lambda>x. []), dec_str = (\<lambda>x. []),
     time_str = (\<lambda>t. []), cfg_tier1 = 2500, cfg_tier2 = 25000\<rparr>"

lemma demo_line_priced [simp]:
  "places 4 q \<Longrightarrow> \<bar>q\<bar> < 10 ^ 14 \<Longrightarrow> places 4 p \<Longrightarrow> \<bar>p\<bar> < 10 ^ 14 \<Longrightarrow> priced_in_columns (demo_line c q p)"
  by (simp add: demo_line_def priced_in_columns_def column_amount_def)

text \<open>C36: on amounts of the column types the evaluator never raises, and it reports a full match
  exactly when the invoice has lines and every line names an item of the order, bills no more than
  the received quantity of that item and is priced within one percent of the order, in exact
  arithmetic.\<close>

theorem full_match_iff_conforming:
  assumes "\<forall>l \<in> set inv_lines. priced_in_columns l" "\<forall>l \<in> set po. priced_in_columns l"
    and "\<forall>l \<in> set grn. priced_in_columns l"
  shows "\<exists>ts. evaluate_three_way_tolerances e inv_lines po grn = Inr ts \<and>
    (ts_matched ts \<longleftrightarrow> inv_lines \<noteq> [] \<and> (\<forall>l \<in> set inv_lines. conforms (item_map po) (item_map grn) l))"
  using assms by (rule tolerances_decide)

lemma demo_priced:
  "priced_in_columns (demo_line c 10 (101 / 100))" "priced_in_columns (demo_line c 10 1)"
  "priced_in_columns (demo_line c 10 (10101 / 10000))"
  by (auto intro!: demo_line_priced placesI [of "101 / 100" 4 10100] placesI [of 10 4 100000]
      placesI [of "10101 / 10000" 4 10101] placesI [of 1 4 10000])

theorem full_match_iff_conforming_witness:
  "(\<exists>ts. evaluate_three_way_tolerances plain_env [demo_line ''A'' 10 (101 / 100)] [demo_line ''A'' 10 1]
      [demo_line ''A'' 10 1] = Inr ts \<and> ts_matched ts) \<and>
   (\<exists>ts. evaluate_three_way_tolerances plain_env [demo_line ''A'' 10 (10101 / 10000)] [demo_line ''A'' 10 1]
      [demo_line ''A'' 10 1] = Inr ts \<and> \<not> ts_matched ts)"
proof
  have "conforms (item_map [demo_line ''A'' 10 1]) (item_map [demo_line ''A'' 10 1]) (demo_line ''A'' 10 (101 / 100))"
    by code_simp
  then show "\<exists>ts. evaluate_three_way_tolerances plain_env [demo_line ''A'' 10 (101 / 100)] [demo_line ''A'' 10 1]
      [demo_line ''A'' 10 1] = Inr ts \<and> ts_matched ts"
    using full_match_iff_conforming [of "[demo_line ''A'' 10 (101 / 100)]" "[demo_line ''A'' 10 1]"
        "[demo_line ''A'' 10 1]" plain_env] demo_priced by simp
  have "\<not> conforms (item_map [demo_line ''A'' 10 1]) (item_map [demo_line ''A'' 10 1]) (demo_line ''A'' 10 (10101 / 10000))"
    by code_simp
  then show "\<exists>ts. evaluate_three_way_tolerances plain_env [demo_line ''A'' 10 (10101 / 10000)] [demo_line ''A'' 10 1]
      [demo_line ''A'' 10 1] = Inr ts \<and> \<not> ts_matched ts"
    using full_match_iff_conforming [of "[demo_line ''A'' 10 (10101 / 10000)]" "[demo_line ''A'' 10 1]"
        "[demo_line ''A'' 10 1]" plain_env] demo_priced by simp
qed

text \<open>Quantities are compared line by line: splitting an accepted line into any number of equal
  lines is accepted as well, so an invoice can bill any multiple of what was received.\<close>

theorem repeated_lines_overbill:
  assumes "priced_in_columns l" "\<forall>q \<in> set po. priced_in_columns q" "\<forall>q \<in> set grn. priced_in_columns q"
    and "conforms (item_map po) (item_map grn) l" "0 < n"
  shows "\<exists>ts. evaluate_three_way_tolerances e (replicate n l) po grn = Inr ts \<and> ts_matched ts"
  using tolerances_decide [of "replicate n l" po grn e] assms by auto

theorem repeated_lines_overbill_witness:
  "\<exists>ts. evaluate_three_way_tolerances plain_env (replicate 5 (demo_line ''A'' 10 1)) [demo_line ''A'' 10 1]
     [demo_line ''A'' 10 1] = Inr ts \<and> ts_matched ts"
proof -
  have "conforms (item_map [demo_line ''A'' 10 1]) (item_map [demo_line ''A'' 10 1]) (demo_line ''A'' 10 1)"
    by code_simp
  with repeated_lines_overbill [of "demo_line ''A'' 10 1" "[demo_line ''A'' 10 1]" "[demo_line ''A'' 10 1]" 5 plain_env]
    demo_priced(2) show ?thesis by simp
qed

end
