(* ===== verification/Matching.thy ===== *)
theory Matching
  imports Tolerance LedgerEngine
begin

section \<open>Three-way matching\<close>

text \<open>
  \<open>src/src/erp/workflows/accounts_payable/three_way_matcher.py\<close>: \<open>match_invoice\<close> resolves the
  order and the receipt of a supplier invoice, evaluates the tolerances and either posts the
  invoice to the ledger (status \<open>MATCHED\<close>), leaves it for a supervisor when the ledger refuses the
  amount (\<open>STAGED\<close>), or disputes it. The tax snapshot is the list of its parsed rows.
\<close>

subsection \<open>The posting of an invoice\<close>

record tax_state =
  ta_debits :: dec
  ta_credits :: dec
  ta_entries :: "ledger_line list"

definition tax_step :: "string \<Rightarrow> tax_state \<Rightarrow> tax_row \<Rightarrow> tax_state" where
  "tax_step cur st row =
     (if tx_valuation row \<or> tx_amount row \<le> 0 then st
      else let debit = (if tx_deduct row then 0 else tx_amount row);
               credit = (if tx_deduct row then tx_amount row else 0)
           in \<lparr>ta_debits = dadd (ta_debits st) debit, ta_credits = dadd (ta_credits st) credit,
               ta_entries = ta_entries st @ [plain_line (tx_account row) ''CORP-FINANCE'' debit credit cur]\<rparr>)"

definition payable_line :: "supplier_invoice \<Rightarrow> ledger_line" where
  "payable_line i =
     (plain_line ''2100-AP-VENDORS'' ''CORP-FINANCE'' 0 (pv_total i) (pv_currency i))
       \<lparr>ll_party_type := Some SUPPLIER, ll_party_id := Some (pv_supplier i),
        ll_against_type := Some SUPPLIER_INVOICE, ll_against_id := Some (pv_id i)\<rparr>"

definition build_invoice_ledger_lines :: "supplier_invoice \<Rightarrow> ledger_line list result" where
  "build_invoice_ledger_lines i =
     (let ta = foldl (tax_step (pv_currency i)) \<lparr>ta_debits = 0, ta_credits = 0, ta_entries = []\<rparr> (pv_taxes i);
          inventory_debit = dsub (dadd (pv_total i) (ta_credits ta)) (ta_debits ta)
      in if inventory_debit < 0
         then Inl (ValueError ''Tax snapshot produces a negative inventory/expense debit; review the supplier invoice tax configuration.'')
         else let entries =
                (if inventory_debit > 0
                 then [plain_line ''1300-RAW-MATERIALS'' ''PLANT-01'' inventory_debit 0 (pv_currency i)] else [])
                @ ta_entries ta @ [payable_line i]
              in if dsum (map ll_debit entries) \<noteq> dsum (map ll_credit entries)
                 then Inl (ValueError ''Supplier-invoice tax posting is not balanced.'')
                 else Inr entries)"

subsection \<open>Matching an invoice\<close>

record match_result =
  mr_invoice :: uuid
  mr_number :: string
  mr_matched :: bool
  mr_status :: match_status
  mr_tolerance :: tolerance_summary
  mr_ledger :: "commit_result option"
  mr_notice :: "dispute_notice option"

definition plain_summary :: "bool \<Rightarrow> dec \<Rightarrow> dec \<Rightarrow> string list \<Rightarrow> tolerance_summary" where
  "plain_summary matched overall qty ds =
     \<lparr>ts_matched = matched, ts_overall = overall, ts_qty_var = qty, ts_price_var = 0,
      ts_discrepancies = ds, ts_lines = []\<rparr>"

definition set_invoice :: "uuid \<Rightarrow> uuid \<Rightarrow> (supplier_invoice \<Rightarrow> supplier_invoice) \<Rightarrow> db \<Rightarrow> db" where
  "set_invoice t i f s =
     s\<lparr>supplier_invoices := update_where (\<lambda>v. pv_tenant v = t \<and> pv_id v = i) f (supplier_invoices s)\<rparr>"

text \<open>The receipt to match against, and the one to store with the invoice.\<close>

definition resolve_grn ::
    "db \<Rightarrow> uuid \<Rightarrow> supplier_invoice \<Rightarrow> uuid \<Rightarrow> uuid option \<Rightarrow> (uuid option \<times> uuid option) result" where
  "resolve_grn s t i po grn =
     (case grn of
        Some g \<Rightarrow> Inr (Some g, pv_grn i)
      | None \<Rightarrow>
          (case first_row (sort_key (\<lambda>g. - gr_created g)
                  (filter (\<lambda>g. gr_tenant g = t \<and> gr_po g = Some po) (grns s))) of
             Some g \<Rightarrow> Inr (Some (gr_id g), Some (gr_id g))
           | None \<Rightarrow>
               (case pv_grn i of
                  None \<Rightarrow> Inr (None, None)
                | Some stored \<Rightarrow>
                    ebind (one_or_none (filter (\<lambda>g. gr_tenant g = t \<and> gr_id g = stored) (grns s))) (\<lambda>r.
                      Inr (case r of None \<Rightarrow> None | Some g \<Rightarrow> if gr_po g = Some po then Some stored else None,
                           Some stored)))))"

definition item_code_of :: "db \<Rightarrow> uuid \<Rightarrow> string option" where
  "item_code_of s i = map_option it_code (first_row (filter (\<lambda>r. it_id r = i) (items s)))"

definition po_match_lines :: "db \<Rightarrow> uuid \<Rightarrow> uuid \<Rightarrow> match_line list" where
  "po_match_lines s t po =
     List.map_filter (\<lambda>l. map_option (\<lambda>c. \<lparr>ml_code = c, ml_qty = pi_qty l, ml_price = pi_price l\<rparr>)
         (item_code_of s (pi_item l)))
       (filter (\<lambda>l. pi_tenant l = t \<and> pi_po l = po) (po_items s))"

definition grn_match_lines :: "db \<Rightarrow> uuid \<Rightarrow> uuid \<Rightarrow> match_line list \<Rightarrow> match_line list" where
  "grn_match_lines s t grn po_lines =
     (let ls = List.map_filter (\<lambda>l. map_option (\<lambda>c. \<lparr>ml_code = c, ml_qty = gi_qty l, ml_price = gi_price l\<rparr>)
                 (item_code_of s (gi_item l)))
               (filter (\<lambda>l. gi_tenant l = t \<and> gi_grn l = grn) (grn_items s))
      in if ls \<noteq> [] then ls else po_lines)"

definition invoice_match_lines ::
    "db \<Rightarrow> uuid \<Rightarrow> supplier_invoice \<Rightarrow> match_line list \<Rightarrow> match_line list result" where
  "invoice_match_lines s t i po_lines =
     (let ls = map (\<lambda>l. \<lparr>ml_code = pvi_code l, ml_qty = pvi_qty l, ml_price = pvi_price l\<rparr>)
                 (filter (\<lambda>l. pvi_tenant l = t \<and> pvi_invoice l = pv_id i) (invoice_items s))
      in if ls \<noteq> [] then Inr ls
         else let (sku, qty) = (case po_lines of [] \<Rightarrow> (''RAW-MATERIAL'', 1) | l # _ \<Rightarrow> (ml_code l, ml_qty l))
              in ebind (ddiv (pv_total i) (max qty 1)) (\<lambda>q.
                 ebind (quantize round_even 4 q) (\<lambda>price.
                   Inr [\<lparr>ml_code = sku, ml_qty = qty, ml_price = price\<rparr>])))"

definition missing_grn_message :: string where
  "missing_grn_message =
     ''Missing Goods Receipt Note (GRN): Goods have not been received or confirmed into warehouse stock.''"

text \<open>Both dispute branches: the notice, the event and the status.\<close>

definition dispute_invoice ::
    "env \<Rightarrow> uuid \<Rightarrow> supplier_invoice \<Rightarrow> supplier_row \<Rightarrow> string \<Rightarrow> string \<Rightarrow> dec \<Rightarrow> tolerance_summary \<Rightarrow> db
     \<Rightarrow> match_result \<times> db" where
  "dispute_invoice e t i vendor reason variance_text variance ts s =
     (let s1 = set_invoice t (pv_id i)
                 (\<lambda>v. v\<lparr>pv_status := DISPUTED, pv_variance := variance, pv_reason := Some reason\<rparr>) s;
          (notice, s2) = generate_notice e (pv_number i) (su_code vendor) (su_name vendor) ts s1;
          (_, s3) = enqueue_event e t ''INVOICE'' (str_uuid (pv_id i)) ''erp.supplychain.invoice_disputed''
            [(''invoice_number'', JStr (pv_number i)), (''supplier_code'', JStr (su_code vendor)),
             (''variance_percentage'', JStr variance_text), (''dispute_id'', JStr (dn_id notice))] None s2
      in (\<lparr>mr_invoice = pv_id i, mr_number = pv_number i, mr_matched = False, mr_status = DISPUTED,
           mr_tolerance = ts, mr_ledger = None, mr_notice = Some notice\<rparr>, s3))"

definition match_proposal ::
    "env \<Rightarrow> uuid \<Rightarrow> supplier_invoice \<Rightarrow> ledger_line list \<Rightarrow> bool \<Rightarrow> uuid \<Rightarrow> proposal" where
  "match_proposal e t i entries human trace =
     \<lparr>pp_tenant = t, pp_date = today e, pp_source_type = ''AUTOMATED_AP_MATCH'', pp_source_id = pv_id i,
      pp_entries = entries, pp_human = human, pp_approved_by = None, pp_agent = ''SUPPLY_CHAIN_AP'',
      pp_trace = str_uuid trace, pp_prompt = ''hash_system_default'', pp_model = ''gemini-3.1-pro''\<rparr>"

definition ceiling_reason :: "dec \<Rightarrow> dec \<Rightarrow> string" where
  "ceiling_reason total_amount limit =
     ''Tier 3 Financial Ceiling Exceeded: Amount $'' @ format_money total_amount
     @ '' exceeds autonomous ceiling ($'' @ format_money limit
     @ ''). Requires human supervisor authorization to post to General Ledger.''"

text \<open>The matched branch; of the exceptions only \<open>AutonomyCeilingExceeded\<close> is caught.\<close>

fun exceeded_ceiling :: "exn \<Rightarrow> dec option" where
  "exceeded_ceiling (AutonomyCeilingExceeded amount limit tier) = Some limit"
| "exceeded_ceiling err = None"

definition post_matched_invoice ::
    "env \<Rightarrow> uuid \<Rightarrow> supplier_invoice \<Rightarrow> bool \<Rightarrow> tolerance_summary \<Rightarrow> db \<Rightarrow> (match_result \<times> db) result" where
  "post_matched_invoice e t i human ts s =
     (let s1 = set_invoice t (pv_id i)
                 (\<lambda>v. v\<lparr>pv_status := MATCHED, pv_variance := ts_overall ts, pv_reason := None\<rparr>) s in
      ebind (build_invoice_ledger_lines i) (\<lambda>entries.
        let (trace, s2) = uuid4 s1 in
        case commit_transaction e True (match_proposal e t i entries human trace) s2 of
          Inr (r, s3) \<Rightarrow>
            Inr (\<lparr>mr_invoice = pv_id i, mr_number = pv_number i, mr_matched = True, mr_status = MATCHED,
                  mr_tolerance = ts, mr_ledger = Some r, mr_notice = None\<rparr>, s3)
        | Inl err \<Rightarrow>
            (case exceeded_ceiling err of
               None \<Rightarrow> Inl err
             | Some limit \<Rightarrow>
                 Inr (\<lparr>mr_invoice = pv_id i, mr_number = pv_number i, mr_matched = True, mr_status = STAGED,
                       mr_tolerance = ts, mr_ledger = None, mr_notice = None\<rparr>,
                      set_invoice t (pv_id i) (\<lambda>v. v\<lparr>pv_status := STAGED, pv_variance := ts_overall ts,
                        pv_reason := Some (ceiling_reason (pv_total i) limit)\<rparr>) s2))))"

definition match_invoice ::
    "env \<Rightarrow> uuid \<Rightarrow> uuid \<Rightarrow> uuid option \<Rightarrow> uuid option \<Rightarrow> bool \<Rightarrow> db \<Rightarrow> (match_result \<times> db) result" where
  "match_invoice e t invoice_id po_arg grn_arg human s =
     ebind (one_or_none (filter (\<lambda>i. pv_tenant i = t \<and> pv_id i = invoice_id) (supplier_invoices s))) (\<lambda>found.
     case found of
       None \<Rightarrow> Inl (ValueError (''Supplier invoice '' @ quoted (str_uuid invoice_id) @ '' not found.''))
     | Some i \<Rightarrow>
       if pv_status i = MATCHED
       then Inr (\<lparr>mr_invoice = pv_id i, mr_number = pv_number i, mr_matched = True, mr_status = MATCHED,
                  mr_tolerance = plain_summary True (pv_variance i) 0 [], mr_ledger = None,
                  mr_notice = None\<rparr>, s)
       else case (if po_arg \<noteq> None then po_arg else pv_po i) of
         None \<Rightarrow> Inl (ValueError (''Cannot perform 3-way match: invoice '' @ quoted (pv_number i)
                   @ '' is not linked to a Purchase Order.''))
       | Some po \<Rightarrow>
         ebind (one_or_none (filter (\<lambda>u. su_tenant u = t \<and> su_id u = pv_supplier i) (suppliers s))) (\<lambda>vendor.
         case vendor of
           None \<Rightarrow> Inl (ValueError (''Supplier for invoice '' @ quoted (pv_number i) @ '' not found.''))
         | Some vendor \<Rightarrow>
           ebind (resolve_grn s t i po grn_arg) (\<lambda>(target, stored).
           let s1 = set_invoice t invoice_id (\<lambda>v. v\<lparr>pv_grn := stored\<rparr>) s in
           case target of
             None \<Rightarrow> Inr (dispute_invoice e t i vendor missing_grn_message ''0.0000'' 0
                       (plain_summary False 0 100 [missing_grn_message]) s1)
           | Some grn \<Rightarrow>
             ebind (scalar_one (filter (\<lambda>p. po_tenant p = t \<and> po_id p = po) (pos s))) (\<lambda>_.
             ebind (scalar_one (filter (\<lambda>g. gr_tenant g = t \<and> gr_id g = grn) (grns s))) (\<lambda>_.
             let po_lines = po_match_lines s t po; grn_lines = grn_match_lines s t grn po_lines in
             ebind (invoice_match_lines s t i po_lines) (\<lambda>inv_lines.
             ebind (evaluate_three_way_tolerances e inv_lines po_lines grn_lines) (\<lambda>ts.
               if ts_matched ts then post_matched_invoice e t i human ts s1
               else Inr (dispute_invoice e t i vendor (join ''; '' (ts_discrepancies ts))
                           (dec_str e (ts_overall ts)) (ts_overall ts) ts s1))))))))"

subsection \<open>The lines balance\<close>

definition posted_taxes :: "supplier_invoice \<Rightarrow> tax_row list" where
  "posted_taxes i = filter (\<lambda>r. \<not> tx_valuation r \<and> 0 < tx_amount r) (pv_taxes i)"

definition posted_tax_line :: "string \<Rightarrow> tax_row \<Rightarrow> ledger_line" where
  "posted_tax_line cur r = plain_line (tx_account r) ''CORP-FINANCE''
     (if tx_deduct r then 0 else tx_amount r) (if tx_deduct r then tx_amount r else 0) cur"

text \<open>Amounts as the columns hold them, with a sum that leaves room in 28 digits.\<close>

definition invoice_fits :: "supplier_invoice \<Rightarrow> bool" where
  "invoice_fits i \<longleftrightarrow>
     column_amount (pv_total i) \<and> 0 < pv_total i \<and>
     list_all (\<lambda>r. column_amount (tx_amount r)) (posted_taxes i) \<and>
     (\<Sum>r\<leftarrow>posted_taxes i. tx_amount r) < 10 ^ 20"

definition line_sums :: "ledger_line list \<Rightarrow> dec \<times> dec" where
  "line_sums ls = (\<Sum>l\<leftarrow>ls. ll_debit l, \<Sum>l\<leftarrow>ls. ll_credit l)"

lemma tax_fold:
  assumes "list_all (\<lambda>r. column_amount (tx_amount r) \<and> 0 < tx_amount r) rs"
    and "places 4 (ta_debits st)" "places 4 (ta_credits st)" "0 \<le> ta_debits st" "0 \<le> ta_credits st"
    and "ta_debits st + ta_credits st + (\<Sum>r\<leftarrow>rs. tx_amount r) < 10 ^ 20"
    and "rs = filter (\<lambda>r. \<not> tx_valuation r \<and> 0 < tx_amount r) ts"
  shows "foldl (tax_step cur) st ts =
    \<lparr>ta_debits = ta_debits st + (\<Sum>r\<leftarrow>rs. ll_debit (posted_tax_line cur r)),
     ta_credits = ta_credits st + (\<Sum>r\<leftarrow>rs. ll_credit (posted_tax_line cur r)),
     ta_entries = ta_entries st @ map (posted_tax_line cur) rs\<rparr>"
  using assms
proof (induction ts arbitrary: st rs)
  case Nil
  then show ?case by simp
next
  case (Cons t ts)
  let ?rs = "filter (\<lambda>r. \<not> tx_valuation r \<and> 0 < tx_amount r) ts"
  show ?case
  proof (cases "tx_valuation t \<or> tx_amount t \<le> 0")
    case True
    then have "tax_step cur st t = st" "rs = ?rs" using Cons.prems(7) by (auto simp: tax_step_def)
    with Cons.IH [OF Cons.prems(1-6)] show ?thesis by simp
  next
    case False
    then have rs: "rs = t # ?rs" using Cons.prems(7) by auto
    have nn: "0 \<le> (\<Sum>r\<leftarrow>?rs. tx_amount r)" by (intro sum_list_nonneg_map) auto
    let ?l = "posted_tax_line cur t"
    have l: "places 4 (ll_debit ?l)" "places 4 (ll_credit ?l)" "0 \<le> ll_debit ?l" "0 \<le> ll_credit ?l"
      "ll_debit ?l + ll_credit ?l = tx_amount t"
      using Cons.prems(1) False by (auto simp: rs posted_tax_line_def plain_line_def column_amount_def)
    have bound: "ta_debits st + ll_debit ?l + (ta_credits st + ll_credit ?l) < 10 ^ 20"
      using Cons.prems(6) nn l(5) by (simp add: rs)
    have "dadd (ta_debits st) (ll_debit ?l) = ta_debits st + ll_debit ?l"
      "dadd (ta_credits st) (ll_credit ?l) = ta_credits st + ll_credit ?l"
      using Cons.prems(2-5) l bound by (auto intro!: dadd_exact [of 4])
    then have step: "tax_step cur st t =
        \<lparr>ta_debits = ta_debits st + ll_debit ?l, ta_credits = ta_credits st + ll_credit ?l,
         ta_entries = ta_entries st @ [?l]\<rparr>"
      using False by (auto simp: tax_step_def posted_tax_line_def plain_line_def Let_def)
    show ?thesis
      unfolding foldl.simps step
      by (subst Cons.IH [of ?rs]) (use Cons.prems l bound in \<open>auto simp: rs add_ac\<close>)
  qed
qed

lemma tax_lines_sums:
  "(\<Sum>r\<leftarrow>rs. ll_debit (posted_tax_line cur r)) + (\<Sum>r\<leftarrow>rs. ll_credit (posted_tax_line cur r)) = (\<Sum>r\<leftarrow>rs. tx_amount r)"
  by (induction rs) (auto simp: posted_tax_line_def plain_line_def)

lemma places_tax_lines:
  assumes "list_all (\<lambda>r. column_amount (tx_amount r) \<and> 0 < tx_amount r) rs"
  shows "places 4 (\<Sum>r\<leftarrow>rs. ll_debit (posted_tax_line cur r))" "places 4 (\<Sum>r\<leftarrow>rs. ll_credit (posted_tax_line cur r))"
    "0 \<le> (\<Sum>r\<leftarrow>rs. ll_debit (posted_tax_line cur r))" "0 \<le> (\<Sum>r\<leftarrow>rs. ll_credit (posted_tax_line cur r))"
  using assms
  by (auto intro!: places_sum_list sum_list_nonneg_map
      simp: list_all_iff posted_tax_line_def plain_line_def column_amount_def)

text \<open>The amount the inventory account absorbs.\<close>

definition inventory_part :: "supplier_invoice \<Rightarrow> dec" where
  "inventory_part i = pv_total i + (\<Sum>r\<leftarrow>posted_taxes i. if tx_deduct r then tx_amount r else - tx_amount r)"

definition invoice_lines :: "supplier_invoice \<Rightarrow> ledger_line list" where
  "invoice_lines i =
     (if 0 < inventory_part i
      then [plain_line ''1300-RAW-MATERIALS'' ''PLANT-01'' (inventory_part i) 0 (pv_currency i)] else [])
     @ map (posted_tax_line (pv_currency i)) (posted_taxes i) @ [payable_line i]"

lemma inventory_part_sums:
  "inventory_part i = pv_total i + (\<Sum>r\<leftarrow>posted_taxes i. ll_credit (posted_tax_line cur r))
     - (\<Sum>r\<leftarrow>posted_taxes i. ll_debit (posted_tax_line cur r))"
proof -
  have "(\<Sum>r\<leftarrow>rs. if tx_deduct r then tx_amount r else - tx_amount r) =
      (\<Sum>r\<leftarrow>rs. ll_credit (posted_tax_line cur r)) - (\<Sum>r\<leftarrow>rs. ll_debit (posted_tax_line cur r))" for rs
    by (induction rs) (auto simp: posted_tax_line_def plain_line_def)
  then show ?thesis by (simp add: inventory_part_def)
qed

lemma build_invoice_lines:
  assumes "invoice_fits i"
  shows "build_invoice_ledger_lines i =
    (if inventory_part i < 0
     then Inl (ValueError ''Tax snapshot produces a negative inventory/expense debit; review the supplier invoice tax configuration.'')
     else Inr (invoice_lines i))"
proof -
  let ?cur = "pv_currency i" and ?rs = "posted_taxes i"
  let ?d = "\<Sum>r\<leftarrow>?rs. ll_debit (posted_tax_line ?cur r)" and ?c = "\<Sum>r\<leftarrow>?rs. ll_credit (posted_tax_line ?cur r)"
  have rs: "list_all (\<lambda>r. column_amount (tx_amount r) \<and> 0 < tx_amount r) ?rs"
    using assms by (auto simp: invoice_fits_def list_all_iff posted_taxes_def)
  have total: "column_amount (pv_total i)" "0 < pv_total i" "pv_total i < 10 ^ 14"
    using assms by (auto simp: invoice_fits_def column_amount_def)
  note dc = places_tax_lines [OF rs, of ?cur]
  have sum: "?d + ?c < 10 ^ 20" using assms tax_lines_sums [of ?cur ?rs] by (simp add: invoice_fits_def)
  have fold: "foldl (tax_step ?cur) \<lparr>ta_debits = 0, ta_credits = 0, ta_entries = []\<rparr> (pv_taxes i) =
      \<lparr>ta_debits = ?d, ta_credits = ?c, ta_entries = map (posted_tax_line ?cur) ?rs\<rparr>"
    using assms by (subst tax_fold [OF rs]) (auto simp: invoice_fits_def posted_taxes_def)
  have "dadd (pv_total i) ?c = pv_total i + ?c"
    using total dc sum by (intro dadd_exact [of 4]) (auto simp: column_amount_def)
  moreover have "dsub (pv_total i + ?c) ?d = pv_total i + ?c - ?d"
    using total dc sum by (intro dsub_exact [of 4]) (auto simp: column_amount_def abs_if)
  ultimately have inventory: "dsub (dadd (pv_total i) ?c) ?d = inventory_part i"
    by (simp add: inventory_part_sums [of i ?cur])
  have places: "places 4 (inventory_part i)"
    unfolding inventory_part_sums [of i ?cur] using dc total(1) by (auto simp: column_amount_def)
  have tax: "list_all (\<lambda>l. places 4 (ll_debit l) \<and> places 4 (ll_credit l) \<and> 0 \<le> ll_debit l \<and> 0 \<le> ll_credit l)
      (map (posted_tax_line ?cur) ?rs)"
    using rs by (auto simp: list_all_iff posted_tax_line_def plain_line_def column_amount_def)
  have all: "list_all (\<lambda>l. places 4 (ll_debit l) \<and> places 4 (ll_credit l) \<and> 0 \<le> ll_debit l \<and> 0 \<le> ll_credit l)
      (invoice_lines i)"
    using tax places total by (auto simp: invoice_lines_def payable_line_def plain_line_def column_amount_def)
  have debits: "(\<Sum>l\<leftarrow>invoice_lines i. ll_debit l) = (if 0 < inventory_part i then inventory_part i else 0) + ?d"
    by (simp add: invoice_lines_def payable_line_def plain_line_def o_def)
  have credits: "(\<Sum>l\<leftarrow>invoice_lines i. ll_credit l) = ?c + pv_total i"
    by (simp add: invoice_lines_def payable_line_def plain_line_def o_def)
  have balanced: "dsum (map ll_debit (invoice_lines i)) = dsum (map ll_credit (invoice_lines i))"
    if "\<not> inventory_part i < 0"
  proof -
    have eq: "(\<Sum>l\<leftarrow>invoice_lines i. ll_debit l) = (\<Sum>l\<leftarrow>invoice_lines i. ll_credit l)"
      using that unfolding debits credits by (auto simp: inventory_part_sums [of i ?cur])
    have small: "(\<Sum>l\<leftarrow>invoice_lines i. ll_credit l) < 10 ^ 21"
      unfolding credits using sum dc(3) total(3) by simp
    have "dsum (map ll_debit (invoice_lines i)) = (\<Sum>l\<leftarrow>invoice_lines i. ll_debit l)"
      using all eq small by (intro dsum_exact [of 4]) (auto simp: list_all_iff)
    moreover have "dsum (map ll_credit (invoice_lines i)) = (\<Sum>l\<leftarrow>invoice_lines i. ll_credit l)"
      using all small by (intro dsum_exact [of 4]) (auto simp: list_all_iff)
    ultimately show ?thesis using eq by simp
  qed
  show ?thesis
    unfolding build_invoice_ledger_lines_def Let_def fold tax_state.simps inventory
    using balanced by (simp add: invoice_lines_def)
qed

subsection \<open>What a match does\<close>

definition invoices_with :: "db \<Rightarrow> uuid \<Rightarrow> uuid \<Rightarrow> supplier_invoice list" where
  "invoices_with s t i = filter (\<lambda>v. pv_tenant v = t \<and> pv_id v = i) (supplier_invoices s)"

lemma invoices_with_set_invoice:
  assumes "\<And>v. pv_tenant (f v) = pv_tenant v \<and> pv_id (f v) = pv_id v"
  shows "invoices_with (set_invoice t i f s) t i = map f (invoices_with s t i)"
proof -
  have "filter (\<lambda>v. pv_tenant v = t \<and> pv_id v = i)
      (update_where (\<lambda>v. pv_tenant v = t \<and> pv_id v = i) f vs) =
      map f (filter (\<lambda>v. pv_tenant v = t \<and> pv_id v = i) vs)" for vs
    by (induction vs) (auto simp: assms)
  then show ?thesis by (simp add: invoices_with_def set_invoice_def)
qed

lemma set_invoice_frame [simp]:
  "gl_entries (set_invoice t i f s) = gl_entries s" "audit_logs (set_invoice t i f s) = audit_logs s"
  "next_id (set_invoice t i f s) = next_id s" "outbox (set_invoice t i f s) = outbox s"
  by (simp_all add: set_invoice_def)

lemma dispute_invoice_frame:
  assumes "dispute_invoice e t i vendor reason vt v ts s = (r, s')"
  shows "gl_entries s' = gl_entries s" "audit_logs s' = audit_logs s" "mr_ledger r = None"
    "mr_status r = DISPUTED" "mr_matched r = False" "length (outbox s') = Suc (length (outbox s))"
  using assms
  by (auto simp: dispute_invoice_def generate_notice_def enqueue_event_def uuid4_def Let_def)

definition posted_invoice :: "env \<Rightarrow> uuid \<Rightarrow> supplier_invoice \<Rightarrow> bool \<Rightarrow> commit_result \<Rightarrow> db \<Rightarrow> db \<Rightarrow> bool" where
  "posted_invoice e t i human c s s' \<longleftrightarrow>
     (\<exists>entries trace s2. build_invoice_ledger_lines i = Inr entries \<and>
        commit_transaction e True (match_proposal e t i entries human trace) s2 = Inr (c, s') \<and>
        gl_entries s2 = gl_entries s \<and> audit_logs s2 = audit_logs s)"

lemma commit_keeps_invoices:
  "commit_transaction e m p s = Inr (r, s') \<Longrightarrow> invoices_with s' t i = invoices_with s t i"
  by (erule commit_transaction_Inr) (simp add: invoices_with_def)

lemma post_matched_invoice_cases:
  assumes "post_matched_invoice e t i human ts s = Inr (r, s')"
  obtains (posted) c where "mr_ledger r = Some c" "mr_status r = MATCHED" "mr_tolerance r = ts"
      "posted_invoice e t i human c s s'"
      "\<forall>v \<in> set (invoices_with s' t (pv_id i)). pv_status v = MATCHED"
      "length (invoices_with s' t (pv_id i)) = length (invoices_with s t (pv_id i))"
    | (staged) "mr_ledger r = None" "mr_status r = STAGED" "mr_tolerance r = ts"
      "gl_entries s' = gl_entries s" "audit_logs s' = audit_logs s"
proof -
  let ?f = "\<lambda>v. v\<lparr>pv_status := MATCHED, pv_variance := ts_overall ts, pv_reason := None\<rparr>"
  let ?s1 = "set_invoice t (pv_id i) ?f s"
  let ?s2 = "?s1\<lparr>next_id := Suc (next_id ?s1)\<rparr>"
  obtain entries where b: "build_invoice_ledger_lines i = Inr entries"
    using assms by (auto simp: post_matched_invoice_def ebind_eq_Inr)
  have inv2: "invoices_with ?s2 t (pv_id i) = map ?f (invoices_with s t (pv_id i))"
    using invoices_with_set_invoice [of ?f t "pv_id i" s] by (simp add: invoices_with_def)
  let ?c = "commit_transaction e True (match_proposal e t i entries human (next_id ?s1)) ?s2"
  have eq: "(case ?c of
          Inr (r, s3) \<Rightarrow>
            Inr (\<lparr>mr_invoice = pv_id i, mr_number = pv_number i, mr_matched = True, mr_status = MATCHED,
                  mr_tolerance = ts, mr_ledger = Some r, mr_notice = None\<rparr>, s3)
        | Inl err \<Rightarrow>
            (case exceeded_ceiling err of
               None \<Rightarrow> Inl err
             | Some limit \<Rightarrow>
                 Inr (\<lparr>mr_invoice = pv_id i, mr_number = pv_number i, mr_matched = True, mr_status = STAGED,
                       mr_tolerance = ts, mr_ledger = None, mr_notice = None\<rparr>,
                      set_invoice t (pv_id i) (\<lambda>v. v\<lparr>pv_status := STAGED, pv_variance := ts_overall ts,
                        pv_reason := Some (ceiling_reason (pv_total i) limit)\<rparr>) ?s2))) = Inr (r, s')"
    using assms unfolding post_matched_invoice_def b uuid4_def Let_def by (simp only: ebind.simps prod.case)
  show thesis
  proof (cases ?c)
    case (Inr p)
    then obtain c s3 where c: "?c = Inr (c, s3)" by (cases p) auto
    with eq have r: "mr_ledger r = Some c" "mr_status r = MATCHED" "mr_tolerance r = ts" "s3 = s'" by auto
    have "invoices_with s' t (pv_id i) = map ?f (invoices_with s t (pv_id i))"
      using commit_keeps_invoices [OF c] inv2 r(4) by simp
    then show thesis
      using r b c by (intro posted) (auto simp: posted_invoice_def intro!: exI [of _ ?s2])
  next
    case (Inl err)
    with eq show thesis by (cases "exceeded_ceiling err") (auto intro: staged)
  qed
qed

text \<open>The lines that a match of \<open>v\<close> against the order \<open>q\<close> and the receipt \<open>g\<close> compares.\<close>

definition compared :: "env \<Rightarrow> uuid \<Rightarrow> supplier_invoice \<Rightarrow> uuid \<Rightarrow> uuid \<Rightarrow> db \<Rightarrow> match_line list \<Rightarrow> tolerance_summary \<Rightarrow> bool" where
  "compared e t v q g s ils ts \<longleftrightarrow>
     invoice_match_lines s t v (po_match_lines s t q) = Inr ils \<and>
     evaluate_three_way_tolerances e ils (po_match_lines s t q)
       (grn_match_lines s t g (po_match_lines s t q)) = Inr ts"

lemma match_invoice_cases:
  assumes "match_invoice e t iid po grn human s = Inr (r, s')"
  obtains (again) i where "invoices_with s t iid = [i]" "pv_status i = MATCHED" "s' = s"
      "mr_ledger r = None" "mr_status r = MATCHED"
    | (disputed) i where "invoices_with s t iid = [i]" "mr_ledger r = None" "mr_status r = DISPUTED"
      "gl_entries s' = gl_entries s" "audit_logs s' = audit_logs s"
    | (posted) i s1 q g stored ils where "invoices_with s t iid = [i]" "pv_status i \<noteq> MATCHED"
      "length (invoices_with s1 t iid) = 1"
      "gl_entries s1 = gl_entries s" "audit_logs s1 = audit_logs s" "ts_matched (mr_tolerance r)"
      "post_matched_invoice e t i human (mr_tolerance r) s1 = Inr (r, s')"
      "(if po \<noteq> None then po else pv_po i) = Some q" "resolve_grn s t i q grn = Inr (Some g, stored)"
      "compared e t i q g s ils (mr_tolerance r)"
proof -
  obtain i where i: "invoices_with s t iid = [i]"
    using assms
    by (auto simp: match_invoice_def ebind_eq_Inr invoices_with_def one_or_none_Some split: option.splits)
  note m = assms [unfolded match_invoice_def invoices_with_def [symmetric] i one_or_none.simps ebind.simps option.case]
  show thesis
  proof (cases "pv_status i = MATCHED")
    case True
    with m i show thesis by (auto intro: again)
  next
    case False
    have "i \<in> set (invoices_with s t iid)" by (simp add: i)
    then have iid: "pv_id i = iid" by (simp add: invoices_with_def)
    let ?po = "if po \<noteq> None then po else pv_po i"
    obtain q vendor target stored where q: "?po = Some q"
      and v: "one_or_none (filter (\<lambda>u. su_tenant u = t \<and> su_id u = pv_supplier i) (suppliers s)) = Inr (Some vendor)"
      and g: "resolve_grn s t i q grn = Inr (target, stored)"
      using m False by (auto simp: ebind_eq_Inr split: option.splits if_splits)
    let ?s1 = "set_invoice t iid (\<lambda>v. v\<lparr>pv_grn := stored\<rparr>) s"
    have len: "length (invoices_with ?s1 t iid) = 1"
      by (subst invoices_with_set_invoice) (simp_all add: i)
    note m1 = m [unfolded if_not_P [OF False] q option.case v ebind.simps g Let_def prod.case]
    show thesis
    proof (cases target)
      case None
      with m1 have "dispute_invoice e t i vendor missing_grn_message ''0.0000'' 0
          (plain_summary False 0 100 [missing_grn_message]) ?s1 = (r, s')" by simp
      from dispute_invoice_frame [OF this] show thesis by (intro disputed [OF i]) simp_all
    next
      case (Some gid)
      then obtain inv_lines ts where
        il: "invoice_match_lines s t i (po_match_lines s t q) = Inr inv_lines" and ev: "evaluate_three_way_tolerances e inv_lines (po_match_lines s t q)
          (grn_match_lines s t gid (po_match_lines s t q)) = Inr ts"
        and r: "(if ts_matched ts then post_matched_invoice e t i human ts ?s1
               else Inr (dispute_invoice e t i vendor (join ''; '' (ts_discrepancies ts))
                           (dec_str e (ts_overall ts)) (ts_overall ts) ts ?s1)) = Inr (r, s')"
        using m1 by (auto simp: ebind_eq_Inr)
      show thesis
      proof (cases "ts_matched ts")
        case True
        with r have p: "post_matched_invoice e t i human ts ?s1 = Inr (r, s')" by simp
        then have "mr_tolerance r = ts" by (cases rule: post_matched_invoice_cases)
        moreover have "(if po \<noteq> None then po else pv_po i) = Some q" using q by (cases po) auto
        ultimately show thesis using True p len il ev g Some
          by (intro posted [OF i False, of ?s1 q gid stored inv_lines]) (simp_all add: compared_def)
      next
        case nm: False
        with r have "dispute_invoice e t i vendor (join ''; '' (ts_discrepancies ts))
            (dec_str e (ts_overall ts)) (ts_overall ts) ts ?s1 = (r, s')" by simp
        from dispute_invoice_frame [OF this] show thesis by (intro disputed [OF i]) simp_all
      qed
    qed
  qed
qed







subsection \<open>A received order\<close>

definition demo_invoice :: "dec \<Rightarrow> match_status \<Rightarrow> supplier_invoice" where
  "demo_invoice amount st =
     \<lparr>pv_tenant = 0, pv_id = 2, pv_number = ''INV-1'', pv_supplier = 1, pv_po = Some 3, pv_grn = None,
      pv_currency = ''USD'', pv_taxes = [\<lparr>tx_valuation = False, tx_amount = 5, tx_deduct = False,
        tx_account = ''1500-VAT''\<rparr>], pv_total = amount, pv_status = st, pv_variance = 0, pv_reason = None\<rparr>"

definition demo_purchase :: "dec \<Rightarrow> db" where
  "demo_purchase amount = empty_db\<lparr>next_id := 9,
     items := [\<lparr>it_tenant = 0, it_id = 5, it_code = ''SKU'', it_name = ''Bolt'', it_uom = ''Nos'', it_rate = 0,
       it_group = None, it_weight = 0, it_purchase = True, it_sales = True, it_active = True\<rparr>],
     suppliers := [\<lparr>su_tenant = 0, su_id = 1, su_code = ''S1'', su_name = ''Vendor''\<rparr>],
     pos := [\<lparr>po_tenant = 0, po_id = 3, po_number = ''PO-1'', po_supplier = 1, po_date = 739800,
       po_currency = ''USD'', po_subtotal = 100, po_tax = 5, po_total = 105, po_status = PO_SUBMITTED\<rparr>],
     po_items := [\<lparr>pi_tenant = 0, pi_po = 3, pi_item = 5, pi_qty = 10, pi_price = 10, pi_total = 100\<rparr>],
     grns := [\<lparr>gr_tenant = 0, gr_id = 4, gr_po = Some 3, gr_number = ''GRN-1'', gr_created = 1\<rparr>],
     grn_items := [\<lparr>gi_tenant = 0, gi_id = 6, gi_grn = 4, gi_item = 5, gi_qty = 10, gi_accepted = 10, gi_price = 10\<rparr>],
     invoice_items := [\<lparr>pvi_tenant = 0, pvi_invoice = 2, pvi_code = ''SKU'', pvi_qty = 10, pvi_price = 10\<rparr>],
     supplier_invoices := [demo_invoice amount UNMATCHED]\<rparr>"

definition match_outcome :: "(match_result \<times> db) result \<Rightarrow> match_status option \<times> bool" where
  "match_outcome r = (case r of Inl _ \<Rightarrow> (None, False) | Inr (m, _) \<Rightarrow> (Some (mr_status m), mr_ledger m \<noteq> None))"

lemma demo_match:
  "match_outcome (match_invoice demo_env 0 2 None None False (demo_purchase 105)) = (Some MATCHED, True)"
  by code_simp

lemma demo_match_obtain:
  obtains r s' c where "match_invoice demo_env 0 2 None None False (demo_purchase 105) = Inr (r, s')"
    "mr_status r = MATCHED" "mr_ledger r = Some c"
  using demo_match by (auto simp: match_outcome_def split: sum.splits prod.splits)

lemma demo_invoices: "invoices_with (demo_purchase 105) 0 2 = [demo_invoice 105 UNMATCHED]"
  by (simp add: invoices_with_def demo_purchase_def demo_invoice_def)

subsection \<open>Properties\<close>

text \<open>C5: an invoice is posted at most once. After a match that returned \<open>MATCHED\<close>, matching the
  same invoice again, at any time, against any order or receipt and with any approval, changes
  nothing and posts nothing.\<close>

theorem matched_invoice_posts_once:
  assumes "match_invoice e t i po grn human s = Inr (r, s')" and "mr_status r = MATCHED"
  shows "\<exists>r'. match_invoice e' t i po' grn' human' s' = Inr (r', s') \<and> mr_ledger r' = None \<and>
    mr_status r' = MATCHED"
proof -
  have "\<exists>v. invoices_with s' t i = [v] \<and> pv_status v = MATCHED"
    using assms(1)
  proof (cases rule: match_invoice_cases)
    case (again v)
    then show ?thesis by blast
  next
    case (disputed v)
    with assms(2) show ?thesis by simp
  next
    case (posted v s1 q g stored ils)
    have "v \<in> set (invoices_with s t i)" by (simp add: posted(1))
    then have iid: "pv_id v = i" by (simp add: invoices_with_def)
    from posted(7) show ?thesis
    proof (cases rule: post_matched_invoice_cases)
      case p: (posted c)
      then have "length (invoices_with s' t i) = 1" using posted(3) iid by simp
      then obtain w where "invoices_with s' t i = [w]" by (metis One_nat_def length_0_conv length_Suc_conv)
      with p(5) iid show ?thesis by simp
    next
      case staged
      with assms(2) show ?thesis by simp
    qed
  qed
  then show ?thesis by (auto simp: match_invoice_def invoices_with_def)
qed

theorem matched_invoice_posts_once_witness:
  "\<exists>r s'. match_invoice demo_env 0 2 None None False (demo_purchase 105) = Inr (r, s') \<and>
     (\<exists>r'. match_invoice demo_env 0 2 (Some 7) None True s' = Inr (r', s'))"
proof (rule demo_match_obtain)
  fix r s' c
  assume m: "match_invoice demo_env 0 2 None None False (demo_purchase 105) = Inr (r, s')"
    "mr_status r = MATCHED"
  from matched_invoice_posts_once [OF m] m(1) show ?thesis by blast
qed



text \<open>The posting of an invoice always balances: on amounts of the column types the builder
  either reports a negative inventory amount or returns lines whose debits and credits have the
  same sum, with the invoice total as the only payable credit; its own balance check never fails.\<close>

theorem invoice_posting_balances:
  assumes "invoice_fits i"
  shows "build_invoice_ledger_lines i =
      (if inventory_part i < 0
       then Inl (ValueError ''Tax snapshot produces a negative inventory/expense debit; review the supplier invoice tax configuration.'')
       else Inr (invoice_lines i)) \<and>
    (0 \<le> inventory_part i \<longrightarrow>
       (\<Sum>l\<leftarrow>invoice_lines i. ll_debit l) = (\<Sum>l\<leftarrow>invoice_lines i. ll_credit l)) \<and>
    last (invoice_lines i) = payable_line i"
proof -
  let ?cur = "pv_currency i" and ?rs = "posted_taxes i"
  have "(\<Sum>l\<leftarrow>invoice_lines i. ll_debit l) =
      (if 0 < inventory_part i then inventory_part i else 0) + (\<Sum>r\<leftarrow>?rs. ll_debit (posted_tax_line ?cur r))"
    "(\<Sum>l\<leftarrow>invoice_lines i. ll_credit l) = (\<Sum>r\<leftarrow>?rs. ll_credit (posted_tax_line ?cur r)) + pv_total i"
    by (simp_all add: invoice_lines_def payable_line_def plain_line_def o_def)
  then have "0 \<le> inventory_part i \<longrightarrow>
      (\<Sum>l\<leftarrow>invoice_lines i. ll_debit l) = (\<Sum>l\<leftarrow>invoice_lines i. ll_credit l)"
    by (auto simp: inventory_part_sums [of i ?cur])
  then show ?thesis
    using build_invoice_lines [OF assms] by (simp add: invoice_lines_def)
qed

theorem invoice_posting_balances_witness:
  "build_invoice_ledger_lines (demo_invoice 105 UNMATCHED) = Inr (invoice_lines (demo_invoice 105 UNMATCHED))"
proof -
  have "invoice_fits (demo_invoice 105 UNMATCHED)"
    by (auto simp: invoice_fits_def demo_invoice_def posted_taxes_def column_amount_def
        intro: placesI [of 105 4 1050000] placesI [of 5 4 50000])
  moreover have "\<not> inventory_part (demo_invoice 105 UNMATCHED) < 0" by code_simp
  ultimately show ?thesis using invoice_posting_balances by simp
qed

end
