(* ===== verification/Reservation.thy ===== *)
theory Reservation
  imports StockEntry
begin

section \<open>Stock reservations\<close>

text \<open>
  \<open>src/src/erp/workflows/stock/stock_reservation_service.py\<close>: reserving stock of a warehouse for a
  voucher, consuming and cancelling a reservation. The lemmas relate the reserved quantity of a level
  to the reservations that are active on it: the two agree as long as no consumption exceeds what is
  left of its reservation, and the code does not check that.
\<close>

subsection \<open>Operations\<close>

definition res_status_str :: "reservation_status \<Rightarrow> string" where
  "res_status_str r = (case r of RES_ACTIVE \<Rightarrow> ''ACTIVE'' | RES_FULFILLED \<Rightarrow> ''FULFILLED''
     | RES_CANCELLED \<Rightarrow> ''CANCELLED'')"

definition create_reservation ::
    "env \<Rightarrow> uuid \<Rightarrow> uuid \<Rightarrow> uuid \<Rightarrow> string \<Rightarrow> uuid \<Rightarrow> dec \<Rightarrow> uuid option \<Rightarrow> db \<Rightarrow> (reservation \<times> db) result" where
  "create_reservation e t i w voucher_type voucher qty voucher_item s =
     ebind (find_level t i w s) (\<lambda>found.
       case found of
         None \<Rightarrow> Inl (ValueError (''No stock record found for item '' @ str_uuid i @ '' in warehouse ''
                   @ str_uuid w @ ''.''))
       | Some l \<Rightarrow>
           let available = dsub (sl_current l) (sl_reserved l) in
           if available < qty
           then Inl (ValueError (''Insufficient unreserved stock to reserve. On-hand: '' @ dec_str e (sl_current l)
                  @ '', Reserved: '' @ dec_str e (sl_reserved l) @ '', Available: '' @ dec_str e available
                  @ '', Requested: '' @ dec_str e qty))
           else let reserved = dadd (sl_reserved l) qty in
             ebind (put_level (l\<lparr>sl_reserved := reserved, sl_available := dsub (sl_current l) reserved\<rparr>) s) (\<lambda>s1.
             ebind (numeric 18 4 qty) (\<lambda>q.
               let (rid, s2) = uuid4 s1;
                   r = \<lparr>rs_tenant = t, rs_id = rid, rs_item = i, rs_warehouse = w,
                        rs_voucher_type = upper voucher_type, rs_voucher = voucher,
                        rs_voucher_item = voucher_item, rs_qty = q, rs_consumed = 0, rs_status = RES_ACTIVE\<rparr>
               in ebind (settle (s2\<lparr>reservations := reservations s2 @ [r]\<rparr>)) (\<lambda>s3. Inr (r, s3)))))"

definition find_reservation :: "uuid \<Rightarrow> uuid \<Rightarrow> db \<Rightarrow> reservation option result" where
  "find_reservation t i s = one_or_none (filter (\<lambda>r. (rs_tenant r, rs_id r) = (t, i)) (reservations s))"

definition set_reservation :: "reservation \<Rightarrow> db \<Rightarrow> db" where
  "set_reservation r s =
     s\<lparr>reservations := update_where (\<lambda>x. (rs_tenant x, rs_id x) = (rs_tenant r, rs_id r)) (\<lambda>_. r) (reservations s)\<rparr>"

text \<open>Both ways to release: the level gives back the quantity, never below zero; without a level nothing is released.\<close>

definition release :: "uuid \<Rightarrow> uuid \<Rightarrow> uuid \<Rightarrow> dec \<Rightarrow> db \<Rightarrow> db result" where
  "release t i w qty s =
     ebind (find_level t i w s) (\<lambda>found.
       case found of
         None \<Rightarrow> Inr s
       | Some l \<Rightarrow>
           let reserved = max 0 (dsub (sl_reserved l) qty)
           in put_level (l\<lparr>sl_reserved := reserved, sl_available := dsub (sl_current l) reserved\<rparr>) s)"

definition consume_reservation ::
    "uuid \<Rightarrow> uuid \<Rightarrow> dec \<Rightarrow> db \<Rightarrow> (reservation \<times> db) result" where
  "consume_reservation t rid qty s =
     ebind (find_reservation t rid s) (\<lambda>found.
       case found of
         None \<Rightarrow> Inl (ValueError (''Reservation '' @ str_uuid rid @ '' not found.''))
       | Some r \<Rightarrow>
           if rs_status r \<noteq> RES_ACTIVE
           then Inl (ValueError (''Cannot consume reservation in status '' @ quoted (res_status_str (rs_status r)) @ ''.''))
           else let consumed = dadd (rs_consumed r) qty in
             ebind (numeric 18 4 consumed) (\<lambda>stored.
             ebind (release t (rs_item r) (rs_warehouse r) qty s) (\<lambda>s1.
               let r' = r\<lparr>rs_consumed := stored,
                          rs_status := if consumed \<ge> rs_qty r then RES_FULFILLED else RES_ACTIVE\<rparr>
               in ebind (settle (set_reservation r' s1)) (\<lambda>s2. Inr (r', s2)))))"

definition cancel_reservation :: "uuid \<Rightarrow> uuid \<Rightarrow> db \<Rightarrow> (reservation \<times> db) result" where
  "cancel_reservation t rid s =
     ebind (find_reservation t rid s) (\<lambda>found.
       case found of
         None \<Rightarrow> Inl (ValueError (''Reservation '' @ str_uuid rid @ '' not found.''))
       | Some r \<Rightarrow>
           if rs_status r \<noteq> RES_ACTIVE
           then Inl (ValueError (''Cannot cancel reservation in status '' @ quoted (res_status_str (rs_status r)) @ ''.''))
           else let unconsumed = dsub (rs_qty r) (rs_consumed r) in
             ebind (release t (rs_item r) (rs_warehouse r) unconsumed s) (\<lambda>s1.
               let r' = r\<lparr>rs_status := RES_CANCELLED\<rparr>
               in ebind (settle (set_reservation r' s1)) (\<lambda>s2. Inr (r', s2))))"

definition list_reservations ::
    "uuid \<Rightarrow> uuid option \<Rightarrow> uuid option \<Rightarrow> string option \<Rightarrow> db \<Rightarrow> reservation list" where
  "list_reservations t i w st s =
     rev (filter (\<lambda>r. rs_tenant r = t \<and> (case i of None \<Rightarrow> True | Some x \<Rightarrow> rs_item r = x) \<and>
        (case w of None \<Rightarrow> True | Some x \<Rightarrow> rs_warehouse r = x) \<and>
        (case st of None \<Rightarrow> True | Some x \<Rightarrow> x = [] \<or> res_status_str (rs_status r) = upper x))
       (reservations s))"

subsection \<open>Reserved quantities by level\<close>

type_synonym level_id = "uuid \<times> uuid \<times> uuid"

definition reserved_map :: "db \<Rightarrow> (level_id \<times> dec) list" where
  "reserved_map s = map (\<lambda>l. (level_key l, sl_reserved l)) (stock_levels s)"

text \<open>\<open>shifts k f s s'\<close>: of all reserved quantities, that under \<open>k\<close> changes, by \<open>f\<close>.\<close>

definition shifts :: "level_id \<Rightarrow> (dec \<Rightarrow> dec) \<Rightarrow> db \<Rightarrow> db \<Rightarrow> bool" where
  "shifts k f s s' \<longleftrightarrow>
     reserved_map s' = map (\<lambda>(j, r). (j, if j = k then f r else r)) (reserved_map s)"

lemma settle_keeps_reserved:
  assumes "stock_ok s" "settle s = Inr s'"
  shows "reserved_map s' = reserved_map s"
proof -
  obtain ls where ls: "emap level_columns (stock_levels s) = Inr ls" "s' = s\<lparr>stock_levels := ls\<rparr>"
    using assms(2) by (auto simp: settle_def ebind_eq_Inr)
  have len: "length ls = length (stock_levels s)" using emap_length [OF ls(1)] .
  have "level_key (ls ! i) = level_key (stock_levels s ! i) \<and> sl_reserved (ls ! i) = sl_reserved (stock_levels s ! i)"
    if i: "i < length (stock_levels s)" for i
  proof -
    have "level_ok s (stock_levels s ! i)" using assms(1) i by (simp add: stock_ok_def list_all_length)
    then have "places 4 (sl_current (stock_levels s ! i))" "places 4 (sl_reserved (stock_levels s ! i))"
      by (auto simp: level_ok_def column_amount_def)
    with level_columns_Inr [OF emap_nth [OF ls(1) i]] show ?thesis by simp
  qed
  with len show ?thesis by (auto simp: reserved_map_def ls(2) intro!: nth_equalityI)
qed

lemma put_reserved:
  assumes ok: "stock_ok s" and l: "l \<in> set (stock_levels s)" "level_key l = k"
    and r: "places 4 r" "r = f (sl_reserved l)" "a = sl_current l - r"
    and put: "put_level (l\<lparr>sl_reserved := r, sl_available := a\<rparr>) s = Inr s'"
  shows "stock_ok s' \<and> shifts k f s s' \<and> column_amount r \<and> (\<exists>ls. s' = s\<lparr>stock_levels := ls\<rparr>)"
proof -
  let ?l = "l\<lparr>sl_reserved := r, sl_available := a\<rparr>"
  have key: "level_key ?l = level_key l" by simp
  have pc: "places 4 (sl_current l)" using ok l(1) by (auto simp: stock_ok_def list_all_iff level_ok_def column_amount_def)
  obtain m where m: "level_columns ?l = Inr m"
    and s': "s' = s\<lparr>stock_levels := update_where (\<lambda>x. level_key x = level_key l) (\<lambda>_. ?l) (stock_levels s)\<rparr>"
    using put put_level_Inr key by metis
  have c: "column_amount r" using level_columns_Inr [OF m] pc r(1) by simp
  have "x = l" if "x \<in> set (stock_levels s)" "level_key x = level_key l" for x
    using level_unique [OF ok that(1) l(1) that(2)] .
  then have "shifts k f s s'"
    using l(2) r(2) by (auto simp: shifts_def reserved_map_def s' update_where_def)
  with reserve_ok [OF ok l(1) c s' [unfolded r(3)]] c s' show ?thesis by (simp add: r(3)) blast
qed

text \<open>An amount or a difference of two amounts.\<close>

definition near_amount :: "dec \<Rightarrow> bool" where
  "near_amount q \<longleftrightarrow> places 4 q \<and> \<bar>q\<bar> < 10 ^ 15"

lemma near_amount_diff: "column_amount a \<Longrightarrow> column_amount b \<Longrightarrow> near_amount (a - b)"
  by (auto simp: column_amount_def near_amount_def abs_if split: if_splits)

lemma near_amount_column: "column_amount a \<Longrightarrow> near_amount a"
  using near_amount_diff [of a 0] by simp

lemma dsub_near: "column_amount a \<Longrightarrow> near_amount b \<Longrightarrow> dsub a b = a - b"
  by (rule dsub_exact [of 4]) (auto simp: column_amount_def near_amount_def abs_if split: if_splits)

lemma release_Inr:
  assumes "release t i w q s = Inr s'" "stock_ok s" "near_amount q"
  shows "stock_ok s' \<and> shifts (t, i, w) (\<lambda>r. max 0 (r - q)) s s' \<and> (\<exists>ls. s' = s\<lparr>stock_levels := ls\<rparr>)"
proof -
  obtain found where found: "find_level t i w s = Inr found"
    using assms(1) by (auto simp: release_def ebind_eq_Inr)
  show ?thesis
  proof (cases found)
    case None
    then have "s' = s" using assms(1) found by (simp add: release_def)
    moreover have "shifts (t, i, w) f s s" for f
      using find_level_None found None by (fastforce simp: shifts_def reserved_map_def)
    ultimately show ?thesis using assms(2) by (auto intro: exI [of _ "stock_levels s"])
  next
    case (Some l)
    then have l: "l \<in> set (stock_levels s)" "level_key l = (t, i, w)" using find_level_Some found by auto
    have lok: "level_ok s l" using assms(2) l(1) by (rule stock_ok_level)
    then have c: "column_amount (sl_reserved l)" "column_amount (sl_current l)" using level_ok_columns by auto
    define r where "r = max 0 (sl_reserved l - q)"
    have "places 4 (sl_reserved l - q)" using c(1) assms(3) by (auto simp: column_amount_def near_amount_def)
    then have p: "places 4 r" by (simp add: r_def max_def)
    have put: "put_level (l\<lparr>sl_reserved := r, sl_available := dsub (sl_current l) r\<rparr>) s = Inr s'"
      using assms(1) found Some by (simp add: release_def Let_def r_def dsub_near [OF c(1) assms(3)])
    then have "column_amount r" using c(2) p by (auto simp: put_level_def level_columns_def ebind_eq_Inr dest: numeric_bound)
    then have a: "dsub (sl_current l) r = sl_current l - r" using c(2) by (rule dsub_column [rotated])
    from put_reserved [where f = "\<lambda>x. max 0 (x - q)", OF assms(2) l p r_def a put] show ?thesis by blast
  qed
qed


subsection \<open>Operations as changes of reserved quantities and reservations\<close>

definition rs_key :: "reservation \<Rightarrow> level_id" where
  "rs_key r = (rs_tenant r, rs_item r, rs_warehouse r)"

definition rs_ident :: "reservation \<Rightarrow> uuid \<times> uuid" where
  "rs_ident r = (rs_tenant r, rs_id r)"

lemma create_reservation_Inr:
  assumes "create_reservation e t i w vt v q vi s = Inr (r, s')" "stock_ok s" "column_amount q"
  shows "stock_ok s'" "shifts (t, i, w) (\<lambda>x. x + q) s s'"
    "reservations s' = reservations s @ [r]" "next_id s' = Suc (next_id s)"
    "rs_ident r = (t, next_id s)" "rs_key r = (t, i, w)" "rs_qty r = q" "rs_consumed r = 0" "rs_status r = RES_ACTIVE"
    "gl_entries s' = gl_entries s" "audit_logs s' = audit_logs s"
    "\<exists>l \<in> set (stock_levels s). level_key l = (t, i, w) \<and> q \<le> sl_current l - sl_reserved l"
    "stock_ledger s' = stock_ledger s"
proof -
  obtain l where found: "find_level t i w s = Inr (Some l)"
    using assms(1) by (auto simp: create_reservation_def ebind_eq_Inr split: option.splits)
  then have l: "l \<in> set (stock_levels s)" "level_key l = (t, i, w)" using find_level_Some by auto
  have lok: "level_ok s l" using assms(2) l(1) by (rule stock_ok_level)
  then have c: "column_amount (sl_reserved l)" "column_amount (sl_current l)" using level_ok_columns by auto
  define x where "x = sl_reserved l + q"
  have p: "places 4 x" using c(1) assms(3) by (auto simp: x_def column_amount_def)
  obtain s1 s3 where put: "put_level (l\<lparr>sl_reserved := x, sl_available := dsub (sl_current l) x\<rparr>) s = Inr s1"
    and rr: "r = \<lparr>rs_tenant = t, rs_id = next_id s1, rs_item = i, rs_warehouse = w, rs_voucher_type = upper vt,
      rs_voucher = v, rs_voucher_item = vi, rs_qty = q, rs_consumed = 0, rs_status = RES_ACTIVE\<rparr>"
    and st: "settle (s1\<lparr>next_id := Suc (next_id s1), reservations := reservations s1 @ [r]\<rparr>) = Inr s'"
    and room: "q \<le> sl_current l - sl_reserved l"
    using assms(1) found numeric_column_id [OF assms(3)]
    by (auto simp: create_reservation_def ebind_eq_Inr Let_def uuid4_def x_def dadd_column [OF c(1) assms(3)]
        dsub_column [OF c(2,1)] split: if_splits)
  then have "column_amount x" using c(2) p by (auto simp: put_level_def level_columns_def ebind_eq_Inr dest: numeric_bound)
  then have a: "dsub (sl_current l) x = sl_current l - x" using c(2) by (rule dsub_column [rotated])
  from put_reserved [where f = "\<lambda>x. x + q", OF assms(2) l p x_def a put] obtain ls where
    s1: "stock_ok s1" "shifts (t, i, w) (\<lambda>x. x + q) s s1" "s1 = s\<lparr>stock_levels := ls\<rparr>" by blast
  let ?s2 = "s1\<lparr>next_id := Suc (next_id s1), reservations := reservations s1 @ [r]\<rparr>"
  have d2: "documents_ok ?s2" using s1(1) assms(3) rr by (simp add: stock_ok_def documents_ok_def)
  then have ok2: "stock_ok ?s2" using s1(1) by (subst stock_ok_cong [of _ s1]) (auto simp: stock_ok_def)
  note m = settle_keeps_reserved [OF ok2 st]
  obtain ls' where s': "s' = ?s2\<lparr>stock_levels := ls'\<rparr>" using settle_frame [OF st] by blast
  show "stock_ok s'" by (rule settle_ok [OF ok2 st])
  have "reserved_map ?s2 = reserved_map s1" by (simp add: reserved_map_def)
  then show "shifts (t, i, w) (\<lambda>x. x + q) s s'" using s1(2) m by (simp add: shifts_def)
  show "\<exists>l \<in> set (stock_levels s). level_key l = (t, i, w) \<and> q \<le> sl_current l - sl_reserved l"
    using l room by blast
  show "reservations s' = reservations s @ [r]" "next_id s' = Suc (next_id s)"
    "rs_ident r = (t, next_id s)" "rs_key r = (t, i, w)" "rs_qty r = q" "rs_consumed r = 0" "rs_status r = RES_ACTIVE"
    "gl_entries s' = gl_entries s" "audit_logs s' = audit_logs s" "stock_ledger s' = stock_ledger s"
    by (simp_all add: rr s1(3) s' rs_ident_def rs_key_def)
qed

lemma released_Inr:
  assumes rel: "release t (rs_item r) (rs_warehouse r) q s = Inr s1" and st: "settle (set_reservation r' s1) = Inr s'"
    and ok: "stock_ok s" and q: "near_amount q" and r': "column_amount (rs_qty r')" "column_amount (rs_consumed r')"
    and t: "rs_key r = (t, rs_item r, rs_warehouse r)"
  shows "stock_ok s' \<and> shifts (rs_key r) (\<lambda>x. max 0 (x - q)) s s' \<and> (\<exists>ls. s' = (set_reservation r' s)\<lparr>stock_levels := ls\<rparr>)"
proof -
  from release_Inr [OF rel ok q] t obtain ls where
    s1: "stock_ok s1" "shifts (rs_key r) (\<lambda>x. max 0 (x - q)) s s1" "s1 = s\<lparr>stock_levels := ls\<rparr>" by auto
  have "documents_ok (set_reservation r' s1)"
    using s1(1) r' by (auto simp: stock_ok_def documents_ok_def set_reservation_def list_all_iff set_update_where)
  then have ok2: "stock_ok (set_reservation r' s1)"
    using s1(1) by (subst stock_ok_cong [of _ s1]) (auto simp: stock_ok_def set_reservation_def)
  have "reserved_map (set_reservation r' s1) = reserved_map s1" by (simp add: reserved_map_def set_reservation_def)
  then have "shifts (rs_key r) (\<lambda>x. max 0 (x - q)) s s'"
    using s1(2) settle_keeps_reserved [OF ok2 st] by (simp add: shifts_def)
  moreover obtain ls' where "s' = (set_reservation r' s1)\<lparr>stock_levels := ls'\<rparr>" using settle_frame [OF st] by blast
  then have "s' = (set_reservation r' s)\<lparr>stock_levels := ls'\<rparr>" by (simp add: s1(3) set_reservation_def)
  ultimately show ?thesis using settle_ok [OF ok2 st] by blast
qed

lemma find_reservation_Some:
  assumes "find_reservation t i s = Inr (Some r)"
  shows "r \<in> set (reservations s)" "rs_ident r = (t, i)" "rs_key r = (t, rs_item r, rs_warehouse r)"
  using one_or_none_filter [OF assms [unfolded find_reservation_def]] by (simp_all add: rs_ident_def rs_key_def)

lemma reservation_columns:
  "stock_ok s \<Longrightarrow> r \<in> set (reservations s) \<Longrightarrow> column_amount (rs_qty r) \<and> column_amount (rs_consumed r)"
  by (simp add: stock_ok_def documents_ok_def list_all_iff)

lemma consume_reservation_Inr:
  assumes "consume_reservation t i q s = Inr (r', s')" "stock_ok s" "column_amount q"
  obtains r ls where "r \<in> set (reservations s)" "rs_ident r = (t, i)" "rs_status r = RES_ACTIVE"
    "r' = r\<lparr>rs_consumed := rs_consumed r + q, rs_status := if rs_consumed r + q \<ge> rs_qty r then RES_FULFILLED else RES_ACTIVE\<rparr>"
    "stock_ok s'" "shifts (rs_key r) (\<lambda>x. max 0 (x - q)) s s'" "s' = (set_reservation r' s)\<lparr>stock_levels := ls\<rparr>"
proof -
  obtain r where r: "find_reservation t i s = Inr (Some r)" "rs_status r = RES_ACTIVE"
    using assms(1) by (auto simp: consume_reservation_def ebind_eq_Inr split: option.splits if_splits)
  note f = find_reservation_Some [OF r(1)]
  have c: "column_amount (rs_qty r)" "column_amount (rs_consumed r)" using reservation_columns [OF assms(2) f(1)] by auto
  note add = dadd_column [OF c(2) assms(3)]
  have p: "places 4 (rs_consumed r + q)" using c(2) assms(3) by (auto simp: column_amount_def)
  obtain stored s1 where *: "numeric 18 4 (rs_consumed r + q) = Inr stored"
    "release t (rs_item r) (rs_warehouse r) q s = Inr s1" "settle (set_reservation r' s1) = Inr s'"
    "r' = r\<lparr>rs_consumed := stored, rs_status := if rs_consumed r + q \<ge> rs_qty r then RES_FULFILLED else RES_ACTIVE\<rparr>"
    using assms(1) r by (auto simp: consume_reservation_def ebind_eq_Inr Let_def add)
  have st: "stored = rs_consumed r + q" "column_amount stored" using numeric_keeps [OF p *(1)] by auto
  from released_Inr [OF *(2,3) assms(2) near_amount_column [OF assms(3)] _ _ f(3)] st c *(4)
  show thesis using that [OF f(1,2) r(2)] by auto
qed

lemma cancel_reservation_Inr:
  assumes "cancel_reservation t i s = Inr (r', s')" "stock_ok s"
  obtains r ls where "r \<in> set (reservations s)" "rs_ident r = (t, i)" "rs_status r = RES_ACTIVE"
    "r' = r\<lparr>rs_status := RES_CANCELLED\<rparr>" "stock_ok s'"
    "shifts (rs_key r) (\<lambda>x. max 0 (x - (rs_qty r - rs_consumed r))) s s'"
    "s' = (set_reservation r' s)\<lparr>stock_levels := ls\<rparr>"
proof -
  obtain r where r: "find_reservation t i s = Inr (Some r)" "rs_status r = RES_ACTIVE"
    using assms(1) by (auto simp: cancel_reservation_def ebind_eq_Inr split: option.splits if_splits)
  note f = find_reservation_Some [OF r(1)]
  have c: "column_amount (rs_qty r)" "column_amount (rs_consumed r)" using reservation_columns [OF assms(2) f(1)] by auto
  obtain s1 where *: "release t (rs_item r) (rs_warehouse r) (rs_qty r - rs_consumed r) s = Inr s1"
    "settle (set_reservation r' s1) = Inr s'" "r' = r\<lparr>rs_status := RES_CANCELLED\<rparr>"
    using assms(1) r by (auto simp: cancel_reservation_def ebind_eq_Inr Let_def dsub_column [OF c])
  from released_Inr [OF *(1,2) assms(2) near_amount_diff [OF c] _ _ f(3)] c *(3) that [OF f(1,2) r(2) *(3)]
  show thesis by auto
qed

subsection \<open>The service is a stock service\<close>

text \<open>Requests carry amounts of the column type.\<close>

inductive reservation_step :: "db \<Rightarrow> db \<Rightarrow> bool" where
  reserve: "create_reservation e t i w vt v q vi s = Inr (r, s') \<Longrightarrow> column_amount q \<Longrightarrow> reservation_step s s'"
| consume: "consume_reservation t rid q s = Inr (r, s') \<Longrightarrow> column_amount q \<Longrightarrow> reservation_step s s'"
| cancel: "cancel_reservation t rid s = Inr (r, s') \<Longrightarrow> reservation_step s s'"

lemma set_reservation_frame [simp]:
  "gl_entries (set_reservation r s) = gl_entries s" "audit_logs (set_reservation r s) = audit_logs s"
  "next_id (set_reservation r s) = next_id s" "stock_ledger (set_reservation r s) = stock_ledger s"
  by (simp_all add: set_reservation_def)

lemma reservation_step_keeps:
  assumes "reservation_step s s'" "stock_ok s"
  shows "stock_ok s' \<and> gl_entries s' = gl_entries s \<and> audit_logs s' = audit_logs s"
  using assms(1)
proof cases
  case (reserve e t i w vt v q vi r)
  from create_reservation_Inr(1,10,11) [OF this(1) assms(2) this(2)] show ?thesis by blast
next
  case (consume t rid q r)
  show ?thesis by (rule consume_reservation_Inr [OF consume(1) assms(2) consume(2)]) simp
next
  case (cancel t rid r)
  show ?thesis by (rule cancel_reservation_Inr [OF cancel assms(2)]) simp
qed

interpretation reserving: stock_service reservation_step
  by unfold_locales (auto dest!: reservation_step_keeps simp: books_balanced_def)

text \<open>Both services on the same tables.\<close>

definition warehouse_step :: "db \<Rightarrow> db \<Rightarrow> bool" where
  "warehouse_step s s' \<longleftrightarrow> stock_entry_step s s' \<or> reservation_step s s'"

interpretation warehouse: stock_service warehouse_step
  unfolding warehouse_step_def
  by (rule stock_service_union) (rule stock_entries.stock_service_axioms reserving.stock_service_axioms)+

subsection \<open>Reservations back the reserved quantity\<close>

definition open_on :: "level_id \<Rightarrow> reservation \<Rightarrow> dec" where
  "open_on k r = (if rs_key r = k \<and> rs_status r = RES_ACTIVE then rs_qty r - rs_consumed r else 0)"

definition outstanding :: "db \<Rightarrow> level_id \<Rightarrow> dec" where
  "outstanding s k = (\<Sum>r\<leftarrow>reservations s. open_on k r)"

definition sound_reservation :: "db \<Rightarrow> reservation \<Rightarrow> bool" where
  "sound_reservation s r \<longleftrightarrow>
     rs_id r < next_id s \<and> (rs_status r = RES_ACTIVE \<longrightarrow> 0 \<le> rs_consumed r \<and> rs_consumed r \<le> rs_qty r)"

definition backed :: "db \<Rightarrow> bool" where
  "backed s \<longleftrightarrow> stock_ok s \<and> distinct (map rs_ident (reservations s)) \<and>
     list_all (sound_reservation s) (reservations s) \<and>
     list_all (\<lambda>(k, r). r = outstanding s k) (reserved_map s)"

text \<open>A careful client asks for nonnegative quantities and consumes at most what is left.\<close>

inductive careful_step :: "db \<Rightarrow> db \<Rightarrow> bool" where
  reserve: "create_reservation e t i w vt v q vi s = Inr (r, s') \<Longrightarrow> column_amount q \<Longrightarrow> 0 \<le> q \<Longrightarrow> careful_step s s'"
| consume: "consume_reservation t rid q s = Inr (r, s') \<Longrightarrow> column_amount q \<Longrightarrow> 0 \<le> q \<Longrightarrow>
    rs_consumed r \<le> rs_qty r \<Longrightarrow> careful_step s s'"
| cancel: "cancel_reservation t rid s = Inr (r, s') \<Longrightarrow> careful_step s s'"

lemma open_nonneg: "sound_reservation s r \<Longrightarrow> 0 \<le> open_on k r"
  by (auto simp: open_on_def sound_reservation_def)

lemma sum_replaced:
  assumes "distinct (map rs_ident rs)" "r \<in> set rs" "rs_ident r' = rs_ident r"
  shows "(\<Sum>x\<leftarrow>update_where (\<lambda>x. rs_ident x = rs_ident r') (\<lambda>_. r') rs. open_on k x) =
    (\<Sum>x\<leftarrow>rs. open_on k x) - open_on k r + open_on k r'"
  using assms(1,2)
proof (induction rs)
  case (Cons x rs)
  show ?case
  proof (cases "x = r")
    case True
    then have "\<And>y. y \<in> set rs \<Longrightarrow> rs_ident y \<noteq> rs_ident r'" using Cons.prems(1) assms(3) by (metis True distinct.simps(2) image_eqI image_set list.map(2))
    then show ?thesis using True assms(3) update_where_none [of rs "\<lambda>x. rs_ident x = rs_ident r'"] by simp
  next
    case False
    then have "rs_ident x \<noteq> rs_ident r'" using Cons.prems assms(3) by force
    then show ?thesis using False Cons by simp
  qed
qed simp

lemma set_reservation_alt:
  "set_reservation r s = s\<lparr>reservations := update_where (\<lambda>x. rs_ident x = rs_ident r) (\<lambda>_. r) (reservations s)\<rparr>"
  by (simp add: set_reservation_def rs_ident_def)

lemma outstanding_ge:
  assumes "backed s" "r \<in> set (reservations s)"
  shows "open_on k r \<le> outstanding s k"
  unfolding outstanding_def using assms
  by (intro sum_list_member_le open_nonneg) (auto simp: backed_def list_all_iff)

lemma backed_map:
  "backed s \<Longrightarrow> (k, x) \<in> set (reserved_map s) \<Longrightarrow> x = outstanding s k"
  by (auto simp: backed_def list_all_iff)

lemma replaced_backed:
  assumes b: "backed s" and r: "r \<in> set (reservations s)"
    and r': "rs_ident r' = rs_ident r" "rs_key r' = rs_key r" "sound_reservation s r'"
    and q: "open_on (rs_key r) r - open_on (rs_key r) r' = q" "0 \<le> q" "q \<le> open_on (rs_key r) r"
    and ok: "stock_ok s'" and sh: "shifts (rs_key r) (\<lambda>x. max 0 (x - q)) s s'"
    and s': "s' = (set_reservation r' s)\<lparr>stock_levels := ls\<rparr>"
  shows "backed s'"
proof -
  have d: "distinct (map rs_ident (reservations s))" using b by (simp add: backed_def)
  have out: "outstanding s' k = outstanding s k - (if k = rs_key r then q else 0)" for k
    using sum_replaced [OF d r r'(1), of k] q(1) r'(1,2)
    by (auto simp: outstanding_def s' set_reservation_alt open_on_def)
  have "x = outstanding s' k" if m: "(k, x) \<in> set (reserved_map s')" for k x
  proof -
    obtain y where y: "(k, y) \<in> set (reserved_map s)" "x = (if k = rs_key r then max 0 (y - q) else y)"
      using m unfolding sh [unfolded shifts_def] by auto
    have "y = outstanding s k" using backed_map [OF b y(1)] .
    moreover have "q \<le> outstanding s (rs_key r)" using outstanding_ge [OF b r, of "rs_key r"] q(3) by simp
    ultimately show ?thesis using y(2) by (auto simp: out)
  qed
  moreover have "map rs_ident (reservations s') = map rs_ident (reservations s)"
    by (auto simp: s' set_reservation_alt r'(1) update_where_def)
  moreover have "list_all (sound_reservation s') (reservations s')"
    using b r'(3) by (auto simp: backed_def list_all_iff sound_reservation_def s' set_reservation_alt set_update_where)
  ultimately show ?thesis using ok d by (auto simp: backed_def list_all_iff)
qed

lemma careful_step_backed:
  assumes "careful_step s s'" and b: "backed s"
  shows "backed s'"
  using assms(1)
proof cases
  case (reserve e t i w vt v q vi r)
  have ok: "stock_ok s" using b by (simp add: backed_def)
  note c = create_reservation_Inr [OF reserve(1) ok reserve(2)]
  have out: "outstanding s' k = outstanding s k + (if k = (t, i, w) then q else 0)" for k
    using c(6-9) by (auto simp: outstanding_def c(3) open_on_def)
  have "x = outstanding s' k" if m: "(k, x) \<in> set (reserved_map s')" for k x
    using m backed_map [OF b] unfolding c(2) [unfolded shifts_def] by (auto simp: out split: if_splits)
  moreover have "rs_ident r \<notin> rs_ident ` set (reservations s)"
    using b c(5) by (auto simp: backed_def list_all_iff sound_reservation_def rs_ident_def)
  moreover have "list_all (sound_reservation s') (reservations s')"
    using b c reserve(3) by (auto simp: backed_def list_all_iff sound_reservation_def rs_ident_def)
  ultimately show ?thesis using b c(1,3) by (auto simp: backed_def list_all_iff)
next
  case (consume t rid q r')
  have ok: "stock_ok s" using b by (simp add: backed_def)
  show ?thesis
  proof (rule consume_reservation_Inr [OF consume(1) ok consume(2)])
    fix r ls
    assume r: "r \<in> set (reservations s)" "rs_ident r = (t, rid)" "rs_status r = RES_ACTIVE"
      "r' = r\<lparr>rs_consumed := rs_consumed r + q, rs_status := if rs_consumed r + q \<ge> rs_qty r then RES_FULFILLED else RES_ACTIVE\<rparr>"
      "stock_ok s'" "shifts (rs_key r) (\<lambda>x. max 0 (x - q)) s s'" "s' = (set_reservation r' s)\<lparr>stock_levels := ls\<rparr>"
    have sr: "sound_reservation s r" using b r(1) by (simp add: backed_def list_all_iff)
    show "backed s'"
      by (rule replaced_backed [OF b r(1) _ _ _ _ consume(3) _ r(5-7)])
        (use r(3,4) consume(3,4) sr in \<open>auto simp: rs_ident_def rs_key_def open_on_def sound_reservation_def\<close>)
  qed
next
  case (cancel t rid r')
  have ok: "stock_ok s" using b by (simp add: backed_def)
  show ?thesis
  proof (rule cancel_reservation_Inr [OF cancel ok])
    fix r ls
    assume r: "r \<in> set (reservations s)" "rs_ident r = (t, rid)" "rs_status r = RES_ACTIVE"
      "r' = r\<lparr>rs_status := RES_CANCELLED\<rparr>" "stock_ok s'"
      "shifts (rs_key r) (\<lambda>x. max 0 (x - (rs_qty r - rs_consumed r))) s s'"
      "s' = (set_reservation r' s)\<lparr>stock_levels := ls\<rparr>"
    have sr: "sound_reservation s r" using b r(1) by (simp add: backed_def list_all_iff)
    show "backed s'"
      by (rule replaced_backed [OF b r(1) _ _ _ _ _ _ r(5-7)])
        (use r(3,4) sr in \<open>auto simp: rs_ident_def rs_key_def open_on_def sound_reservation_def\<close>)
  qed
qed

subsection \<open>Properties\<close>

definition demo_reservation :: "uuid \<Rightarrow> dec \<Rightarrow> reservation" where
  "demo_reservation i q =
     \<lparr>rs_tenant = 0, rs_id = i, rs_item = 1, rs_warehouse = 7, rs_voucher_type = ''SALES_ORDER'',
      rs_voucher = 30 + i, rs_voucher_item = None, rs_qty = q, rs_consumed = 0, rs_status = RES_ACTIVE\<rparr>"

text \<open>Ten units on hand, four and five of them reserved for two vouchers.\<close>

definition demo_held :: db where
  "demo_held = (demo_stock 9 (demo_entry MATERIAL_ISSUE (Some 7) None 4))
     \<lparr>next_id := 9, reservations := [demo_reservation 5 4, demo_reservation 6 5]\<rparr>"

definition held_level :: "(reservation \<times> db) result \<Rightarrow> (dec \<times> dec \<times> string) option" where
  "held_level r =
     (case r of Inl _ \<Rightarrow> None
      | Inr (x, s) \<Rightarrow> Some (sl_reserved (hd (stock_levels s)), sl_available (hd (stock_levels s)), res_status_str (rs_status x)))"

lemma held_level_Some: "held_level r = Some v \<Longrightarrow> \<exists>x s'. r = Inr (x, s')"
  by (auto simp: held_level_def split: sum.splits)

lemma demo_amounts [simp]: "column_amount 9" "column_amount 5" "column_amount 1" "column_amount 3"
  using column_amount_int [of 9] column_amount_int [of 5] column_amount_int [of 1] column_amount_int [of 3] by simp_all

lemma demo_held_backed: "backed demo_held"
proof -
  have "stock_ok (demo_stock 9 (demo_entry MATERIAL_ISSUE (Some 7) None 4))" by (rule demo_stock_ok) simp_all
  then have "stock_ok demo_held"
    by (simp add: stock_ok_def level_ok_def [abs_def] ledger_qty_def demo_held_def documents_ok_def demo_reservation_def)
  then show ?thesis
    by (simp add: backed_def demo_held_def demo_reservation_def rs_ident_def sound_reservation_def reserved_map_def
        outstanding_def open_on_def rs_key_def demo_stock_def level_key_def)
qed

text \<open>C9: while no consumption exceeds what is left of its reservation, the reserved quantity of
  every level is what the active reservations on it still hold, and the available quantity is what is
  on hand less that: no stock is promised twice and none is locked without a voucher.\<close>

theorem reservations_are_backed:
  assumes "careful_step\<^sup>*\<^sup>* s s'" and "backed s" and "l \<in> set (stock_levels s')"
  shows "sl_reserved l = outstanding s' (level_key l) \<and>
    sl_available l = ledger_qty s' (level_key l) - outstanding s' (level_key l)"
proof -
  have b: "backed s'" using assms(1,2) by (induction rule: rtranclp_induct) (auto intro: careful_step_backed)
  then have "level_ok s' l" using assms(3) by (auto simp: backed_def intro: stock_ok_level)
  moreover have "(level_key l, sl_reserved l) \<in> set (reserved_map s')" using assms(3) by (auto simp: reserved_map_def)
  from backed_map [OF b this] have "sl_reserved l = outstanding s' (level_key l)" .
  ultimately show ?thesis unfolding level_ok_def by metis
qed

theorem reservations_are_backed_witness:
  "\<exists>r s'. consume_reservation 0 5 3 demo_held = Inr (r, s') \<and>
     list_all (\<lambda>l. sl_reserved l = outstanding s' (level_key l)) (stock_levels s')"
proof -
  have "held_level (consume_reservation 0 5 3 demo_held) = Some (6, 4, ''ACTIVE'')" by code_simp
  then obtain r s' where c: "consume_reservation 0 5 3 demo_held = Inr (r, s')" using held_level_Some by blast
  have ok: "stock_ok demo_held" using demo_held_backed by (simp add: backed_def)
  have "rs_consumed r \<le> rs_qty r"
    by (rule consume_reservation_Inr [OF c ok]) (auto simp: demo_held_def demo_reservation_def rs_ident_def)
  then have "careful_step\<^sup>*\<^sup>* demo_held s'" using careful_step.consume [OF c] by simp
  from reservations_are_backed [OF this demo_held_backed] show ?thesis using c by (auto simp: list_all_iff)
qed

text \<open>C10: interleaving stock entries and reservations in any order keeps the tables in agreement: on
  every level the quantity on hand is the sum of its stock-ledger rows and the available quantity is
  what is on hand less what is reserved; and the general ledger stays balanced.\<close>

theorem warehouse_levels_agree:
  assumes "warehouse_step\<^sup>*\<^sup>* s s'" and "stock_ok s" and "books_balanced s"
  shows "books_balanced s' \<and> list_all (\<lambda>l. sl_current l = ledger_qty s' (level_key l) \<and>
    sl_available l = sl_current l - sl_reserved l) (stock_levels s')"
  using warehouse.runs_keep [OF assms(1,2)] warehouse.available_is_free [OF assms(1,2)] assms(3)
  by (auto simp: list_all_iff)

theorem warehouse_levels_agree_witness:
  "\<exists>r s'. create_reservation demo_env 0 1 7 ''SALES_ORDER'' 40 1 None demo_held = Inr (r, s') \<and>
     books_balanced s' \<and> list_all (\<lambda>l. sl_available l = sl_current l - sl_reserved l) (stock_levels s')"
proof -
  have "held_level (create_reservation demo_env 0 1 7 ''SALES_ORDER'' 40 1 None demo_held) = Some (10, 0, ''ACTIVE'')"
    by code_simp
  then obtain r s' where c: "create_reservation demo_env 0 1 7 ''SALES_ORDER'' 40 1 None demo_held = Inr (r, s')"
    using held_level_Some by blast
  have "warehouse_step demo_held s'" unfolding warehouse_step_def using reservation_step.reserve [OF c] by simp
  then have "warehouse_step\<^sup>*\<^sup>* demo_held s'" by (rule r_into_rtranclp)
  moreover have "books_balanced demo_held" by (simp add: books_balanced_def demo_held_def demo_stock_def empty_db_def)
  moreover have "stock_ok demo_held" using demo_held_backed by (simp add: backed_def)
  ultimately have "books_balanced s' \<and> list_all (\<lambda>l. sl_current l = ledger_qty s' (level_key l) \<and>
      sl_available l = sl_current l - sl_reserved l) (stock_levels s')"
    by (intro warehouse_levels_agree)
  with c show ?thesis by (auto simp: list_all_iff)
qed

text \<open>A reservation is granted only when that much stock is on hand and unreserved, so the
  reserved quantity of its level does not exceed the quantity on hand.\<close>

theorem reservation_needs_free_stock:
  assumes "create_reservation e t i w vt v q vi s = Inr (r, s')" and "stock_ok s" and "column_amount q"
  shows "\<exists>l \<in> set (stock_levels s'). level_key l = (t, i, w) \<and> sl_reserved l \<le> sl_current l \<and>
    rs_qty r = q \<and> rs_status r = RES_ACTIVE"
proof -
  note c = create_reservation_Inr [OF assms]
  obtain l where l: "l \<in> set (stock_levels s)" "level_key l = (t, i, w)" "q \<le> sl_current l - sl_reserved l"
    using c(12) by blast
  have "((t, i, w), sl_reserved l) \<in> set (reserved_map s)" using l(1,2) by (force simp: reserved_map_def)
  then have "((t, i, w), sl_reserved l + q) \<in> set (reserved_map s')"
    unfolding c(2) [unfolded shifts_def] by force
  then obtain m where m: "m \<in> set (stock_levels s')" "level_key m = (t, i, w)" "sl_reserved m = sl_reserved l + q"
    by (auto simp: reserved_map_def)
  have "sl_current l = ledger_qty s (t, i, w)" "sl_current m = ledger_qty s' (t, i, w)"
    using stock_ok_level [OF assms(2) l(1)] stock_ok_level [OF c(1) m(1)] l(2) m(2) unfolding level_ok_def by metis+
  moreover have "ledger_qty s' k = ledger_qty s k" for k using c(13) by (simp add: ledger_qty_def)
  ultimately show ?thesis using m l(3) c(7,9) by (intro bexI [of _ m]) auto
qed

theorem reservation_needs_free_stock_witness:
  "\<exists>r s'. create_reservation demo_env 0 1 7 ''SALES_ORDER'' 40 1 None demo_held = Inr (r, s') \<and> rs_qty r = 1"
proof -
  have "held_level (create_reservation demo_env 0 1 7 ''SALES_ORDER'' 40 1 None demo_held) = Some (10, 0, ''ACTIVE'')"
    by code_simp
  then obtain r s' where c: "create_reservation demo_env 0 1 7 ''SALES_ORDER'' 40 1 None demo_held = Inr (r, s')"
    using held_level_Some by blast
  have "stock_ok demo_held" using demo_held_backed by (simp add: backed_def)
  from reservation_needs_free_stock [OF c this] c show ?thesis by auto
qed

text \<open>A consumption is not compared with what is left of the reservation: consuming nine of a
  reservation of four, while another voucher holds five, releases the other voucher's stock too.\<close>

theorem overconsumption_frees_other_reservations:
  "\<exists>r s'. consume_reservation 0 5 9 demo_held = Inr (r, s') \<and>
     held_level (Inr (r, s')) = Some (0, 10, ''FULFILLED'') \<and> outstanding s' (0, 1, 7) = 5"
proof -
  have h: "held_level (consume_reservation 0 5 9 demo_held) = Some (0, 10, ''FULFILLED'')" by code_simp
  then obtain r s' where c: "consume_reservation 0 5 9 demo_held = Inr (r, s')" using held_level_Some by blast
  have ok: "stock_ok demo_held" using demo_held_backed by (simp add: backed_def)
  have "outstanding s' (0, 1, 7) = 5"
    by (rule consume_reservation_Inr [OF c ok])
      (auto simp: demo_held_def demo_reservation_def rs_ident_def outstanding_def set_reservation_def open_on_def rs_key_def)
  with h c show ?thesis by auto
qed

end
