(* ===== verification/Taxes.thy ===== *)
theory Taxes
  imports Tables
begin

section \<open>Taxes and charges\<close>

text \<open>
  The tax part of \<open>src/src/erp/workflows/commercial/calculation_service.py\<close>: rows that are chained on
  the net total, on earlier rows or on the quantity, and the total that a stored snapshot of the rows
  gives. The main lemma: the two agree, so a document whose snapshot was calculated by the first passes
  the check of the second.
\<close>

subsection \<open>Rows\<close>

definition money :: "dec \<Rightarrow> dec result" where
  "money x = quantize round_half_up 4 x"

record tax_input =
  ti_id :: int
  ti_type :: string
  ti_rate :: dec
  ti_text :: string
  ti_account :: string
  ti_reference :: "int option"
  ti_actual :: "dec option"
  ti_included :: bool
  ti_direction :: string
  ti_valuation :: bool

record tax_line =
  tl_id :: int
  tl_type :: string
  tl_text :: string
  tl_account :: string
  tl_base :: dec
  tl_amount :: dec
  tl_running :: dec
  tl_included :: bool
  tl_direction :: string
  tl_valuation :: bool

record tax_totals =
  tt_rows :: "tax_line list"
  tt_tax :: dec
  tt_grand :: dec
  tt_valuation :: dec

definition charge_kind :: "tax_input \<Rightarrow> string" where
  "charge_kind r = replace_char (CHR '' '') (CHR ''_'') (upper (strip (ti_type r)))"

definition earlier_row :: "tax_line list \<Rightarrow> int option \<Rightarrow> tax_line option" where
  "earlier_row done ref = (case ref of None \<Rightarrow> None | Some i \<Rightarrow> List.find (\<lambda>l. tl_id l = i) done)"

text \<open>The base of a row and its amount before rounding.\<close>

definition tax_amount :: "dec \<Rightarrow> dec \<Rightarrow> tax_line list \<Rightarrow> tax_input \<Rightarrow> (dec \<times> dec) result" where
  "tax_amount net qty done r =
     (let kind = charge_kind r; rate = ti_rate r in
      if kind = ''ACTUAL''
      then let base = (case ti_actual r of None \<Rightarrow> rate | Some a \<Rightarrow> if a = 0 then rate else a) in Inr (base, base)
      else if kind = ''ON_NET_TOTAL''
      then ebind (if ti_included r
                  then if rate = 0 then Inr 0 else ddiv (dmul net rate) (dadd 100 rate)
                  else ddiv (dmul net rate) 100) (\<lambda>a. Inr (net, a))
      else if kind = ''ON_PREVIOUS_ROW_AMOUNT'' \<or> kind = ''ON_PREVIOUS_ROW_TOTAL''
      then (case earlier_row done (ti_reference r) of
              None \<Rightarrow> Inl (ValueError ''Previous-row tax calculations must reference an earlier row in the same template.'')
            | Some l \<Rightarrow>
                let base = (if kind = ''ON_PREVIOUS_ROW_AMOUNT'' then tl_amount l else tl_running l)
                in ebind (ddiv (dmul base rate) 100) (\<lambda>a. Inr (base, a)))
      else if kind = ''ON_ITEM_QUANTITY'' then Inr (qty, dmul qty rate)
      else Inl (ValueError (''Unsupported tax charge type: '' @ ti_type r)))"

record tax_fold =
  tf_rows :: "tax_line list"
  tf_running :: dec
  tf_tax :: dec
  tf_valuation :: dec

definition tax_row_step :: "dec \<Rightarrow> dec \<Rightarrow> tax_fold \<Rightarrow> tax_input \<Rightarrow> tax_fold result" where
  "tax_row_step net qty st r =
     (let direction = upper (ti_direction r) in
      if direction \<notin> set [''ADD'', ''DEDUCT''] \<or> ti_rate r < 0
      then Inl (ValueError ''Tax rows require a non-negative rate and ADD/DEDUCT direction.'')
      else ebind (tax_amount net qty (tf_rows st) r) (\<lambda>(base, exact).
           ebind (money exact) (\<lambda>amount.
             let contribution = (if direction = ''DEDUCT'' then dneg amount else amount)
             in ebind (if ti_included r then Inr (tf_running st) else money (dadd (tf_running st) contribution)) (\<lambda>running.
                ebind (money base) (\<lambda>stored_base.
                  Inr \<lparr>tf_rows = tf_rows st @
                         [\<lparr>tl_id = ti_id r, tl_type = charge_kind r, tl_text = ti_text r, tl_account = ti_account r,
                           tl_base = stored_base, tl_amount = amount, tl_running = running, tl_included = ti_included r,
                           tl_direction = direction, tl_valuation = ti_valuation r\<rparr>],
                       tf_running = running, tf_tax = dadd (tf_tax st) contribution,
                       tf_valuation = (if ti_valuation r then dadd (tf_valuation st) contribution else tf_valuation st)\<rparr>)))))"

definition calculate_tax_rows :: "dec \<Rightarrow> dec \<Rightarrow> tax_input list \<Rightarrow> tax_totals result" where
  "calculate_tax_rows net qty rows =
     (if net < 0 \<or> qty < 0 then Inl (ValueError ''Tax calculation bases cannot be negative.'')
      else let ordered = sort_key ti_id rows in
        if \<not> distinct (map ti_id ordered) then Inl (ValueError ''Tax row identifiers must be unique.'')
        else ebind (efold (tax_row_step net qty) \<lparr>tf_rows = [], tf_running = net, tf_tax = 0, tf_valuation = 0\<rparr> ordered) (\<lambda>st.
             ebind (money (tf_tax st)) (\<lambda>tax.
             ebind (money (tf_running st)) (\<lambda>grand.
             ebind (money (tf_valuation st)) (\<lambda>valuation.
               Inr \<lparr>tt_rows = tf_rows st, tt_tax = tax, tt_grand = grand, tt_valuation = valuation\<rparr>)))))"

subsection \<open>Snapshots\<close>

text \<open>A stored row; its amount is the text of the calculated amount, which reads back as the same number.\<close>

record tax_snapshot_row =
  ts_included_row :: bool
  ts_amount :: dec
  ts_direction :: string

definition snapshot_row :: "tax_line \<Rightarrow> tax_snapshot_row" where
  "snapshot_row l = \<lparr>ts_included_row = tl_included l, ts_amount = tl_amount l, ts_direction = tl_direction l\<rparr>"

definition add_snapshot_row :: "dec \<Rightarrow> tax_snapshot_row \<Rightarrow> dec" where
  "add_snapshot_row total_so_far r =
     (if ts_included_row r then total_so_far
      else dadd total_so_far (if ts_direction r = ''DEDUCT'' then dneg (ts_amount r) else ts_amount r))"

definition total_from_tax_snapshot :: "dec \<Rightarrow> tax_snapshot_row list \<Rightarrow> dec result" where
  "total_from_tax_snapshot base rows = money (foldl add_snapshot_row base rows)"

subsection \<open>Rounding that succeeds is exact on money\<close>

definition fits_money :: "dec \<Rightarrow> bool" where
  "fits_money x \<longleftrightarrow> places 4 x \<and> \<bar>x\<bar> < 10 ^ 24"

lemma money_Inr: "money x = Inr y \<Longrightarrow> fits_money y"
  using quantize_places [of round_half_up 4 x y] quantize_fits [of round_half_up 4 x y]
  by (simp add: money_def fits_money_def)

lemma money_exact: "fits_money x \<Longrightarrow> money x = Inr x"
proof -
  assume x: "fits_money x"
  then obtain m where m: "x = of_int m / 10 ^ 4" using placesE unfolding fits_money_def by blast
  have q: "quant round_half_up 4 x = x" using x by (intro quant_exact) (simp_all add: fits_money_def)
  have "round_half_up (x * 10 ^ 4) = m" by (simp add: m)
  moreover have "rat_of_int \<bar>m\<bar> < of_int (10 ^ 28)" using x by (simp add: fits_money_def m)
  then have "\<bar>m\<bar> < 10 ^ 28" by (simp only: of_int_less_iff)
  ultimately show ?thesis by (simp add: money_def quantize_def q)
qed

lemma ctx_big: "ctx (10 ^ 24) = 10 ^ 24"
  by (rule ctx_exact [of 0]) (auto simp: places_def)

lemma round_half_up_big:
  assumes "rat_of_int n \<le> \<bar>y\<bar>"
  shows "n \<le> \<bar>round_half_up y\<bar>"
proof -
  have "n \<le> round_half_up y \<or> n \<le> round_half_up (- y)"
    using assms round_half_up_mono [of "rat_of_int n"] by (cases "0 \<le> y") simp_all
  then show ?thesis by (auto simp: round_half_up_minus)
qed

text \<open>A sum that is too large for money stays too large after the context has rounded it.\<close>

lemma money_sum:
  assumes "places 4 x" "money (ctx x) = Inr y"
  shows "y = x \<and> ctx x = x \<and> fits_money x"
proof (cases "\<bar>x\<bar> < 10 ^ 24")
  case True
  then have "ctx x = x" using assms(1) by (intro ctx_exact [of 4]) simp_all
  with True assms money_exact [of x] show ?thesis by (simp add: fits_money_def)
next
  case False
  have "10 ^ 24 \<le> \<bar>ctx x\<bar>"
  proof (cases "0 \<le> x")
    case True
    then have "10 ^ 24 \<le> ctx x" using False ctx.ge_exact [OF ctx_big] by simp
    then show ?thesis by simp
  next
    case neg: False
    then have "10 ^ 24 \<le> ctx (- x)" using False ctx.ge_exact [OF ctx_big] by simp
    then show ?thesis by (simp add: ctx.rnd_minus)
  qed
  then have big: "rat_of_int (10 ^ 28) \<le> \<bar>ctx x * 10 ^ 4\<bar>" by (simp add: abs_mult)
  then have "\<not> \<bar>round_half_up (ctx x * 10 ^ 4)\<bar> < 10 ^ 28" using round_half_up_big by (simp only: not_less)
  then show ?thesis using assms(2) by (simp add: money_def quantize_def)
qed

lemma dneg_money: "fits_money x \<Longrightarrow> dneg x = - x"
  using dsub_exact [of 4 0 x] by (simp add: fits_money_def dneg_def dsub_def)

subsection \<open>The stored rows give the calculated total\<close>

text \<open>What a row adds to the payable total.\<close>

definition payable :: "tax_line \<Rightarrow> dec" where
  "payable l = (if tl_included l then 0 else if tl_direction l = ''DEDUCT'' then - tl_amount l else tl_amount l)"

lemma tax_row_stepD:
  assumes "tax_row_step net qty st r = Inr st'" "fits_money (tf_running st)"
  obtains l where "tf_rows st' = tf_rows st @ [l]" "tf_running st' = tf_running st + payable l"
    "fits_money (tf_running st')" "add_snapshot_row (tf_running st) (snapshot_row l) = tf_running st'"
proof -
  obtain base exact amount running stored where
    r: "money exact = Inr amount" and
    running: "(if ti_included r then Inr (tf_running st)
      else money (dadd (tf_running st) (if upper (ti_direction r) = ''DEDUCT'' then dneg amount else amount))) = Inr running" and
    st': "st' = \<lparr>tf_rows = tf_rows st @
                 [\<lparr>tl_id = ti_id r, tl_type = charge_kind r, tl_text = ti_text r, tl_account = ti_account r,
                   tl_base = stored, tl_amount = amount, tl_running = running, tl_included = ti_included r,
                   tl_direction = upper (ti_direction r), tl_valuation = ti_valuation r\<rparr>],
               tf_running = running, tf_tax = tf_tax st', tf_valuation = tf_valuation st'\<rparr>"
    using assms(1) by (auto simp: tax_row_step_def Let_def result_simps split: if_splits)
  have amount: "fits_money amount" using r by (rule money_Inr)
  let ?c = "if upper (ti_direction r) = ''DEDUCT'' then dneg amount else amount"
  let ?l = "\<lparr>tl_id = ti_id r, tl_type = charge_kind r, tl_text = ti_text r, tl_account = ti_account r,
                   tl_base = stored, tl_amount = amount, tl_running = running, tl_included = ti_included r,
                   tl_direction = upper (ti_direction r), tl_valuation = ti_valuation r\<rparr>"
  have c: "places 4 (tf_running st + ?c)"
    using assms(2) amount by (auto simp: fits_money_def dneg_money intro!: places_add places_minus)
  have "running = tf_running st + payable ?l \<and> fits_money running \<and> add_snapshot_row (tf_running st) (snapshot_row ?l) = running"
  proof (cases "ti_included r")
    case True
    then show ?thesis using running assms(2) by (simp add: payable_def add_snapshot_row_def snapshot_row_def)
  next
    case False
    then have "money (ctx (tf_running st + ?c)) = Inr running" using running by (simp add: dadd_def)
    from money_sum [OF c this] False amount show ?thesis
      by (auto simp: payable_def add_snapshot_row_def snapshot_row_def dadd_def dneg_money)
  qed
  with that [of ?l] st' show thesis by (metis tax_fold.select_convs(1,2))
qed

definition totals_agree :: "dec \<Rightarrow> tax_fold \<Rightarrow> bool" where
  "totals_agree net st \<longleftrightarrow>
     fits_money (tf_running st) \<and> tf_running st = net + (\<Sum>l\<leftarrow>tf_rows st. payable l) \<and>
     foldl add_snapshot_row net (map snapshot_row (tf_rows st)) = tf_running st"

lemma tax_row_step_agrees: "totals_agree net st \<Longrightarrow> tax_row_step net qty st r = Inr st' \<Longrightarrow> totals_agree net st'"
  unfolding totals_agree_def by (elim conjE, erule (1) tax_row_stepD) simp

text \<open>C22: a document whose tax snapshot is the rows that were calculated for it passes the check against
  that snapshot. The total computed from the stored rows is the grand total of the calculation, and both
  are the net total plus the amounts of the rows that are not included in the rate, a deduction negative:
  no cent is lost between the two ways of rounding, whatever the rates.\<close>

theorem calculated_total_agrees:
  assumes "calculate_tax_rows net qty rows = Inr r"
    and "fits_money net"
  shows "total_from_tax_snapshot net (map snapshot_row (tt_rows r)) = Inr (tt_grand r) \<and>
    tt_grand r = net + (\<Sum>l\<leftarrow>tt_rows r. payable l)"
proof -
  obtain st where
    loop: "efold (tax_row_step net qty) \<lparr>tf_rows = [], tf_running = net, tf_tax = 0, tf_valuation = 0\<rparr>
             (sort_key ti_id rows) = Inr st"
    and r: "money (tf_running st) = Inr (tt_grand r)" "tt_rows r = tf_rows st"
    using assms(1) by (auto simp: calculate_tax_rows_def Let_def result_simps split: if_splits)
  have "totals_agree net st"
    using loop
  proof (rule efold_invariant)
    show "totals_agree net \<lparr>tf_rows = [], tf_running = net, tf_tax = 0, tf_valuation = 0\<rparr>"
      using assms(2) by (simp add: totals_agree_def)
  qed (rule tax_row_step_agrees)
  then have st: "fits_money (tf_running st)" "tf_running st = net + (\<Sum>l\<leftarrow>tf_rows st. payable l)"
    "foldl add_snapshot_row net (map snapshot_row (tf_rows st)) = tf_running st"
    unfolding totals_agree_def by blast+
  have "tt_grand r = tf_running st" using r(1) money_exact [OF st(1)] by simp
  then show ?thesis using st r by (simp add: total_from_tax_snapshot_def)
qed

text \<open>Sales tax of 17 percent on a net total of 333.33, and a deduction that is listed before it.\<close>

definition demo_tax :: "int \<Rightarrow> string \<Rightarrow> dec \<Rightarrow> int option \<Rightarrow> string \<Rightarrow> bool \<Rightarrow> tax_input" where
  "demo_tax i kind rate ref direction included =
     \<lparr>ti_id = i, ti_type = kind, ti_rate = rate, ti_text = ''row'', ti_account = ''2200'', ti_reference = ref,
      ti_actual = None, ti_included = included, ti_direction = direction, ti_valuation = False\<rparr>"

definition demo_taxes :: "tax_input list" where
  "demo_taxes =
     [demo_tax 2 ''Actual'' 10 None ''deduct'' False, demo_tax 1 '' on net total'' 17 None ''ADD'' False]"

lemma demo_taxes_calculated:
  "map_sum id tt_grand (calculate_tax_rows (33333 / 100) 3 demo_taxes) = Inr (3799961 / 10000)"
  by code_simp

theorem calculated_total_agrees_witness:
  "\<exists>r. calculate_tax_rows (33333 / 100) 3 demo_taxes = Inr r \<and>
    total_from_tax_snapshot (33333 / 100) (map snapshot_row (tt_rows r)) = Inr (3799961 / 10000)"
proof -
  obtain r where r: "calculate_tax_rows (33333 / 100) 3 demo_taxes = Inr r" "tt_grand r = 3799961 / 10000"
    using demo_taxes_calculated by (cases "calculate_tax_rows (33333 / 100) 3 demo_taxes") simp_all
  have "fits_money (33333 / 100)" by code_simp
  from calculated_total_agrees [OF r(1) this] r show ?thesis by auto
qed

text \<open>
  An actual charge whose actual amount is zero is read as missing: the row charges its rate instead.
\<close>

theorem zero_actual_charges_the_rate:
  assumes "charge_kind r = ''ACTUAL''" and "ti_actual r = Some 0"
  shows "tax_amount net qty before r = Inr (ti_rate r, ti_rate r)"
  using assms by (simp add: tax_amount_def Let_def)

end
