(* ===== verification/Pricing.thy ===== *)
theory Pricing
  imports Taxes
begin

section \<open>Prices, discounts and shipping\<close>

text \<open>
  The class \<open>CommercialCalculationService\<close> of \<open>src/src/erp/workflows/commercial/calculation_service.py\<close>: the
  price of a line from lists, rules and promotions, its conversion to the stock unit, and the shipping
  charge of a document. The lemmas bound the discount of a line by its value and say when the line can
  still become negative, and which price wins.
\<close>

subsection \<open>Master data\<close>

record price_list_row =
  pr_tenant :: uuid
  pr_id :: uuid
  pr_name :: string
  pr_currency :: string
  pr_buying :: bool
  pr_selling :: bool
  pr_active :: bool

record item_price_row =
  ip_tenant :: uuid
  ip_id :: uuid
  ip_item :: uuid
  ip_list :: uuid
  ip_uom :: "uuid option"
  ip_rate :: dec
  ip_currency :: string
  ip_priority :: int
  ip_from :: "date option"
  ip_to :: "date option"
  ip_created :: timestamp
  ip_active :: bool

record pricing_rule_row =
  ru_tenant :: uuid
  ru_id :: uuid
  ru_item :: "uuid option"
  ru_group :: "uuid option"
  ru_list :: "uuid option"
  ru_min :: dec
  ru_percent :: bool
  ru_value :: dec
  ru_priority :: int
  ru_stackable :: bool
  ru_from :: "date option"
  ru_to :: "date option"
  ru_active :: bool

record promotion_row =
  pm_tenant :: uuid
  pm_id :: uuid
  pm_discount :: bool
  pm_percent :: bool
  pm_value :: dec
  pm_buy :: "dec option"
  pm_free :: "dec option"
  pm_item :: "uuid option"
  pm_free_item :: "uuid option"
  pm_group :: "uuid option"
  pm_from :: "date option"
  pm_to :: "date option"
  pm_active :: bool

record uom_row =
  um_tenant :: uuid
  um_id :: uuid
  um_name :: string
  um_abbreviation :: string
  um_active :: bool

record uom_conversion_row =
  uc_tenant :: uuid
  uc_from :: uuid
  uc_to :: uuid
  uc_factor :: dec
  uc_item :: "uuid option"

datatype charge_basis = ORDER_VALUE | ITEM_QTY | WEIGHT
datatype charge_rule = FIXED_CHARGE | PER_UNIT | PERCENT_CHARGE

record shipping_condition =
  sh_basis :: charge_basis
  sh_min :: "dec option"
  sh_max :: "dec option"
  sh_rule :: charge_rule
  sh_rate :: dec

text \<open>A shipping rule with its conditions in the order of their identifiers.\<close>

record shipping_rule_row =
  sr_tenant :: uuid
  sr_id :: uuid
  sr_country :: "string option"
  sr_state :: "string option"
  sr_active :: bool
  sr_conditions :: "shipping_condition list"

record price_settings =
  pt_tenant :: uuid
  pt_buying :: "string option"
  pt_selling :: "string option"

record catalogue =
  price_lists :: "price_list_row list"
  item_prices :: "item_price_row list"
  pricing_rules :: "pricing_rule_row list"
  promotions :: "promotion_row list"
  uoms :: "uom_row list"
  uom_conversions :: "uom_conversion_row list"
  shipping_rules :: "shipping_rule_row list"
  tenant_settings :: "price_settings list"

definition in_period :: "date option \<Rightarrow> date option \<Rightarrow> date \<Rightarrow> bool" where
  "in_period from to d \<longleftrightarrow>
     (case from of None \<Rightarrow> True | Some f \<Rightarrow> f \<le> d) \<and> (case to of None \<Rightarrow> True | Some u \<Rightarrow> d \<le> u)"

definition none_or :: "'a option \<Rightarrow> 'a option \<Rightarrow> bool" where
  "none_or x y \<longleftrightarrow> x = None \<or> x = y"

subsection \<open>Units of measure\<close>

definition uom_called :: "string \<Rightarrow> uom_row \<Rightarrow> bool" where
  "uom_called name u \<longleftrightarrow> lower (um_abbreviation u) = lower name \<or> lower (um_name u) = lower name"

text \<open>A conversion of the item itself comes before one for all items.\<close>

definition find_conversion :: "uuid \<Rightarrow> item_row \<Rightarrow> uuid \<Rightarrow> uuid \<Rightarrow> catalogue \<Rightarrow> uom_conversion_row option" where
  "find_conversion t item a b c =
     first_row (sort_key (\<lambda>r. if uc_item r = None then 1 else 0 :: nat)
       (filter (\<lambda>r. uc_tenant r = t \<and> uc_from r = a \<and> uc_to r = b \<and> none_or (uc_item r) (Some (it_id item)))
         (uom_conversions c)))"

definition resolve_uom_factor :: "uuid \<Rightarrow> item_row \<Rightarrow> uuid option \<Rightarrow> catalogue \<Rightarrow> dec result" where
  "resolve_uom_factor t item uom c =
     (case uom of
        None \<Rightarrow> Inr 1
      | Some u \<Rightarrow>
          (case first_row (filter (\<lambda>r. um_tenant r = t \<and> um_id r = u \<and> um_active r) (uoms c)) of
             None \<Rightarrow> Inl (ValueError ''Line unit of measure must be active and belong to this workspace.'')
           | Some selected \<Rightarrow>
               (case first_row (filter (\<lambda>r. um_tenant r = t \<and> um_active r \<and> uom_called (it_uom item) r) (uoms c)) of
                  None \<Rightarrow>
                    if uom_called (it_uom item) selected then Inr 1
                    else Inl (ValueError (''Stock UOM '' @ quoted (it_uom item) @ '' is not configured in this workspace.''))
                | Some stock \<Rightarrow>
                    if um_id selected = um_id stock then Inr 1
                    else (case find_conversion t item (um_id selected) (um_id stock) c of
                            Some r \<Rightarrow> Inr (uc_factor r)
                          | None \<Rightarrow>
                              (case find_conversion t item (um_id stock) (um_id selected) c of
                                 Some r \<Rightarrow> ddiv 1 (uc_factor r)
                               | None \<Rightarrow> Inl (ValueError
                                   ''No tenant/item UOM conversion exists between the selected unit and stock unit.''))))))"

subsection \<open>Rates\<close>

record line_input =
  pq_item :: uuid
  pq_qty :: dec
  pq_price :: "dec option"
  pq_uom :: "uuid option"
  pq_list :: "uuid option"

text \<open>
  The order of the candidate prices: \<open>(uom_id = :uom) DESC\<close>, which in PostgreSQL puts a null comparison, a
  price without a unit, before a match; then the priority, the latest start with open starts last, and
  the latest creation.
\<close>

definition order_prices :: "uuid option \<Rightarrow> item_price_row list \<Rightarrow> item_price_row list" where
  "order_prices uom ps =
     sort_key (\<lambda>r. if uom \<noteq> None \<and> ip_uom r \<noteq> None then 1 else 0 :: nat)
       (sort_key ip_priority
         (sort_key (\<lambda>r. if ip_from r = None then 1 else 0 :: nat)
           (sort_key (\<lambda>r. - or_else (ip_from r) 0)
             (sort_key (\<lambda>r. - ip_created r) ps))))"

definition candidate_prices :: "uuid \<Rightarrow> string \<Rightarrow> date \<Rightarrow> uuid \<Rightarrow> line_input \<Rightarrow> catalogue \<Rightarrow> item_price_row list" where
  "candidate_prices t currency d plist l c =
     order_prices (pq_uom l) (filter (\<lambda>r. ip_tenant r = t \<and> ip_item r = pq_item l \<and> ip_list r = plist \<and>
       ip_currency r = currency \<and> ip_active r \<and> none_or (ip_uom r) (pq_uom l) \<and>
       in_period (ip_from r) (ip_to r) d) (item_prices c))"

definition find_item_price ::
    "uuid \<Rightarrow> string \<Rightarrow> date \<Rightarrow> uuid option \<Rightarrow> line_input \<Rightarrow> catalogue \<Rightarrow> item_price_row option result" where
  "find_item_price t currency d plist l c =
     (case plist of
        None \<Rightarrow> Inr None
      | Some p \<Rightarrow>
          (case candidate_prices t currency d p l c of
             [] \<Rightarrow> Inr None
           | [r] \<Rightarrow> Inr (Some r)
           | r # r' # rs \<Rightarrow>
               if ip_uom r = ip_uom r' \<and> ip_priority r = ip_priority r' \<and> ip_from r = ip_from r'
               then Inl (ValueError ''Ambiguous overlapping item prices; retire or correct the competing price records.'')
               else Inr (Some r)))"

definition line_rate :: "item_row \<Rightarrow> item_price_row option \<Rightarrow> line_input \<Rightarrow> dec \<Rightarrow> dec result" where
  "line_rate item price l factor =
     (let rate = (case price of
                    Some r \<Rightarrow> if ip_uom r = None \<and> pq_uom l \<noteq> None then dmul (ip_rate r) factor else ip_rate r
                  | None \<Rightarrow> or_else (pq_price l) (it_rate item))
      in if rate < 0 then Inl (ValueError ''Unit price cannot be negative.'') else Inr rate)"

subsection \<open>Discounts\<close>

definition eligible_rules ::
    "uuid \<Rightarrow> date \<Rightarrow> uuid option \<Rightarrow> item_row \<Rightarrow> dec \<Rightarrow> catalogue \<Rightarrow> pricing_rule_row list" where
  "eligible_rules t d plist item qty c =
     sort_key ru_priority (sort_key ru_id
       (filter (\<lambda>r. ru_tenant r = t \<and> ru_active r \<and> none_or (ru_list r) plist \<and> none_or (ru_item r) (Some (it_id item)) \<and>
          none_or (ru_group r) (it_group item) \<and> ru_min r \<le> qty \<and> in_period (ru_from r) (ru_to r) d) (pricing_rules c)))"

definition applied_rules :: "pricing_rule_row list \<Rightarrow> pricing_rule_row list result" where
  "applied_rules rs =
     (case rs of
        r # r' # rs' \<Rightarrow>
          if list_all ru_stackable rs then Inr rs
          else if ru_priority r = ru_priority r'
          then Inl (ValueError ''Multiple pricing rules match at the same priority; mark the set stackable or resolve the ambiguity.'')
          else Inr [r]
      | _ \<Rightarrow> Inr rs)"

definition discount_amount :: "bool \<Rightarrow> dec \<Rightarrow> dec \<Rightarrow> dec result" where
  "discount_amount percent v base = (if percent then ddiv (dmul base v) 100 else Inr v)"

definition apply_rule :: "dec \<Rightarrow> dec \<times> dec \<Rightarrow> pricing_rule_row \<Rightarrow> (dec \<times> dec) result" where
  "apply_rule qty st r =
     (let (discount, remaining) = st in
      ebind (discount_amount (ru_percent r) (ru_value r) remaining) (\<lambda>exact.
      ebind (money exact) (\<lambda>a.
      ebind (money remaining) (\<lambda>b.
        let d = min a b in
        Inr (dadd discount (dmul d qty), max 0 (dsub remaining d))))))"

definition rules_discount :: "dec \<Rightarrow> dec \<Rightarrow> dec \<Rightarrow> pricing_rule_row list \<Rightarrow> dec result" where
  "rules_discount rate qty pre rs =
     ebind (efold (apply_rule qty) (0, rate) rs) (\<lambda>(discount, remaining).
     ebind (money discount) (\<lambda>a. ebind (money pre) (\<lambda>b. Inr (min a b))))"

text \<open>Comparing with a missing group is \<open>IS NULL\<close>: for an item without a group every promotion without a
  group matches, also one for another item.\<close>

definition matching_promotions :: "uuid \<Rightarrow> date \<Rightarrow> item_row \<Rightarrow> catalogue \<Rightarrow> promotion_row list" where
  "matching_promotions t d item c =
     sort_key pm_id (filter (\<lambda>p. pm_tenant p = t \<and> pm_active p \<and>
       (pm_item p = Some (it_id item) \<or> pm_group p = it_group item \<or>
        (pm_item p = None \<and> pm_group p = None)) \<and>
       in_period (pm_from p) (pm_to p) d) (promotions c))"

definition the_promotion :: "promotion_row list \<Rightarrow> promotion_row option result" where
  "the_promotion ps =
     (case ps of [] \<Rightarrow> Inr None | [p] \<Rightarrow> Inr (Some p)
      | _ \<Rightarrow> Inl (ValueError ''Multiple promotions match this line; a single deterministic promotion is required.''))"

definition promoted_discount :: "dec \<Rightarrow> promotion_row option \<Rightarrow> dec \<Rightarrow> dec result" where
  "promoted_discount pre promotion discount =
     (case promotion of
        None \<Rightarrow> Inr discount
      | Some p \<Rightarrow>
          if pm_discount p
          then ebind (discount_amount (pm_percent p) (pm_value p) pre) (\<lambda>exact.
               ebind (money pre) (\<lambda>a. ebind (money exact) (\<lambda>b. Inr (min a (dadd discount b)))))
          else Inr discount)"

subsection \<open>Lines\<close>

record calculated_line =
  pc_item :: uuid
  pc_list :: "uuid option"
  pc_entered :: dec
  pc_uom :: "uuid option"
  pc_factor :: dec
  pc_stock_qty :: dec
  pc_base_rate :: dec
  pc_list_rate :: dec
  pc_price :: "uuid option"
  pc_rule :: "uuid option"
  pc_promotion :: "uuid option"
  pc_discount :: dec
  pc_total :: dec
  pc_free :: bool

text \<open>What a document is calculated for: tenant, buying or selling, currency, date and chosen list.\<close>

record price_context =
  px_tenant :: uuid
  px_buying :: bool
  px_currency :: string
  px_date :: date
  px_list :: "uuid option"

definition allowed_item :: "price_context \<Rightarrow> item_row \<Rightarrow> bool" where
  "allowed_item x r \<longleftrightarrow> it_tenant r = px_tenant x \<and> it_active r \<and> (if px_buying x then it_purchase r else it_sales r)"

definition selected_list :: "price_context \<Rightarrow> line_input \<Rightarrow> uuid option" where
  "selected_list x l = (case pq_list l of Some p \<Rightarrow> Some p | None \<Rightarrow> px_list x)"

definition calculate_line ::
    "price_context \<Rightarrow> catalogue \<Rightarrow> item_row \<Rightarrow> line_input \<Rightarrow> (calculated_line \<times> promotion_row option) result" where
  "calculate_line x c item l =
     (let plist = selected_list x l; qty = pq_qty l in
      ebind (resolve_uom_factor (px_tenant x) item (pq_uom l) c) (\<lambda>factor.
      ebind (find_item_price (px_tenant x) (px_currency x) (px_date x) plist l c) (\<lambda>price.
      ebind (line_rate item price l factor) (\<lambda>rate.
      ebind (applied_rules (eligible_rules (px_tenant x) (px_date x) plist item qty c)) (\<lambda>rules.
        let pre = dmul rate qty in
      ebind (rules_discount rate qty pre rules) (\<lambda>d.
      ebind (the_promotion (matching_promotions (px_tenant x) (px_date x) item c)) (\<lambda>promotion.
      ebind (promoted_discount pre promotion d) (\<lambda>discount.
      ebind (money (dmul qty factor)) (\<lambda>stock_qty.
      ebind (money rate) (\<lambda>base_rate.
      ebind (money (case price of Some r \<Rightarrow> ip_rate r | None \<Rightarrow> rate)) (\<lambda>list_rate.
      ebind (money (dsub pre discount)) (\<lambda>line_total.
        Inr (\<lparr>pc_item = pq_item l, pc_list = plist, pc_entered = qty, pc_uom = pq_uom l, pc_factor = factor,
              pc_stock_qty = stock_qty, pc_base_rate = base_rate, pc_list_rate = list_rate,
              pc_price = map_option ip_id price, pc_rule = map_option ru_id (first_row rules),
              pc_promotion = map_option pm_id promotion, pc_discount = discount, pc_total = line_total,
              pc_free = False\<rparr>, promotion)))))))))))))"

text \<open>Free goods of a promotion: an extra line without a price.\<close>

definition free_line ::
    "price_context \<Rightarrow> db \<Rightarrow> line_input \<Rightarrow> promotion_row option \<Rightarrow> (calculated_line \<times> dec) option result" where
  "free_line x s l promotion =
     (case promotion of
        None \<Rightarrow> Inr None
      | Some p \<Rightarrow>
          if pm_discount p then Inr None
          else (case (pm_buy p, pm_free p) of
                  (Some buy, Some free) \<Rightarrow>
                    ebind (ddiv (pq_qty l) buy) (\<lambda>sets.
                      let free_qty = dmul (of_int \<lfloor>sets\<rfloor>) free in
                      if free_qty > 0
                      then (case first_row (filter (\<lambda>r. allowed_item x r \<and> Some (it_id r) = pm_free_item p) (items s)) of
                              None \<Rightarrow> Inl (ValueError ''Eligible buy-x-get-y promotion has no active tenant-owned free sales item.'')
                            | Some r \<Rightarrow>
                                Inr (Some (\<lparr>pc_item = it_id r, pc_list = selected_list x l, pc_entered = free_qty, pc_uom = None,
                                  pc_factor = 1, pc_stock_qty = free_qty, pc_base_rate = 0, pc_list_rate = 0, pc_price = None,
                                  pc_rule = None, pc_promotion = Some (pm_id p), pc_discount = 0, pc_total = 0,
                                  pc_free = True\<rparr>, dmul free_qty (it_weight r))))
                      else Inr None)
                | _ \<Rightarrow> Inl TypeError))"

definition add_calculated ::
    "price_context \<Rightarrow> catalogue \<Rightarrow> db \<Rightarrow> calculated_line list \<times> dec \<Rightarrow> line_input \<Rightarrow> (calculated_line list \<times> dec) result" where
  "add_calculated x c s st l =
     (let (done, weight) = st in
      if pq_qty l \<le> 0 then Inl (ValueError ''Line quantity must be positive.'')
      else (case first_row (filter (\<lambda>r. allowed_item x r \<and> it_id r = pq_item l) (items s)) of
              None \<Rightarrow> Inl KeyError
            | Some item \<Rightarrow>
                ebind (calculate_line x c item l) (\<lambda>(line, promotion).
                  let w = dadd weight (dmul (pq_qty l) (it_weight item)) in
                  ebind (free_line x s l promotion) (\<lambda>f.
                    Inr (case f of
                           None \<Rightarrow> (done @ [line], w)
                         | Some (free, extra) \<Rightarrow> (done @ [line, free], dadd w extra))))))"

subsection \<open>Shipping\<close>

text \<open>\<open>casefold\<close> of the texts used as countries and states, as lower case.\<close>

definition same_place :: "string option \<Rightarrow> string option \<Rightarrow> bool" where
  "same_place rule given \<longleftrightarrow>
     (case rule of None \<Rightarrow> True | Some r \<Rightarrow> r = [] \<or> lower r = lower (or_else given []))"

definition condition_charge :: "dec \<Rightarrow> dec \<Rightarrow> dec \<Rightarrow> dec \<Rightarrow> shipping_condition \<Rightarrow> dec result" where
  "condition_charge subtotal qty weight charge k =
     (let base = (case sh_basis k of ORDER_VALUE \<Rightarrow> subtotal | ITEM_QTY \<Rightarrow> qty | WEIGHT \<Rightarrow> weight) in
      if (case sh_min k of None \<Rightarrow> False | Some m \<Rightarrow> base < m) \<or> (case sh_max k of None \<Rightarrow> False | Some m \<Rightarrow> base > m)
      then Inr charge
      else ebind (case sh_rule k of FIXED_CHARGE \<Rightarrow> Inr (sh_rate k) | PER_UNIT \<Rightarrow> Inr (dmul (sh_rate k) base)
                  | PERCENT_CHARGE \<Rightarrow> ddiv (dmul subtotal (sh_rate k)) 100) (\<lambda>a. Inr (dadd charge a)))"

definition shipping_charge ::
    "uuid \<Rightarrow> uuid option \<Rightarrow> string option \<Rightarrow> string option \<Rightarrow> dec \<Rightarrow> dec \<Rightarrow> dec \<Rightarrow> catalogue \<Rightarrow> dec result" where
  "shipping_charge t rule country state subtotal qty weight c =
     (case rule of
        None \<Rightarrow> Inr 0
      | Some i \<Rightarrow>
          (case first_row (filter (\<lambda>r. sr_tenant r = t \<and> sr_id r = i \<and> sr_active r) (shipping_rules c)) of
             None \<Rightarrow> Inl (ValueError ''Shipping rule must be active and belong to this workspace.'')
           | Some r \<Rightarrow>
               if \<not> same_place (sr_country r) country
               then Inl (ValueError ''Selected shipping rule does not match the destination country.'')
               else if \<not> same_place (sr_state r) state
               then Inl (ValueError ''Selected shipping rule does not match the destination state.'')
               else ebind (efold (condition_charge subtotal qty weight) 0 (sr_conditions r)) money))"

subsection \<open>Documents\<close>

record calculation =
  pz_buying :: bool
  pz_currency :: string
  pz_list :: "uuid option"
  pz_lines :: "calculated_line list"
  pz_subtotal :: dec
  pz_discounts :: dec
  pz_shipping :: dec
  pz_total :: dec

definition usable_list :: "uuid \<Rightarrow> bool \<Rightarrow> string \<Rightarrow> price_list_row \<Rightarrow> bool" where
  "usable_list t buying currency r \<longleftrightarrow>
     pr_tenant r = t \<and> pr_active r \<and> pr_currency r = currency \<and> (if buying then pr_buying r else pr_selling r)"

text \<open>The list that the tenant's settings name, when the document and some line name none.\<close>

definition default_list ::
    "uuid \<Rightarrow> bool \<Rightarrow> string \<Rightarrow> uuid option \<Rightarrow> bool \<Rightarrow> line_input list \<Rightarrow> catalogue \<Rightarrow> uuid option result" where
  "default_list t buying currency plist use_default ls c =
     (if plist = None \<and> use_default \<and> list_ex (\<lambda>l. pq_list l = None) ls
      then (case first_row (filter (\<lambda>r. pt_tenant r = t) (tenant_settings c)) of
              None \<Rightarrow> Inr None
            | Some r \<Rightarrow>
                (case (if buying then pt_buying r else pt_selling r) of
                   None \<Rightarrow> Inr None
                 | Some name \<Rightarrow>
                     if name = [] then Inr None
                     else (case first_row (filter (\<lambda>p. usable_list t buying currency p \<and> pr_name p = name) (price_lists c)) of
                             None \<Rightarrow> Inl (ValueError (''Configured default '' @ (if buying then ''buying'' else ''selling'') @
                               '' price list is not active or does not match document currency '' @ currency @ ''.''))
                           | Some p \<Rightarrow> Inr (Some (pr_id p)))))
      else Inr plist)"

definition usable_lists :: "price_context \<Rightarrow> line_input list \<Rightarrow> catalogue \<Rightarrow> bool" where
  "usable_lists x ls c =
     list_all (\<lambda>l. case selected_list x l of
         None \<Rightarrow> True
       | Some p \<Rightarrow> list_ex (\<lambda>r. usable_list (px_tenant x) (px_buying x) (px_currency x) r \<and> pr_id r = p) (price_lists c)) ls"

definition calculate ::
    "env \<Rightarrow> uuid \<Rightarrow> string \<Rightarrow> string \<Rightarrow> line_input list \<Rightarrow> uuid option \<Rightarrow> uuid option \<Rightarrow> string option \<Rightarrow> string option
     \<Rightarrow> date option \<Rightarrow> bool \<Rightarrow> catalogue \<Rightarrow> db \<Rightarrow> calculation result" where
  "calculate e t direction currency ls plist shipping country state d use_default c s =
     (let kind = upper direction in
      if kind \<notin> set [''BUYING'', ''SELLING''] then Inl (ValueError ''Calculation context must be BUYING or SELLING.'')
      else if ls = [] then Inl (ValueError ''At least one commercial line is required.'')
      else
        let buying = (kind = ''BUYING'') in
        ebind (default_list t buying currency plist use_default ls c) (\<lambda>chosen.
          let x = \<lparr>px_tenant = t, px_buying = buying, px_currency = currency, px_date = or_else d (today e), px_list = chosen\<rparr> in
          if \<not> usable_lists x ls c
          then Inl (ValueError ''Price list must be active, tenant-owned, context-compatible, and use the document currency.'')
          else if list_ex (\<lambda>l. \<not> list_ex (\<lambda>r. allowed_item x r \<and> it_id r = pq_item l) (items s)) ls
          then Inl (ValueError ''Every line must reference an active item allowed in this document context.'')
          else
            ebind (efold (add_calculated x c s) ([], 0) ls) (\<lambda>(lines, weight).
              let subtotal = dsum (map pc_total lines) in
              ebind (shipping_charge t shipping country state subtotal (dsum (map pc_entered lines)) weight c) (\<lambda>charge.
              ebind (money subtotal) (\<lambda>sub.
              ebind (money (dsum (map pc_discount lines))) (\<lambda>discounts.
              ebind (money (dadd subtotal charge)) (\<lambda>grand.
                Inr \<lparr>pz_buying = buying, pz_currency = currency, pz_list = chosen, pz_lines = lines, pz_subtotal = sub,
                     pz_discounts = discounts, pz_shipping = charge, pz_total = grand\<rparr>)))))))"

subsection \<open>Bounds\<close>

text \<open>The check constraints of the tables.\<close>

definition percentage :: "bool \<Rightarrow> dec \<Rightarrow> bool" where
  "percentage percent v \<longleftrightarrow> 0 \<le> v \<and> (percent \<longrightarrow> v \<le> 100)"

definition catalogue_ok :: "catalogue \<Rightarrow> bool" where
  "catalogue_ok c \<longleftrightarrow>
     list_all (\<lambda>r. percentage (ru_percent r) (ru_value r)) (pricing_rules c) \<and>
     list_all (\<lambda>p. percentage (pm_percent p) (pm_value p)) (promotions c) \<and>
     list_all (\<lambda>r. 0 \<le> ip_rate r) (item_prices c) \<and> list_all (\<lambda>r. 0 < uc_factor r) (uom_conversions c)"

lemma money_round: "money x = Inr y \<Longrightarrow> y = quant round_half_up 4 x"
  by (auto simp: money_def dest: quantize_Inr [THEN iffD1])

lemma money_nonneg: "money x = Inr y \<Longrightarrow> 0 \<le> x \<Longrightarrow> 0 \<le> y"
  using money_round quant_up.rnd_nonneg by blast

lemma discount_amount_nonneg:
  "discount_amount percent v base = Inr a \<Longrightarrow> percentage percent v \<Longrightarrow> 0 \<le> base \<Longrightarrow> 0 \<le> a"
  by (auto simp: discount_amount_def percentage_def ddiv_def dmul_def intro!: ctx.rnd_nonneg divide_nonneg_nonneg split: if_splits)

lemma apply_rule_nonneg:
  assumes "apply_rule qty (discount, remaining) r = Inr (discount', remaining')" "percentage (ru_percent r) (ru_value r)"
    and "0 \<le> qty" "0 \<le> discount" "0 \<le> remaining"
  shows "0 \<le> discount' \<and> 0 \<le> remaining'"
proof -
  obtain exact a b where a: "discount_amount (ru_percent r) (ru_value r) remaining = Inr exact" "money exact = Inr a"
    "money remaining = Inr b" and d: "discount' = dadd discount (dmul (min a b) qty)" "0 \<le> remaining'"
    using assms(1) by (auto simp: apply_rule_def ebind_eq_Inr Let_def)
  have "0 \<le> exact" using discount_amount_nonneg [OF a(1) assms(2,5)] .
  then have "0 \<le> min a b" using money_nonneg a assms(5) by auto
  then have "0 \<le> dmul (min a b) qty" unfolding dmul_def using assms(3) by (intro ctx.rnd_nonneg mult_nonneg_nonneg)
  then have "0 \<le> discount'" unfolding d(1) dadd_def using assms(4) by (intro ctx.rnd_nonneg add_nonneg_nonneg)
  with d(2) show ?thesis by blast
qed

lemma rules_discount_bounds:
  assumes "rules_discount rate qty pre rs = Inr d" "0 \<le> rate" "0 \<le> qty" "0 \<le> pre"
    and "list_all (\<lambda>r. percentage (ru_percent r) (ru_value r)) rs"
  shows "0 \<le> d \<and> (\<exists>b. money pre = Inr b \<and> d \<le> b)"
proof -
  obtain discount remaining a b where
    loop: "efold (apply_rule qty) (0, rate) rs = Inr (discount, remaining)" and
    d: "money discount = Inr a" "money pre = Inr b" "d = min a b"
    using assms(1) by (auto simp: rules_discount_def ebind_eq_Inr)
  have "(\<lambda>(discount, remaining). 0 \<le> discount \<and> 0 \<le> remaining) (discount, remaining)"
    using loop
  proof (rule efold_invariant)
    fix st r st'
    assume "r \<in> set rs" "case st of (discount, remaining) \<Rightarrow> 0 \<le> discount \<and> 0 \<le> remaining" "apply_rule qty st r = Inr st'"
    then show "case st' of (discount, remaining) \<Rightarrow> 0 \<le> discount \<and> 0 \<le> remaining"
      using apply_rule_nonneg [of qty "fst st" "snd st" r "fst st'" "snd st'"] assms(3,5)
      by (auto simp: list_all_iff case_prod_unfold)
  qed (use assms(2) in simp)
  then have "0 \<le> discount" by simp
  then have "0 \<le> a" "0 \<le> b" using money_nonneg d assms(4) by blast+
  with d show ?thesis by simp
qed

lemma promoted_discount_bounds:
  assumes "promoted_discount pre p d = Inr d'" "0 \<le> d" "money pre = Inr b" "d \<le> b" "0 \<le> pre"
    and "\<And>q. p = Some q \<Longrightarrow> percentage (pm_percent q) (pm_value q)"
  shows "0 \<le> d' \<and> d' \<le> b"
proof (cases "\<exists>q. p = Some q \<and> pm_discount q")
  case True
  then obtain q exact v where q: "p = Some q" and v: "discount_amount (pm_percent q) (pm_value q) pre = Inr exact"
    "money exact = Inr v" "d' = min b (dadd d v)"
    using assms(1,3) by (auto simp: promoted_discount_def ebind_eq_Inr)
  have "0 \<le> exact" using discount_amount_nonneg [OF v(1) assms(6) [OF q] assms(5)] .
  then have "0 \<le> v" using money_nonneg v(2) by blast
  then have "0 \<le> dadd d v" using assms(2) by (simp add: dadd_def ctx.rnd_nonneg)
  then show ?thesis using v(3) money_nonneg [OF assms(3,5)] by simp
next
  case False
  then show ?thesis using assms(1,2,4) by (auto simp: promoted_discount_def split: option.splits)
qed

text \<open>A discount is at most the rounded value of the line, so what is left is at least minus half of the last
  place, which rounds to minus one in the last place.\<close>

lemma half_place: "ctx (- (5 / 10 ^ 5)) = - (5 / 10 ^ 5)"
  by (rule ctx_exact [of 5]) (auto simp: places_def)

lemma remainder_bound:
  assumes "money pre = Inr b" "d \<le> b" "money (dsub pre d) = Inr v"
  shows "- (1 / 10 ^ 4) \<le> v"
proof -
  have "\<bar>quant round_half_up 4 pre - pre\<bar> \<le> 1 / (2 * 10 ^ 4)"
    by (rule quant_close) (rule round_half_up_close)
  then have "quant round_half_up 4 pre - pre \<le> 1 / (2 * 10 ^ 4)" by (rule order_trans [OF abs_ge_self])
  then have "- (5 / 10 ^ 5) \<le> pre - d" using money_round [OF assms(1)] assms(2) by simp
  then have "- (5 / 10 ^ 5) \<le> dsub pre d" unfolding dsub_def by (intro ctx.ge_exact half_place)
  then have "quant round_half_up 4 (- (5 / 10 ^ 5)) \<le> quant round_half_up 4 (dsub pre d)" by (rule quant_up.rnd_mono)
  moreover have "quant round_half_up 4 (- (5 / 10 ^ 5)) = - (1 / 10 ^ 4)" by code_simp
  ultimately show ?thesis using money_round [OF assms(3)] by simp
qed

definition bounded_line :: "calculated_line \<Rightarrow> bool" where
  "bounded_line l \<longleftrightarrow> 0 \<le> pc_discount l \<and> - (1 / 10 ^ 4) \<le> pc_total l"

lemma eligible_rules_subset: "set (eligible_rules t d plist item qty c) \<subseteq> set (pricing_rules c)"
  by (auto simp: eligible_rules_def)

lemma applied_rules_subset: "applied_rules rs = Inr rs' \<Longrightarrow> set rs' \<subseteq> set rs"
  by (auto simp: applied_rules_def split: list.splits if_splits)

lemma the_promotion_in: "the_promotion (matching_promotions t d item c) = Inr (Some p) \<Longrightarrow> p \<in> set (promotions c)"
proof -
  have "set (matching_promotions t d item c) \<subseteq> set (promotions c)" by (auto simp: matching_promotions_def)
  then show "the_promotion (matching_promotions t d item c) = Inr (Some p) \<Longrightarrow> ?thesis"
    by (auto simp: the_promotion_def split: list.splits)
qed

lemma line_rate_nonneg: "line_rate item price l factor = Inr rate \<Longrightarrow> 0 \<le> rate"
  by (auto simp: line_rate_def Let_def split: if_splits)

lemma calculate_line_bounds:
  assumes "calculate_line x c item l = Inr (line, promotion)" "catalogue_ok c" "0 < pq_qty l"
  shows "bounded_line line"
proof -
  obtain rate rules d factor price where
    rate: "line_rate item price l factor = Inr rate" and
    rules: "applied_rules (eligible_rules (px_tenant x) (px_date x) (selected_list x l) item (pq_qty l) c) = Inr rules" and
    d: "rules_discount rate (pq_qty l) (dmul rate (pq_qty l)) rules = Inr d" and
    p: "the_promotion (matching_promotions (px_tenant x) (px_date x) item c) = Inr promotion" and
    d': "promoted_discount (dmul rate (pq_qty l)) promotion d = Inr (pc_discount line)" and
    total_line: "money (dsub (dmul rate (pq_qty l)) (pc_discount line)) = Inr (pc_total line)"
    using assms(1) by (auto simp: calculate_line_def Let_def ebind_eq_Inr)
  note rate0 = line_rate_nonneg [OF rate]
  let ?pre = "dmul rate (pq_qty l)"
  have pre: "0 \<le> ?pre" unfolding dmul_def using rate0 assms(3) by (intro ctx.rnd_nonneg mult_nonneg_nonneg) simp_all
  have "set rules \<subseteq> set (pricing_rules c)"
    using applied_rules_subset [OF rules] eligible_rules_subset by blast
  then have "list_all (\<lambda>r. percentage (ru_percent r) (ru_value r)) rules"
    using assms(2) by (auto simp: catalogue_ok_def list_all_iff)
  from rules_discount_bounds [OF d rate0 _ pre this] assms(3)
  obtain b where b: "0 \<le> d" "money ?pre = Inr b" "d \<le> b" by auto
  have "percentage (pm_percent q) (pm_value q)" if "promotion = Some q" for q
    using the_promotion_in [OF p [unfolded that]] assms(2) by (simp add: catalogue_ok_def list_all_iff)
  from promoted_discount_bounds [OF d' b pre this] have "0 \<le> pc_discount line" "pc_discount line \<le> b" by simp_all
  with remainder_bound [OF b(2) _ total_line] show ?thesis by (simp add: bounded_line_def)
qed

lemma add_calculated_bounds:
  assumes "add_calculated x c s (done, weight) l = Inr (done', weight')" "catalogue_ok c" "list_all bounded_line done"
  shows "list_all bounded_line done'"
proof -
  obtain item line promotion f where
    l: "calculate_line x c item l = Inr (line, promotion)" and qty: "0 < pq_qty l" and
    f: "free_line x s l promotion = Inr f" and
    done': "done' = done @ line # (case f of None \<Rightarrow> [] | Some g \<Rightarrow> [fst g])"
    using assms(1) by (auto simp: add_calculated_def Let_def ebind_eq_Inr split: if_splits option.splits prod.splits)
  have "bounded_line (fst g)" if "f = Some g" for g
    using f that by (auto simp: free_line_def bounded_line_def ebind_eq_Inr Let_def split: option.splits if_splits)
  then show ?thesis
    using calculate_line_bounds [OF l assms(2) qty] assms(3) by (auto simp: done' split: option.split)
qed

subsection \<open>Properties\<close>

text \<open>C21: whatever lists, rules and promotions apply, no line of a calculated document has a negative discount, and
  no line is below minus one in the last place of money: the discounts never exceed the rounded value of
  the line.\<close>

theorem discounts_are_bounded:
  assumes "calculate e t direction currency ls plist shipping country state d use_default c s = Inr r"
    and "catalogue_ok c"
  shows "list_all bounded_line (pz_lines r)"
proof -
  obtain x lines weight where
    loop: "efold (add_calculated x c s) ([], 0) ls = Inr (lines, weight)" and r: "pz_lines r = lines"
    using assms(1) by (auto simp: calculate_def Let_def ebind_eq_Inr split: if_splits)
  have "(\<lambda>(done, weight). list_all bounded_line done) (lines, weight)"
    using loop
  proof (rule efold_invariant)
    fix st l st'
    assume "case st of (done, weight) \<Rightarrow> list_all bounded_line done" "add_calculated x c s st l = Inr st'"
    then show "case st' of (done, weight) \<Rightarrow> list_all bounded_line done"
      using add_calculated_bounds [of x c s "fst st" "snd st" l "fst st'" "snd st'"] assms(2)
      by (simp add: case_prod_unfold)
  qed simp
  with r show ?thesis by simp
qed

text \<open>An item of 0.0101 per piece, half a piece, and a rule that discounts everything.\<close>

definition cheap_item :: item_row where
  "cheap_item = \<lparr>it_tenant = 0, it_id = 1, it_code = ''C'', it_name = ''N'', it_uom = ''U'', it_rate = 101 / 10000,
     it_group = None, it_weight = 0, it_purchase = True, it_sales = True, it_active = True\<rparr>"

definition all_off :: pricing_rule_row where
  "all_off = \<lparr>ru_tenant = 0, ru_id = 1, ru_item = None, ru_group = None, ru_list = None, ru_min = 1 / 10000, ru_percent = True,
     ru_value = 100, ru_priority = 1, ru_stackable = False, ru_from = None, ru_to = None, ru_active = True\<rparr>"

definition small_catalogue :: catalogue where
  "small_catalogue = \<lparr>price_lists = [], item_prices = [], pricing_rules = [all_off], promotions = [], uoms = [],
     uom_conversions = [], shipping_rules = [], tenant_settings = []\<rparr>"

definition price_env :: env where
  "price_env = \<lparr>today = 739800, now = 0, sha256 = (\<lambda>x. x), dec_str = (\<lambda>d. ''1''), time_str = (\<lambda>x. ''t''),
     cfg_tier1 = 0, cfg_tier2 = 0\<rparr>"

definition half_piece :: "calculation result" where
  "half_piece = calculate price_env 0 ''BUYING'' ''USD'' [\<lparr>pq_item = 1, pq_qty = 1 / 2, pq_price = None, pq_uom = None, pq_list = None\<rparr>]
     None None None None None False small_catalogue (empty_db\<lparr>items := [cheap_item]\<rparr>)"

text \<open>The whole value is discounted, rounded up: the document asks for minus a hundredth of a cent.\<close>

theorem full_discount_is_negative:
  "case half_piece of Inl e \<Rightarrow> False | Inr r \<Rightarrow> pz_total r = - (1 / 10000) \<and> map pc_discount (pz_lines r) = [51 / 10000]"
  by code_simp

theorem discounts_are_bounded_witness:
  "\<exists>r. half_piece = Inr r \<and> list_all bounded_line (pz_lines r)"
proof -
  obtain r where r: "half_piece = Inr r" using full_discount_is_negative by (auto split: sum.splits)
  have "catalogue_ok small_catalogue" by code_simp
  from discounts_are_bounded [OF r [unfolded half_piece_def] this] r show ?thesis by blast
qed

text \<open>A price without a unit beats every price for the entered unit.\<close>

lemma hd_sort_key_least:
  assumes "sort_key f xs = y # ys" "x \<in> set (sort_key f xs)"
  shows "f y \<le> f x"
proof -
  have "x \<in> set (y # ys)" using assms by simp
  moreover have "sorted (map f (y # ys))" using assms(1) by (metis sorted_sort_key)
  ultimately show ?thesis by auto
qed

theorem stock_unit_price_wins:
  assumes "find_item_price t currency d (Some p) l c = Inr (Some r)" and "pq_uom l \<noteq> None"
    and "q \<in> set (candidate_prices t currency d p l c)" and "ip_uom q = None"
  shows "ip_uom r = None"
proof -
  obtain rs where rs: "candidate_prices t currency d p l c = r # rs"
    using assms(1) by (auto simp: find_item_price_def split: list.splits if_splits)
  have "(if pq_uom l \<noteq> None \<and> ip_uom r \<noteq> None then 1 else 0 :: nat) \<le> (if pq_uom l \<noteq> None \<and> ip_uom q \<noteq> None then 1 else 0)"
    using rs assms(3) unfolding candidate_prices_def order_prices_def
    by (rule hd_sort_key_least)
  with assms(2,4) show ?thesis by (auto split: if_splits)
qed

text \<open>A promotion for another item applies to every item without a group.\<close>

theorem other_items_promotion_matches:
  assumes "p \<in> set (promotions c)" and "pm_tenant p = t" and "pm_active p" and "in_period (pm_from p) (pm_to p) d"
    and "pm_item p = Some j" and "j \<noteq> it_id item" and "pm_group p = None" and "it_group item = None"
  shows "p \<in> set (matching_promotions t d item c)"
  using assms by (simp add: matching_promotions_def)

end
