(* ===== verification/Bom.thy ===== *)
theory Bom
  imports Tables Floats "HOL-Library.List_Lexorder" "HOL-Library.Char_ord"
begin

section \<open>Bills of materials\<close>

text \<open>
  \<open>src/src/erp/workflows/manufacturing/bom_service.py\<close>: the catalog of operations, routings, bills of
  materials with their rolled-up cost, and the tree of a multi-level bill. The lemmas: an item never has
  two default bills, the stored cost is the cost of the stored lines, and the tree ends at its maximal
  depth whatever the bills refer to.
\<close>

subsection \<open>Operations and routings\<close>

definition create_operation :: "uuid \<Rightarrow> string \<Rightarrow> uuid option \<Rightarrow> db \<Rightarrow> (operation_row \<times> db) result" where
  "create_operation t name ws s =
     (let (i, s1) = uuid4 s;
          r = \<lparr>op_tenant = t, op_id = i, op_name = strip name, op_workstation = ws, op_active = True\<rparr>
      in if list_ex (\<lambda>x. op_tenant x = t \<and> op_name x = strip name) (operation_rows s) then Inl IntegrityError
         else Inr (r, s1\<lparr>operation_rows := operation_rows s1 @ [r]\<rparr>))"

definition list_operations :: "uuid \<Rightarrow> bool \<Rightarrow> db \<Rightarrow> operation_row list" where
  "list_operations t active_only s =
     sort_key op_name (filter (\<lambda>x. op_tenant x = t \<and> (active_only \<longrightarrow> op_active x)) (operation_rows s))"

record step_data =
  so_operation :: uuid
  so_workstation :: "uuid option"
  so_sequence :: "int option"
  so_mins :: "dec option"
  so_hourly :: "dec option"
  so_batch :: "dec option"

definition step_columns :: "step_row \<Rightarrow> step_row result" where
  "step_columns r =
     ebind (numeric 18 4 (st_mins r)) (\<lambda>m.
     ebind (numeric 18 4 (st_hourly r)) (\<lambda>h.
     ebind (numeric 18 4 (st_cost r)) (\<lambda>c.
     ebind (numeric 18 4 (st_batch r)) (\<lambda>b.
       Inr (r\<lparr>st_mins := m, st_hourly := h, st_cost := c, st_batch := b\<rparr>)))))"

text \<open>The step at position \<open>k\<close> of a list, which gives the default of its sequence number.\<close>

definition step_of :: "nat \<times> step_data \<Rightarrow> step_row" where
  "step_of kd =
     (let (k, d) = kd in
        \<lparr>st_operation = so_operation d, st_workstation = so_workstation d,
         st_sequence = or_else (so_sequence d) (int k), st_mins = or_else (so_mins d) 15,
         st_hourly = or_else (so_hourly d) 0, st_cost = 0, st_batch = or_else (so_batch d) 1\<rparr>)"

definition create_routing :: "uuid \<Rightarrow> string \<Rightarrow> step_data list \<Rightarrow> db \<Rightarrow> (routing_row \<times> db) result" where
  "create_routing t name ds s =
     (if list_ex (\<lambda>x. rt_tenant x = t \<and> rt_name x = strip name) (routings s) then Inl IntegrityError
      else let (i, s1) = uuid4 s in
        ebind (emap (\<lambda>kd. step_columns (step_of kd)) (enumerate 1 ds)) (\<lambda>steps.
          let r = \<lparr>rt_tenant = t, rt_id = i, rt_name = strip name, rt_active = True,
                   rt_steps = sort_key st_sequence steps\<rparr>
          in Inr (r, s1\<lparr>routings := routings s1 @ [r]\<rparr>)))"

definition get_routing :: "uuid \<Rightarrow> uuid \<Rightarrow> db \<Rightarrow> routing_row option result" where
  "get_routing t i s = one_or_none (filter (\<lambda>r. rt_tenant r = t \<and> rt_id r = i) (routings s))"

definition list_routings :: "uuid \<Rightarrow> db \<Rightarrow> routing_row list" where
  "list_routings t s = sort_key rt_name (filter (\<lambda>r. rt_tenant r = t) (routings s))"

subsection \<open>Bills\<close>

record bom_item_data =
  bd_item :: uuid
  bd_sub :: "uuid option"
  bd_operation :: "uuid option"
  bd_qty :: dec
  bd_rate :: "dec option"
  bd_scrap :: "dec option"

record scrap_data =
  xd_item :: uuid
  xd_qty :: "dec option"
  xd_rate :: "dec option"

definition get_bom :: "uuid \<Rightarrow> uuid \<Rightarrow> db \<Rightarrow> bom_row option result" where
  "get_bom t i s = one_or_none (filter (\<lambda>b. bm_tenant b = t \<and> bm_id b = i) (boms s))"

definition list_boms :: "uuid \<Rightarrow> uuid option \<Rightarrow> db \<Rightarrow> bom_row list" where
  "list_boms t item s =
     rev (filter (\<lambda>b. bm_tenant b = t \<and> (case item of None \<Rightarrow> True | Some i \<Rightarrow> bm_item b = i)) (boms s))"

definition unset_default :: "uuid \<Rightarrow> uuid \<Rightarrow> db \<Rightarrow> db" where
  "unset_default t item s =
     s\<lparr>boms := update_where (\<lambda>b. bm_tenant b = t \<and> bm_item b = item \<and> bm_default b)
        (\<lambda>b. b\<lparr>bm_default := False\<rparr>) (boms s)\<rparr>"

text \<open>The loops over the parts of a bill carry the stored rows, the cost before it is stored and the
  database, which gives out the identifiers.\<close>

definition add_bom_item ::
    "bom_item list \<times> dec \<times> db \<Rightarrow> bom_item_data \<Rightarrow> (bom_item list \<times> dec \<times> db) result" where
  "add_bom_item st d =
     (let (rows, cost, s) = st; (i, s1) = uuid4 s;
          qty = bd_qty d; rate = or_else (bd_rate d) 0; amount = dmul qty rate
      in ebind (numeric 18 4 qty) (\<lambda>q.
         ebind (numeric 18 4 rate) (\<lambda>r.
         ebind (numeric 18 4 amount) (\<lambda>a.
         ebind (numeric 5 2 (or_else (bd_scrap d) 0)) (\<lambda>w.
           Inr (rows @ [\<lparr>bi_id = i, bi_item = bd_item d, bi_sub = bd_sub d, bi_operation = bd_operation d,
                         bi_qty = q, bi_rate = r, bi_amount = a, bi_scrap = w\<rparr>],
                dadd cost amount, s1))))))"

definition steps_to_add ::
    "uuid \<Rightarrow> bool \<Rightarrow> step_data list \<Rightarrow> uuid option \<Rightarrow> db \<Rightarrow> step_data list result" where
  "steps_to_add t with_steps ds routing s =
     (case routing of
        None \<Rightarrow> Inr ds
      | Some r \<Rightarrow>
          if with_steps \<and> ds = []
          then ebind (get_routing t r s) (\<lambda>x.
            case x of
              None \<Rightarrow> Inr []
            | Some row \<Rightarrow> Inr (map (\<lambda>y. \<lparr>so_operation = st_operation y, so_workstation = st_workstation y,
                 so_sequence = Some (st_sequence y), so_mins = Some (st_mins y),
                 so_hourly = Some (st_hourly y), so_batch = Some (st_batch y)\<rparr>) (rt_steps row)))
          else Inr ds)"

definition add_bom_step :: "step_row list \<times> dec \<Rightarrow> nat \<times> step_data \<Rightarrow> (step_row list \<times> dec) result" where
  "add_bom_step st kd =
     (let (rows, cost) = st; row = step_of kd in
      ebind (ddiv (st_mins row) 60) (\<lambda>hours.
        let step_cost = dmul hours (st_hourly row) in
        ebind (step_columns (row\<lparr>st_cost := step_cost\<rparr>)) (\<lambda>stored.
          Inr (rows @ [stored], dadd cost step_cost))))"

definition add_bom_scrap :: "bom_scrap list \<times> dec \<Rightarrow> scrap_data \<Rightarrow> (bom_scrap list \<times> dec) result" where
  "add_bom_scrap st d =
     (let (rows, cost) = st; qty = or_else (xd_qty d) 0; rate = or_else (xd_rate d) 0; amount = dmul qty rate
      in ebind (numeric 18 4 qty) (\<lambda>q.
         ebind (numeric 18 4 rate) (\<lambda>r.
         ebind (numeric 18 4 amount) (\<lambda>a.
           Inr (rows @ [\<lparr>bs_item = xd_item d, bs_qty = q, bs_rate = r, bs_amount = a\<rparr>], dadd cost amount)))))"

definition create_bom ::
    "uuid \<Rightarrow> string \<Rightarrow> uuid \<Rightarrow> dec \<Rightarrow> uuid option \<Rightarrow> bool \<Rightarrow> bool \<Rightarrow> bom_item_data list \<Rightarrow> step_data list
     \<Rightarrow> scrap_data list \<Rightarrow> db \<Rightarrow> (bom_row \<times> db) result" where
  "create_bom t number item qty routing with_steps dflt xs ds ws s =
     (let s1 = (if dflt then unset_default t item s else s); (i, s2) = uuid4 s1 in
      if list_ex (\<lambda>b. bm_tenant b = t \<and> bm_number b = strip number) (boms s2) then Inl IntegrityError
      else
        ebind (numeric 18 4 qty) (\<lambda>q.
        ebind (efold add_bom_item ([], 0, s2) xs) (\<lambda>(lines, material, s3).
        ebind (steps_to_add t with_steps ds routing s3) (\<lambda>ops.
        ebind (efold add_bom_step ([], 0) (enumerate 1 ops)) (\<lambda>(steps, operating).
        ebind (efold add_bom_scrap ([], 0) ws) (\<lambda>(waste, scrap).
        ebind (numeric 18 4 material) (\<lambda>m.
        ebind (numeric 18 4 operating) (\<lambda>p.
        ebind (numeric 18 4 scrap) (\<lambda>w.
        ebind (numeric 18 4 (dsub (dadd material operating) scrap)) (\<lambda>c.
          let b = \<lparr>bm_tenant = t, bm_id = i, bm_number = strip number, bm_item = item, bm_routing = routing,
                   bm_qty = q, bm_material = m, bm_operating = p, bm_scrap = w, bm_total = c,
                   bm_with_steps = with_steps, bm_default = dflt, bm_active = True, bm_items = lines,
                   bm_steps = sort_key st_sequence steps, bm_scraps = waste\<rparr>
          in Inr (b, s3\<lparr>boms := boms s3 @ [b]\<rparr>)))))))))))"

subsection \<open>The tree of a bill\<close>

text \<open>The bill of a component: the one its line names, or a default bill of its item other than the
  bill that the line is in.\<close>

definition sub_bom :: "uuid \<Rightarrow> uuid \<Rightarrow> bom_item \<Rightarrow> db \<Rightarrow> uuid option" where
  "sub_bom t i c s =
     (case bi_sub c of
        Some b \<Rightarrow> Some b
      | None \<Rightarrow> map_option bm_id (first_row
          (filter (\<lambda>b. bm_tenant b = t \<and> bm_item b = bi_item c \<and> bm_default b \<and> bm_id b \<noteq> i) (boms s))))"

record tree_step =
  tp_operation :: uuid
  tp_name :: string
  tp_code :: string
  tp_sequence :: int
  tp_mins :: pyfloat
  tp_hourly :: pyfloat
  tp_cost :: pyfloat

record tree_head =
  th_bom :: uuid
  th_number :: string
  th_item :: uuid
  th_name :: string
  th_code :: string
  th_qty :: pyfloat
  th_material :: pyfloat
  th_operating :: pyfloat
  th_scrap :: pyfloat
  th_total :: pyfloat
  th_depth :: int
  th_steps :: "tree_step list"

record tree_line =
  te_line :: uuid
  te_item :: uuid
  te_name :: string
  te_code :: string
  te_qty :: pyfloat
  te_rate :: pyfloat
  te_amount :: pyfloat
  te_scrap :: pyfloat

datatype bom_tree = Bom_Tree tree_head "(tree_line \<times> bom_tree option) list"

definition find_item :: "uuid \<Rightarrow> uuid \<Rightarrow> db \<Rightarrow> item_row option result" where
  "find_item t i s = one_or_none (filter (\<lambda>x. it_tenant x = t \<and> it_id x = i) (items s))"

definition item_name_or :: "string \<Rightarrow> item_row option \<Rightarrow> string" where
  "item_name_or d x = (case x of None \<Rightarrow> d | Some r \<Rightarrow> it_name r)"

definition item_code_or :: "string \<Rightarrow> item_row option \<Rightarrow> string" where
  "item_code_or d x = (case x of None \<Rightarrow> d | Some r \<Rightarrow> it_code r)"

definition tree_step_of :: "db \<Rightarrow> step_row \<Rightarrow> tree_step" where
  "tree_step_of s r =
     \<lparr>tp_operation = st_operation r,
      tp_name = (case first_row (filter (\<lambda>o'. op_id o' = st_operation r) (operation_rows s)) of
                   None \<Rightarrow> ''Operation'' | Some o' \<Rightarrow> op_name o'),
      tp_code = (case first_row (filter (\<lambda>w. Some (ws_id w) = st_workstation r) (workstations s)) of
                   None \<Rightarrow> ''Any'' | Some w \<Rightarrow> ws_code w),
      tp_sequence = st_sequence r, tp_mins = float_of (st_mins r), tp_hourly = float_of (st_hourly r),
      tp_cost = float_of (st_cost r)\<rparr>"

definition tree_head_of :: "item_row option \<Rightarrow> bom_row \<Rightarrow> int \<Rightarrow> db \<Rightarrow> tree_head" where
  "tree_head_of item b depth s =
     \<lparr>th_bom = bm_id b, th_number = bm_number b, th_item = bm_item b,
      th_name = item_name_or ''Unknown Item'' item, th_code = item_code_or ''N/A'' item,
      th_qty = float_of (bm_qty b), th_material = float_of (bm_material b),
      th_operating = float_of (bm_operating b), th_scrap = float_of (bm_scrap b),
      th_total = float_of (bm_total b), th_depth = depth, th_steps = map (tree_step_of s) (bm_steps b)\<rparr>"

definition tree_line_of :: "item_row option \<Rightarrow> bom_item \<Rightarrow> tree_line" where
  "tree_line_of item c =
     \<lparr>te_line = bi_id c, te_item = bi_item c, te_name = item_name_or ''Component'' item,
      te_code = item_code_or ''N/A'' item, te_qty = float_of (bi_qty c), te_rate = float_of (bi_rate c),
      te_amount = float_of (bi_amount c), te_scrap = float_of (bi_scrap c)\<rparr>"

function get_bom_tree :: "uuid \<Rightarrow> db \<Rightarrow> uuid \<Rightarrow> int \<Rightarrow> int \<Rightarrow> bom_tree option result" where
  "get_bom_tree t s i depth max_depth =
     (if max_depth < depth then Inr None
      else ebind (get_bom t i s) (\<lambda>x.
        case x of
          None \<Rightarrow> Inr None
        | Some b \<Rightarrow>
            ebind (find_item t (bm_item b) s) (\<lambda>item.
            ebind (emap (\<lambda>c. ebind (find_item t (bi_item c) s) (\<lambda>y.
                     case sub_bom t i c s of
                       None \<Rightarrow> Inr (tree_line_of y c, None)
                     | Some sub \<Rightarrow>
                         if depth < max_depth
                         then ebind (get_bom_tree t s sub (depth + 1) max_depth) (\<lambda>tree. Inr (tree_line_of y c, tree))
                         else Inr (tree_line_of y c, None))) (bm_items b)) (\<lambda>components.
              Inr (Some (Bom_Tree (tree_head_of item b depth s) components))))))"
  by pat_completeness auto
termination
  by (relation "measure (\<lambda>(t, s, i, depth, max_depth). nat (max_depth - depth))") auto

declare get_bom_tree.simps [simp del]

subsection \<open>The services as steps\<close>

inductive bom_step :: "db \<Rightarrow> db \<Rightarrow> bool" where
  bom_operation: "create_operation t name ws s = Inr (r, s') \<Longrightarrow> bom_step s s'"
| bom_routing: "create_routing t name ds s = Inr (r, s') \<Longrightarrow> bom_step s s'"
| bom_created: "create_bom t number item qty routing with_steps dflt xs ds ws s = Inr (b, s') \<Longrightarrow> bom_step s s'"

inductive_cases bom_stepE: "bom_step s s'"

text \<open>Every bill has its own identifier, every item at most one default bill, and no two bills of a
  tenant share a number.\<close>

definition default_key :: "bom_row \<Rightarrow> uuid \<times> uuid" where
  "default_key b = (bm_tenant b, bm_item b)"

definition boms_ok :: "db \<Rightarrow> bool" where
  "boms_ok s \<longleftrightarrow>
     distinct (map bm_id (boms s)) \<and> list_all (\<lambda>b. bm_id b < next_id s) (boms s) \<and>
     distinct (map default_key (filter bm_default (boms s))) \<and>
     distinct (map (\<lambda>b. (bm_tenant b, bm_number b)) (boms s))"

lemma create_operation_Inr:
  "create_operation t name ws s = Inr (r, s') \<Longrightarrow> boms s' = boms s \<and> next_id s' = Suc (next_id s)"
  by (auto simp: create_operation_def uuid4_def Let_def split: if_splits)

lemma create_routing_Inr:
  "create_routing t name ds s = Inr (r, s') \<Longrightarrow> boms s' = boms s \<and> next_id s' = Suc (next_id s)"
  by (auto simp: create_routing_def uuid4_def Let_def ebind_eq_Inr split: if_splits)

lemma add_bom_items_frame:
  assumes "efold add_bom_item (rows, cost, s) xs = Inr (rows', cost', s')"
  shows "boms s' = boms s \<and> next_id s \<le> next_id s'"
proof -
  have "(\<lambda>(rows, cost, s'). boms s' = boms s \<and> next_id s \<le> next_id s') (rows', cost', s')"
    using assms by (rule efold_invariant) (auto simp: add_bom_item_def uuid4_def Let_def ebind_eq_Inr)
  then show ?thesis by simp
qed

lemma unset_default_keys:
  "map bm_id (boms (unset_default t item s)) = map bm_id (boms s)"
  "map (\<lambda>b. (bm_tenant b, bm_number b)) (boms (unset_default t item s)) = map (\<lambda>b. (bm_tenant b, bm_number b)) (boms s)"
  "next_id (unset_default t item s) = next_id s"
  by (simp_all add: unset_default_def update_where_def)

lemma create_bom_Inr:
  assumes "create_bom t number item qty routing with_steps dflt xs ds ws s = Inr (b, s')"
  shows "boms s' = boms (if dflt then unset_default t item s else s) @ [b]" and "next_id s < next_id s'"
    and "bm_tenant b = t" and "bm_id b = next_id s" and "bm_item b = item" and "bm_default b = dflt"
    and "(t, bm_number b) \<notin> (\<lambda>b. (bm_tenant b, bm_number b)) ` set (boms s)"
proof -
  let ?s1 = "if dflt then unset_default t item s else s"
  obtain lines material s3 where
    items: "efold add_bom_item ([], 0, ?s1\<lparr>next_id := Suc (next_id ?s1)\<rparr>) xs = Inr (lines, material, s3)"
    and b: "boms s' = boms s3 @ [b]" "next_id s' = next_id s3" "bm_tenant b = t" "bm_id b = next_id ?s1"
      "bm_item b = item" "bm_default b = dflt" "bm_number b = strip number"
    and new: "\<not> list_ex (\<lambda>b. bm_tenant b = t \<and> bm_number b = strip number) (boms ?s1)"
    using assms unfolding create_bom_def uuid4_def Let_def
    by (auto simp: ebind_eq_Inr split: if_splits prod.splits)
  note f = add_bom_items_frame [OF items]
  show "boms s' = boms ?s1 @ [b]" "next_id s < next_id s'" "bm_tenant b = t" "bm_id b = next_id s"
    "bm_item b = item" "bm_default b = dflt"
    using f b by (simp_all add: unset_default_def split: if_splits)
  have "(t, bm_number b) \<notin> set (map (\<lambda>b. (bm_tenant b, bm_number b)) (boms ?s1))"
    using new b(7) by (auto simp: list_ex_iff)
  then show "(t, bm_number b) \<notin> (\<lambda>b. (bm_tenant b, bm_number b)) ` set (boms s)"
    by (cases dflt) (simp_all only: if_True if_False unset_default_keys set_map not_False_eq_True)
qed

lemma unset_default_filter:
  "filter bm_default (boms (unset_default t item s)) =
     filter (\<lambda>b. default_key b \<noteq> (t, item)) (filter bm_default (boms s))"
proof -
  have "filter bm_default (update_where (\<lambda>b. bm_tenant b = t \<and> bm_item b = item \<and> bm_default b)
          (\<lambda>b. b\<lparr>bm_default := False\<rparr>) bs) =
        filter (\<lambda>b. default_key b \<noteq> (t, item)) (filter bm_default bs)" for bs
    by (induction bs) (auto simp: default_key_def)
  then show ?thesis by (simp add: unset_default_def)
qed

lemma boms_ok_step:
  assumes "bom_step s s'" and "boms_ok s"
  shows "boms_ok s'"
  using assms(1)
proof (cases rule: bom_step.cases)
  case (bom_operation t name ws r)
  then show ?thesis using assms(2) create_operation_Inr [OF bom_operation]
    by (auto simp: boms_ok_def list_all_iff)
next
  case (bom_routing t name ds r)
  then show ?thesis using assms(2) create_routing_Inr [OF bom_routing]
    by (auto simp: boms_ok_def list_all_iff)
next
  case (bom_created t number item qty routing with_steps dflt xs ds ws b)
  let ?s1 = "if dflt then unset_default t item s else s"
  note b = create_bom_Inr [OF bom_created]
  have keys: "map bm_id (boms ?s1) = map bm_id (boms s)"
    "map (\<lambda>b. (bm_tenant b, bm_number b)) (boms ?s1) = map (\<lambda>b. (bm_tenant b, bm_number b)) (boms s)"
    by (simp_all add: unset_default_keys)
  have ids: "set (map bm_id (boms s)) \<subseteq> {..< next_id s}"
    using assms(2) by (auto simp: boms_ok_def list_all_iff)
  have "distinct (map bm_id (boms s'))"
    unfolding b(1) map_append keys using assms(2) ids b(4) by (auto simp: boms_ok_def)
  moreover have "set (map bm_id (boms s')) \<subseteq> {..< next_id s'}"
    unfolding b(1) map_append keys set_append using ids b(2,4) by auto
  then have "list_all (\<lambda>b. bm_id b < next_id s') (boms s')" by (auto simp: list_all_iff)
  moreover have "distinct (map (\<lambda>b. (bm_tenant b, bm_number b)) (boms s'))"
    unfolding b(1) map_append keys using assms(2) b(3,7) by (auto simp: boms_ok_def)
  moreover have "distinct (map default_key (filter bm_default (boms s')))"
  proof (cases dflt)
    case True
    then have "filter bm_default (boms s') =
        filter (\<lambda>b. default_key b \<noteq> (t, item)) (filter bm_default (boms s)) @ [b]"
      using b(6) by (simp only: b(1) filter_append unset_default_filter if_True) simp
    moreover have "distinct (map default_key (filter (\<lambda>b. default_key b \<noteq> (t, item)) (filter bm_default (boms s))))"
      using distinct_map_filter [of default_key "filter bm_default (boms s)"] assms(2) by (simp add: boms_ok_def del: filter_filter)
    moreover have "default_key b = (t, item)" using b(3,5) by (simp add: default_key_def)
    ultimately show ?thesis by (auto simp del: filter_filter)
  next
    case False
    then show ?thesis using assms(2) b(6) by (simp add: b(1) boms_ok_def)
  qed
  ultimately show ?thesis by (simp add: boms_ok_def)
qed

inductive bom_reachable :: "db \<Rightarrow> bool" where
  "boms s = [] \<Longrightarrow> bom_reachable s"
| "bom_reachable s \<Longrightarrow> bom_step s s' \<Longrightarrow> bom_reachable s'"

lemma bom_reachable_ok: "bom_reachable s \<Longrightarrow> boms_ok s"
  by (induction rule: bom_reachable.induct) (simp add: boms_ok_def, rule boms_ok_step)

lemma get_bom_total: "distinct (map bm_id (boms s)) \<Longrightarrow> \<exists>x. get_bom t i s = Inr x"
  using one_or_none_distinct [of bm_id "filter (\<lambda>b. bm_tenant b = t) (boms s)" i]
  by (auto simp: get_bom_def distinct_map_filter conj_commute)

lemma find_item_total: "distinct (map it_id (items s)) \<Longrightarrow> \<exists>x. find_item t i s = Inr x"
  using one_or_none_distinct [of it_id "filter (\<lambda>x. it_tenant x = t) (items s)" i]
  by (auto simp: find_item_def distinct_map_filter conj_commute)

text \<open>With one default bill per item, the bill of a component does not depend on the order of the table.\<close>

lemma sub_bom_unique:
  assumes "boms_ok s" and "bi_sub c = None"
    and "b \<in> set (boms s)" "bm_tenant b = t" "bm_item b = bi_item c" "bm_default b" "bm_id b \<noteq> i"
  shows "sub_bom t i c s = Some (bm_id b)"
proof -
  let ?P = "\<lambda>b. bm_tenant b = t \<and> bm_item b = bi_item c \<and> bm_default b \<and> bm_id b \<noteq> i"
  obtain b' where b': "first_row (filter ?P (boms s)) = Some b'"
    using assms(3-) by (cases "filter ?P (boms s)") (auto simp: filter_empty_conv)
  then have mem: "b' \<in> set (boms s)" "?P b'" using first_row_Some_in by fastforce+
  have "inj_on default_key (set (filter bm_default (boms s)))"
    using assms(1) by (simp add: boms_ok_def distinct_map)
  moreover have "default_key b' = default_key b" using mem assms(4,5) by (simp add: default_key_def)
  ultimately have "b' = b" using mem assms(3,6) by (auto dest: inj_onD)
  with b' assms(2) show ?thesis by (simp add: sub_bom_def)
qed

subsection \<open>Properties\<close>

text \<open>C26: whatever bills are created, an item has at most one default bill, so the bill that a component
  is made from is determined, and identifiers and numbers stay unique.\<close>

theorem default_boms_are_unique:
  assumes "bom_reachable s"
  shows "boms_ok s \<and>
    list_all (\<lambda>b. \<not> bm_default b \<or> bi_sub c \<noteq> None \<or> bm_item b \<noteq> bi_item c \<or> bm_id b = i \<or>
      sub_bom (bm_tenant b) i c s = Some (bm_id b)) (boms s)"
  using bom_reachable_ok [OF assms] by (auto simp: list_all_iff intro: sub_bom_unique)

text \<open>The number of levels of a tree, and the depths that its nodes are labelled with.\<close>

fun levels :: "bom_tree \<Rightarrow> nat" where
  "levels (Bom_Tree h cs) = Suc (fold max (map (\<lambda>(l, x). case x of None \<Rightarrow> 0 | Some y \<Rightarrow> levels y) cs) 0)"

definition branch_levels :: "tree_line \<times> bom_tree option \<Rightarrow> nat" where
  "branch_levels x = (case snd x of None \<Rightarrow> 0 | Some y \<Rightarrow> levels y)"

lemma levels_bound:
  assumes "list_all (\<lambda>x. branch_levels x \<le> n) cs"
  shows "levels (Bom_Tree h cs) \<le> Suc n"
proof -
  have "fold max (map f cs) m \<le> n" if "list_all (\<lambda>x. f x \<le> n) cs" "m \<le> n"
    for f :: "tree_line \<times> bom_tree option \<Rightarrow> nat" and m
    using that by (induction cs arbitrary: m) simp_all
  from this [of "\<lambda>(l, x). case x of None \<Rightarrow> 0 | Some y \<Rightarrow> levels y" 0] assms
  show ?thesis by (simp add: branch_levels_def case_prod_unfold)
qed

lemma branch_total:
  assumes "distinct (map it_id (items s))"
    and "\<And>sub. sub_bom t i c s = Some sub \<Longrightarrow> depth < max_depth \<Longrightarrow>
      \<exists>x. get_bom_tree t s sub (depth + 1) max_depth = Inr x \<and>
        (case x of None \<Rightarrow> True | Some tree \<Rightarrow> levels tree \<le> Suc (nat (max_depth - (depth + 1))))"
  shows "\<exists>z. ebind (find_item t (bi_item c) s) (\<lambda>y.
      case sub_bom t i c s of
        None \<Rightarrow> Inr (tree_line_of y c, None)
      | Some sub \<Rightarrow>
          if depth < max_depth
          then ebind (get_bom_tree t s sub (depth + 1) max_depth) (\<lambda>tree. Inr (tree_line_of y c, tree))
          else Inr (tree_line_of y c, None)) = Inr z \<and> branch_levels z \<le> nat (max_depth - depth)"
proof -
  obtain y where y: "find_item t (bi_item c) s = Inr y" using find_item_total [OF assms(1)] by blast
  show ?thesis
  proof (cases "sub_bom t i c s")
    case None
    then show ?thesis by (simp add: y branch_levels_def)
  next
    case (Some sub)
    then show ?thesis
    proof (cases "depth < max_depth")
      case True
      then have n: "Suc (nat (max_depth - (depth + 1))) = nat (max_depth - depth)" by simp
      obtain x where "get_bom_tree t s sub (depth + 1) max_depth = Inr x"
        "case x of None \<Rightarrow> True | Some tree \<Rightarrow> levels tree \<le> nat (max_depth - depth)"
        using assms(2) [OF Some True] unfolding n by blast
      then show ?thesis using True
        by (intro exI [of _ "(tree_line_of y c, x)"]) (simp add: y Some branch_levels_def split: option.splits)
    qed (simp add: y branch_levels_def)
  qed
qed

text \<open>C25: asking for the tree of a bill always returns, with at most one level more than the depths that are
  left, whatever the bills refer to: also for bills that contain each other.\<close>

theorem bom_tree_is_bounded:
  assumes "distinct (map bm_id (boms s))" and "distinct (map it_id (items s))"
  shows "\<exists>x. get_bom_tree t s i depth max_depth = Inr x \<and>
    (case x of None \<Rightarrow> True | Some tree \<Rightarrow> levels tree \<le> Suc (nat (max_depth - depth)))"
  using assms
proof (induction t s i depth max_depth rule: get_bom_tree.induct)
  case (1 t s i depth max_depth)
  note unfold = get_bom_tree.simps [of t s i depth max_depth]
  show ?case
  proof (cases "max_depth < depth")
    case True
    then show ?thesis by (simp add: unfold)
  next
    case False
    obtain x where x: "get_bom t i s = Inr x" using get_bom_total [OF "1.prems"(1)] by blast
    show ?thesis
    proof (cases x)
      case None
      then show ?thesis using x False by (simp add: unfold)
    next
      case (Some b)
      obtain item where item: "find_item t (bm_item b) s = Inr item" using find_item_total [OF "1.prems"(2)] by blast
      let ?branch = "\<lambda>c. ebind (find_item t (bi_item c) s) (\<lambda>y.
          case sub_bom t i c s of
            None \<Rightarrow> Inr (tree_line_of y c, None)
          | Some sub \<Rightarrow>
              if depth < max_depth
              then ebind (get_bom_tree t s sub (depth + 1) max_depth) (\<lambda>tree. Inr (tree_line_of y c, tree))
              else Inr (tree_line_of y c, None))"
      have "\<exists>z. ?branch c = Inr z \<and> branch_levels z \<le> nat (max_depth - depth)" if c: "c \<in> set (bm_items b)" for c
      proof (rule branch_total [OF "1.prems"(2)])
        obtain y where y: "find_item t (bi_item c) s = Inr y" using find_item_total [OF "1.prems"(2)] by blast
        fix sub
        assume "sub_bom t i c s = Some sub" "depth < max_depth"
        from "1.IH" [OF False x Some item c y this "1.prems"]
        show "\<exists>x. get_bom_tree t s sub (depth + 1) max_depth = Inr x \<and>
          (case x of None \<Rightarrow> True | Some tree \<Rightarrow> levels tree \<le> Suc (nat (max_depth - (depth + 1))))" .
      qed
      then obtain cs where cs: "emap ?branch (bm_items b) = Inr cs"
          "list_all (\<lambda>z. branch_levels z \<le> nat (max_depth - depth)) cs"
        using emap_total [of "bm_items b" ?branch "\<lambda>z. branch_levels z \<le> nat (max_depth - depth)"] by blast
      then show ?thesis using False x Some item levels_bound [OF cs(2)] by (simp add: unfold)
    qed
  qed
qed

subsection \<open>Two bills that contain each other\<close>

definition one_part :: "uuid \<Rightarrow> bom_item_data list" where
  "one_part i = [\<lparr>bd_item = i, bd_sub = None, bd_operation = None, bd_qty = 2, bd_rate = None, bd_scrap = None\<rparr>]"

text \<open>A frame (item 1) is made from two wheels (item 2); the default bill of the wheel, which replaced an
  empty one, is made from two frames.\<close>

definition with_bill :: "string \<Rightarrow> uuid \<Rightarrow> bom_item_data list \<Rightarrow> db \<Rightarrow> db" where
  "with_bill number i parts s =
     (case create_bom 0 number i 1 None False True parts [] [] s of Inl e \<Rightarrow> s | Inr r \<Rightarrow> snd r)"

definition looped_db :: db where
  "looped_db = with_bill ''W'' 2 (one_part 1) (with_bill ''V'' 2 [] (with_bill ''F'' 1 (one_part 2) empty_db))"

lemma with_bill_reachable: "bom_reachable s \<Longrightarrow> bom_reachable (with_bill number i parts s)"
  unfolding with_bill_def
  by (auto split: sum.split intro: bom_reachable.intros(2) bom_created)

lemma looped_reachable: "bom_reachable looped_db"
  unfolding looped_db_def
  by (intro with_bill_reachable bom_reachable.intros(1)) (simp add: empty_db_def)

theorem default_boms_are_unique_witness:
  "map bm_default (boms looped_db) = [True, False, True] \<and> boms_ok looped_db"
proof
  show "map bm_default (boms looped_db) = [True, False, True]" by code_simp
  show "boms_ok looped_db" using default_boms_are_unique [OF looped_reachable] by blast
qed

theorem bom_tree_is_bounded_witness:
  "\<exists>tree. get_bom_tree 0 looped_db 0 0 5 = Inr (Some tree) \<and> levels tree \<le> 6"
proof -
  have "distinct (map bm_id (boms looped_db))" "distinct (map it_id (items looped_db))" by code_simp+
  from bom_tree_is_bounded [OF this, of 0 0 0 5]
  obtain x where x: "get_bom_tree 0 looped_db 0 0 5 = Inr x"
    "case x of None \<Rightarrow> True | Some tree \<Rightarrow> levels tree \<le> Suc (nat (5 - 0))" by blast
  have "get_bom_tree 0 looped_db 0 0 5 \<noteq> Inr None" by code_simp
  with x show ?thesis by (cases x) auto
qed

end
