(* ===== verification/JobCard.thy ===== *)
theory JobCard
  imports Bom
begin

section \<open>Job cards\<close>

text \<open>
  \<open>src/src/erp/workflows/manufacturing/job_card_service.py\<close>: the cards that are generated for the steps of
  a bill and punched in and out on the shop floor; and what \<open>complete_manufacture\<close> of
  \<open>work_order_service.py\<close> does to the cards of its order (the rest of it, the backflush and its posting, is not
  modelled). The lemmas: a timer runs on the cards in progress and on no other, but for cards that were
  closed with their order under a running timer, and the completed quantity of a card is what its punches
  reported, from the planned quantity on once it was closed with its order.
\<close>

subsection \<open>Generation and queries\<close>

definition job_card_number :: "work_order \<Rightarrow> step_row \<Rightarrow> string" where
  "job_card_number wo r = ''JC-'' @ wo_number wo @ ''-'' @ pad_left 2 (show_int (st_sequence r))"

definition add_job_card :: "uuid \<Rightarrow> work_order \<Rightarrow> job_card list \<times> db \<Rightarrow> step_row \<Rightarrow> (job_card list \<times> db) result" where
  "add_job_card t wo st r = ebind (numeric 18 4 (wo_planned wo)) (\<lambda>planned.
     (let (cards, s) = st; (i, s1) = uuid4 s; number = job_card_number wo r;
          j = \<lparr>jc_tenant = t, jc_id = i, jc_number = number, jc_order = wo_id wo, jc_operation = st_operation r,
               jc_workstation = (case st_workstation r of Some w \<Rightarrow> Some w | None \<Rightarrow> wo_workstation wo),
               jc_employee = None, jc_sequence = st_sequence r, jc_planned = planned, jc_done = 0,
               jc_scrap = 0, jc_status = ''PENDING'', jc_started = None, jc_timer = None, jc_mins = 0, jc_logs = []\<rparr>
      in if list_ex (\<lambda>x. jc_tenant x = t \<and> jc_number x = number) (job_cards s) then Inl IntegrityError
         else Inr (cards @ [j], s1\<lparr>job_cards := job_cards s1 @ [j]\<rparr>)))"

definition generate_job_cards_for_work_order ::
    "uuid \<Rightarrow> work_order \<Rightarrow> bom_row option \<Rightarrow> db \<Rightarrow> (job_card list \<times> db) result" where
  "generate_job_cards_for_work_order t wo bom s =
     ebind (case (bom, wo_bom wo) of (None, Some i) \<Rightarrow> get_bom t i s | _ \<Rightarrow> Inr bom) (\<lambda>x.
       case x of
         None \<Rightarrow> Inr ([], s)
       | Some b \<Rightarrow> efold (add_job_card t wo) ([], s) (bm_steps b))"

definition get_job_card :: "uuid \<Rightarrow> uuid \<Rightarrow> db \<Rightarrow> job_card option result" where
  "get_job_card t i s = one_or_none (filter (\<lambda>j. jc_tenant j = t \<and> jc_id j = i) (job_cards s))"

text \<open>In the order of the sequence numbers, the newest first among equal ones.\<close>

definition list_job_cards ::
    "uuid \<Rightarrow> uuid option \<Rightarrow> uuid option \<Rightarrow> uuid option \<Rightarrow> string option \<Rightarrow> db \<Rightarrow> job_card list" where
  "list_job_cards t order ws emp st s =
     sort_key jc_sequence (rev (filter (\<lambda>j. jc_tenant j = t \<and>
        (order = None \<or> Some (jc_order j) = order) \<and> (ws = None \<or> jc_workstation j = ws) \<and>
        (emp = None \<or> jc_employee j = emp) \<and>
        (case st of None \<Rightarrow> True | Some y \<Rightarrow> y = [] \<or> jc_status j = upper y)) (job_cards s)))"

definition put_job_card :: "job_card \<Rightarrow> db \<Rightarrow> db" where
  "put_job_card j s =
     s\<lparr>job_cards := update_where (\<lambda>x. jc_tenant x = jc_tenant j \<and> jc_id x = jc_id j) (\<lambda>_. j) (job_cards s)\<rparr>"

subsection \<open>Punching in\<close>

definition find_workstation :: "uuid \<Rightarrow> uuid \<Rightarrow> db \<Rightarrow> workstation_row option result" where
  "find_workstation t w s = one_or_none (filter (\<lambda>x. ws_tenant x = t \<and> ws_id x = w) (workstations s))"

definition set_workstation :: "uuid \<Rightarrow> uuid \<Rightarrow> string \<Rightarrow> db \<Rightarrow> db" where
  "set_workstation t w st s =
     s\<lparr>workstations := update_where (\<lambda>x. ws_tenant x = t \<and> ws_id x = w) (\<lambda>x. x\<lparr>ws_status := st\<rparr>) (workstations s)\<rparr>"

definition occupy_workstation :: "uuid \<Rightarrow> uuid option \<Rightarrow> db \<Rightarrow> db result" where
  "occupy_workstation t ws s =
     (case ws of
        None \<Rightarrow> Inr s
      | Some w \<Rightarrow> ebind (find_workstation t w s) (\<lambda>x.
          case x of
            None \<Rightarrow> Inr s
          | Some r \<Rightarrow>
              if ws_status r = ''FAULT''
              then Inl (ValueError (''Cannot start Job Card: Workstation '' @ quoted (ws_code r) @ '' has an active FAULT lockout.''))
              else Inr (set_workstation t w ''IN_USE'' s)))"

definition begin_work_order :: "timestamp \<Rightarrow> uuid \<Rightarrow> db \<Rightarrow> db" where
  "begin_work_order tm order s =
     s\<lparr>work_orders := update_where (\<lambda>w. wo_id w = order \<and> wo_status w \<in> set [''DRAFT'', ''SCHEDULED''])
        (\<lambda>w. w\<lparr>wo_status := ''IN_PROCESS'', wo_start := Some (or_else (wo_start w) tm)\<rparr>) (work_orders s)\<rparr>"

definition job_card_missing :: "uuid \<Rightarrow> exn" where
  "job_card_missing i = ValueError (''Job Card '' @ quoted (str_uuid i) @ '' not found.'')"

definition punched_in :: "env \<Rightarrow> uuid option \<Rightarrow> job_card \<Rightarrow> job_card" where
  "punched_in e emp j =
     j\<lparr>jc_status := ''WORK_IN_PROGRESS'', jc_timer := Some (now e),
       jc_started := Some (or_else (jc_started j) (now e)),
       jc_employee := (case emp of Some p \<Rightarrow> Some p | None \<Rightarrow> jc_employee j)\<rparr>"

definition start_job_card :: "env \<Rightarrow> uuid \<Rightarrow> uuid \<Rightarrow> uuid option \<Rightarrow> db \<Rightarrow> (job_card \<times> db) result" where
  "start_job_card e t i emp s =
     ebind (get_job_card t i s) (\<lambda>x.
       case x of
         None \<Rightarrow> Inl (job_card_missing i)
       | Some j \<Rightarrow>
           if jc_status j = ''COMPLETED'' then Inl (ValueError ''Job Card is already completed.'')
           else ebind (occupy_workstation t (jc_workstation j) s) (\<lambda>s1.
             Inr (punched_in e emp j, begin_work_order (now e) (jc_order j) (put_job_card (punched_in e emp j) s1))))"

subsection \<open>Punching out\<close>

text \<open>\<open>total_seconds() / 60.0\<close> in floating point, never negative, as the \<open>Decimal\<close> of its text.\<close>

definition elapsed_minutes :: "timestamp \<Rightarrow> timestamp \<Rightarrow> dec result" where
  "elapsed_minutes since tm =
     ebind (fdiv (fl (of_int (tm - since) / 1000000)) 60) (\<lambda>m. Inr (dec_of_repr (max 0 m)))"

text \<open>The end of the running session: a log line and the total of minutes.\<close>

definition stop_timer :: "env \<Rightarrow> uuid option \<Rightarrow> dec \<Rightarrow> dec \<Rightarrow> job_card \<Rightarrow> job_card result" where
  "stop_timer e emp completed scrap j =
     (case jc_timer j of
        None \<Rightarrow> Inr j
      | Some since \<Rightarrow>
          ebind (elapsed_minutes since (now e)) (\<lambda>elapsed.
          ebind (numeric 18 4 elapsed) (\<lambda>m.
          ebind (numeric 18 4 completed) (\<lambda>c.
          ebind (numeric 18 4 scrap) (\<lambda>w.
          ebind (numeric 18 4 (dadd (jc_mins j) elapsed)) (\<lambda>mins.
            Inr (j\<lparr>jc_mins := mins, jc_timer := None,
                   jc_logs := jc_logs j @ [\<lparr>tg_employee = (case emp of Some p \<Rightarrow> Some p | None \<Rightarrow> jc_employee j),
                     tg_from = since, tg_to = now e, tg_mins = m, tg_done = c, tg_scrap = w\<rparr>]\<rparr>)))))))"

definition punch_out :: "string \<Rightarrow> env \<Rightarrow> uuid option \<Rightarrow> dec \<Rightarrow> dec \<Rightarrow> job_card \<Rightarrow> job_card result" where
  "punch_out st e emp completed scrap j =
     ebind (stop_timer e emp completed scrap j) (\<lambda>j1.
     ebind (numeric 18 4 (dadd (jc_done j1) completed)) (\<lambda>c.
     ebind (numeric 18 4 (dadd (jc_scrap j1) scrap)) (\<lambda>w.
       Inr (j1\<lparr>jc_done := c, jc_scrap := w, jc_status := st\<rparr>))))"

definition release_workstation :: "uuid \<Rightarrow> uuid option \<Rightarrow> db \<Rightarrow> db result" where
  "release_workstation t ws s =
     (case ws of
        None \<Rightarrow> Inr s
      | Some w \<Rightarrow> ebind (find_workstation t w s) (\<lambda>x.
          case x of
            None \<Rightarrow> Inr s
          | Some r \<Rightarrow> Inr (if ws_status r = ''IN_USE'' then set_workstation t w ''OPERATIONAL'' s else s)))"

definition end_session ::
    "string \<Rightarrow> env \<Rightarrow> uuid \<Rightarrow> uuid \<Rightarrow> uuid option \<Rightarrow> dec \<Rightarrow> dec \<Rightarrow> db \<Rightarrow> (job_card \<times> db) result" where
  "end_session st e t i emp completed scrap s =
     ebind (get_job_card t i s) (\<lambda>x.
       case x of
         None \<Rightarrow> Inl (job_card_missing i)
       | Some j \<Rightarrow>
           ebind (punch_out st e emp completed scrap j) (\<lambda>j'.
           ebind (release_workstation t (jc_workstation j) s) (\<lambda>s1.
             Inr (j', put_job_card j' s1))))"

definition pause_job_card ::
    "env \<Rightarrow> uuid \<Rightarrow> uuid \<Rightarrow> uuid option \<Rightarrow> dec \<Rightarrow> dec \<Rightarrow> db \<Rightarrow> (job_card \<times> db) result" where
  "pause_job_card = end_session ''PAUSED''"

definition complete_job_card ::
    "env \<Rightarrow> uuid \<Rightarrow> uuid \<Rightarrow> uuid option \<Rightarrow> dec \<Rightarrow> dec \<Rightarrow> db \<Rightarrow> (job_card \<times> db) result" where
  "complete_job_card = end_session ''COMPLETED''"

subsection \<open>Completion of the work order\<close>

text \<open>The loop over the linked cards: those not completed are closed as they are, with the planned quantity.\<close>

definition closed_card :: "job_card \<Rightarrow> job_card" where
  "closed_card j = j\<lparr>jc_status := ''COMPLETED'', jc_done := jc_planned j\<rparr>"

definition closed_with :: "uuid \<Rightarrow> job_card \<Rightarrow> bool" where
  "closed_with order j \<longleftrightarrow> jc_order j = order \<and> jc_status j \<noteq> ''COMPLETED''"

definition free_workstation :: "uuid option \<Rightarrow> db \<Rightarrow> db" where
  "free_workstation ws s =
     (case ws of
        None \<Rightarrow> s
      | Some w \<Rightarrow> s\<lparr>workstations := update_where (\<lambda>x. ws_id x = w \<and> ws_status x = ''IN_USE'')
          (\<lambda>x. x\<lparr>ws_status := ''OPERATIONAL''\<rparr>) (workstations s)\<rparr>)"

definition complete_linked_cards :: "uuid \<Rightarrow> db \<Rightarrow> db" where
  "complete_linked_cards order s =
     foldl (\<lambda>s j. free_workstation (jc_workstation j) s)
       (s\<lparr>job_cards := update_where (closed_with order) closed_card (job_cards s)\<rparr>)
       (filter (closed_with order) (job_cards s))"

subsection \<open>Runs of the shop floor\<close>

text \<open>The services in any order; the second argument collects what happened to the completed quantities:
  \<open>Punched i c\<close>, a punch on the card \<open>i\<close> that reported \<open>c\<close> pieces, and \<open>Closed i q\<close>, the completion of its work
  order, which set them to \<open>q\<close>.\<close>

datatype job_event = Punched uuid dec | Closed uuid dec

definition closings :: "uuid \<Rightarrow> db \<Rightarrow> job_event list" where
  "closings order s = map (\<lambda>j. Closed (jc_id j) (jc_planned j)) (filter (closed_with order) (job_cards s))"

inductive job_run :: "db \<Rightarrow> job_event list \<Rightarrow> db \<Rightarrow> bool" where
  job_idle: "job_run s [] s"
| job_generated: "job_run s rs s' \<Longrightarrow> generate_job_cards_for_work_order t wo bom s' = Inr (cs, s'') \<Longrightarrow> job_run s rs s''"
| job_started: "job_run s rs s' \<Longrightarrow> start_job_card e t i emp s' = Inr (j, s'') \<Longrightarrow> job_run s rs s''"
| job_paused: "job_run s rs s' \<Longrightarrow> pause_job_card e t i emp c w s' = Inr (j, s'') \<Longrightarrow> job_run s (rs @ [Punched i c]) s''"
| job_completed: "job_run s rs s' \<Longrightarrow> complete_job_card e t i emp c w s' = Inr (j, s'') \<Longrightarrow>
    job_run s (rs @ [Punched i c]) s''"
| job_closed: "job_run s rs s' \<Longrightarrow> job_run s (rs @ closings order s') (complete_linked_cards order s')"

text \<open>A timer runs on a card in progress, and on no other but one in \<open>C\<close> that is completed.\<close>

definition timer_ok :: "uuid set \<Rightarrow> job_card \<Rightarrow> bool" where
  "timer_ok C j \<longleftrightarrow>
     (if jc_status j = ''WORK_IN_PROGRESS'' then jc_timer j \<noteq> None
      else jc_timer j = None \<or> jc_status j = ''COMPLETED'' \<and> jc_id j \<in> C)"

definition card_ok :: "uuid set \<Rightarrow> job_card \<Rightarrow> bool" where
  "card_ok C j \<longleftrightarrow> column_amount (jc_done j) \<and> column_amount (jc_planned j) \<and> timer_ok C j"

definition jobs_ok :: "uuid set \<Rightarrow> db \<Rightarrow> bool" where
  "jobs_ok C s \<longleftrightarrow>
     distinct (map jc_id (job_cards s)) \<and> list_all (\<lambda>j. jc_id j < next_id s) (job_cards s) \<and>
     list_all (card_ok C) (job_cards s)"

definition done_of :: "db \<Rightarrow> uuid \<Rightarrow> dec" where
  "done_of s i = or_else (map_of (map (\<lambda>j. (jc_id j, jc_done j)) (job_cards s)) i) 0"

fun booked_event :: "uuid \<Rightarrow> dec \<Rightarrow> job_event \<Rightarrow> dec" where
  "booked_event i d (Punched k c) = (if k = i then d + c else d)"
| "booked_event i d (Closed k q) = (if k = i then q else d)"

definition booked :: "job_event list \<Rightarrow> uuid \<Rightarrow> dec \<Rightarrow> dec" where
  "booked rs i d = foldl (booked_event i) d rs"

definition closed_ids :: "job_event list \<Rightarrow> uuid set" where
  "closed_ids rs = {i. \<exists>q. Closed i q \<in> set rs}"

definition columns_only :: "job_event list \<Rightarrow> bool" where
  "columns_only rs \<longleftrightarrow> (\<forall>i c. Punched i c \<in> set rs \<longrightarrow> column_amount c)"

lemma booked_simps [simp]:
  "booked [] i d = d" "booked [r] i d = booked_event i d r" "booked (rs @ qs) i d = booked qs i (booked rs i d)"
  by (simp_all add: booked_def)

lemma closed_ids_append [simp]: "closed_ids (rs @ qs) = closed_ids rs \<union> closed_ids qs"
  by (auto simp: closed_ids_def)

lemma closed_ids_punched [simp]: "closed_ids [Punched i c] = {}" "closed_ids [] = {}"
  by (simp_all add: closed_ids_def)

lemma columns_only_append [simp]: "columns_only (rs @ qs) \<longleftrightarrow> columns_only rs \<and> columns_only qs"
  by (auto simp: columns_only_def)

lemma columns_only_punched [simp]: "columns_only [Punched i c] = column_amount c"
  by (simp add: columns_only_def)

lemma jobs_ok_mono: "jobs_ok C s \<Longrightarrow> C \<subseteq> D \<Longrightarrow> jobs_ok D s"
  by (auto simp: jobs_ok_def card_ok_def timer_ok_def list_all_iff split: if_splits)

lemma get_job_card_Some: "get_job_card t i s = Inr (Some j) \<Longrightarrow> j \<in> set (job_cards s) \<and> jc_tenant j = t \<and> jc_id j = i"
  unfolding get_job_card_def by (drule one_or_none_filter) simp

lemma done_of_cong: "job_cards s' = job_cards s \<Longrightarrow> done_of s' = done_of s"
  by (simp add: done_of_def fun_eq_iff)

lemma put_by_id:
  assumes "distinct (map jc_id (job_cards s))" "j \<in> set (job_cards s)" "jc_id j' = jc_id j" "jc_tenant j' = jc_tenant j"
  shows "job_cards (put_job_card j' s) = map (\<lambda>x. if jc_id x = jc_id j' then j' else x) (job_cards s)"
proof -
  have "x = j" if "x \<in> set (job_cards s)" "jc_id x = jc_id j" for x
    using that assms(1,2) by (auto simp: distinct_map dest: inj_onD)
  then show ?thesis using assms(3,4) by (auto simp: put_job_card_def update_where_def)
qed

lemma put_job_card_ok:
  assumes "jobs_ok C s" "j \<in> set (job_cards s)" "jc_id j' = jc_id j" "jc_tenant j' = jc_tenant j" "card_ok C j'"
  shows "jobs_ok C (put_job_card j' s) \<and> done_of (put_job_card j' s) k = (if k = jc_id j then jc_done j' else done_of s k)"
proof -
  let ?f = "\<lambda>x. if jc_id x = jc_id j' then j' else x"
  have cards: "job_cards (put_job_card j' s) = map ?f (job_cards s)"
    using assms by (intro put_by_id) (simp_all add: jobs_ok_def)
  have ids: "map jc_id (map ?f (job_cards s)) = map jc_id (job_cards s)" by simp
  have "map_of (map (\<lambda>x. (jc_id x, jc_done x)) (map ?f js)) k =
      (if k = jc_id j' \<and> jc_id j' \<in> jc_id ` set js then Some (jc_done j') else map_of (map (\<lambda>x. (jc_id x, jc_done x)) js) k)" for js
    by (induction js) auto
  moreover have "jc_id j' \<in> jc_id ` set (job_cards s)" using assms(2,3) by (metis image_eqI)
  ultimately have "done_of (put_job_card j' s) k = (if k = jc_id j then jc_done j' else done_of s k)"
    using assms(3) by (simp add: done_of_def cards or_else_def)
  moreover have "next_id (put_job_card j' s) = next_id s" by (simp add: put_job_card_def)
  then have "jobs_ok C (put_job_card j' s)"
    using assms unfolding jobs_ok_def cards ids by (auto simp: list_all_iff)
  ultimately show ?thesis by blast
qed

lemma jobs_ok_cong: "job_cards s' = job_cards s \<Longrightarrow> next_id s' = next_id s \<Longrightarrow> jobs_ok C s' = jobs_ok C s"
  by (simp add: jobs_ok_def)

lemma done_of_card:
  assumes "jobs_ok C s" "j \<in> set (job_cards s)"
  shows "done_of s (jc_id j) = jc_done j"
proof -
  have "map_of (map (\<lambda>j. (jc_id j, jc_done j)) (job_cards s)) (jc_id j) = Some (jc_done j)"
    using assms by (intro map_of_is_SomeI) (auto simp: jobs_ok_def comp_def)
  then show ?thesis by (simp add: done_of_def or_else_def)
qed

lemma occupy_frame: "occupy_workstation t ws s = Inr s' \<Longrightarrow> job_cards s' = job_cards s \<and> next_id s' = next_id s"
  by (auto simp: occupy_workstation_def set_workstation_def ebind_eq_Inr split: option.splits if_splits)

lemma release_frame: "release_workstation t ws s = Inr s' \<Longrightarrow> job_cards s' = job_cards s \<and> next_id s' = next_id s"
  by (auto simp: release_workstation_def set_workstation_def ebind_eq_Inr split: option.splits if_splits)

lemma begin_work_order_frame [simp]:
  "job_cards (begin_work_order tm i s) = job_cards s" "next_id (begin_work_order tm i s) = next_id s"
  by (simp_all add: begin_work_order_def)

lemma start_job_card_Inr:
  assumes "start_job_card e t i emp s = Inr (j', s')"
  obtains j s1 where "get_job_card t i s = Inr (Some j)" "jc_status j \<noteq> ''COMPLETED''"
    "occupy_workstation t (jc_workstation j) s = Inr s1" "j' = punched_in e emp j"
    "s' = begin_work_order (now e) (jc_order j) (put_job_card j' s1)"
  using assms by (auto simp: start_job_card_def ebind_eq_Inr split: option.splits if_splits)

lemma end_session_Inr:
  assumes "end_session st e t i emp c w s = Inr (j', s')"
  obtains j s1 where "get_job_card t i s = Inr (Some j)" "punch_out st e emp c w j = Inr j'"
    "release_workstation t (jc_workstation j) s = Inr s1" "s' = put_job_card j' s1"
  using assms by (auto simp: end_session_def ebind_eq_Inr split: option.splits)

lemma punched_in_simps [simp]:
  "jc_id (punched_in e emp j) = jc_id j" "jc_tenant (punched_in e emp j) = jc_tenant j"
  "jc_done (punched_in e emp j) = jc_done j" "card_ok C j \<Longrightarrow> card_ok C (punched_in e emp j)"
  by (simp_all add: punched_in_def card_ok_def timer_ok_def)

lemma put_started_ok:
  assumes "jobs_ok C s" "j \<in> set (job_cards s)" "job_cards s1 = job_cards s" "next_id s1 = next_id s"
    and "jc_id j' = jc_id j" "jc_tenant j' = jc_tenant j" "card_ok C j'"
  shows "jobs_ok C (put_job_card j' s1) \<and>
    done_of (put_job_card j' s1) k = done_of s k + (if jc_id j = k then jc_done j' - jc_done j else 0)"
proof -
  have ok: "jobs_ok C s1" "j \<in> set (job_cards s1)" using jobs_ok_cong [OF assms(3,4)] assms(1-3) by simp_all
  note p = put_job_card_ok [OF ok assms(5-7)]
  have "done_of s1 = done_of s" using assms(3) by (rule done_of_cong)
  moreover have "done_of s (jc_id j) = jc_done j" using assms(1,2) by (rule done_of_card)
  ultimately have "done_of (put_job_card j' s1) k = done_of s k + (if jc_id j = k then jc_done j' - jc_done j else 0)"
    by (cases "k = jc_id j") (simp_all add: p)
  with p show ?thesis by blast
qed

lemma start_job_card_ok:
  assumes "start_job_card e t i emp s = Inr (j', s')" "jobs_ok C s"
  shows "jobs_ok C s' \<and> done_of s' k = done_of s k"
proof -
  from assms(1) obtain j s1 where j: "get_job_card t i s = Inr (Some j)"
    and s1: "occupy_workstation t (jc_workstation j) s = Inr s1" and j': "j' = punched_in e emp j"
    and s': "s' = begin_work_order (now e) (jc_order j) (put_job_card j' s1)" by (rule start_job_card_Inr)
  note mem = get_job_card_Some [OF j] and f = occupy_frame [OF s1]
  have "card_ok C j" using assms(2) mem by (simp add: jobs_ok_def list_all_iff)
  then have "jobs_ok C (put_job_card j' s1)" "done_of (put_job_card j' s1) k = done_of s k"
    using put_started_ok [of C s j s1 j' k] assms(2) mem f by (simp_all add: j')
  then show ?thesis by (simp add: s' jobs_ok_def done_of_def)
qed

lemma punch_outD:
  assumes "punch_out st e emp c w j = Inr j'" "card_ok C j" "column_amount c" "st \<noteq> ''WORK_IN_PROGRESS''"
  shows "card_ok C j' \<and> jc_id j' = jc_id j \<and> jc_tenant j' = jc_tenant j \<and> jc_done j' = jc_done j + c"
proof -
  obtain j1 q v where j1: "stop_timer e emp c w j = Inr j1" and q: "numeric 18 4 (dadd (jc_done j1) c) = Inr q"
    and j': "j' = j1\<lparr>jc_done := q, jc_scrap := v, jc_status := st\<rparr>"
    using assms(1) by (auto simp: punch_out_def ebind_eq_Inr)
  have same: "jc_id j1 = jc_id j \<and> jc_planned j1 = jc_planned j \<and> jc_tenant j1 = jc_tenant j \<and> jc_done j1 = jc_done j \<and> jc_timer j1 = None"
    using j1 by (auto simp: stop_timer_def ebind_eq_Inr split: option.splits)
  have sum: "dadd (jc_done j) c = jc_done j + c" "places 4 (jc_done j + c)"
    using assms(2,3) by (auto simp: card_ok_def dadd_column column_amount_def)
  then have "q = jc_done j + c \<and> column_amount q" using numeric_keeps q same by auto
  with same assms(2,4) show ?thesis by (auto simp: j' card_ok_def timer_ok_def)
qed

lemma end_session_ok:
  assumes "end_session st e t i emp c w s = Inr (j', s')" "jobs_ok C s" "column_amount c" "st \<noteq> ''WORK_IN_PROGRESS''"
  shows "jobs_ok C s' \<and> done_of s' k = done_of s k + (if i = k then c else 0)"
proof -
  from assms(1) obtain j s1 where j: "get_job_card t i s = Inr (Some j)" and j': "punch_out st e emp c w j = Inr j'"
    and s1: "release_workstation t (jc_workstation j) s = Inr s1" and s': "s' = put_job_card j' s1"
    by (rule end_session_Inr)
  note mem = get_job_card_Some [OF j] and f = release_frame [OF s1]
  have "card_ok C j" using assms(2) mem by (simp add: jobs_ok_def list_all_iff)
  note d = punch_outD [OF j' this assms(3,4)]
  from put_started_ok [of C s j s1 j' k] assms(2) mem f d show ?thesis by (simp add: s')
qed

lemma add_job_card_ok:
  assumes "add_job_card t wo (cs, s) r = Inr (cs', s')" "jobs_ok C s"
  shows "jobs_ok C s' \<and> done_of s' k = done_of s k"
proof -
  define j where "j = last cs'"
  have j: "jc_id j = next_id s" "card_ok C j" "jc_done j = 0"
    and s': "job_cards s' = job_cards s @ [j]" "next_id s' = Suc (next_id s)"
    using assms(1) unfolding j_def
    by (auto simp: add_job_card_def uuid4_def Let_def card_ok_def timer_ok_def column_amount_def ebind_eq_Inr numeric_Inr
        split: if_splits)
  have fresh: "next_id s \<notin> jc_id ` set (job_cards s)" using assms(2) by (auto simp: jobs_ok_def list_all_iff)
  then have "jobs_ok C s'" using assms(2) j by (auto simp: jobs_ok_def s' list_all_iff)
  moreover have "map_of (map (\<lambda>j. (jc_id j, jc_done j)) (job_cards s)) (next_id s) = None"
    using fresh by (simp add: map_of_eq_None_iff image_image)
  then have "done_of s' k = done_of s k"
    using j by (simp add: done_of_def s' map_add_def or_else_def split: option.split)
  ultimately show ?thesis by blast
qed

lemma generate_ok:
  assumes "generate_job_cards_for_work_order t wo bom s = Inr (cs, s')" "jobs_ok C s"
  shows "jobs_ok C s' \<and> done_of s' k = done_of s k"
proof (cases "s' = s")
  case False
  then obtain b :: bom_row where "efold (add_job_card t wo) ([], s) (bm_steps b) = Inr (cs, s')"
    using assms(1) by (auto simp: generate_job_cards_for_work_order_def ebind_eq_Inr split: option.splits)
  then have "(\<lambda>(cs, s'). jobs_ok C s' \<and> done_of s' k = done_of s k) (cs, s')"
  proof (rule efold_invariant)
    show "case ([], s) of (cs, s') \<Rightarrow> jobs_ok C s' \<and> done_of s' k = done_of s k" using assms(2) by simp
    fix st r st'
    assume "case st of (cs, s') \<Rightarrow> jobs_ok C s' \<and> done_of s' k = done_of s k" "add_job_card t wo st r = Inr st'"
    then show "case st' of (cs, s') \<Rightarrow> jobs_ok C s' \<and> done_of s' k = done_of s k"
      using add_job_card_ok [of t wo "fst st" "snd st" r "fst st'" "snd st'" C k] by (simp add: case_prod_unfold)
  qed
  then show ?thesis by simp
qed (use assms in simp)

lemma free_workstation_frame [simp]:
  "job_cards (free_workstation w s) = job_cards s" "next_id (free_workstation w s) = next_id s"
  by (simp_all add: free_workstation_def split: option.split)

lemma complete_linked_frame:
  "job_cards (complete_linked_cards order s) = update_where (closed_with order) closed_card (job_cards s)"
  "next_id (complete_linked_cards order s) = next_id s"
proof -
  have "job_cards (foldl (\<lambda>s j. free_workstation (jc_workstation j) s) s js) = job_cards s \<and>
    next_id (foldl (\<lambda>s j. free_workstation (jc_workstation j) s) s js) = next_id s" for js :: "job_card list" and s
    by (induction js arbitrary: s) simp_all
  then show "job_cards (complete_linked_cards order s) = update_where (closed_with order) closed_card (job_cards s)"
    "next_id (complete_linked_cards order s) = next_id s"
    by (simp_all add: complete_linked_cards_def)
qed

lemma closings_booked:
  "booked (map (\<lambda>j. Closed (jc_id j) (jc_planned j)) js) k d =
     or_else (map_of (map (\<lambda>j. (jc_id j, jc_planned j)) (rev js)) k) d"
  by (induction js rule: rev_induct) (simp_all add: or_else_def)

lemma closings_done:
  assumes "distinct (map jc_id js)"
  shows "or_else (map_of (map (\<lambda>j. (jc_id j, jc_done j)) (map (\<lambda>j. if P j then closed_card j else j) js)) k) 0 =
    or_else (map_of (map (\<lambda>j. (jc_id j, jc_planned j)) (rev (filter P js))) k)
      (or_else (map_of (map (\<lambda>j. (jc_id j, jc_done j)) js) k) 0)"
  using assms
proof (induction js)
  case (Cons j js)
  have "map_of (map (\<lambda>j. (jc_id j, jc_planned j)) (rev (filter P js))) (jc_id j) = None"
    using Cons.prems by (auto simp: map_of_eq_None_iff)
  with Cons show ?case by (auto simp: closed_card_def map_add_def or_else_def split: option.splits)
qed (simp add: or_else_def)

lemma complete_linked_ok:
  assumes "jobs_ok C s"
  shows "jobs_ok (C \<union> closed_ids (closings order s)) (complete_linked_cards order s) \<and>
    done_of (complete_linked_cards order s) k = booked (closings order s) k (done_of s k)"
proof
  let ?P = "closed_with order" and ?js = "job_cards s"
  let ?u = "\<lambda>j. if ?P j then closed_card j else j"
  have cards: "job_cards (complete_linked_cards order s) = map ?u ?js"
    by (simp add: complete_linked_frame update_where_def)
  have ids: "jc_id (?u j) = jc_id j" for j by (simp add: closed_card_def)
  have mem: "jc_id j \<in> closed_ids (closings order s)" if "j \<in> set ?js" "?P j" for j
    using that by (auto simp: closed_ids_def closings_def)
  have "card_ok (C \<union> closed_ids (closings order s)) (?u j)" if "j \<in> set ?js" for j
    using assms that mem [OF that]
    by (auto simp: jobs_ok_def list_all_iff card_ok_def timer_ok_def closed_card_def)
  then have "list_all (card_ok (C \<union> closed_ids (closings order s))) (map ?u ?js)"
    unfolding list_all_iff set_map by blast
  moreover have "map jc_id (map ?u ?js) = map jc_id ?js" by (simp add: ids)
  moreover have "list_all (\<lambda>j. jc_id j < next_id s) (map ?u ?js)"
    using assms by (auto simp: jobs_ok_def list_all_iff closed_card_def)
  ultimately show "jobs_ok (C \<union> closed_ids (closings order s)) (complete_linked_cards order s)"
    using assms unfolding jobs_ok_def cards complete_linked_frame(2) by (simp only: simp_thms)
  show "done_of (complete_linked_cards order s) k = booked (closings order s) k (done_of s k)"
    using assms unfolding jobs_ok_def closings_def done_of_def cards closings_booked
    by (intro closings_done) simp
qed

lemma job_run_ok:
  assumes "job_run s rs s'" "jobs_ok C s" "columns_only rs"
  shows "jobs_ok (C \<union> closed_ids rs) s' \<and> done_of s' k = booked rs k (done_of s k)"
  using assms
proof (induction arbitrary: k rule: job_run.induct)
  case (job_generated s rs s' t wo bom cs s'')
  then show ?case using generate_ok by (metis list.distinct(1))
next
  case (job_started s rs s' e t i emp j s'')
  then show ?case using start_job_card_ok by metis
next
  case (job_paused s rs s' e t i emp c w j s'')
  then show ?case using end_session_ok [OF job_paused.hyps(2) [unfolded pause_job_card_def], of "C \<union> closed_ids rs" k] by simp
next
  case (job_completed s rs s' e t i emp c w j s'')
  then show ?case using end_session_ok [OF job_completed.hyps(2) [unfolded complete_job_card_def], of "C \<union> closed_ids rs" k] by simp
next
  case (job_closed s rs s' order)
  then show ?case using complete_linked_ok [of "C \<union> closed_ids rs" s' order k] by (simp add: Un_assoc)
qed simp

subsection \<open>Properties\<close>

text \<open>C23: whatever happens to job cards (generation, punches, completion of their work orders), a timer runs
  on every card in progress, and on no other card, unless it was closed with its work order while it ran;
  and the completed quantity of a card is what the punches on it reported, except that the completion of the
  order sets it to the planned quantity, from which later punches go on. The reported quantities are amounts
  of the columns.\<close>

theorem punches_add_up:
  assumes "job_run s rs s'" and "jobs_ok {} s" and "columns_only rs"
  shows "(\<forall>j \<in> set (job_cards s'). if jc_status j = ''WORK_IN_PROGRESS'' then jc_timer j \<noteq> None
      else jc_timer j = None \<or> jc_status j = ''COMPLETED'' \<and> (\<exists>q. Closed (jc_id j) q \<in> set rs)) \<and>
    done_of s' i = foldl (booked_event i) (done_of s i) rs"
  using job_run_ok [OF assms, of i]
  by (auto simp: jobs_ok_def card_ok_def timer_ok_def list_all_iff booked_def closed_ids_def)

definition shop_card :: "uuid \<Rightarrow> job_card" where
  "shop_card i = \<lparr>jc_tenant = 0, jc_id = i, jc_number = ''JC'', jc_order = 50, jc_operation = 60,
     jc_workstation = Some 70, jc_employee = None, jc_sequence = 1, jc_planned = 10, jc_done = 0, jc_scrap = 0,
     jc_status = ''PENDING'', jc_started = None, jc_timer = None, jc_mins = 0, jc_logs = []\<rparr>"

definition shop_db :: db where
  "shop_db = empty_db\<lparr>next_id := 100, job_cards := [shop_card 1, shop_card 2],
     workstations := [\<lparr>ws_tenant = 0, ws_id = 70, ws_code = ''CNC'', ws_status = ''OPERATIONAL''\<rparr>]\<rparr>"

definition shop_env :: "timestamp \<Rightarrow> env" where
  "shop_env tm = \<lparr>today = 739800, now = tm, sha256 = (\<lambda>x. x), dec_str = (\<lambda>d. ''1''), time_str = (\<lambda>x. ''t''),
     cfg_tier1 = 0, cfg_tier2 = 0\<rparr>"

definition shop_day :: "db result" where
  "shop_day =
     ebind (start_job_card (shop_env 0) 0 1 None shop_db) (\<lambda>(j, s).
     ebind (start_job_card (shop_env 60000000) 0 2 None s) (\<lambda>(j, s).
     ebind (complete_job_card (shop_env 120000000) 0 1 None 4 0 s) (\<lambda>(j, s).
     ebind (pause_job_card (shop_env 180000000) 0 1 None 3 0 s) (\<lambda>(j, s). Inr s))))"

lemma shop_day_runs:
  assumes "shop_day = Inr s"
  shows "job_run shop_db [Punched 1 4, Punched 1 3] s"
proof -
  obtain j1 s1 j2 s2 j3 s3 j4 where
    1: "start_job_card (shop_env 0) 0 1 None shop_db = Inr (j1, s1)" and
    2: "start_job_card (shop_env 60000000) 0 2 None s1 = Inr (j2, s2)" and
    3: "complete_job_card (shop_env 120000000) 0 1 None 4 0 s2 = Inr (j3, s3)" and
    4: "pause_job_card (shop_env 180000000) 0 1 None 3 0 s3 = Inr (j4, s)"
    using assms by (auto simp: shop_day_def ebind_eq_Inr split: prod.splits)
  have "job_run shop_db [] s2" by (rule job_started [OF job_started [OF job_idle 1] 2])
  from job_paused [OF job_completed [OF this 3] 4] show ?thesis by simp
qed

text \<open>The first card is completed and then paused: it is open again, with seven pieces reported. The
  workstation that both cards share is released although the second card is still in progress.\<close>

theorem completed_cards_can_be_reopened:
  "case shop_day of Inl e \<Rightarrow> False
   | Inr s \<Rightarrow> (map jc_status (job_cards s), map ws_status (workstations s), done_of s 1) =
       ([''PAUSED'', ''WORK_IN_PROGRESS''], [''OPERATIONAL''], 7)"
  by code_simp

text \<open>The completion of the work order closes a card under a running timer, which then runs on, and replaces
  the four reported pieces by the ten that were planned; three more that are reported later make thirteen.\<close>

theorem completion_overwrites_cards:
  "case ebind (start_job_card (shop_env 0) 0 1 None shop_db) (\<lambda>(j, s).
        ebind (pause_job_card (shop_env 60000000) 0 1 None 4 0 s) (\<lambda>(j, s).
        ebind (start_job_card (shop_env 120000000) 0 1 None s) (\<lambda>(j, s).
        let s1 = complete_linked_cards 50 s in
        ebind (pause_job_card (shop_env 180000000) 0 1 None 3 0 s1) (\<lambda>(j, s2). Inr (s1, s2))))) of
     Inl e \<Rightarrow> False
   | Inr (s1, s2) \<Rightarrow> (map jc_status (job_cards s1), map jc_timer (job_cards s1), map jc_done (job_cards s1)) =
        ([''COMPLETED'', ''COMPLETED''], [Some 120000000, None], [10, 10]) \<and> done_of s2 1 = 13"
  by code_simp

theorem punches_add_up_witness:
  "\<exists>s. shop_day = Inr s \<and> done_of s 1 = 7 \<and>
    list_all (\<lambda>j. (jc_timer j \<noteq> None) = (jc_status j = ''WORK_IN_PROGRESS'')) (job_cards s)"
proof -
  obtain s where s: "shop_day = Inr s" using completed_cards_can_be_reopened by (auto split: sum.splits)
  have "jobs_ok {} shop_db" by code_simp
  moreover have "column_amount 4" "column_amount 3" by code_simp+
  then have "columns_only [Punched 1 4, Punched 1 3]" by (auto simp: columns_only_def)
  ultimately have "(\<forall>j \<in> set (job_cards s). if jc_status j = ''WORK_IN_PROGRESS'' then jc_timer j \<noteq> None
        else jc_timer j = None \<or> jc_status j = ''COMPLETED'' \<and> (\<exists>q. Closed (jc_id j) q \<in> set [Punched 1 4, Punched 1 3])) \<and>
      done_of s 1 = foldl (booked_event 1) (done_of shop_db 1) [Punched 1 4, Punched 1 3]"
    by (rule punches_add_up [OF shop_day_runs [OF s]])
  moreover have "foldl (booked_event 1) (done_of shop_db 1) [Punched 1 4, Punched 1 3] = 7" by code_simp
  ultimately show ?thesis using s by (intro exI [of _ s]) (auto simp: list_all_iff split: if_splits)
qed

end
