(* ===== verification/Mrp.thy ===== *)
theory Mrp
  imports Bom
begin

section \<open>Production plans and material requirements\<close>

text \<open>
  \<open>src/src/erp/workflows/manufacturing/mrp_service.py\<close>: production plans and the explosion of their
  bills. The explosion recurses without a bound, so the stack that Python has is an argument of the
  model and its exhaustion the error \<open>RecursionError\<close>. The lemmas: the explosion returns exactly for bills
  that do not reach a cycle, one stack level per bill is enough for them, and the requirement of an item
  is the sum of what its occurrences in the tree demand.
\<close>

subsection \<open>Plans\<close>

record plan_data =
  pd_item :: uuid
  pd_qty :: dec
  pd_bom :: "uuid option"
  pd_order :: "uuid option"

definition default_active_bom :: "uuid \<Rightarrow> uuid \<Rightarrow> db \<Rightarrow> uuid option" where
  "default_active_bom t item s =
     map_option bm_id (first_row
       (filter (\<lambda>b. bm_tenant b = t \<and> bm_item b = item \<and> bm_default b \<and> bm_active b) (boms s)))"

definition add_plan_item ::
    "uuid \<Rightarrow> db \<Rightarrow> plan_item list \<times> dec \<Rightarrow> plan_data \<Rightarrow> (plan_item list \<times> dec) result" where
  "add_plan_item t s st d =
     (let (rows, quantity) = st;
          bom = (case pd_bom d of Some b \<Rightarrow> Some b | None \<Rightarrow> default_active_bom t (pd_item d) s)
      in ebind (numeric 18 4 (pd_qty d)) (\<lambda>q.
           Inr (rows @ [\<lparr>pli_item = pd_item d, pli_bom = bom, pli_order = pd_order d, pli_qty = q, pli_produced = 0\<rparr>],
                dadd quantity (pd_qty d))))"

definition create_production_plan ::
    "env \<Rightarrow> uuid \<Rightarrow> string \<Rightarrow> plan_data list \<Rightarrow> date option \<Rightarrow> db \<Rightarrow> (production_plan \<times> db) result" where
  "create_production_plan e t number ds d s =
     (if list_ex (\<lambda>p. pl_tenant p = t \<and> pl_number p = strip number) (production_plans s) then Inl IntegrityError
      else let (i, s1) = uuid4 s in
        ebind (efold (add_plan_item t s1) ([], 0) ds) (\<lambda>(rows, quantity).
        ebind (numeric 18 4 quantity) (\<lambda>q.
          let p = \<lparr>pl_tenant = t, pl_id = i, pl_number = strip number, pl_date = or_else d (today e),
                   pl_status = ''DRAFT'', pl_qty = q, pl_items = rows\<rparr>
          in Inr (p, s1\<lparr>production_plans := production_plans s1 @ [p]\<rparr>))))"

definition get_production_plan :: "uuid \<Rightarrow> uuid \<Rightarrow> db \<Rightarrow> production_plan option result" where
  "get_production_plan t i s =
     one_or_none (filter (\<lambda>p. pl_tenant p = t \<and> pl_id p = i) (production_plans s))"

definition list_production_plans :: "uuid \<Rightarrow> string option \<Rightarrow> db \<Rightarrow> production_plan list" where
  "list_production_plans t st s =
     rev (filter (\<lambda>p. pl_tenant p = t \<and>
        (case st of None \<Rightarrow> True | Some y \<Rightarrow> y = [] \<or> pl_status p = upper y)) (production_plans s))"

subsection \<open>The explosion\<close>

text \<open>Requirements are a dictionary from items to quantities.\<close>

type_synonym requirements = "(uuid \<times> dec) list"

definition add_requirement :: "requirements \<Rightarrow> uuid \<times> dec \<Rightarrow> requirements" where
  "add_requirement g iq =
     AList.update (fst iq) (dadd (or_else (map_of g (fst iq)) 0) (snd iq)) g"

definition bom_ratio :: "bom_row \<Rightarrow> dec \<Rightarrow> dec result" where
  "bom_ratio b multiplier = ddiv multiplier (if bm_qty b > 0 then bm_qty b else 1)"

definition component_demand :: "dec \<Rightarrow> bom_item \<Rightarrow> dec result" where
  "component_demand ratio c =
     (let q = dmul (bi_qty c) ratio in
      if bi_scrap c > 0 then ebind (ddiv (bi_scrap c) 100) (\<lambda>p. Inr (dmul q (dadd 1 p))) else Inr q)"

fun explode_bom ::
    "nat \<Rightarrow> uuid \<Rightarrow> db \<Rightarrow> uuid \<Rightarrow> dec \<Rightarrow> requirements \<Rightarrow> requirements result" where
  "explode_bom 0 t s i multiplier g = Inl RecursionError"
| "explode_bom (Suc stack) t s i multiplier g =
     ebind (get_bom t i s) (\<lambda>x.
       case x of
         None \<Rightarrow> Inr g
       | Some b \<Rightarrow>
           if bm_items b = [] then Inr g
           else ebind (bom_ratio b multiplier) (\<lambda>ratio.
             efold (\<lambda>g c. ebind (component_demand ratio c) (\<lambda>q.
               let g' = add_requirement g (bi_item c, q) in
               case sub_bom t i c s of
                 None \<Rightarrow> Inr g'
               | Some sub \<Rightarrow> explode_bom stack t s sub q g')) g (bm_items b)))"

record item_label =
  lb_item :: uuid
  lb_name :: string
  lb_code :: string

record requirement_row =
  rq_item :: uuid
  rq_code :: string
  rq_name :: string
  rq_uom :: string
  rq_gross :: pyfloat
  rq_current :: pyfloat
  rq_reserved :: pyfloat
  rq_available :: pyfloat
  rq_shortage :: pyfloat

record requirement_report =
  rr_plan :: uuid
  rr_number :: string
  rr_qty :: pyfloat
  rr_rows :: "requirement_row list"
  rr_without :: "item_label list"

definition default_bom :: "uuid \<Rightarrow> uuid \<Rightarrow> db \<Rightarrow> uuid option" where
  "default_bom t item s =
     map_option bm_id (first_row (filter (\<lambda>b. bm_tenant b = t \<and> bm_item b = item \<and> bm_default b) (boms s)))"

definition explode_plan_item ::
    "nat \<Rightarrow> uuid \<Rightarrow> db \<Rightarrow> requirements \<times> item_label list \<Rightarrow> plan_item
     \<Rightarrow> (requirements \<times> item_label list) result" where
  "explode_plan_item stack t s st p =
     (let (g, without) = st in
      case (case pli_bom p of Some b \<Rightarrow> Some b | None \<Rightarrow> default_bom t (pli_item p) s) of
        Some b \<Rightarrow> ebind (explode_bom stack t s b (pli_qty p) g) (\<lambda>g'. Inr (g', without))
      | None \<Rightarrow> ebind (find_item t (pli_item p) s) (\<lambda>x.
          Inr (g, without @ [\<lparr>lb_item = pli_item p, lb_name = item_name_or ''Unknown Item'' x,
                              lb_code = item_code_or ''N/A'' x\<rparr>])))"

text \<open>The sums over the warehouses are computed by the database, exactly.\<close>

definition stock_of :: "(stock_level \<Rightarrow> dec) \<Rightarrow> uuid \<Rightarrow> uuid \<Rightarrow> db \<Rightarrow> dec" where
  "stock_of f t item s = (\<Sum>l\<leftarrow>filter (\<lambda>l. sl_tenant l = t \<and> sl_item l = item) (stock_levels s). f l)"

definition shortage :: "dec \<Rightarrow> dec \<Rightarrow> dec" where
  "shortage gross available = max 0 (dsub gross available)"

definition requirement_row_of :: "uuid \<Rightarrow> db \<Rightarrow> uuid \<times> dec \<Rightarrow> requirement_row result" where
  "requirement_row_of t s ig =
     (let (i, gross) = ig; available = stock_of sl_available t i s in
      ebind (find_item t i s) (\<lambda>x.
        Inr \<lparr>rq_item = i, rq_code = item_code_or ''N/A'' x, rq_name = item_name_or ''Unknown Component'' x,
             rq_uom = (case x of None \<Rightarrow> ''Nos'' | Some r \<Rightarrow> it_uom r), rq_gross = float_of gross,
             rq_current = float_of (stock_of sl_current t i s),
             rq_reserved = float_of (stock_of sl_reserved t i s),
             rq_available = float_of available, rq_shortage = float_of (shortage gross available)\<rparr>))"

definition explode_material_requirements ::
    "nat \<Rightarrow> uuid \<Rightarrow> uuid \<Rightarrow> db \<Rightarrow> requirement_report result" where
  "explode_material_requirements stack t i s =
     ebind (get_production_plan t i s) (\<lambda>x.
       case x of
         None \<Rightarrow> Inl (ValueError (''Production Plan '' @ quoted (str_uuid i) @ '' not found.''))
       | Some p \<Rightarrow>
           ebind (efold (explode_plan_item stack t s) ([], []) (pl_items p)) (\<lambda>(g, without).
           ebind (emap (requirement_row_of t s) g) (\<lambda>rows.
             Inr \<lparr>rr_plan = pl_id p, rr_number = pl_number p, rr_qty = float_of (pl_qty p),
                  rr_rows = rows, rr_without = without\<rparr>)))"

subsection \<open>What a bill demands\<close>

text \<open>The reference: the demands of all occurrences of components in the tree, in the order of a walk
  through it.\<close>

definition branch_demands ::
    "(uuid \<Rightarrow> dec \<Rightarrow> (uuid \<times> dec) list result) \<Rightarrow> uuid \<Rightarrow> db \<Rightarrow> uuid \<Rightarrow> dec \<Rightarrow> bom_item \<Rightarrow> (uuid \<times> dec) list result" where
  "branch_demands below t s i ratio c =
     ebind (component_demand ratio c) (\<lambda>q.
       case sub_bom t i c s of
         None \<Rightarrow> Inr [(bi_item c, q)]
       | Some sub \<Rightarrow> ebind (below sub q) (\<lambda>ds. Inr ((bi_item c, q) # ds)))"

primrec demands :: "nat \<Rightarrow> uuid \<Rightarrow> db \<Rightarrow> uuid \<Rightarrow> dec \<Rightarrow> (uuid \<times> dec) list result" where
  "demands 0 t s i multiplier = Inl RecursionError"
| "demands (Suc n) t s i multiplier =
     ebind (get_bom t i s) (\<lambda>x.
       case x of
         None \<Rightarrow> Inr []
       | Some b \<Rightarrow>
           if bm_items b = [] then Inr []
           else ebind (bom_ratio b multiplier) (\<lambda>ratio.
             ebind (emap (branch_demands (demands n t s) t s i ratio) (bm_items b)) (\<lambda>dss. Inr (concat dss))))"

lemma explode_demands:
  "explode_bom n t s i q g = ebind (demands n t s i q) (\<lambda>ds. Inr (foldl add_requirement g ds))"
proof (induction n arbitrary: i q g)
  case (Suc n)
  have step: "ebind (component_demand ratio c) (\<lambda>q.
      let g' = add_requirement g (bi_item c, q) in
      case sub_bom t i c s of None \<Rightarrow> Inr g' | Some sub \<Rightarrow> explode_bom n t s sub q g') =
    ebind (branch_demands (demands n t s) t s i ratio c) (\<lambda>ds. Inr (foldl add_requirement g ds))" for ratio c g
    by (cases "component_demand ratio c") (simp_all add: branch_demands_def Suc ebind_assoc split: option.split)
  show ?case
    by (cases "get_bom t i s") (auto simp: ebind_assoc efold_emap [OF step] intro!: ebind_cong split: option.split)
qed simp

subsection \<open>Cycles\<close>

definition bom_links :: "uuid \<Rightarrow> db \<Rightarrow> (uuid \<times> uuid) set" where
  "bom_links t s =
     {(sub, i). \<exists>b c. get_bom t i s = Inr (Some b) \<and> c \<in> set (bm_items b) \<and> sub_bom t i c s = Some sub}"

definition reaches_cycle :: "uuid \<Rightarrow> db \<Rightarrow> uuid \<Rightarrow> bool" where
  "reaches_cycle t s i \<longleftrightarrow> (\<exists>j. (j, i) \<in> (bom_links t s)\<^sup>* \<and> (j, j) \<in> (bom_links t s)\<^sup>+)"

lemma bom_ratio_total: "\<exists>r. bom_ratio b q = Inr r"
  by (simp add: bom_ratio_def ddiv_def)

lemma component_demand_total: "\<exists>q. component_demand ratio c = Inr q"
  by (simp add: component_demand_def ddiv_def Let_def)

text \<open>A step of the recursion: it fails only because a bill below fails, and it succeeds only if all do.\<close>

lemma demands_Inl:
  assumes "demands (Suc n) t s i q = Inl e" and "distinct (map bm_id (boms s))"
  obtains sub r where "(sub, i) \<in> bom_links t s" "demands n t s sub r = Inl e" "i \<in> set (map bm_id (boms s))"
proof -
  obtain x where x: "get_bom t i s = Inr x" using get_bom_total [OF assms(2)] by blast
  with assms(1) obtain b where b: "get_bom t i s = Inr (Some b)" by (cases x) simp_all
  obtain ratio where ratio: "bom_ratio b q = Inr ratio" using bom_ratio_total by blast
  have "emap (branch_demands (demands n t s) t s i ratio) (bm_items b) = Inl e"
    using assms(1) by (auto simp: b ratio ebind_eq_Inl split: if_splits)
  from emap_Inl [OF this] obtain c where c: "c \<in> set (bm_items b)"
    "branch_demands (demands n t s) t s i ratio c = Inl e" by blast
  obtain r where "component_demand ratio c = Inr r" using component_demand_total by blast
  with c(2) obtain sub where sub: "sub_bom t i c s = Some sub" "demands n t s sub r = Inl e"
    by (auto simp: branch_demands_def ebind_eq_Inl split: option.splits)
  have "i \<in> set (map bm_id (boms s))"
    using b unfolding get_bom_def by (auto dest!: one_or_none_filter)
  with sub b c(1) that show thesis by (auto simp: bom_links_def)
qed

lemma demands_below:
  assumes "demands n t s i q = Inr ds" and "(sub, i) \<in> bom_links t s"
  obtains m r ds' where "n = Suc m" "demands m t s sub r = Inr ds'"
proof (cases n)
  case (Suc m)
  obtain b c where b: "get_bom t i s = Inr (Some b)" "c \<in> set (bm_items b)" "sub_bom t i c s = Some sub"
    using assms(2) by (auto simp: bom_links_def)
  then obtain ratio dss where "emap (branch_demands (demands m t s) t s i ratio) (bm_items b) = Inr dss"
    using assms(1) by (auto simp: Suc ebind_eq_Inr split: if_splits)
  from emap_Inr_in [OF this b(2)] obtain y where "branch_demands (demands m t s) t s i ratio c = Inr y" by blast
  with b(3) that Suc show thesis by (auto simp: branch_demands_def ebind_eq_Inr)
qed (use assms in simp)

lemma demands_error: "demands n t s i q = Inl e \<Longrightarrow> distinct (map bm_id (boms s)) \<Longrightarrow> e = RecursionError"
proof (induction n arbitrary: i q)
  case (Suc n)
  from demands_Inl [OF Suc.prems] show ?case using Suc.IH Suc.prems(2) by blast
qed simp

lemma reaches_cycle_below:
  assumes "reaches_cycle t s i"
  obtains sub where "(sub, i) \<in> bom_links t s" "reaches_cycle t s sub"
proof -
  obtain j where j: "(j, i) \<in> (bom_links t s)\<^sup>*" "(j, j) \<in> (bom_links t s)\<^sup>+"
    using assms unfolding reaches_cycle_def by blast
  from j(1) show thesis
  proof (cases rule: rtranclE)
    case base
    with j(2) obtain k where k: "(j, k) \<in> (bom_links t s)\<^sup>*" "(k, i) \<in> bom_links t s"
      by (meson tranclD2)
    then have "reaches_cycle t s k" using j(2) unfolding reaches_cycle_def by blast
    with k(2) that show thesis by blast
  next
    case (step k)
    then have "reaches_cycle t s k" using j(2) unfolding reaches_cycle_def by blast
    with step(2) that show thesis by blast
  qed
qed

lemma demands_no_cycle: "demands n t s i q = Inr ds \<Longrightarrow> \<not> reaches_cycle t s i"
proof (induction n arbitrary: i q ds)
  case (Suc n)
  show ?case
  proof
    assume "reaches_cycle t s i"
    then obtain sub where sub: "(sub, i) \<in> bom_links t s" "reaches_cycle t s sub" by (rule reaches_cycle_below)
    obtain r ds' where "demands n t s sub r = Inr ds'"
      using demands_below [OF Suc.prems sub(1)] by (metis nat.inject)
    with Suc.IH sub(2) show False by blast
  qed
qed simp

text \<open>An exhausted stack is a path of bills as long as the stack, and a path longer than the table
  repeats a bill.\<close>

abbreviation bom_path :: "uuid \<Rightarrow> db \<Rightarrow> uuid list \<Rightarrow> bool" where
  "bom_path t s xs \<equiv> successively (\<lambda>x y. (y, x) \<in> bom_links t s) xs"

lemma demands_path:
  "demands n t s i q = Inl e \<Longrightarrow> distinct (map bm_id (boms s)) \<Longrightarrow>
    \<exists>xs j. length xs = n \<and> hd (xs @ [j]) = i \<and> bom_path t s (xs @ [j]) \<and> set xs \<subseteq> set (map bm_id (boms s))"
proof (induction n arbitrary: i q)
  case (Suc n)
  obtain sub r where sub: "(sub, i) \<in> bom_links t s" "demands n t s sub r = Inl e" "i \<in> set (map bm_id (boms s))"
    using demands_Inl [OF Suc.prems] by blast
  obtain xs j where "length xs = n" "hd (xs @ [j]) = sub" "bom_path t s (xs @ [j])" "set xs \<subseteq> set (map bm_id (boms s))"
    using Suc.IH [OF sub(2) Suc.prems(2)] by blast
  with sub have "length (i # xs) = Suc n" "hd ((i # xs) @ [j]) = i" "bom_path t s ((i # xs) @ [j])"
    "set (i # xs) \<subseteq> set (map bm_id (boms s))" by (auto simp: successively_Cons)
  then show ?case by blast
qed simp

lemma path_reaches:
  "bom_path t s (x # xs) \<Longrightarrow> y \<in> set (x # xs) \<Longrightarrow> (y, x) \<in> (bom_links t s)\<^sup>*"
proof (induction xs arbitrary: x)
  case (Cons z xs)
  then show ?case by (auto intro: rtrancl.rtrancl_into_rtrancl)
qed simp

lemma repeated_path_cycles:
  assumes "bom_path t s xs" and "\<not> distinct xs"
  shows "reaches_cycle t s (hd xs)"
  using assms
proof (induction xs)
  case (Cons x xs)
  show ?case
  proof (cases "x \<in> set xs")
    case True
    then obtain z zs where xs: "xs = z # zs" by (cases xs) auto
    with Cons.prems have "(z, x) \<in> bom_links t s" "(x, z) \<in> (bom_links t s)\<^sup>*"
      using path_reaches [of t s z zs x] True by auto
    then have "(x, x) \<in> (bom_links t s)\<^sup>+" by (rule rtrancl_into_trancl1 [rotated])
    then show ?thesis unfolding reaches_cycle_def by auto
  next
    case False
    with Cons.prems obtain z zs where xs: "xs = z # zs" "(z, x) \<in> bom_links t s" "bom_path t s xs" "\<not> distinct xs"
      by (cases xs) auto
    then have "reaches_cycle t s z" using Cons.IH by simp
    then show ?thesis using xs(2) unfolding reaches_cycle_def
      by (auto intro: rtrancl.rtrancl_into_rtrancl)
  qed
qed simp

lemma demands_acyclic:
  assumes "distinct (map bm_id (boms s))" and "\<not> reaches_cycle t s i" and "length (boms s) < n"
  shows "\<exists>ds. demands n t s i q = Inr ds"
proof (cases "demands n t s i q")
  case (Inl e)
  from demands_path [OF this assms(1)] obtain xs j where
    xs: "length xs = n" "hd (xs @ [j]) = i" "bom_path t s (xs @ [j])" "set xs \<subseteq> set (map bm_id (boms s))" by blast
  have "card (set xs) \<le> card (set (map bm_id (boms s)))" using xs(4) by (intro card_mono) simp_all
  then have "card (set xs) < length xs" using xs(1) assms(3) card_length [of "map bm_id (boms s)"] by simp
  then have "\<not> distinct (xs @ [j])" using distinct_card [of xs] by auto
  from repeated_path_cycles [OF xs(3) this] xs(2) assms(2) show ?thesis by simp
qed simp

lemma demands_more_stack: "demands n t s i q = Inr ds \<Longrightarrow> n \<le> m \<Longrightarrow> demands m t s i q = Inr ds"
proof (induction n arbitrary: i q ds m)
  case (Suc n)
  then obtain k where k: "m = Suc k" "n \<le> k" by (cases m) auto
  have branch: "branch_demands (demands k t s) t s i ratio c = Inr y"
    if "branch_demands (demands n t s) t s i ratio c = Inr y" for ratio c y
    using that Suc.IH [OF _ k(2)] by (auto simp: branch_demands_def ebind_eq_Inr split: option.splits)
  show ?case
  proof (cases "get_bom t i s")
    case (Inr x)
    show ?thesis
    proof (cases "x = None \<or> (\<exists>b. x = Some b \<and> bm_items b = [])")
      case True
      with Inr Suc.prems(1) show ?thesis unfolding k(1) by auto
    next
      case False
      then obtain b where x: "x = Some b" "bm_items b \<noteq> []" by auto
      with Inr Suc.prems(1) obtain ratio dss where "bom_ratio b q = Inr ratio"
        "emap (branch_demands (demands n t s) t s i ratio) (bm_items b) = Inr dss" "ds = concat dss"
        by (auto simp: ebind_eq_Inr)
      with emap_mono [OF branch this(2)] show ?thesis unfolding k(1) by (simp add: Inr x)
    qed
  qed (use Suc.prems(1) in simp)
qed simp

subsection \<open>Sums\<close>

definition demanded :: "uuid \<Rightarrow> (uuid \<times> dec) list \<Rightarrow> dec list" where
  "demanded j ds = map snd (filter (\<lambda>iq. fst iq = j) ds)"

lemma demanded_simps [simp]:
  "demanded j [] = []" "demanded j (iq # ds) = (if fst iq = j then snd iq # demanded j ds else demanded j ds)"
  by (simp_all add: demanded_def)

lemma demanded_Nil: "demanded j ds = [] \<longleftrightarrow> j \<notin> fst ` set ds"
  by (auto simp: demanded_def filter_empty_conv)

lemma add_requirement_lookup:
  "map_of (add_requirement g iq) j =
     (if fst iq = j then Some (dadd (or_else (map_of g j) 0) (snd iq)) else map_of g j)"
  by (simp add: add_requirement_def update_conv')

lemma add_requirements_lookup:
  "map_of (foldl add_requirement g ds) j =
     (if demanded j ds = [] then map_of g j else Some (foldl dadd (or_else (map_of g j) 0) (demanded j ds)))"
proof (induction ds arbitrary: g)
  case (Cons iq ds)
  show ?case by (simp add: Cons add_requirement_lookup) (simp add: or_else_def)
qed simp

lemma add_requirements_keys:
  "distinct (map fst g) \<Longrightarrow> distinct (map fst (foldl add_requirement g ds))"
  by (induction ds arbitrary: g) (simp_all add: add_requirement_def distinct_update)

lemma requirement_is_sum:
  assumes "(j, v) \<in> set (foldl add_requirement [] ds)"
  shows "v = dsum (demanded j ds) \<and> j \<in> fst ` set ds"
proof -
  have "map_of (foldl add_requirement [] ds) j = Some v"
    using assms add_requirements_keys [of "[]" ds] by (simp add: map_of_is_SomeI)
  then show ?thesis
    by (simp add: add_requirements_lookup demanded_Nil dsum_def or_else_def split: if_splits)
qed

lemma requirement_keys: "fst ` set (foldl add_requirement [] ds) = fst ` set ds"
proof -
  have "j \<in> fst ` set (foldl add_requirement [] ds) \<longleftrightarrow> j \<in> fst ` set ds" for j
    using map_of_eq_None_iff [of "foldl add_requirement [] ds" j]
    by (simp add: add_requirements_lookup demanded_Nil split: if_splits)
  then show ?thesis by blast
qed

text \<open>The demands of a line of a plan; a line whose item has no bill is only reported.\<close>

definition plan_item_bom :: "uuid \<Rightarrow> db \<Rightarrow> plan_item \<Rightarrow> uuid option" where
  "plan_item_bom t s p = (case pli_bom p of Some b \<Rightarrow> Some b | None \<Rightarrow> default_bom t (pli_item p) s)"

definition plan_item_demands :: "nat \<Rightarrow> uuid \<Rightarrow> db \<Rightarrow> plan_item \<Rightarrow> (uuid \<times> dec) list result" where
  "plan_item_demands n t s p =
     (case plan_item_bom t s p of None \<Rightarrow> Inr [] | Some b \<Rightarrow> demands n t s b (pli_qty p))"

lemma explode_plan_items:
  "efold (explode_plan_item n t s) (g, without) ps = Inr (g', without') \<Longrightarrow>
    \<exists>dss. emap (plan_item_demands n t s) ps = Inr dss \<and> g' = foldl add_requirement g (concat dss)"
proof (induction ps arbitrary: g without)
  case (Cons p ps)
  then obtain g1 without1 where 1: "explode_plan_item n t s (g, without) p = Inr (g1, without1)"
    "efold (explode_plan_item n t s) (g1, without1) ps = Inr (g', without')"
    by (auto simp: ebind_eq_Inr)
  then obtain ds where "plan_item_demands n t s p = Inr ds" "g1 = foldl add_requirement g ds"
    unfolding explode_plan_item_def Let_def plan_item_bom_def [symmetric]
    by (auto simp: plan_item_demands_def explode_demands ebind_eq_Inr split: option.splits)
  with Cons.IH [OF 1(2)] show ?case by (auto simp: ebind_eq_Inr)
qed simp

subsection \<open>Properties\<close>

text \<open>C19: the explosion of a bill returns exactly when no cycle of bills can be reached from it. Without a
  cycle, any stack with more levels than there are bills is enough and they all give the same
  requirements; with one, every stack is exhausted.\<close>

theorem explosion_returns_iff_no_cycle:
  assumes "distinct (map bm_id (boms s))"
  shows "if reaches_cycle t s i
    then explode_bom stack t s i q g = Inl RecursionError
    else is_ok (explode_bom (Suc (length (boms s))) t s i q g) \<and>
      explode_bom (Suc (length (boms s)) + stack) t s i q g = explode_bom (Suc (length (boms s))) t s i q g"
proof (cases "reaches_cycle t s i")
  case True
  then obtain e where e: "demands stack t s i q = Inl e" using demands_no_cycle by (cases "demands stack t s i q") auto
  with demands_error [OF e assms] True show ?thesis by (simp add: explode_demands)
next
  case False
  then obtain ds where ds: "demands (Suc (length (boms s))) t s i q = Inr ds"
    using demands_acyclic [OF assms] by blast
  have "demands (Suc (length (boms s)) + stack) t s i q = Inr ds" by (rule demands_more_stack [OF ds]) simp
  with False ds show ?thesis by (simp only: explode_demands ebind.simps is_ok_simps if_False simp_thms)
qed

lemma looped_links: "(3, 0) \<in> bom_links 0 looped_db" "(0, 3) \<in> bom_links 0 looped_db"
proof -
  have "case get_bom 0 0 looped_db of Inr (Some b) \<Rightarrow> map (\<lambda>c. sub_bom 0 0 c looped_db) (bm_items b) = [Some 3] | _ \<Rightarrow> False"
    "case get_bom 0 3 looped_db of Inr (Some b) \<Rightarrow> map (\<lambda>c. sub_bom 0 3 c looped_db) (bm_items b) = [Some 0] | _ \<Rightarrow> False"
    by code_simp+
  then show "(3, 0) \<in> bom_links 0 looped_db" "(0, 3) \<in> bom_links 0 looped_db"
    unfolding bom_links_def by (auto split: sum.splits option.splits)
qed

text \<open>Neither bill names itself, which the code guards against, but the pair exhausts every stack.\<close>

theorem explosion_returns_iff_no_cycle_witness:
  "explode_bom 1000 0 looped_db 0 1 [] = Inl RecursionError \<and> is_ok (explode_bom 4 0 looped_db 2 1 [])"
proof
  have ids: "distinct (map bm_id (boms looped_db))" by code_simp
  have "(0, 0) \<in> (bom_links 0 looped_db)\<^sup>+"
    using looped_links by (auto intro: trancl.trancl_into_trancl)
  then have "reaches_cycle 0 looped_db 0" unfolding reaches_cycle_def by auto
  then show "explode_bom 1000 0 looped_db 0 1 [] = Inl RecursionError"
    using explosion_returns_iff_no_cycle [OF ids, of 0 0 1000 1 "[]"] by simp
  have "demands 1 0 looped_db 2 1 = Inr []" by code_simp
  then have "\<not> reaches_cycle 0 looped_db 2" by (rule demands_no_cycle)
  moreover have "Suc (length (boms looped_db)) = 4" by code_simp
  ultimately show "is_ok (explode_bom 4 0 looped_db 2 1 [])"
    using explosion_returns_iff_no_cycle [OF ids, of 0 2 0 1 "[]"] by simp
qed

text \<open>C20: the report on a plan has one row for every item that occurs in the trees of the planned bills; its gross
  requirement is the sum of what the occurrences demand, and its shortage what exceeds the stock that is
  available over all warehouses.\<close>

theorem requirements_are_sums:
  assumes "get_production_plan t i s = Inr (Some p)"
    and "explode_material_requirements stack t i s = Inr r"
  shows "\<exists>dss. emap (plan_item_demands stack t s) (pl_items p) = Inr dss \<and>
    distinct (map rq_item (rr_rows r)) \<and> set (map rq_item (rr_rows r)) = fst ` set (concat dss) \<and>
    list_all (\<lambda>row. let gross = dsum (demanded (rq_item row) (concat dss)) in
      rq_gross row = float_of gross \<and>
      rq_shortage row = float_of (max 0 (dsub gross (stock_of sl_available t (rq_item row) s)))) (rr_rows r)"
proof -
  obtain g without rows where
    g: "efold (explode_plan_item stack t s) ([], []) (pl_items p) = Inr (g, without)" and
    rows: "emap (requirement_row_of t s) g = Inr rows" and r: "rr_rows r = rows"
    using assms by (auto simp: explode_material_requirements_def ebind_eq_Inr)
  obtain dss where dss: "emap (plan_item_demands stack t s) (pl_items p) = Inr dss"
    "g = foldl add_requirement [] (concat dss)" using explode_plan_items [OF g] by blast
  have row: "rq_item row = fst ig \<and> rq_gross row = float_of (snd ig) \<and>
      rq_shortage row = float_of (shortage (snd ig) (stock_of sl_available t (fst ig) s))"
    if "requirement_row_of t s ig = Inr row" for ig row
    using that by (auto simp: requirement_row_of_def Let_def ebind_eq_Inr split: prod.splits)
  have keys: "map rq_item rows = map fst g" using rows by (rule emap_map) (simp add: row)
  have "rq_gross y = float_of (dsum (demanded (rq_item y) (concat dss))) \<and>
      rq_shortage y = float_of (max 0 (dsub (dsum (demanded (rq_item y) (concat dss))) (stock_of sl_available t (rq_item y) s)))"
    if y: "y \<in> set rows" for y
  proof -
    obtain ig where ig: "ig \<in> set g" "requirement_row_of t s ig = Inr y" using emap_set [OF rows y] by blast
    then have "snd ig = dsum (demanded (fst ig) (concat dss))"
      using requirement_is_sum [of "fst ig" "snd ig" "concat dss"] by (simp add: dss(2))
    with row [OF ig(2)] show ?thesis by (simp add: shortage_def)
  qed
  then have "list_all (\<lambda>row. let gross = dsum (demanded (rq_item row) (concat dss)) in
      rq_gross row = float_of gross \<and>
      rq_shortage row = float_of (max 0 (dsub gross (stock_of sl_available t (rq_item row) s)))) rows"
    by (simp add: list_all_iff Let_def)
  moreover have "distinct (map rq_item rows)" unfolding keys dss(2) by (rule add_requirements_keys) simp
  moreover have "set (map rq_item rows) = fst ` set (concat dss)"
    unfolding keys set_map dss(2) by (rule requirement_keys)
  ultimately show ?thesis using dss(1) r by blast
qed

text \<open>A plan of three frames.\<close>

definition planned_db :: db where
  "planned_db =
     (with_bill ''V'' 2 [] (with_bill ''F'' 1 (one_part 2) empty_db))
     \<lparr>production_plans := [\<lparr>pl_tenant = 0, pl_id = 9, pl_number = ''PP'', pl_date = 739800, pl_status = ''DRAFT'',
        pl_qty = 3, pl_items = [\<lparr>pli_item = 1, pli_bom = Some 0, pli_order = None, pli_qty = 3, pli_produced = 0\<rparr>]\<rparr>]\<rparr>"

theorem requirements_are_sums_witness:
  "\<exists>r. explode_material_requirements 4 0 9 planned_db = Inr r \<and>
    map rq_item (rr_rows r) = [2] \<and> map rq_gross (rr_rows r) = [6] \<and> distinct (map rq_item (rr_rows r))"
proof -
  obtain p where p: "get_production_plan 0 9 planned_db = Inr (Some p)"
    by (simp add: get_production_plan_def planned_db_def)
  have "case explode_material_requirements 4 0 9 planned_db of Inl e \<Rightarrow> False
    | Inr r \<Rightarrow> map rq_item (rr_rows r) = [2] \<and> map rq_gross (rr_rows r) = [6]"
    by code_simp
  then obtain r where r: "explode_material_requirements 4 0 9 planned_db = Inr r"
      "map rq_item (rr_rows r) = [2]" "map rq_gross (rr_rows r) = [6]"
    by (auto split: sum.splits)
  have "distinct (map rq_item (rr_rows r))" using requirements_are_sums [OF p r(1)] by blast
  with r show ?thesis by (intro exI [of _ r]) simp
qed

end
