(* ===== verification/WorkOrder.thy ===== *)
theory WorkOrder
  imports JobCard Mrp
begin

section \<open>Work orders\<close>

text \<open>
  The creation of work orders in \<open>src/src/erp/workflows/manufacturing/work_order_service.py\<close> and their
  generation from a plan in \<open>mrp_service.py\<close>. The lemmas: a work order always gets its three warehouses, and
  generating the orders of a plan again returns the same orders and changes nothing.
\<close>

subsection \<open>Warehouses\<close>

definition default_warehouses :: "(string \<times> string \<times> bool) list" where
  "default_warehouses =
     [(''WH-STORES'', ''Stores - Raw Materials'', False), (''WH-WIP'', ''Shop Floor - Work In Progress'', False),
      (''WH-FG'', ''Finished Goods Warehouse'', False), (''WH-SCRAP'', ''Scrap & Quarantine'', True)]"

definition add_warehouse :: "uuid \<Rightarrow> db \<Rightarrow> string \<times> string \<times> bool \<Rightarrow> db result" where
  "add_warehouse t s cnq =
     (let (code, name, quarantine) = cnq; (i, s1) = uuid4 s in
      if list_ex (\<lambda>w. wh_tenant w = t \<and> wh_code w = code) (warehouses s) then Inl IntegrityError
      else Inr (s1\<lparr>warehouses := warehouses s1 @
        [\<lparr>wh_tenant = t, wh_id = i, wh_code = code, wh_name = name, wh_quarantine = quarantine, wh_active = True\<rparr>]\<rparr>))"

definition active_warehouses :: "uuid \<Rightarrow> db \<Rightarrow> warehouse_row list" where
  "active_warehouses t s = filter (\<lambda>w. wh_tenant w = t \<and> wh_active w) (warehouses s)"

definition named_like :: "string list \<Rightarrow> warehouse_row \<Rightarrow> bool" where
  "named_like ks w = list_ex (\<lambda>k. contains (upper (wh_code w)) k \<or> contains (upper (wh_name w)) k) ks"

text \<open>The first warehouse with a matching code or name, unless one was given.\<close>

definition resolve_by :: "string list \<Rightarrow> uuid option \<Rightarrow> warehouse_row list \<Rightarrow> uuid option" where
  "resolve_by ks given ws =
     (case given of Some i \<Rightarrow> Some i | None \<Rightarrow> map_option wh_id (first_row (filter (named_like ks) ws)))"

definition resolve_warehouses ::
    "uuid \<Rightarrow> uuid option \<Rightarrow> uuid option \<Rightarrow> uuid option \<Rightarrow> uuid option \<Rightarrow> db
     \<Rightarrow> ((uuid \<times> uuid \<times> uuid \<times> uuid option) \<times> db) result" where
  "resolve_warehouses t source wip fg scrap s =
     ebind (if active_warehouses t s = [] then efold (add_warehouse t) s default_warehouses else Inr s) (\<lambda>s1.
       let ws = active_warehouses t s1 in
       case first_row ws of
         None \<Rightarrow> Inl IndexError
       | Some w0 \<Rightarrow>
           let fallback = wh_id w0 in
           Inr ((or_else (resolve_by [''STORE'', ''RAW'', ''INCOMING'', ''MAIN''] source ws) fallback,
                 or_else (resolve_by [''WIP'', ''PROGRESS'', ''FLOOR'', ''PRODUCTION''] wip ws) fallback,
                 or_else (resolve_by [''FG'', ''FINISHED'', ''OUTPUT'', ''GOODS''] fg ws) fallback,
                 resolve_by [''SCRAP'', ''WASTE'', ''DEFECT''] scrap ws), s1))"

subsection \<open>Creation and queries\<close>

text \<open>The bill that was asked for, or the active default bill of the item.\<close>

definition work_order_bom :: "uuid \<Rightarrow> uuid \<Rightarrow> uuid option \<Rightarrow> db \<Rightarrow> bom_row option result" where
  "work_order_bom t item bom s =
     ebind (case bom of None \<Rightarrow> Inr None | Some i \<Rightarrow> get_bom t i s) (\<lambda>x.
       Inr (case x of
              Some b \<Rightarrow> Some b
            | None \<Rightarrow> first_row (filter (\<lambda>b. bm_tenant b = t \<and> bm_item b = item \<and> bm_default b \<and> bm_active b) (boms s))))"

definition scheduled_order ::
    "uuid \<Rightarrow> uuid \<Rightarrow> string \<Rightarrow> uuid \<Rightarrow> dec \<Rightarrow> uuid option \<Rightarrow> uuid option
     \<Rightarrow> uuid \<times> uuid \<times> uuid \<times> uuid option \<Rightarrow> uuid option \<Rightarrow> work_order" where
  "scheduled_order t i number item q bom ws r plan =
     (case r of (sw, ww, fw, cw) \<Rightarrow>
        \<lparr>wo_tenant = t, wo_id = i, wo_number = number, wo_plan = plan, wo_item = item, wo_bom = bom,
         wo_workstation = ws, wo_source = Some sw, wo_wip = Some ww, wo_fg = Some fw, wo_scrap = cw,
         wo_planned = q, wo_produced = 0, wo_start = None, wo_end = None, wo_lead = 0, wo_staged = False,
         wo_status = ''SCHEDULED''\<rparr>)"

definition create_work_order ::
    "uuid \<Rightarrow> string \<Rightarrow> uuid \<Rightarrow> dec \<Rightarrow> uuid option \<Rightarrow> uuid option \<Rightarrow> uuid option \<Rightarrow> uuid option \<Rightarrow> uuid option
     \<Rightarrow> uuid option \<Rightarrow> uuid option \<Rightarrow> db \<Rightarrow> (work_order \<times> db) result" where
  "create_work_order t number item qty bom ws source wip fg scrap plan s =
     ebind (work_order_bom t item bom s) (\<lambda>b.
     ebind (resolve_warehouses t source wip fg scrap s) (\<lambda>(r, s1).
       if list_ex (\<lambda>w. wo_tenant w = t \<and> wo_number w = strip number) (work_orders s1) then Inl IntegrityError
       else ebind (numeric 18 4 qty) (\<lambda>q.
         let (i, s2) = uuid4 s1;
             w = scheduled_order t i (strip number) item q (case b of Some x \<Rightarrow> Some (bm_id x) | None \<Rightarrow> bom) ws r plan;
             s3 = s2\<lparr>work_orders := work_orders s2 @ [w]\<rparr>
         in case b of
              None \<Rightarrow> Inr (w, s3)
            | Some x \<Rightarrow> ebind (generate_job_cards_for_work_order t w (Some x) s3) (\<lambda>(cards, s4). Inr (w, s4)))))"

definition get_work_order :: "uuid \<Rightarrow> uuid \<Rightarrow> db \<Rightarrow> work_order option result" where
  "get_work_order t i s = one_or_none (filter (\<lambda>w. wo_tenant w = t \<and> wo_id w = i) (work_orders s))"

definition list_work_orders :: "uuid \<Rightarrow> string option \<Rightarrow> uuid option \<Rightarrow> db \<Rightarrow> work_order list" where
  "list_work_orders t st plan s =
     rev (filter (\<lambda>w. wo_tenant w = t \<and> (case st of None \<Rightarrow> True | Some y \<Rightarrow> y = [] \<or> wo_status w = upper y) \<and>
        (plan = None \<or> wo_plan w = plan)) (work_orders s))"

subsection \<open>The orders of a plan\<close>

definition planned_orders :: "uuid \<Rightarrow> uuid \<Rightarrow> uuid \<Rightarrow> db \<Rightarrow> work_order list" where
  "planned_orders t plan item s =
     filter (\<lambda>w. wo_tenant w = t \<and> wo_plan w = Some plan \<and> wo_item w = item) (work_orders s)"

definition order_plan_item ::
    "uuid \<Rightarrow> production_plan \<Rightarrow> work_order list \<times> db \<Rightarrow> nat \<times> plan_item \<Rightarrow> (work_order list \<times> db) result" where
  "order_plan_item t p st kp =
     (let (ws, s) = st; (k, x) = kp in
      ebind (one_or_none (planned_orders t (pl_id p) (pli_item x) s)) (\<lambda>r.
        case r of
          Some w \<Rightarrow> Inr (ws @ [w], s)
        | None \<Rightarrow>
            ebind (create_work_order t (''WO-'' @ pl_number p @ ''-'' @ pad_left 2 (show_int (int k))) (pli_item x)
                     (pli_qty x) (pli_bom x) None None None None None (Some (pl_id p)) s) (\<lambda>(w, s').
              Inr (ws @ [w], s'))))"

definition generate_work_orders_from_plan :: "uuid \<Rightarrow> uuid \<Rightarrow> db \<Rightarrow> (work_order list \<times> db) result" where
  "generate_work_orders_from_plan t i s =
     ebind (get_production_plan t i s) (\<lambda>x.
       case x of
         None \<Rightarrow> Inl (ValueError (''Production Plan '' @ quoted (str_uuid i) @ '' not found.''))
       | Some p \<Rightarrow>
           ebind (efold (order_plan_item t p) ([], s) (enumerate 1 (pl_items p))) (\<lambda>(ws, s1).
             Inr (ws, s1\<lparr>production_plans := update_where (\<lambda>y. pl_tenant y = t \<and> pl_id y = i)
               (\<lambda>y. y\<lparr>pl_status := ''IN_PROCESS''\<rparr>) (production_plans s1)\<rparr>)))"

subsection \<open>Frames\<close>

definition same_orders :: "db \<Rightarrow> db \<Rightarrow> bool" where
  "same_orders s s' \<longleftrightarrow> work_orders s' = work_orders s \<and> production_plans s' = production_plans s"

lemma same_orders_refl [simp]: "same_orders s s"
  by (simp add: same_orders_def)

lemma add_warehouses_frame: "efold (add_warehouse t) s xs = Inr s' \<Longrightarrow> same_orders s s'"
  by (erule efold_invariant [where P = "same_orders s"])
    (auto simp: add_warehouse_def uuid4_def same_orders_def split: if_splits prod.splits)

lemma resolve_warehouses_frame: "resolve_warehouses t a b c d s = Inr (r, s') \<Longrightarrow> same_orders s s'"
  by (auto simp: resolve_warehouses_def ebind_eq_Inr Let_def dest: add_warehouses_frame split: if_splits option.splits)

lemma add_job_cards_frame:
  assumes "efold (add_job_card t w) (cs, s) rs = Inr (cs', s')"
  shows "same_orders s s'"
proof -
  have "(\<lambda>(cs, s'). same_orders s s') (cs', s')"
    using assms by (rule efold_invariant)
      (auto simp: add_job_card_def uuid4_def same_orders_def Let_def ebind_eq_Inr split: if_splits)
  then show ?thesis by simp
qed

lemma scheduled_order_simps [simp]:
  "wo_tenant (scheduled_order t i number item q bom ws r plan) = t"
  "wo_plan (scheduled_order t i number item q bom ws r plan) = plan"
  "wo_item (scheduled_order t i number item q bom ws r plan) = item"
  "wo_status (scheduled_order t i number item q bom ws r plan) = ''SCHEDULED''"
  "wo_planned (scheduled_order t i number item q bom ws r plan) = q"
  by (simp_all add: scheduled_order_def split: prod.split)

lemma generated_frame: "generate_job_cards_for_work_order t w (Some x) s = Inr (cards, s') \<Longrightarrow> same_orders s s'"
  by (auto simp: generate_job_cards_for_work_order_def dest: add_job_cards_frame)

lemma create_work_order_Inr:
  assumes "create_work_order t number item qty bom ws source wip fg scrap plan s = Inr (w, s')"
  shows "work_orders s' = work_orders s @ [w] \<and> production_plans s' = production_plans s \<and>
    wo_tenant w = t \<and> wo_plan w = plan \<and> wo_item w = item \<and> wo_status w = ''SCHEDULED'' \<and>
    numeric 18 4 qty = Inr (wo_planned w)"
proof -
  obtain b r s1 q where
    b: "work_order_bom t item bom s = Inr b" and
    s1: "resolve_warehouses t source wip fg scrap s = Inr (r, s1)" and
    q: "numeric 18 4 qty = Inr q" and
    w: "w = scheduled_order t (next_id s1) (strip number) item q (case b of Some x \<Rightarrow> Some (bm_id x) | None \<Rightarrow> bom) ws r plan" and
    s': "same_orders (s1\<lparr>next_id := Suc (next_id s1), work_orders := work_orders s1 @ [w]\<rparr>) s'"
    using assms unfolding create_work_order_def
    by (auto simp: ebind_eq_Inr Let_def uuid4_def dest: generated_frame split: if_splits option.splits)
  with resolve_warehouses_frame [OF s1] show ?thesis by (simp add: same_orders_def)
qed

subsection \<open>Generation\<close>

definition ordered_by :: "uuid \<Rightarrow> uuid \<Rightarrow> db \<Rightarrow> nat \<times> plan_item \<Rightarrow> work_order \<Rightarrow> bool" where
  "ordered_by t plan s kx w \<longleftrightarrow> planned_orders t plan (pli_item (snd kx)) s = [w]"

lemma order_plan_item_Inr:
  assumes "order_plan_item t p (ws, s) kx = Inr (ws', s')"
  obtains w where "ws' = ws @ [w]" "ordered_by t (pl_id p) s' kx w" "production_plans s' = production_plans s"
    "\<forall>item v. planned_orders t (pl_id p) item s = [v] \<longrightarrow> planned_orders t (pl_id p) item s' = [v]"
proof (cases "one_or_none (planned_orders t (pl_id p) (pli_item (snd kx)) s)")
  case (Inr r)
  show thesis
  proof (cases r)
    case None
    with Inr assms obtain w number where
      c: "create_work_order t number (pli_item (snd kx)) (pli_qty (snd kx)) (pli_bom (snd kx))
            None None None None None (Some (pl_id p)) s = Inr (w, s')" "ws' = ws @ [w]"
      by (auto simp: order_plan_item_def ebind_eq_Inr split: prod.splits)
    note d = create_work_order_Inr [OF c(1)]
    have "planned_orders t (pl_id p) (pli_item (snd kx)) s = []" using Inr None by (simp add: one_or_none_None)
    with d have "ordered_by t (pl_id p) s' kx w" by (simp add: ordered_by_def planned_orders_def)
    moreover have "planned_orders t (pl_id p) item s' = [v]" if v: "planned_orders t (pl_id p) item s = [v]" for item v
    proof -
      have "item \<noteq> pli_item (snd kx)" using v Inr None by (auto simp: one_or_none_None)
      with v d show ?thesis by (simp add: planned_orders_def)
    qed
    ultimately show thesis using that c(2) d by blast
  next
    case (Some w)
    with Inr assms have "ws' = ws @ [w]" "s' = s" by (auto simp: order_plan_item_def split: prod.splits)
    with that [of w] Inr Some show thesis by (simp add: ordered_by_def one_or_none_Some)
  qed
qed (use assms in \<open>simp add: order_plan_item_def split: prod.splits\<close>)

lemma order_plan_items:
  "efold (order_plan_item t p) (ws, s) kxs = Inr (ws', s') \<Longrightarrow>
    production_plans s' = production_plans s \<and>
    (\<forall>item v. planned_orders t (pl_id p) item s = [v] \<longrightarrow> planned_orders t (pl_id p) item s' = [v]) \<and>
    (\<exists>new. ws' = ws @ new \<and> list_all2 (ordered_by t (pl_id p) s') kxs new)"
proof (induction kxs arbitrary: ws s)
  case (Cons kx kxs)
  then obtain ws1 s1 where 1: "order_plan_item t p (ws, s) kx = Inr (ws1, s1)"
    "efold (order_plan_item t p) (ws1, s1) kxs = Inr (ws', s')" by (auto simp: ebind_eq_Inr)
  from 1(1) obtain w where w: "ws1 = ws @ [w]" "ordered_by t (pl_id p) s1 kx w" "production_plans s1 = production_plans s"
    "\<forall>item v. planned_orders t (pl_id p) item s = [v] \<longrightarrow> planned_orders t (pl_id p) item s1 = [v]"
    by (rule order_plan_item_Inr)
  from Cons.IH [OF 1(2)] obtain new where new: "production_plans s' = production_plans s1"
    "\<forall>item v. planned_orders t (pl_id p) item s1 = [v] \<longrightarrow> planned_orders t (pl_id p) item s' = [v]"
    "ws' = ws1 @ new" "list_all2 (ordered_by t (pl_id p) s') kxs new" by blast
  then have "ordered_by t (pl_id p) s' kx w" using w(2) by (simp add: ordered_by_def)
  then show ?case using new w by (auto intro!: exI [of _ "w # new"])
qed simp

lemma ordered_again:
  "list_all2 (ordered_by t (pl_id p) s) kxs new \<Longrightarrow> efold (order_plan_item t p) (ws, s) kxs = Inr (ws @ new, s)"
proof (induction kxs new arbitrary: ws rule: list_all2_induct)
  case (Cons kx kxs w new)
  have "order_plan_item t p (ws, s) kx = Inr (ws @ [w], s)"
    using Cons.hyps(1) by (cases kx) (simp add: order_plan_item_def ordered_by_def)
  with Cons.IH [of "ws @ [w]"] show ?case by simp
qed simp

lemma same_plan_id: "pl_id p' = pl_id p \<Longrightarrow> pl_number p' = pl_number p \<Longrightarrow> order_plan_item t p' = order_plan_item t p"
  by (simp add: order_plan_item_def fun_eq_iff split: prod.split)

subsection \<open>Properties\<close>

text \<open>C24: generating the work orders of a plan again returns the same orders and changes nothing; every line of
  the plan has exactly one order for its item.\<close>

theorem generation_is_idempotent:
  assumes "generate_work_orders_from_plan t i s = Inr (ws, s')"
  shows "generate_work_orders_from_plan t i s' = Inr (ws, s') \<and>
    (\<exists>p. get_production_plan t i s' = Inr (Some p) \<and>
      list_all2 (\<lambda>x w. planned_orders t (pl_id p) (pli_item x) s' = [w]) (pl_items p) ws)"
proof -
  let ?P = "\<lambda>y. pl_tenant y = t \<and> pl_id y = i" and ?f = "\<lambda>y :: production_plan. y\<lparr>pl_status := ''IN_PROCESS''\<rparr>"
  obtain p s1 where p: "get_production_plan t i s = Inr (Some p)" and
    loop: "efold (order_plan_item t p) ([], s) (enumerate 1 (pl_items p)) = Inr (ws, s1)" and
    s': "s' = s1\<lparr>production_plans := update_where ?P ?f (production_plans s1)\<rparr>"
    using assms by (auto simp: generate_work_orders_from_plan_def ebind_eq_Inr split: option.splits)
  have frame: "production_plans s1 = production_plans s"
    and all: "list_all2 (ordered_by t (pl_id p) s1) (enumerate 1 (pl_items p)) ws"
    using order_plan_items [OF loop] by auto
  have "get_production_plan t i s' = one_or_none (update_where ?P ?f (filter ?P (production_plans s)))"
    by (simp add: get_production_plan_def s' frame filter_update_where)
  moreover have "filter ?P (production_plans s) = [p]"
    using p by (simp add: get_production_plan_def one_or_none_Some)
  moreover have "?P p" using p unfolding get_production_plan_def by (auto dest: one_or_none_filter)
  ultimately have p': "get_production_plan t i s' = Inr (Some (?f p))" by simp
  have "ordered_by t (pl_id p) s' = ordered_by t (pl_id p) s1"
    by (intro ext) (simp add: ordered_by_def planned_orders_def s')
  with all have all': "list_all2 (ordered_by t (pl_id p) s') (enumerate 1 (pl_items p)) ws" by simp
  have "efold (order_plan_item t (?f p)) ([], s') (enumerate 1 (pl_items p)) = Inr (ws, s')"
    using ordered_again [OF all', of "[]"] same_plan_id [of "?f p" p t] by simp
  moreover have "s'\<lparr>production_plans := update_where ?P ?f (production_plans s')\<rparr> = s'"
    by (simp add: s' update_where_def comp_def)
  ultimately have "generate_work_orders_from_plan t i s' = Inr (ws, s')"
    by (simp add: generate_work_orders_from_plan_def p')
  moreover have "list_all2 (\<lambda>x w. planned_orders t (pl_id p) (pli_item x) s' = [w]) (pl_items p) ws"
    using all' by (simp add: list_all2_conv_all_nth ordered_by_def nth_enumerate_eq)
  ultimately show ?thesis using p' by auto
qed

text \<open>A plan with two lines for one item, ten and five pieces.\<close>

definition twice_planned :: db where
  "twice_planned = empty_db\<lparr>next_id := 100,
     warehouses := [\<lparr>wh_tenant = 0, wh_id = 7, wh_code = ''A'', wh_name = ''B'', wh_quarantine = False, wh_active = True\<rparr>],
     production_plans := [\<lparr>pl_tenant = 0, pl_id = 9, pl_number = ''P'', pl_date = 739800, pl_status = ''DRAFT'', pl_qty = 15,
       pl_items = [\<lparr>pli_item = 1, pli_bom = None, pli_order = None, pli_qty = 10, pli_produced = 0\<rparr>,
                   \<lparr>pli_item = 1, pli_bom = None, pli_order = None, pli_qty = 5, pli_produced = 0\<rparr>]\<rparr>]\<rparr>"

text \<open>Both lines get the order of the first: five pieces are never ordered.\<close>

theorem second_line_is_not_ordered:
  "case generate_work_orders_from_plan 0 9 twice_planned of Inl e \<Rightarrow> False
   | Inr (ws, s) \<Rightarrow> map wo_planned ws = [10, 10] \<and> map wo_planned (work_orders s) = [10] \<and>
       map pl_qty (production_plans s) = [15]"
  by code_simp

theorem generation_is_idempotent_witness:
  "\<exists>ws s. generate_work_orders_from_plan 0 9 twice_planned = Inr (ws, s) \<and>
     generate_work_orders_from_plan 0 9 s = Inr (ws, s)"
proof -
  obtain ws s where r: "generate_work_orders_from_plan 0 9 twice_planned = Inr (ws, s)"
    using second_line_is_not_ordered by (auto split: sum.splits)
  with generation_is_idempotent [OF r] show ?thesis by blast
qed

end
