(* ===== verification/TaskDag.thy ===== *)
theory TaskDag
  imports PyLib
begin

section \<open>Task graphs\<close>

text \<open>
  \<open>src/src/erp/orchestration/dag.py\<close>: the nodes of a workflow with their dependencies and status,
  the validation of a graph by Kahn's algorithm, readiness, completion and failure, and the snapshot
  of a graph. A dictionary of nodes is an association list in insertion order, a set of dependencies
  a list without repetition. The main lemmas show that the validation accepts exactly the closed
  acyclic graphs.
\<close>

subsection \<open>Nodes and graphs\<close>

datatype task_status = PENDING | READY | RUNNING | COMPLETED | FAILED | PREEMPTED

record task_node =
  tn_id :: string
  tn_name :: string
  tn_agent :: string
  tn_deps :: "string list"
  tn_input :: "(string \<times> json) list"
  tn_output :: "(string \<times> json) list option"
  tn_evidence :: "(string \<times> json) list option"
  tn_status :: task_status
  tn_created :: timestamp
  tn_started :: "timestamp option"
  tn_completed :: "timestamp option"
  tn_error :: "string option"

type_synonym task_nodes = "(string \<times> task_node) list"

record task_dag =
  dg_id :: string
  dg_tenant :: "string option"
  dg_customer :: string
  dg_inquiry :: string
  dg_created :: timestamp
  dg_nodes :: task_nodes

definition nonempty_or :: "string option \<Rightarrow> string \<Rightarrow> string" where
  "nonempty_or x d = (case x of None \<Rightarrow> d | Some v \<Rightarrow> if v = [] then d else v)"

text \<open>The constructor; \<open>hex\<close> is the random suffix of the default identifier.\<close>

definition new_dag ::
    "timestamp \<Rightarrow> string \<Rightarrow> string option \<Rightarrow> string option \<Rightarrow> string option \<Rightarrow> string option \<Rightarrow> task_dag" where
  "new_dag tm hex i t customer inquiry =
     \<lparr>dg_id = nonempty_or i (''dag_'' @ hex), dg_tenant = (if t = Some [] then None else t),
      dg_customer = nonempty_or customer ''Enterprise Customer'', dg_inquiry = nonempty_or inquiry [],
      dg_created = tm, dg_nodes = []\<rparr>"

subsection \<open>Validation\<close>

definition missing_dependencies :: "task_nodes \<Rightarrow> (string \<times> string) list" where
  "missing_dependencies ns =
     concat (map (\<lambda>(k, n). map (\<lambda>d. (tn_id n, d)) (filter (\<lambda>d. d \<notin> set (map fst ns)) (tn_deps n))) ns)"

definition in_degrees :: "task_nodes \<Rightarrow> (string \<times> int) list" where
  "in_degrees ns = map (\<lambda>(k, n). (k, int (length (tn_deps n)))) ns"

text \<open>The entry \<open>adj[c]\<close> of the adjacency list.\<close>

definition dependents :: "task_nodes \<Rightarrow> string \<Rightarrow> string list" where
  "dependents ns c = concat (map (\<lambda>(k, n). map (\<lambda>_. k) (filter (\<lambda>d. d = c) (tn_deps n))) ns)"

fun relax :: "(string \<times> int) list \<times> string list \<Rightarrow> string \<Rightarrow> (string \<times> int) list \<times> string list" where
  "relax (deg, q) n =
     (let deg' = AList.map_entry n (\<lambda>d. d - 1) deg
      in (deg', if map_of deg' n = Some 0 then q @ [n] else q))"

definition relax_all ::
    "(string \<times> int) list \<Rightarrow> string list \<Rightarrow> string list \<Rightarrow> (string \<times> int) list \<times> string list" where
  "relax_all deg q xs = foldl relax (deg, q) xs"

text \<open>The queue and the nodes that still wait bound the number of iterations.\<close>

definition waiting :: "(string \<times> int) list \<Rightarrow> nat" where
  "waiting deg = length (filter (\<lambda>(k, d). 0 < d) deg)"

lemma map_entry_waiting:
  "waiting (AList.map_entry n (\<lambda>d. d - 1) deg) + (if map_of (AList.map_entry n (\<lambda>d. d - 1) deg) n = Some 0 then 1 else 0)
     \<le> waiting deg"
  by (induction deg) (auto simp: waiting_def map_of_map_entry split: option.splits if_splits)

lemma relax_all_bound:
  "relax_all deg q xs = (deg', q') \<Longrightarrow> length q' + waiting deg' \<le> length q + waiting deg"
  unfolding relax_all_def
proof (induction xs arbitrary: deg q)
  case (Cons x xs)
  obtain d p where r: "relax (deg, q) x = (d, p)" by (cases "relax (deg, q) x")
  then have "length p + waiting d \<le> length q + waiting deg"
    using map_entry_waiting [of x deg] by (auto simp: Let_def split: if_splits)
  moreover have "length q' + waiting deg' \<le> length p + waiting d"
    using Cons.prems r by (intro Cons.IH) simp
  ultimately show ?case by simp
qed simp

function kahn :: "task_nodes \<Rightarrow> (string \<times> int) list \<Rightarrow> string list \<Rightarrow> int \<Rightarrow> int" where
  "kahn ns deg [] visited = visited"
| "kahn ns deg (c # q) visited =
     (let (deg', q') = relax_all deg q (dependents ns c) in kahn ns deg' q' (visited + 1))"
  by pat_completeness auto
termination
proof (relation "measure (\<lambda>(ns, deg, q, v). length q + waiting deg)", simp)
  fix ns deg c q v x xa y
  assume "x = relax_all deg q (dependents ns c)" "(xa, y) = x"
  then have "relax_all deg q (dependents ns c) = (xa, y)" by simp
  from relax_all_bound [OF this]
  show "((ns, xa, y, v + 1), ns, deg, c # q, v) \<in> measure (\<lambda>(ns, deg, q, v). length q + waiting deg)" by simp
qed

definition validate_nodes :: "string \<Rightarrow> task_nodes \<Rightarrow> unit result" where
  "validate_nodes dag ns =
     (case missing_dependencies ns of
        (i, d) # _ \<Rightarrow> Inl (ValueError (''Task '' @ quoted i @ '' depends on missing task '' @ quoted d))
      | [] \<Rightarrow>
          let deg = in_degrees ns; q = map fst (filter (\<lambda>(k, d). d = 0) deg)
          in if kahn ns deg q 0 \<noteq> int (length ns)
             then Inl (ValueError (''Cycle detected in execution DAG '' @ quoted dag)) else Inr ())"

definition validate_dag :: "task_dag \<Rightarrow> unit result" where
  "validate_dag g = validate_nodes (dg_id g) (dg_nodes g)"

subsection \<open>Kahn's algorithm decides acyclicity\<close>

definition node_keys :: "task_nodes \<Rightarrow> string set" where
  "node_keys ns = fst ` set ns"

definition edges :: "task_nodes \<Rightarrow> (string \<times> string) set" where
  "edges ns = {(d, k). \<exists>n. (k, n) \<in> set ns \<and> d \<in> set (tn_deps n)}"

definition closed_nodes :: "task_nodes \<Rightarrow> bool" where
  "closed_nodes ns \<longleftrightarrow> (\<forall>(d, k) \<in> edges ns. d \<in> node_keys ns)"

text \<open>A dictionary has each key once, a set each element once.\<close>

definition dict_nodes :: "task_nodes \<Rightarrow> bool" where
  "dict_nodes ns \<longleftrightarrow> distinct (map fst ns) \<and> list_all (\<lambda>(k, n). tn_id n = k \<and> distinct (tn_deps n)) ns"

definition degrees :: "task_nodes \<Rightarrow> string set \<Rightarrow> (string \<times> int) list" where
  "degrees ns V = map (\<lambda>(k, n). (k, int (length (filter (\<lambda>d. d \<notin> V) (tn_deps n))))) ns"

text \<open>The nodes all of whose dependencies are in \<open>V\<close>.\<close>

definition freed :: "task_nodes \<Rightarrow> string set \<Rightarrow> string set" where
  "freed ns V = {k. \<exists>n. (k, n) \<in> set ns \<and> set (tn_deps n) \<subseteq> V}"

definition topological :: "task_nodes \<Rightarrow> string list \<Rightarrow> bool" where
  "topological ns vs \<longleftrightarrow> (\<forall>i < length vs. vs ! i \<in> freed ns (set (take i vs)))"

lemma map_of_keyed: "map_of (map (\<lambda>(k, x). (k, f k x)) xs) k = map_option (f k) (map_of xs k)"
  by (induction xs) auto

lemma map_entry_map:
  "distinct (map fst xs) \<Longrightarrow> AList.map_entry x f xs = map (\<lambda>(k, d). (k, if k = x then f d else d)) xs"
proof (induction xs)
  case (Cons p xs)
  then have "x = fst p \<Longrightarrow> map (\<lambda>(k, d). (k, if k = x then f d else d)) xs = xs"
    using Cons.prems by (intro map_idI) (force simp: image_iff)
  with Cons show ?case by (cases p) auto
qed simp

lemma relax_all_closed:
  assumes "distinct xs" "set xs \<subseteq> fst ` set deg" "distinct (map fst deg)"
  shows "relax_all deg q xs =
    (map (\<lambda>(k, d). (k, if k \<in> set xs then d - 1 else d)) deg, q @ filter (\<lambda>n. map_of deg n = Some 1) xs)"
  using assms
proof (induction xs arbitrary: deg q)
  case (Cons x xs)
  let ?deg = "map (\<lambda>(k, d). (k, if k = x then d - 1 else d)) deg"
  have one: "AList.map_entry x (\<lambda>d. d - 1) deg = ?deg" using Cons.prems(3) by (rule map_entry_map)
  have keys: "map fst ?deg = map fst deg" by (auto simp: o_def split_def)
  have look: "map_of ?deg n = map_option (\<lambda>d. if n = x then d - 1 else d) (map_of deg n)" for n
    by (rule map_of_keyed)
  have "set (map fst ?deg) = set (map fst deg)" unfolding keys ..
  then have "fst ` set ?deg = fst ` set deg" by (simp only: set_map)
  then have sub: "set xs \<subseteq> fst ` set ?deg" using Cons.prems(2) by simp
  have "distinct (map fst ?deg)" using Cons.prems(3) unfolding keys .
  then have "relax_all ?deg p xs = (map (\<lambda>(k, d). (k, if k \<in> set xs then d - 1 else d)) ?deg,
      p @ filter (\<lambda>n. map_of ?deg n = Some 1) xs)" for p
    using Cons.prems(1) sub by (intro Cons.IH) simp_all
  moreover have "filter (\<lambda>n. map_of ?deg n = Some 1) xs = filter (\<lambda>n. map_of deg n = Some 1) xs"
  proof (rule filter_cong [OF refl])
    fix n
    assume "n \<in> set xs"
    then have "n \<noteq> x" using Cons.prems(1) by auto
    then show "map_of ?deg n = Some 1 \<longleftrightarrow> map_of deg n = Some 1" unfolding look by (cases "map_of deg n") auto
  qed
  moreover have "map_of ?deg x = Some 0 \<longleftrightarrow> map_of deg x = Some 1" unfolding look by (cases "map_of deg x") auto
  moreover have "map (\<lambda>(k, d). (k, if k \<in> set xs then d - 1 else d)) ?deg =
      map (\<lambda>(k, d). (k, if k \<in> set (x # xs) then d - 1 else d)) deg"
    using Cons.prems(1) by auto
  ultimately show ?case by (simp add: relax_all_def one)
qed (simp add: relax_all_def split_def)

lemma set_dependents: "set (dependents ns c) = {k. (c, k) \<in> edges ns}"
  by (auto simp: dependents_def edges_def)

lemma distinct_dependents: "dict_nodes ns \<Longrightarrow> distinct (dependents ns c)"
  unfolding dict_nodes_def
proof (induction ns)
  case (Cons p ns)
  obtain k n where p: "p = (k, n)" by (cases p)
  have d: "distinct (filter (\<lambda>d. d = c) (tn_deps n))" using Cons.prems p by simp
  have "filter (\<lambda>d. d = c) (tn_deps n) = [] \<or> filter (\<lambda>d. d = c) (tn_deps n) = [c]"
  proof (cases "filter (\<lambda>d. d = c) (tn_deps n)")
    case (Cons y ys)
    have m: "\<forall>z \<in> set (filter (\<lambda>d. d = c) (tn_deps n)). z = c" by simp
    then have "y = c" "\<forall>z \<in> set ys. z = c" unfolding Cons by auto
    moreover have "ys = []" using d calculation unfolding Cons by (cases ys) auto
    ultimately show ?thesis using Cons by simp
  qed simp
  moreover have "k \<notin> set (dependents ns c)" using Cons.prems p by (force simp: dependents_def)
  ultimately show ?case using Cons p by (auto simp: dependents_def)
qed (simp add: dependents_def)

lemma count_except:
  "distinct ds \<Longrightarrow> c \<notin> V \<Longrightarrow>
     int (length (filter (\<lambda>d. d \<notin> insert c V) ds)) =
     int (length (filter (\<lambda>d. d \<notin> V) ds)) - (if c \<in> set ds then 1 else 0)"
  by (induction ds) auto

lemma degrees_lookup:
  "dict_nodes ns \<Longrightarrow> (k, n) \<in> set ns \<Longrightarrow> map_of (degrees ns V) k = Some (int (length (filter (\<lambda>d. d \<notin> V) (tn_deps n))))"
  unfolding degrees_def map_of_keyed by (simp add: dict_nodes_def)

text \<open>One iteration: the nodes that \<open>c\<close> was the last open dependency of join the queue.\<close>

lemma kahn_iteration:
  assumes d: "dict_nodes ns" and c: "c \<notin> V"
  shows "relax_all (degrees ns V) q (dependents ns c) =
    (degrees ns (insert c V), q @ filter (\<lambda>k. k \<in> freed ns (insert c V) - freed ns V) (dependents ns c))"
proof -
  have keys: "map fst (degrees ns V) = map fst ns" by (auto simp: degrees_def)
  have "set (map fst (degrees ns V)) = set (map fst ns)" unfolding keys ..
  then have "fst ` set (degrees ns V) = fst ` set ns" by (simp only: set_map)
  then have sub: "set (dependents ns c) \<subseteq> fst ` set (degrees ns V)" by (force simp: set_dependents edges_def)
  have dist: "distinct (map fst (degrees ns V))" using d keys by (simp add: dict_nodes_def)
  have un: "n = m" if "(k, n) \<in> set ns" "(k, m) \<in> set ns" for k n m
    using that d by (metis dict_nodes_def eq_key_imp_eq_value)
  have dep: "k \<in> set (dependents ns c) \<longleftrightarrow> c \<in> set (tn_deps n)" if "(k, n) \<in> set ns" for k n
    using that un by (auto simp: set_dependents edges_def)
  have "map (\<lambda>(k, d). (k, if k \<in> set (dependents ns c) then d - 1 else d)) (degrees ns V) = degrees ns (insert c V)"
    unfolding degrees_def map_map
  proof (rule map_cong [OF refl])
    fix p
    assume p: "p \<in> set ns"
    obtain k n where kn: "p = (k, n)" by (cases p)
    have "distinct (tn_deps n)" using d p kn by (auto simp: dict_nodes_def list_all_iff)
    from count_except [OF this c] dep [of k n] p kn
    show "((\<lambda>(k, d). (k, if k \<in> set (dependents ns c) then d - 1 else d)) \<circ>
        (\<lambda>(k, n). (k, int (length (filter (\<lambda>d. d \<notin> V) (tn_deps n)))))) p =
        (\<lambda>(k, n). (k, int (length (filter (\<lambda>d. d \<notin> insert c V) (tn_deps n))))) p" by auto
  qed
  moreover have "filter (\<lambda>k. map_of (degrees ns V) k = Some 1) (dependents ns c) =
      filter (\<lambda>k. k \<in> freed ns (insert c V) - freed ns V) (dependents ns c)"
  proof (rule filter_cong [OF refl])
    fix k
    assume k: "k \<in> set (dependents ns c)"
    then obtain n where n: "(k, n) \<in> set ns" "c \<in> set (tn_deps n)" by (auto simp: set_dependents edges_def)
    have dn: "distinct (tn_deps n)" using d n(1) by (auto simp: dict_nodes_def list_all_iff)
    have "map_of (degrees ns V) k = Some 1 \<longleftrightarrow> length (filter (\<lambda>d. d \<notin> insert c V) (tn_deps n)) = 0"
      using degrees_lookup [OF d n(1), of V] count_except [OF dn c] n(2) by auto
    also have "\<dots> \<longleftrightarrow> set (tn_deps n) \<subseteq> insert c V" by (auto simp: filter_empty_conv)
    also have "\<dots> \<longleftrightarrow> k \<in> freed ns (insert c V) - freed ns V"
      using n un c by (auto simp: freed_def)
    finally show "map_of (degrees ns V) k = Some 1 \<longleftrightarrow> k \<in> freed ns (insert c V) - freed ns V" .
  qed
  ultimately show ?thesis
    using relax_all_closed [OF distinct_dependents [OF d] sub dist, of q] by simp
qed

text \<open>The whole loop: it visits the nodes that can be reached in dependency order, each once.\<close>

lemma topological_snoc:
  "topological ns vs \<Longrightarrow> c \<in> freed ns (set vs) \<Longrightarrow> topological ns (vs @ [c])"
  by (auto simp: topological_def nth_append less_Suc_eq)

lemma freed_mono: "V \<subseteq> W \<Longrightarrow> freed ns V \<subseteq> freed ns W"
  by (auto simp: freed_def)

lemma freed_keys: "freed ns V \<subseteq> node_keys ns"
  by (force simp: freed_def node_keys_def)

lemma kahn_run:
  assumes d: "dict_nodes ns"
  shows "distinct (vs @ q) \<Longrightarrow> set (vs @ q) = freed ns (set vs) \<Longrightarrow> topological ns vs \<Longrightarrow>
    \<exists>ws. kahn ns (degrees ns (set vs)) q v = v + int (length ws) \<and> distinct (vs @ ws) \<and>
      set (vs @ ws) = freed ns (set (vs @ ws)) \<and> topological ns (vs @ ws)"
proof (induction "card (node_keys ns) - length vs" arbitrary: vs q v rule: less_induct)
  case less
  show ?case
  proof (cases q)
    case Nil
    with less.prems show ?thesis by (intro exI [of _ "[]"]) simp
  next
    case (Cons c p)
    let ?new = "filter (\<lambda>k. k \<in> freed ns (set (vs @ [c])) - freed ns (set vs)) (dependents ns c)"
    have c: "c \<notin> set vs" "c \<in> freed ns (set vs)" using less.prems(1,2) Cons by auto
    have step: "kahn ns (degrees ns (set vs)) q v = kahn ns (degrees ns (set (vs @ [c]))) (p @ ?new) (v + 1)"
      using kahn_iteration [OF d c(1), of p] Cons by simp
    have new: "freed ns (set (vs @ [c])) - freed ns (set vs) \<subseteq> set (dependents ns c)"
      by (auto simp: freed_def set_dependents edges_def)
    have sub: "freed ns (set vs) \<subseteq> freed ns (set (vs @ [c]))" by (rule freed_mono) auto
    have "length vs < card (node_keys ns)"
    proof -
      have "insert c (set vs) \<subseteq> node_keys ns" using less.prems(2) c(2) freed_keys [of ns "set vs"] by auto
      then have "card (insert c (set vs)) \<le> card (node_keys ns)" by (intro card_mono) (simp_all add: node_keys_def)
      then show ?thesis using c(1) less.prems(1) by (simp add: distinct_card)
    qed
    then have smaller: "card (node_keys ns) - length (vs @ [c]) < card (node_keys ns) - length vs" by simp
    have dist: "distinct ((vs @ [c]) @ p @ ?new)"
      using less.prems(1,2) Cons distinct_dependents [OF d, of c] by auto
    have sets: "set ((vs @ [c]) @ p @ ?new) = freed ns (set (vs @ [c]))"
      using less.prems(2) Cons new sub by auto
    from less.hyps [OF smaller dist sets topological_snoc [OF less.prems(3) c(2)], of "v + 1"]
    obtain ws where ws: "kahn ns (degrees ns (set (vs @ [c]))) (p @ ?new) (v + 1) = v + 1 + int (length ws)"
      "distinct ((vs @ [c]) @ ws)" "set ((vs @ [c]) @ ws) = freed ns (set ((vs @ [c]) @ ws))"
      "topological ns ((vs @ [c]) @ ws)" by blast
    show ?thesis
      by (rule exI [of _ "c # ws"]) (use step ws in simp)
  qed
qed

lemma kahn_visits:
  assumes d: "dict_nodes ns"
  obtains ws where
    "kahn ns (in_degrees ns) (map fst (filter (\<lambda>(k, d). d = 0) (in_degrees ns))) 0 = int (length ws)"
    "distinct ws" "set ws = freed ns (set ws)" "topological ns ws"
proof -
  let ?q = "map fst (filter (\<lambda>(k, d). d = 0) (in_degrees ns))"
  have deg: "in_degrees ns = degrees ns (set [])" by (simp add: in_degrees_def degrees_def)
  have q: "?q = map fst (filter (\<lambda>(k, n). tn_deps n = []) ns)"
    by (induction ns) (auto simp: in_degrees_def)
  then have "distinct ([] @ ?q)" using d by (simp add: dict_nodes_def distinct_map_filter)
  moreover have "set ([] @ ?q) = freed ns (set [])" unfolding q by (force simp: freed_def)
  ultimately obtain ws where "kahn ns (in_degrees ns) ?q 0 = 0 + int (length ws)" "distinct ([] @ ws)"
    "set ([] @ ws) = freed ns (set ([] @ ws))" "topological ns ([] @ ws)"
    using kahn_run [OF d, of "[]" ?q 0] unfolding deg by (auto simp: topological_def)
  then show thesis using that by simp
qed

lemma topological_acyclic:
  assumes d: "dict_nodes ns" and ws: "distinct ws" "set ws = node_keys ns" "topological ns ws"
  shows "acyclic (edges ns)"
proof -
  define pos where "pos = the_inv_into {..<length ws} ((!) ws)"
  have at: "pos (ws ! i) = i" if "i < length ws" for i
    unfolding pos_def using that ws(1) by (intro the_inv_into_f_f inj_on_nth) auto
  have "pos x < pos k" if e: "(x, k) \<in> edges ns" for x k
  proof -
    obtain n where n: "(k, n) \<in> set ns" "x \<in> set (tn_deps n)" using e unfolding edges_def by blast
    then have "k \<in> set ws" using ws(2) by (force simp: node_keys_def)
    then obtain i where i: "i < length ws" "k = ws ! i" by (auto simp: in_set_conv_nth)
    then have "k \<in> freed ns (set (take i ws))" using ws(3) by (simp add: topological_def)
    then have "x \<in> set (take i ws)"
      using n d by (auto simp: freed_def dict_nodes_def dest: eq_key_imp_eq_value)
    then obtain j where "j < i" "x = ws ! j" using i(1) by (auto simp: in_set_conv_nth)
    then show ?thesis using at i by simp
  qed
  then have "edges ns \<subseteq> measure pos" by auto
  then show ?thesis using wf_acyclic wf_measure wf_subset by metis
qed

lemma acyclic_freed_all:
  assumes "dict_nodes ns" "closed_nodes ns" "acyclic (edges ns)" "W \<subseteq> node_keys ns" "W = freed ns W"
  shows "W = node_keys ns"
proof (rule ccontr)
  assume "W \<noteq> node_keys ns"
  then obtain y where y: "y \<in> node_keys ns - W" using assms(4) by blast
  have "edges ns \<subseteq> (\<Union>(k, n) \<in> set ns. set (tn_deps n) \<times> {k})" by (auto simp: edges_def)
  then have "finite (edges ns)" by (rule finite_subset) auto
  then have "wf (edges ns)" using assms(3) by (rule finite_acyclic_wf)
  then obtain k where k: "k \<in> node_keys ns - W" "\<And>x. (x, k) \<in> edges ns \<Longrightarrow> x \<notin> node_keys ns - W"
    using y by (rule wfE_min) blast
  obtain n where n: "(k, n) \<in> set ns" using k(1) by (auto simp: node_keys_def)
  have "set (tn_deps n) \<subseteq> W"
  proof
    fix x
    assume "x \<in> set (tn_deps n)"
    then have e: "(x, k) \<in> edges ns" using n by (auto simp: edges_def)
    then have "x \<in> node_keys ns" using assms(2) by (auto simp: closed_nodes_def)
    then show "x \<in> W" using k(2) [OF e] by blast
  qed
  then have "k \<in> freed ns W" using n by (auto simp: freed_def)
  then show False using k(1) assms(5) by blast
qed

lemma missing_none: "missing_dependencies ns = [] \<longleftrightarrow> closed_nodes ns"
  by (auto simp: missing_dependencies_def closed_nodes_def edges_def node_keys_def filter_empty_conv image_iff) blast+

text \<open>The bridge between the loop and the graph: the count is complete exactly on acyclic graphs.\<close>

lemma validate_nodes_iff:
  assumes d: "dict_nodes ns"
  shows "validate_nodes dag ns = Inr () \<longleftrightarrow> closed_nodes ns \<and> acyclic (edges ns)"
proof (cases "closed_nodes ns")
  case True
  obtain ws where ws:
    "kahn ns (in_degrees ns) (map fst (filter (\<lambda>(k, d). d = 0) (in_degrees ns))) 0 = int (length ws)"
    "distinct ws" "set ws = freed ns (set ws)" "topological ns ws"
    using d by (rule kahn_visits)
  have sub: "set ws \<subseteq> node_keys ns" using ws(3) freed_keys by blast
  have card: "card (node_keys ns) = length ns"
    using d unfolding dict_nodes_def node_keys_def by (metis distinct_card image_set length_map)
  have "int (length ws) = int (length ns) \<longleftrightarrow> set ws = node_keys ns"
  proof
    assume "int (length ws) = int (length ns)"
    then have "card (set ws) = card (node_keys ns)" using ws(2) card by (simp add: distinct_card)
    then show "set ws = node_keys ns" using sub by (intro card_subset_eq) (simp_all add: node_keys_def)
  next
    assume "set ws = node_keys ns"
    then show "int (length ws) = int (length ns)" using ws(2) card by (metis distinct_card)
  qed
  also have "\<dots> \<longleftrightarrow> acyclic (edges ns)"
    using topological_acyclic [OF d ws(2) _ ws(4)] acyclic_freed_all [OF d True _ sub ws(3)] by blast
  finally have "int (length ws) = int (length ns) \<longleftrightarrow> acyclic (edges ns)" .
  moreover have "validate_nodes dag ns = Inr () \<longleftrightarrow> int (length ws) = int (length ns)"
    using True missing_none [of ns] ws(1) by (simp add: validate_nodes_def Let_def)
  ultimately show ?thesis using True by simp
next
  case False
  then have "missing_dependencies ns \<noteq> []" using missing_none by blast
  then show ?thesis using False by (cases "missing_dependencies ns") (auto simp: validate_nodes_def)
qed

subsection \<open>Adding, readying and finishing nodes\<close>

definition set_node :: "string \<Rightarrow> task_node \<Rightarrow> task_dag \<Rightarrow> task_dag" where
  "set_node k n g = g\<lparr>dg_nodes := AList.update k n (dg_nodes g)\<rparr>"

text \<open>The node is stored before the graph is validated: a graph comes back in either case.\<close>

definition add_node ::
    "timestamp \<Rightarrow> string \<Rightarrow> string \<Rightarrow> string \<Rightarrow> string list \<Rightarrow> (string \<times> json) list \<Rightarrow> string option
     \<Rightarrow> task_dag \<Rightarrow> task_node result \<times> task_dag" where
  "add_node tm hex name agent deps payload i g =
     (let k = nonempty_or i (''task_'' @ replace_char (CHR '' '') (CHR ''_'') (lower name) @ ''_'' @ hex);
          n = \<lparr>tn_id = k, tn_name = name, tn_agent = agent, tn_deps = remdups deps, tn_input = payload,
               tn_output = None, tn_evidence = None, tn_status = PENDING, tn_created = tm, tn_started = None,
               tn_completed = None, tn_error = None\<rparr>;
          g' = set_node k n g
      in (ebind (validate_dag g') (\<lambda>_. Inr n), g'))"

text \<open>Both quantifiers stop at the first dependency that decides them.\<close>

fun dep_failed :: "task_nodes \<Rightarrow> string list \<Rightarrow> bool result" where
  "dep_failed ns [] = Inr False"
| "dep_failed ns (d # ds) =
     (case map_of ns d of
        None \<Rightarrow> Inl KeyError
      | Some n \<Rightarrow> if tn_status n = FAILED \<or> tn_status n = PREEMPTED then Inr True else dep_failed ns ds)"

fun deps_done :: "task_nodes \<Rightarrow> string list \<Rightarrow> bool result" where
  "deps_done ns [] = Inr True"
| "deps_done ns (d # ds) =
     (case map_of ns d of
        None \<Rightarrow> Inl KeyError
      | Some n \<Rightarrow> if tn_status n = COMPLETED then deps_done ns ds else Inr False)"

definition ready_node :: "timestamp \<Rightarrow> task_nodes \<Rightarrow> task_node \<Rightarrow> (task_node \<times> bool) result" where
  "ready_node tm ns n =
     (if tn_status n \<noteq> PENDING then Inr (n, False)
      else ebind (dep_failed ns (tn_deps n)) (\<lambda>failed.
        if failed
        then Inr (n\<lparr>tn_status := PREEMPTED, tn_error := Some ''A dependency did not complete successfully.'',
                    tn_completed := Some tm\<rparr>, False)
        else ebind (deps_done ns (tn_deps n)) (\<lambda>done.
          Inr (if done then (n\<lparr>tn_status := READY\<rparr>, True) else (n, False)))))"

definition ready_step ::
    "timestamp \<Rightarrow> task_nodes \<times> string list \<Rightarrow> string \<Rightarrow> (task_nodes \<times> string list) result" where
  "ready_step tm st k =
     (case map_of (fst st) k of
        None \<Rightarrow> Inl KeyError
      | Some n \<Rightarrow> ebind (ready_node tm (fst st) n) (\<lambda>(n', r).
          Inr (AList.update k n' (fst st), if r then snd st @ [k] else snd st)))"

definition get_ready_tasks :: "timestamp \<Rightarrow> task_nodes \<Rightarrow> (task_nodes \<times> string list) result" where
  "get_ready_tasks tm ns = efold (ready_step tm) (ns, []) (map fst ns)"

definition mark_completed :: "timestamp \<Rightarrow> string \<Rightarrow> (string \<times> json) list \<Rightarrow> task_nodes \<Rightarrow> task_nodes result" where
  "mark_completed tm k result ns =
     (case map_of ns k of
        None \<Rightarrow> Inl KeyError
      | Some n \<Rightarrow> Inr (AList.update k
          (n\<lparr>tn_status := COMPLETED, tn_output := Some result, tn_completed := Some tm\<rparr>) ns))"

definition mark_failed :: "timestamp \<Rightarrow> string \<Rightarrow> string \<Rightarrow> task_nodes \<Rightarrow> task_nodes result" where
  "mark_failed tm k err ns =
     (case map_of ns k of
        None \<Rightarrow> Inl KeyError
      | Some n \<Rightarrow> Inr (AList.update k
          (n\<lparr>tn_status := FAILED, tn_error := Some err, tn_completed := Some tm\<rparr>) ns))"

definition final_status :: "task_status \<Rightarrow> bool" where
  "final_status x = (x = COMPLETED \<or> x = FAILED \<or> x = PREEMPTED)"

definition is_finished :: "task_nodes \<Rightarrow> bool" where
  "is_finished ns = list_all (\<lambda>(k, n). final_status (tn_status n)) ns"

subsection \<open>Snapshots\<close>

text \<open>
  The dictionary that \<open>to_dict\<close> builds and \<open>from_dict\<close> reads. A node is there as \<open>model_dump(mode="json")\<close>
  leaves it: the status and the times are texts, the set of dependencies is a list. Keys that are read with \<open>get\<close>
  from the dictionary of the graph are options. Payloads are JSON values; Python values of other types in a
  payload, which the dump would turn into texts, are not modelled.
\<close>

record node_snapshot =
  nd_id :: string
  nd_name :: string
  nd_agent :: string
  nd_deps :: "string list"
  nd_input :: "(string \<times> json) list"
  nd_output :: "(string \<times> json) list option"
  nd_evidence :: "(string \<times> json) list option"
  nd_status :: string
  nd_created :: string
  nd_started :: "string option"
  nd_completed :: "string option"
  nd_error :: "string option"

record dag_snapshot =
  ds_id :: "string option"
  ds_tenant :: "string option"
  ds_customer :: "string option"
  ds_inquiry :: "string option"
  ds_created :: "string option"
  ds_status :: string
  ds_reason :: "string option"
  ds_nodes :: "node_snapshot list"

fun status_text :: "task_status \<Rightarrow> string" where
  "status_text PENDING = ''PENDING''"
| "status_text READY = ''READY''"
| "status_text RUNNING = ''RUNNING''"
| "status_text COMPLETED = ''COMPLETED''"
| "status_text FAILED = ''FAILED''"
| "status_text PREEMPTED = ''PREEMPTED''"

definition parse_status :: "string \<Rightarrow> task_status option" where
  "parse_status x = map_of (map (\<lambda>s. (status_text s, s)) [PENDING, READY, RUNNING, COMPLETED, FAILED, PREEMPTED]) x"

text \<open>\<open>fmt\<close> writes a time, \<open>parse\<close> reads one; both are parameters.\<close>

definition dump_node :: "(timestamp \<Rightarrow> string) \<Rightarrow> task_node \<Rightarrow> node_snapshot" where
  "dump_node fmt n =
     \<lparr>nd_id = tn_id n, nd_name = tn_name n, nd_agent = tn_agent n, nd_deps = tn_deps n, nd_input = tn_input n,
      nd_output = tn_output n, nd_evidence = tn_evidence n, nd_status = status_text (tn_status n),
      nd_created = fmt (tn_created n), nd_started = map_option fmt (tn_started n),
      nd_completed = map_option fmt (tn_completed n), nd_error = tn_error n\<rparr>"

definition parse_time :: "(string \<Rightarrow> timestamp option) \<Rightarrow> string \<Rightarrow> timestamp result" where
  "parse_time parse x = (case parse x of None \<Rightarrow> Inl (ValueError ''invalid datetime'') | Some t \<Rightarrow> Inr t)"

fun parse_time_opt :: "(string \<Rightarrow> timestamp option) \<Rightarrow> string option \<Rightarrow> timestamp option result" where
  "parse_time_opt parse None = Inr None"
| "parse_time_opt parse (Some x) = ebind (parse_time parse x) (\<lambda>t. Inr (Some t))"

text \<open>\<open>TaskNode.model_validate\<close>; its \<open>ValidationError\<close> is a \<open>ValueError\<close>.\<close>

definition validate_node :: "(string \<Rightarrow> timestamp option) \<Rightarrow> node_snapshot \<Rightarrow> task_node result" where
  "validate_node parse d =
     (case parse_status (nd_status d) of
        None \<Rightarrow> Inl (ValueError ''invalid status'')
      | Some st \<Rightarrow>
          ebind (parse_time parse (nd_created d)) (\<lambda>created.
          ebind (parse_time_opt parse (nd_started d)) (\<lambda>started.
          ebind (parse_time_opt parse (nd_completed d)) (\<lambda>completed.
            Inr \<lparr>tn_id = nd_id d, tn_name = nd_name d, tn_agent = nd_agent d, tn_deps = remdups (nd_deps d),
                 tn_input = nd_input d, tn_output = nd_output d, tn_evidence = nd_evidence d, tn_status = st,
                 tn_created = created, tn_started = started, tn_completed = completed, tn_error = nd_error d\<rparr>))))"

definition dag_status :: "task_nodes \<Rightarrow> string" where
  "dag_status ns =
     (let base = (if ns \<noteq> [] \<and> list_all (\<lambda>(k, n). tn_status n = COMPLETED) ns then ''COMPLETED''
                  else if is_finished ns then ''FAILED'' else ''RUNNING'')
      in if ns \<noteq> [] \<and> list_all (\<lambda>(k, n). tn_status n = PENDING \<or> tn_status n = READY) ns then ''DISPATCHED''
         else base)"

definition to_dict :: "(timestamp \<Rightarrow> string) \<Rightarrow> task_dag \<Rightarrow> dag_snapshot" where
  "to_dict fmt g =
     \<lparr>ds_id = Some (dg_id g), ds_tenant = dg_tenant g, ds_customer = Some (dg_customer g),
      ds_inquiry = Some (dg_inquiry g), ds_created = Some (fmt (dg_created g)), ds_status = dag_status (dg_nodes g),
      ds_reason = None, ds_nodes = map (\<lambda>(k, n). dump_node fmt n) (dg_nodes g)\<rparr>"

definition from_dict ::
    "(string \<Rightarrow> timestamp option) \<Rightarrow> timestamp \<Rightarrow> string \<Rightarrow> dag_snapshot \<Rightarrow> task_dag result" where
  "from_dict parse tm hex d =
     (let g0 = new_dag tm hex (ds_id d) (ds_tenant d) (ds_customer d) (ds_inquiry d)
      in ebind (if nonempty_or (ds_created d) [] = [] then Inr g0
                else ebind (parse_time parse (nonempty_or (ds_created d) [])) (\<lambda>c. Inr (g0\<lparr>dg_created := c\<rparr>))) (\<lambda>g1.
         ebind (emap (validate_node parse) (ds_nodes d)) (\<lambda>ns.
           let g2 = g1\<lparr>dg_nodes := foldl (\<lambda>ns n. AList.update (tn_id n) n ns) [] ns\<rparr>
           in ebind (validate_dag g2) (\<lambda>_. Inr g2))))"

subsection \<open>One pass over the nodes\<close>

definition status_of :: "task_nodes \<Rightarrow> string \<Rightarrow> task_status option" where
  "status_of ns k = map_option tn_status (map_of ns k)"

text \<open>What a pass may do to a node.\<close>

definition preempt :: "timestamp \<Rightarrow> task_node \<Rightarrow> task_node" where
  "preempt tm n = n\<lparr>tn_status := PREEMPTED, tn_error := Some ''A dependency did not complete successfully.'',
     tn_completed := Some tm\<rparr>"

definition readied :: "timestamp \<Rightarrow> task_nodes \<Rightarrow> task_node \<Rightarrow> task_node \<Rightarrow> bool" where
  "readied tm ns n n' \<longleftrightarrow> n' = n \<or> tn_status n = PENDING \<and>
     (n' = preempt tm n \<or>
      n' = n\<lparr>tn_status := READY\<rparr> \<and> (\<forall>d \<in> set (tn_deps n). status_of ns d = Some COMPLETED))"

definition passed :: "timestamp \<Rightarrow> task_nodes \<Rightarrow> task_nodes \<Rightarrow> bool" where
  "passed tm ns ns' \<longleftrightarrow> map fst ns' = map fst ns \<and>
     (\<forall>k n. map_of ns k = Some n \<longrightarrow> (\<exists>n'. map_of ns' k = Some n' \<and> readied tm ns n n'))"

lemma readied_simps:
  "readied tm ns n n' \<Longrightarrow> tn_id n' = tn_id n" "readied tm ns n n' \<Longrightarrow> tn_deps n' = tn_deps n"
  "readied tm ns n n' \<Longrightarrow> tn_name n' = tn_name n" "readied tm ns n n' \<Longrightarrow> tn_agent n' = tn_agent n"
  "readied tm ns n n' \<Longrightarrow> tn_status n \<noteq> PENDING \<Longrightarrow> n' = n"
  by (auto simp: readied_def preempt_def)

lemma passed_refl [simp]: "passed tm ns ns"
  by (simp add: passed_def readied_def)

lemma update_same_keys: "map_of ns k \<noteq> None \<Longrightarrow> map fst (AList.update k n ns) = map fst ns"
  by (induction ns) auto

lemma map_of_key: "map_of ns k = None \<longleftrightarrow> k \<notin> set (map fst ns)"
  by (simp add: map_of_eq_None_iff)

lemma passed_completed:
  assumes "passed tm ns cur"
  shows "status_of cur d = Some COMPLETED \<longleftrightarrow> status_of ns d = Some COMPLETED"
proof (cases "map_of ns d")
  case None
  then have "map_of cur d = None" using assms map_of_key [of ns d] map_of_key [of cur d] by (simp add: passed_def)
  with None show ?thesis by (simp add: status_of_def)
next
  case (Some n)
  then obtain n' where "map_of cur d = Some n'" "readied tm ns n n'" using assms by (auto simp: passed_def)
  with Some show ?thesis by (auto simp: status_of_def readied_def preempt_def)
qed

lemma passed_final:
  assumes "passed tm ns cur" "status_of ns d = Some x" "x \<noteq> PENDING"
  shows "status_of cur d = Some x"
  using assms by (fastforce simp: status_of_def passed_def dest: readied_simps(5))

lemma dep_failed_Inr:
  "(\<And>d. d \<in> set ds \<Longrightarrow> map_of ns d \<noteq> None) \<Longrightarrow>
     dep_failed ns ds = Inr (\<exists>d \<in> set ds. status_of ns d = Some FAILED \<or> status_of ns d = Some PREEMPTED)"
proof (induction ds)
  case (Cons d ds)
  obtain n where "map_of ns d = Some n" using Cons.prems [of d] by auto
  with Cons show ?case by (simp add: status_of_def)
qed simp

lemma deps_done_Inr:
  "(\<And>d. d \<in> set ds \<Longrightarrow> map_of ns d \<noteq> None) \<Longrightarrow>
     deps_done ns ds = Inr (\<forall>d \<in> set ds. status_of ns d = Some COMPLETED)"
proof (induction ds)
  case (Cons d ds)
  obtain n where "map_of ns d = Some n" using Cons.prems [of d] by auto
  with Cons show ?case by (simp add: status_of_def)
qed simp

lemma ready_node_Inr:
  assumes cur: "passed tm ns cur" and n: "map_of ns k = Some n" "closed_nodes ns" "dict_nodes ns"
  obtains n' where "ready_node tm cur n = Inr (n', tn_status n = PENDING \<and> tn_status n' = READY)" "readied tm ns n n'"
    "tn_status n = PENDING \<Longrightarrow> (\<And>d. d \<in> set (tn_deps n) \<Longrightarrow> \<exists>x. status_of ns d = Some x \<and> final_status x) \<Longrightarrow>
       tn_status n' \<noteq> PENDING"
proof (cases "tn_status n = PENDING")
  case False
  then have "ready_node tm cur n = Inr (n, tn_status n = PENDING \<and> tn_status n = READY)" by (simp add: ready_node_def)
  then show thesis using that [of n] False by (simp add: readied_def)
next
  case True
  have "(k, n) \<in> set ns" using n(1) by (rule map_of_SomeD)
  then have "d \<in> set (map fst ns)" if "d \<in> set (tn_deps n)" for d
    using n(2) that unfolding closed_nodes_def edges_def node_keys_def by auto
  then have ex: "map_of cur d \<noteq> None" if "d \<in> set (tn_deps n)" for d
    using cur that map_of_key [of cur d] by (simp add: passed_def)
  define b where "b = (\<exists>d \<in> set (tn_deps n). status_of cur d = Some FAILED \<or> status_of cur d = Some PREEMPTED)"
  define c where "c = (\<forall>d \<in> set (tn_deps n). status_of cur d = Some COMPLETED)"
  have b: "dep_failed cur (tn_deps n) = Inr b" unfolding b_def using ex by (rule dep_failed_Inr)
  have c: "deps_done cur (tn_deps n) = Inr c" unfolding c_def using ex by (rule deps_done_Inr)
  show thesis
  proof (cases b)
    case True
    then have "ready_node tm cur n = Inr (preempt tm n, False)"
      using \<open>tn_status n = PENDING\<close> b by (simp add: ready_node_def preempt_def)
    then show thesis using that [of "preempt tm n"] \<open>tn_status n = PENDING\<close> by (simp add: readied_def preempt_def)
  next
    case False
    show thesis
    proof (cases c)
      case True
      then have "ready_node tm cur n = Inr (n\<lparr>tn_status := READY\<rparr>, True)"
        using \<open>tn_status n = PENDING\<close> b c \<open>\<not> b\<close> by (simp add: ready_node_def)
      moreover have "\<forall>d \<in> set (tn_deps n). status_of ns d = Some COMPLETED"
        using True passed_completed [OF cur] unfolding c_def by blast
      ultimately show thesis using that [of "n\<lparr>tn_status := READY\<rparr>"] \<open>tn_status n = PENDING\<close> by (simp add: readied_def)
    next
      case False
      then have "ready_node tm cur n = Inr (n, False)"
        using \<open>tn_status n = PENDING\<close> b c \<open>\<not> b\<close> by (simp add: ready_node_def)
      moreover have "\<exists>d \<in> set (tn_deps n). \<not> (\<exists>x. status_of ns d = Some x \<and> final_status x)"
      proof (rule ccontr)
        assume "\<not> ?thesis"
        then have "\<exists>x. status_of ns d = Some x \<and> final_status x" if "d \<in> set (tn_deps n)" for d using that by blast
        then have "status_of cur d = Some COMPLETED \<or> status_of cur d = Some FAILED \<or> status_of cur d = Some PREEMPTED"
          if "d \<in> set (tn_deps n)" for d
          using that passed_final [OF cur, of d] unfolding final_status_def by fastforce
        then show False using False \<open>\<not> b\<close> unfolding b_def c_def by blast
      qed
      ultimately show thesis using that [of n] \<open>tn_status n = PENDING\<close> by (auto simp: readied_def)
    qed
  qed
qed

lemma ready_pass:
  assumes ns: "closed_nodes ns" "dict_nodes ns"
  shows "passed tm ns cur \<Longrightarrow> distinct ks \<Longrightarrow> set ks \<subseteq> node_keys ns \<Longrightarrow> (\<And>k. k \<in> set ks \<Longrightarrow> map_of cur k = map_of ns k) \<Longrightarrow>
    \<exists>cur'. efold (ready_step tm) (cur, rd) ks =
        Inr (cur', rd @ filter (\<lambda>k. status_of ns k = Some PENDING \<and> status_of cur' k = Some READY) ks) \<and>
      passed tm ns cur' \<and> (\<forall>k. k \<notin> set ks \<longrightarrow> map_of cur' k = map_of cur k) \<and>
      (\<forall>k \<in> set ks. \<forall>n. map_of ns k = Some n \<longrightarrow> tn_status n = PENDING \<longrightarrow>
         (\<forall>d \<in> set (tn_deps n). \<exists>x. status_of ns d = Some x \<and> final_status x) \<longrightarrow> status_of cur' k \<noteq> Some PENDING)"
proof (induction ks arbitrary: cur rd)
  case Nil
  then show ?case by auto
next
  case (Cons k ks)
  have "k \<in> set (map fst ns)" using Cons.prems(3) by (simp add: node_keys_def)
  then obtain n where n: "map_of ns k = Some n" using map_of_key [of ns k] by auto
  then have cn: "map_of cur k = Some n" using Cons.prems(4) by simp
  obtain n' where n': "ready_node tm cur n = Inr (n', tn_status n = PENDING \<and> tn_status n' = READY)" "readied tm ns n n'"
    "tn_status n = PENDING \<Longrightarrow> (\<And>d. d \<in> set (tn_deps n) \<Longrightarrow> \<exists>x. status_of ns d = Some x \<and> final_status x) \<Longrightarrow>
       tn_status n' \<noteq> PENDING"
    using ready_node_Inr [OF Cons.prems(1) n ns] by metis
  let ?cur = "AList.update k n' cur"
  let ?rd = "if tn_status n = PENDING \<and> tn_status n' = READY then rd @ [k] else rd"
  have step: "ready_step tm (cur, rd) k = Inr (?cur, ?rd)" using cn n'(1) by (simp add: ready_step_def)
  have p: "passed tm ns ?cur"
    using Cons.prems(1) n n'(2) cn update_same_keys [of cur k n'] by (auto simp: passed_def update_conv')
  have same: "map_of ?cur j = map_of ns j" if "j \<in> set ks" for j
    using that Cons.prems(2,4) by (auto simp: update_conv')
  obtain cur' where c: "efold (ready_step tm) (?cur, ?rd) ks =
      Inr (cur', ?rd @ filter (\<lambda>k. status_of ns k = Some PENDING \<and> status_of cur' k = Some READY) ks)"
    "passed tm ns cur'" "\<And>j. j \<notin> set ks \<Longrightarrow> map_of cur' j = map_of ?cur j"
    "\<forall>k \<in> set ks. \<forall>n. map_of ns k = Some n \<longrightarrow> tn_status n = PENDING \<longrightarrow>
       (\<forall>d \<in> set (tn_deps n). \<exists>x. status_of ns d = Some x \<and> final_status x) \<longrightarrow> status_of cur' k \<noteq> Some PENDING"
    using Cons.IH [OF p _ _ same, of ?rd] Cons.prems(2,3) by auto
  have k': "map_of cur' k = Some n'" using c(3) [of k] Cons.prems(2) by (simp add: update_conv')
  have "efold (ready_step tm) (cur, rd) (k # ks) =
      Inr (cur', rd @ filter (\<lambda>k. status_of ns k = Some PENDING \<and> status_of cur' k = Some READY) (k # ks))"
    using step c(1) n k' by (simp add: status_of_def)
  moreover have "\<forall>j. j \<notin> set (k # ks) \<longrightarrow> map_of cur' j = map_of cur j" using c(3) by (auto simp: update_conv')
  moreover have "\<forall>m. map_of ns k = Some m \<longrightarrow> tn_status m = PENDING \<longrightarrow>
      (\<forall>d \<in> set (tn_deps m). \<exists>x. status_of ns d = Some x \<and> final_status x) \<longrightarrow> status_of cur' k \<noteq> Some PENDING"
    using n n'(3) k' by (simp add: status_of_def)
  ultimately show ?case using c(2,4) by (intro exI [of _ cur'] conjI) auto
qed

lemma get_ready_tasks_Inr:
  assumes "closed_nodes ns" "dict_nodes ns"
  obtains ns' where
    "get_ready_tasks tm ns = Inr (ns', filter (\<lambda>k. status_of ns k = Some PENDING \<and> status_of ns' k = Some READY) (map fst ns))"
    "passed tm ns ns'"
    "\<forall>k n. map_of ns k = Some n \<longrightarrow> tn_status n = PENDING \<longrightarrow>
       (\<forall>d \<in> set (tn_deps n). \<exists>x. status_of ns d = Some x \<and> final_status x) \<longrightarrow> status_of ns' k \<noteq> Some PENDING"
proof -
  have "distinct (map fst ns)" using assms(2) by (simp add: dict_nodes_def)
  then obtain ns' where *: "efold (ready_step tm) (ns, []) (map fst ns) =
      Inr (ns', [] @ filter (\<lambda>k. status_of ns k = Some PENDING \<and> status_of ns' k = Some READY) (map fst ns))"
    "passed tm ns ns'" "\<forall>k \<in> set (map fst ns). \<forall>n. map_of ns k = Some n \<longrightarrow> tn_status n = PENDING \<longrightarrow>
      (\<forall>d \<in> set (tn_deps n). \<exists>x. status_of ns d = Some x \<and> final_status x) \<longrightarrow> status_of ns' k \<noteq> Some PENDING"
    using ready_pass [OF assms passed_refl, of "map fst ns" tm "[]"] by (auto simp: node_keys_def)
  have "k \<in> set (map fst ns)" if "map_of ns k = Some n" for k n using that map_of_key [of ns k] by simp
  then have "\<forall>k n. map_of ns k = Some n \<longrightarrow> tn_status n = PENDING \<longrightarrow>
      (\<forall>d \<in> set (tn_deps n). \<exists>x. status_of ns d = Some x \<and> final_status x) \<longrightarrow> status_of ns' k \<noteq> Some PENDING"
    using *(3) by blast
  from that [OF _ *(2) this] *(1) show thesis by (simp add: get_ready_tasks_def)
qed

subsection \<open>Progress\<close>

definition pending_nodes :: "task_nodes \<Rightarrow> string list" where
  "pending_nodes ns = filter (\<lambda>k. status_of ns k = Some PENDING) (map fst ns)"

lemma pending_minimal:
  assumes d: "dict_nodes ns" and c: "closed_nodes ns" and a: "acyclic (edges ns)"
    and "pending_nodes ns \<noteq> []"
  obtains k n where "map_of ns k = Some n" "tn_status n = PENDING"
    "\<And>d. d \<in> set (tn_deps n) \<Longrightarrow> \<exists>x. status_of ns d = Some x \<and> x \<noteq> PENDING"
proof -
  obtain y where y: "y \<in> set (pending_nodes ns)" using assms(4) by (cases "pending_nodes ns") auto
  have "edges ns \<subseteq> (\<Union>(k, n) \<in> set ns. set (tn_deps n) \<times> {k})" by (auto simp: edges_def)
  then have "finite (edges ns)" by (rule finite_subset) auto
  then have "wf (edges ns)" using a by (rule finite_acyclic_wf)
  then obtain k where k: "k \<in> set (pending_nodes ns)" "\<And>x. (x, k) \<in> edges ns \<Longrightarrow> x \<notin> set (pending_nodes ns)"
    using y by (rule wfE_min) blast
  obtain n where n: "map_of ns k = Some n" "tn_status n = PENDING"
    using k(1) by (auto simp: pending_nodes_def status_of_def)
  have "\<exists>x. status_of ns d = Some x \<and> x \<noteq> PENDING" if "d \<in> set (tn_deps n)" for d
  proof -
    have e: "(d, k) \<in> edges ns" using that map_of_SomeD [OF n(1)] by (auto simp: edges_def)
    then have "d \<in> node_keys ns" using c by (auto simp: closed_nodes_def)
    then have "d \<in> set (map fst ns)" by (simp add: node_keys_def)
    then obtain m where "map_of ns d = Some m" using map_of_key [of ns d] by auto
    with k(2) [OF e] \<open>d \<in> set (map fst ns)\<close> show ?thesis by (auto simp: pending_nodes_def status_of_def)
  qed
  with n show thesis by (rule that)
qed

text \<open>A graph at rest: every node is pending or final.\<close>

definition at_rest :: "task_nodes \<Rightarrow> bool" where
  "at_rest ns = list_all (\<lambda>(k, n). tn_status n = PENDING \<or> final_status (tn_status n)) ns"

definition sound_nodes :: "task_nodes \<Rightarrow> bool" where
  "sound_nodes ns \<longleftrightarrow> dict_nodes ns \<and> closed_nodes ns \<and> acyclic (edges ns)"

lemma at_rest_status: "at_rest ns \<Longrightarrow> status_of ns k = Some x \<Longrightarrow> x = PENDING \<or> final_status x"
  by (auto simp: at_rest_def status_of_def list_all_iff dest!: map_of_SomeD)

lemma finished_no_pending: "at_rest ns \<Longrightarrow> dict_nodes ns \<Longrightarrow> is_finished ns \<longleftrightarrow> pending_nodes ns = []"
proof -
  assume r: "at_rest ns" and d: "dict_nodes ns"
  have "status_of ns k = Some (tn_status n)" if "(k, n) \<in> set ns" for k n
    using that d by (simp add: status_of_def dict_nodes_def)
  then show ?thesis using r
    by (fastforce simp: is_finished_def pending_nodes_def at_rest_def list_all_iff filter_empty_conv final_status_def)
qed

subsection \<open>Properties\<close>

text \<open>Two workflows: a diamond, and the same nodes with a dependency closed into a cycle.\<close>

definition demo_node :: "string \<Rightarrow> string list \<Rightarrow> string \<times> task_node" where
  "demo_node k deps =
     (k, \<lparr>tn_id = k, tn_name = k, tn_agent = ''REVENUE'', tn_deps = deps, tn_input = [], tn_output = None,
        tn_evidence = None, tn_status = PENDING, tn_created = 0, tn_started = None, tn_completed = None,
        tn_error = None\<rparr>)"

definition demo_dag :: "task_nodes \<Rightarrow> task_dag" where
  "demo_dag ns = \<lparr>dg_id = ''dag_1'', dg_tenant = Some ''0'', dg_customer = ''Acme'', dg_inquiry = [],
     dg_created = 5, dg_nodes = ns\<rparr>"

definition diamond :: task_nodes where
  "diamond = [demo_node ''a'' [], demo_node ''b'' [''a''], demo_node ''c'' [''a''], demo_node ''d'' [''b'', ''c'']]"

definition looped :: task_nodes where
  "looped = [demo_node ''a'' [], demo_node ''b'' [''a'', ''c''], demo_node ''c'' [''b'']]"

lemma demo_dict: "dict_nodes diamond" "dict_nodes looped"
  by (simp_all add: dict_nodes_def diamond_def looped_def demo_node_def)

lemma demo_validate: "validate_dag (demo_dag diamond) = Inr ()" "is_ok (validate_dag (demo_dag looped)) = False"
  by code_simp+

text \<open>C27: the validation of a graph succeeds exactly when every dependency is a node of the graph and
  the dependency relation has no cycle.\<close>

theorem validation_accepts_dags:
  assumes "dict_nodes (dg_nodes g)"
  shows "validate_dag g = Inr () \<longleftrightarrow> closed_nodes (dg_nodes g) \<and> acyclic (edges (dg_nodes g))"
  unfolding validate_dag_def by (rule validate_nodes_iff [OF assms])

theorem validation_accepts_dags_witness:
  "acyclic (edges diamond) \<and> \<not> (closed_nodes looped \<and> acyclic (edges looped))"
proof -
  have "dg_nodes (demo_dag ns) = ns" for ns by (simp add: demo_dag_def)
  with validation_accepts_dags [of "demo_dag diamond"] validation_accepts_dags [of "demo_dag looped"]
    demo_dict demo_validate
  show ?thesis by (auto simp: is_ok_def)
qed

text \<open>A pass over a validated graph reports ready exactly the pending nodes it sets to ready, each
  of which has only completed dependencies; apart from them it changes only pending nodes, which it
  preempts.\<close>

theorem ready_tasks_respect_dependencies:
  assumes "dict_nodes ns" and "validate_nodes dag ns = Inr ()"
  shows "\<exists>ns' ready. get_ready_tasks tm ns = Inr (ns', ready) \<and> map fst ns' = map fst ns \<and>
    (\<forall>k n. map_of ns k = Some n \<longrightarrow> (\<exists>n'. map_of ns' k = Some n' \<and>
      (if k \<in> set ready then tn_status n = PENDING \<and> n' = n\<lparr>tn_status := READY\<rparr> \<and>
         (\<forall>d \<in> set (tn_deps n). status_of ns d = Some COMPLETED)
       else n' = n \<or> tn_status n = PENDING \<and> n' = preempt tm n)))"
proof -
  have c: "closed_nodes ns" using assms validate_nodes_iff by blast
  obtain ns' where g: "get_ready_tasks tm ns =
      Inr (ns', filter (\<lambda>k. status_of ns k = Some PENDING \<and> status_of ns' k = Some READY) (map fst ns))"
    "passed tm ns ns'"
    by (rule get_ready_tasks_Inr [OF c assms(1), where tm = tm])
  let ?ready = "filter (\<lambda>k. status_of ns k = Some PENDING \<and> status_of ns' k = Some READY) (map fst ns)"
  have each: "\<exists>n'. map_of ns' k = Some n' \<and>
      (if k \<in> set ?ready
       then tn_status n = PENDING \<and> n' = n\<lparr>tn_status := READY\<rparr> \<and> (\<forall>d \<in> set (tn_deps n). status_of ns d = Some COMPLETED)
       else n' = n \<or> tn_status n = PENDING \<and> n' = preempt tm n)" if n: "map_of ns k = Some n" for k n
  proof -
    obtain n' where n': "map_of ns' k = Some n'" "readied tm ns n n'" using g(2) n by (auto simp: passed_def)
    have st: "status_of ns k = Some (tn_status n)" "status_of ns' k = Some (tn_status n')"
      using n n'(1) by (simp_all add: status_of_def)
    have "k \<in> set (map fst ns)" using n map_of_key [of ns k] by simp
    then have mem: "k \<in> set ?ready \<longleftrightarrow> tn_status n = PENDING \<and> tn_status n' = READY" by (simp add: st)
    have pre: "tn_status (preempt tm n) \<noteq> READY" by (simp add: preempt_def)
    show ?thesis unfolding mem
      by (rule exI [of _ n']) (use n' pre in \<open>cases "tn_status n = PENDING"; simp add: readied_def; fastforce\<close>)
  qed
  have "map fst ns' = map fst ns" using g(2) by (simp add: passed_def)
  with g(1) each show ?thesis by blast
qed

theorem ready_tasks_respect_dependencies_witness:
  "\<exists>ns' ready. get_ready_tasks 7 diamond = Inr (ns', ready) \<and> map fst ns' = [''a'', ''b'', ''c'', ''d'']"
proof -
  have "validate_nodes ''dag_1'' diamond = Inr ()"
    using demo_validate(1) by (simp add: validate_dag_def demo_dag_def)
  from ready_tasks_respect_dependencies [OF demo_dict(1) this, of 7]
  show ?thesis by (auto simp: diamond_def demo_node_def)
qed

lemma rebuild_nodes:
  "dict_nodes (ms @ ns) \<Longrightarrow> foldl (\<lambda>a n. AList.update (tn_id n) n a) ms (map snd ns) = ms @ ns"
proof (induction ns arbitrary: ms)
  case (Cons p ns)
  obtain k n where p: "p = (k, n)" by (cases p)
  have "tn_id n = k" "k \<notin> set (map fst ms)" using Cons.prems p by (auto simp: dict_nodes_def)
  moreover have "AList.update k n ms = ms @ [(k, n)]" if "k \<notin> set (map fst ms)"
    using that by (induction ms) auto
  ultimately show ?case using Cons.IH [of "ms @ [p]"] Cons.prems p by simp
qed simp

text \<open>What a \<open>JSONB\<close> column keeps of a snapshot: the same payloads with their members in its own order.\<close>

definition stored_members :: "(string \<times> json) list \<Rightarrow> (string \<times> json) list" where
  "stored_members m = (case jsonb (JObj m) of JObj ps \<Rightarrow> ps | _ \<Rightarrow> [])"

definition stored_snapshot :: "dag_snapshot \<Rightarrow> dag_snapshot" where
  "stored_snapshot d = d\<lparr>ds_nodes := map (\<lambda>n. n\<lparr>nd_input := stored_members (nd_input n),
     nd_output := map_option stored_members (nd_output n),
     nd_evidence := map_option stored_members (nd_evidence n)\<rparr>) (ds_nodes d)\<rparr>"

definition reload_node :: "task_node \<Rightarrow> task_node" where
  "reload_node n = n\<lparr>tn_input := stored_members (tn_input n), tn_output := map_option stored_members (tn_output n),
     tn_evidence := map_option stored_members (tn_evidence n)\<rparr>"

text \<open>The times in a graph, which \<open>parse\<close> must read back from the text that \<open>fmt\<close> writes.\<close>

definition node_times :: "task_node \<Rightarrow> timestamp set" where
  "node_times n = {tn_created n} \<union> set_option (tn_started n) \<union> set_option (tn_completed n)"

definition times_of :: "task_dag \<Rightarrow> timestamp set" where
  "times_of g = insert (dg_created g) (\<Union>(k, n) \<in> set (dg_nodes g). node_times n)"

lemma parse_status_text [simp]: "parse_status (status_text s) = Some s"
  by (cases s) (simp_all add: parse_status_def)

lemma parse_time_opt_map:
  "(\<And>t. t \<in> set_option x \<Longrightarrow> parse (fmt t) = Some t) \<Longrightarrow> parse_time_opt parse (map_option fmt x) = Inr x"
  by (cases x) (simp_all add: parse_time_def)

lemma validate_dumped:
  assumes "distinct (tn_deps n)" "\<And>t. t \<in> node_times n \<Longrightarrow> parse (fmt t) = Some t"
  shows "validate_node parse (dump_node fmt n) = Inr n"
  using assms parse_time_opt_map [of "tn_started n" parse fmt] parse_time_opt_map [of "tn_completed n" parse fmt]
  by (cases n) (simp add: validate_node_def dump_node_def node_times_def parse_time_def distinct_remdups_id)

lemma emap_map_Inr: "(\<And>x. x \<in> set xs \<Longrightarrow> f (g x) = Inr (h x)) \<Longrightarrow> emap f (map g xs) = Inr (map h xs)"
  by (induction xs) simp_all

lemma snapshot_nodes:
  assumes "dict_nodes ns" "\<And>k n t. (k, n) \<in> set ns \<Longrightarrow> t \<in> node_times n \<Longrightarrow> parse (fmt t) = Some t"
    and "\<And>n. tn_id (f n) = tn_id n \<and> tn_deps (f n) = tn_deps n \<and> node_times (f n) = node_times n"
  shows "emap (validate_node parse) (map (\<lambda>(k, n). dump_node fmt (f n)) ns) = Inr (map (\<lambda>(k, n). f n) ns)"
    and "foldl (\<lambda>a n. AList.update (tn_id n) n a) [] (map (\<lambda>(k, n). f n) ns) = map (\<lambda>(k, n). (k, f n)) ns"
proof -
  have "distinct (tn_deps n)" if "(k, n) \<in> set ns" for k n using assms(1) that by (auto simp: dict_nodes_def list_all_iff)
  then show "emap (validate_node parse) (map (\<lambda>(k, n). dump_node fmt (f n)) ns) = Inr (map (\<lambda>(k, n). f n) ns)"
    using assms(2,3) by (intro emap_map_Inr) (auto intro!: validate_dumped)
  have "dict_nodes (map (\<lambda>(k, n). (k, f n)) ns)"
    using assms(1,3) by (auto simp: dict_nodes_def list_all_iff comp_def case_prod_unfold)
  from rebuild_nodes [of "[]", simplified, OF this]
  show "foldl (\<lambda>a n. AList.update (tn_id n) n a) [] (map (\<lambda>(k, n). f n) ns) = map (\<lambda>(k, n). (k, f n)) ns"
    by (simp add: comp_def case_prod_unfold)
qed

lemma validate_same_graph:
  assumes "dict_nodes ns" "\<And>n. tn_id (f n) = tn_id n \<and> tn_deps (f n) = tn_deps n"
  shows "validate_nodes dag (map (\<lambda>(k, n). (k, f n)) ns) = Inr () \<longleftrightarrow> validate_nodes dag ns = Inr ()"
proof -
  let ?ms = "map (\<lambda>(k, n). (k, f n)) ns"
  have "dict_nodes ?ms" using assms by (auto simp: dict_nodes_def list_all_iff comp_def case_prod_unfold)
  moreover have "edges ?ms = edges ns" using assms(2) by (force simp: edges_def)
  moreover have "node_keys ?ms = node_keys ns" by (force simp: node_keys_def)
  ultimately show ?thesis using validate_nodes_iff assms(1) by (simp add: closed_nodes_def)
qed

text \<open>C40: a validated graph comes back from its snapshot as it was, its nodes written as JSON and validated again;
  and from the snapshot in its \<open>JSONB\<close> column with the members of the payloads in another order: their canonical
  text is the same, unless they hold a float from \<open>1e16\<close> on. The graph has names that the constructor keeps, and the
  clock texts read back.\<close>

theorem snapshot_roundtrip:
  assumes "dict_nodes (dg_nodes g)" and "validate_dag g = Inr ()"
    and "dg_id g \<noteq> []" and "dg_customer g \<noteq> []" and "dg_tenant g \<noteq> Some []"
    and "\<forall>t \<in> times_of g. fmt t \<noteq> [] \<and> parse (fmt t) = Some t"
  shows "from_dict parse tm hex (to_dict fmt g) = Inr g \<and>
    from_dict parse tm hex (stored_snapshot (to_dict fmt g)) =
      Inr (g\<lparr>dg_nodes := map (\<lambda>(k, n). (k, reload_node n)) (dg_nodes g)\<rparr>) \<and>
    (\<forall>m. jsonb_safe (JObj m) \<longrightarrow> dumps (JObj (stored_members m)) = dumps (JObj m))"
proof -
  have t: "parse (fmt u) = Some u" if "(k, n) \<in> set (dg_nodes g)" "u \<in> node_times n" for k n u
    using assms(6) that by (auto simp: times_of_def)
  have c: "nonempty_or (Some (fmt (dg_created g))) [] = fmt (dg_created g)" "fmt (dg_created g) \<noteq> []"
    "parse (fmt (dg_created g)) = Some (dg_created g)"
    using assms(6) by (simp_all add: nonempty_or_def times_of_def)
  have reload: "tn_id (reload_node n) = tn_id n \<and> tn_deps (reload_node n) = tn_deps n \<and>
      node_times (reload_node n) = node_times n" for n by (simp add: reload_node_def node_times_def)
  note plain = snapshot_nodes [of "dg_nodes g" parse fmt "\<lambda>n. n", OF assms(1) t, simplified]
  note stored = snapshot_nodes [of "dg_nodes g" parse fmt reload_node, OF assms(1) t reload]
  have head: "from_dict parse tm hex ((to_dict fmt g)\<lparr>ds_nodes := ds\<rparr>) =
      ebind (emap (validate_node parse) ds) (\<lambda>ns.
        let g2 = g\<lparr>dg_nodes := foldl (\<lambda>ns n. AList.update (tn_id n) n ns) [] ns\<rparr> in ebind (validate_dag g2) (\<lambda>_. Inr g2))" for ds
    using assms(3-5) c by (cases g) (simp add: from_dict_def to_dict_def new_dag_def parse_time_def nonempty_or_def)
  have valid: "validate_dag (g\<lparr>dg_nodes := map (\<lambda>(k, n). (k, reload_node n)) (dg_nodes g)\<rparr>) = Inr ()"
    using validate_same_graph [of "dg_nodes g" reload_node] assms(1,2) reload by (simp add: validate_dag_def)
  have "from_dict parse tm hex (to_dict fmt g) = Inr g"
    using head [of "ds_nodes (to_dict fmt g)"] plain assms(2) by (simp add: to_dict_def)
  moreover have "from_dict parse tm hex (stored_snapshot (to_dict fmt g)) =
      Inr (g\<lparr>dg_nodes := map (\<lambda>(k, n). (k, reload_node n)) (dg_nodes g)\<rparr>)"
  proof -
    have "stored_snapshot (to_dict fmt g) =
        (to_dict fmt g)\<lparr>ds_nodes := map (\<lambda>(k, n). dump_node fmt (reload_node n)) (dg_nodes g)\<rparr>"
      by (simp add: stored_snapshot_def to_dict_def dump_node_def reload_node_def comp_def case_prod_unfold)
    then show ?thesis using stored valid by (simp only: head ebind.simps Let_def)
  qed
  moreover have "dumps (JObj (stored_members m)) = dumps (JObj m)" if "jsonb_safe (JObj m)" for m
    using dumps_jsonb [OF that] by (simp add: stored_members_def)
  ultimately show ?thesis by blast
qed

theorem snapshot_roundtrip_witness:
  "from_dict (\<lambda>x. Some (int (length x) - 1)) 9 ''ff'' (to_dict (\<lambda>t. replicate (Suc (nat t)) (CHR ''x'')) (demo_dag diamond)) =
     Inr (demo_dag diamond)"
proof -
  let ?fmt = "\<lambda>t. replicate (Suc (nat t)) (CHR ''x'')" and ?parse = "\<lambda>x. Some (int (length x) - 1)"
  have "\<forall>t \<in> times_of (demo_dag diamond). ?fmt t \<noteq> [] \<and> ?parse (?fmt t) = Some t"
    by (auto simp: times_of_def node_times_def demo_dag_def diamond_def demo_node_def)
  moreover have "dict_nodes (dg_nodes (demo_dag diamond))" "dg_id (demo_dag diamond) \<noteq> []"
    "dg_customer (demo_dag diamond) \<noteq> []" "dg_tenant (demo_dag diamond) \<noteq> Some []"
    using demo_dict(1) by (simp_all add: demo_dag_def)
  ultimately show ?thesis using snapshot_roundtrip [of "demo_dag diamond" ?fmt ?parse] demo_validate(1) by blast
qed

end
