(* ===== verification/DagStore.thy ===== *)
theory DagStore
  imports TaskDag Tables
begin

section \<open>Stored workflows and their recovery\<close>

text \<open>
  \<open>src/src/erp/orchestration/persistence.py\<close> over the table of \<open>db/models/orchestration.py\<close>:
  saving the snapshot of a graph, quarantining unfinished workflows at start-up and claiming a
  quarantined one for a retry of its safe nodes. Every function runs in a session of its own, so an
  exception leaves the table as it was. The state of a record is a \<open>JSONB\<close> column.
\<close>

subsection \<open>The table\<close>

record dag_record =
  dr_id :: string
  dr_tenant :: uuid
  dr_version :: int
  dr_status :: string
  dr_state :: dag_snapshot
  dr_reason :: "string option"
  dr_requested_by :: "uuid option"
  dr_notes :: "string option"
  dr_started :: "timestamp option"
  dr_updated :: timestamp

text \<open>The inverse of \<open>str_uuid\<close>; anything else is a badly formed identifier.\<close>

definition digit_value :: "char \<Rightarrow> int" where
  "digit_value c = of_char c - 48"

definition parse_uuid :: "string \<Rightarrow> uuid option" where
  "parse_uuid x =
     (if x \<noteq> [] \<and> list_all (\<lambda>c. 0 \<le> digit_value c \<and> digit_value c \<le> 9) x
      then Some (nat (foldl (\<lambda>a c. 10 * a + digit_value c) 0 x)) else None)"

definition SAFE_RECOVERY_NODES :: "(string \<times> string) list" where
  "SAFE_RECOVERY_NODES =
     [(''REVENUE'', ''parse rfq document''), (''REVENUE'', ''extract order & buyer entity''),
      (''REVENUE'', ''generate margin-defended quote''), (''SUPPLY_CHAIN'', ''calculate landed material costs''),
      (''SUPPLY_CHAIN'', ''check inventory & stock availability''),
      (''PRODUCTION'', ''verify production makespan capacity''),
      (''FINANCIAL_CONTROLLER'', ''fulfill delivery & post invoice to ledger'')]"

definition workflow_status :: "node_snapshot list \<Rightarrow> string" where
  "workflow_status ns =
     (if ns \<noteq> [] \<and> list_all (\<lambda>n. nd_status n = ''COMPLETED'') ns then ''COMPLETED''
      else if ns \<noteq> [] \<and> list_all (\<lambda>n. nd_status n \<in> set [''COMPLETED'', ''FAILED'', ''PREEMPTED'']) ns then ''FAILED''
      else if list_all (\<lambda>n. nd_status n = ''PENDING'') ns then ''DISPATCHED''
      else ''RUNNING'')"

subsection \<open>Saving\<close>

definition find_record :: "string \<Rightarrow> dag_record list \<Rightarrow> dag_record option" where
  "find_record i rs = first_row (filter (\<lambda>r. dr_id r = i) rs)"

definition persist_dag_snapshot :: "env \<Rightarrow> task_dag \<Rightarrow> dag_record list \<Rightarrow> dag_record list result" where
  "persist_dag_snapshot e g rs =
     (case dg_tenant g of
        None \<Rightarrow> Inl (ValueError ''Cannot persist a DAG without an authoritative tenant_id.'')
      | Some t \<Rightarrow>
          if t = [] then Inl (ValueError ''Cannot persist a DAG without an authoritative tenant_id.'')
          else case parse_uuid t of
            None \<Rightarrow> Inl (ValueError ''badly formed hexadecimal UUID string'')
          | Some tenant \<Rightarrow>
              let status = workflow_status (ds_nodes (to_dict (time_str e) g));
                  snapshot = stored_snapshot ((to_dict (time_str e) g)\<lparr>ds_status := status\<rparr>)
              in case find_record (dg_id g) rs of
                   None \<Rightarrow> Inr (rs @ [\<lparr>dr_id = dg_id g, dr_tenant = tenant, dr_version = 1, dr_status = status,
                              dr_state = snapshot, dr_reason = None, dr_requested_by = None, dr_notes = None,
                              dr_started = None, dr_updated = now e\<rparr>])
                 | Some r \<Rightarrow>
                     if dr_tenant r = tenant
                     then Inr (update_where (\<lambda>r. dr_id r = dg_id g)
                       (\<lambda>r. r\<lparr>dr_tenant := tenant, dr_status := status, dr_state := snapshot,
                              dr_reason := None, dr_updated := now e\<rparr>) rs)
                     else Inl (RuntimeError ''DAG identifier is already associated with a different tenant.''))"

definition list_tenant_dag_snapshots :: "uuid \<Rightarrow> dag_record list \<Rightarrow> dag_snapshot list" where
  "list_tenant_dag_snapshots t rs =
     map dr_state (sort_key (\<lambda>r. - dr_updated r) (filter (\<lambda>r. dr_tenant r = t) rs))"

subsection \<open>Recovery\<close>

definition is_safe :: "task_node \<Rightarrow> bool" where
  "is_safe n = ((upper (tn_agent n), lower (tn_name n)) \<in> set SAFE_RECOVERY_NODES)"

text \<open>One turn of the loop over the nodes of the stored dictionary; \<open>tm\<close> is the text of the time.\<close>

definition recover_node :: "string \<Rightarrow> node_snapshot \<Rightarrow> node_snapshot \<times> int" where
  "recover_node tm n =
     (if (upper (nd_agent n), lower (nd_name n)) \<in> set SAFE_RECOVERY_NODES \<and>
         (nd_status n = ''PENDING'' \<or> nd_status n = ''PREEMPTED'')
      then (if nd_status n = ''PREEMPTED''
            then n\<lparr>nd_status := ''PENDING'', nd_error := None, nd_started := None, nd_completed := None,
                   nd_output := None, nd_evidence := None\<rparr>
            else n, 1)
      else if nd_status n = ''PENDING''
      then (n\<lparr>nd_status := ''PREEMPTED'',
              nd_error := Some ''Held during recovery because the node may repeat a non-idempotent side effect.'',
              nd_completed := Some tm\<rparr>, 0)
      else (n, 0))"

definition recover_nodes :: "string \<Rightarrow> node_snapshot list \<Rightarrow> node_snapshot list \<times> int" where
  "recover_nodes tm ns = (map (\<lambda>n. fst (recover_node tm n)) ns, sum_list (map (\<lambda>n. snd (recover_node tm n)) ns))"

definition claim_dag_recovery ::
    "env \<Rightarrow> (string \<Rightarrow> timestamp option) \<Rightarrow> string \<Rightarrow> string \<Rightarrow> uuid \<Rightarrow> uuid \<Rightarrow> string \<Rightarrow> dag_record list \<Rightarrow> (task_dag \<times> dag_record list) result" where
  "claim_dag_recovery e parse hex i tenant reviewer notes rs =
     ebind (one_or_none (filter (\<lambda>r. dr_id r = i \<and> dr_tenant r = tenant) rs)) (\<lambda>found.
     case found of
       None \<Rightarrow> Inl (DAGRecoveryConflict ''Workflow not found.'')
     | Some r \<Rightarrow>
       if dr_status r \<noteq> ''RECOVERY_REQUIRED''
       then Inl (DAGRecoveryConflict (''Workflow cannot be recovered from status '' @ dr_status r @ ''.''))
       else case (case ds_tenant (dr_state r) of None \<Rightarrow> None | Some t \<Rightarrow> parse_uuid t) of
         None \<Rightarrow> Inl (DAGRecoveryConflict ''Persisted workflow is missing a valid tenant identifier.'')
       | Some t \<Rightarrow>
         if t \<noteq> tenant
         then Inl (DAGRecoveryConflict ''Persisted workflow tenant does not match its owner record.'')
         else let (ns, count) = recover_nodes (time_str e (now e)) (ds_nodes (dr_state r)) in
           if count = 0
           then Inl (DAGRecoveryConflict ''Workflow has no interrupted nodes eligible for safe retry.'')
           else let snapshot = (dr_state r)\<lparr>ds_nodes := ns, ds_status := ''RECOVERING'',
                      ds_reason := Some ''Authorized safe-node recovery requested.''\<rparr>
             in case from_dict parse (now e) hex snapshot of
                  Inl err \<Rightarrow> Inl (DAGRecoveryConflict ''Persisted workflow snapshot is invalid and cannot be recovered.'')
                | Inr g \<Rightarrow>
                    Inr (g, update_where (\<lambda>x. dr_id x = i \<and> dr_tenant x = tenant)
                      (\<lambda>x. x\<lparr>dr_status := ''RECOVERING'', dr_state := stored_snapshot snapshot,
                             dr_reason := Some ''Recovery was claimed; unsafe nodes remain held.'',
                             dr_requested_by := Some reviewer, dr_notes := Some notes,
                             dr_started := Some (now e), dr_updated := now e\<rparr>) rs))"

definition interrupted :: "dag_record \<Rightarrow> bool" where
  "interrupted r = (dr_status r \<in> set [''DISPATCHED'', ''RUNNING'', ''RECOVERING''])"

definition quarantine_node :: "string \<Rightarrow> node_snapshot \<Rightarrow> node_snapshot" where
  "quarantine_node tm n =
     (if nd_status n = ''RUNNING''
      then n\<lparr>nd_status := ''PREEMPTED'',
             nd_error := Some ''Interrupted by process shutdown; reconcile side effects before retry.'',
             nd_completed := Some tm\<rparr>
      else n)"

definition quarantine_reason :: string where
  "quarantine_reason =
     ''Execution was interrupted. Reconcile database and external side effects before replay.''"

definition mark_interrupted_dags_for_recovery :: "env \<Rightarrow> dag_record list \<Rightarrow> int \<times> dag_record list" where
  "mark_interrupted_dags_for_recovery e rs =
     (int (length (filter interrupted rs)),
      update_where interrupted
        (\<lambda>r. r\<lparr>dr_state := stored_snapshot ((dr_state r)\<lparr>ds_nodes := map (quarantine_node (time_str e (now e)))
                 (ds_nodes (dr_state r)), ds_status := ''RECOVERY_REQUIRED'', ds_reason := Some quarantine_reason\<rparr>),
               dr_status := ''RECOVERY_REQUIRED'', dr_reason := Some quarantine_reason, dr_updated := now e\<rparr>) rs)"

subsection \<open>Identifiers as text\<close>

lemma parse_digits:
  "0 \<le> k \<Longrightarrow> show_digits k \<noteq> [] \<and> list_all (\<lambda>c. 0 \<le> digit_value c \<and> digit_value c \<le> 9) (show_digits k) \<and>
     foldl (\<lambda>a c. 10 * a + digit_value c) 0 (show_digits k) = k"
proof (induction k rule: show_digits.induct)
  case (1 k)
  have d: "digit_value (char_of (48 + k mod 10)) = k mod 10"
    by (simp add: digit_value_def)
  show ?case
  proof (cases "k < 10")
    case True
    then show ?thesis using 1 d by (subst (1 2 3) show_digits.simps) simp
  next
    case False
    then show ?thesis using 1 d by (subst (1 2 3) show_digits.simps) simp
  qed
qed

lemma parse_str_uuid [simp]: "parse_uuid (str_uuid u) = Some u"
  using parse_digits [of "int u"] by (simp add: parse_uuid_def str_uuid_def show_int_def)

subsection \<open>What recovery may retry\<close>

lemma rebuilt_range:
  "(k, n) \<in> set (foldl (\<lambda>ms n. AList.update (tn_id n) n ms) ms ns) \<Longrightarrow> (k, n) \<in> set ms \<or> n \<in> set ns"
proof (induction ns arbitrary: ms)
  case (Cons m ns)
  have "(k, n) \<in> set (AList.update (tn_id m) m ms) \<Longrightarrow> (k, n) \<in> set ms \<or> n = m"
    by (induction ms) (auto split: if_splits)
  with Cons show ?case by fastforce
qed simp

lemma from_dict_nodes:
  assumes "from_dict parse tm hex d = Inr g" "(k, n) \<in> set (dg_nodes g)"
  shows "\<exists>m \<in> set (ds_nodes d). validate_node parse m = Inr n"
proof -
  obtain ns where ns: "emap (validate_node parse) (ds_nodes d) = Inr ns" and
    g: "dg_nodes g = foldl (\<lambda>a n. AList.update (tn_id n) n a) [] ns"
    using assms(1) by (auto simp: from_dict_def Let_def ebind_eq_Inr)
  have "n \<in> set ns" using rebuilt_range [of k n "[]" ns] assms(2) g by simp
  then obtain i where i: "i < length ns" "n = ns ! i" by (auto simp: in_set_conv_nth)
  moreover have len: "length ns = length (ds_nodes d)" using ns by (rule emap_length)
  ultimately have "validate_node parse (ds_nodes d ! i) = Inr n" using emap_nth [OF ns, of i] by simp
  then show ?thesis using i(1) len by (metis nth_mem)
qed

lemma parse_pending: "parse_status x = Some PENDING \<Longrightarrow> x = ''PENDING''"
  by (auto simp: parse_status_def split: if_splits)

lemma recovered_pending_safe:
  assumes "validate_node parse (fst (recover_node tm m)) = Inr n" "tn_status n = PENDING"
  shows "is_safe n"
proof -
  let ?m = "fst (recover_node tm m)"
  have n: "parse_status (nd_status ?m) = Some (tn_status n)" "tn_agent n = nd_agent ?m" "tn_name n = nd_name ?m"
    using assms(1) by (auto simp: validate_node_def ebind_eq_Inr split: option.splits)
  then have "nd_status ?m = ''PENDING''" using assms(2) parse_pending by simp
  then have "(upper (nd_agent ?m), lower (nd_name ?m)) \<in> set SAFE_RECOVERY_NODES"
    by (auto simp: recover_node_def split: if_splits)
  then show ?thesis using n(2,3) by (simp add: is_safe_def)
qed

lemma filter_updated_rows:
  "(\<And>x. P (f x) = P x) \<Longrightarrow> filter P (update_where P f rs) = map f (filter P rs)"
  by (induction rs) auto

lemma update_where_others:
  "(\<And>x. P (f x) = P x) \<Longrightarrow> filter (\<lambda>x. \<not> P x) (update_where P f rs) = filter (\<lambda>x. \<not> P x) rs"
  by (induction rs) auto

lemma claim_cases:
  assumes "claim_dag_recovery e parse hex i tenant reviewer notes rs = Inr (g, rs')"
  obtains r where "filter (\<lambda>r. dr_id r = i \<and> dr_tenant r = tenant) rs = [r]" "dr_status r = ''RECOVERY_REQUIRED''"
    "\<forall>(k, n) \<in> set (dg_nodes g). \<exists>m. validate_node parse (fst (recover_node (time_str e (now e)) m)) = Inr n"
    "\<exists>f. rs' = update_where (\<lambda>x. dr_id x = i \<and> dr_tenant x = tenant) f rs \<and>
      (\<forall>x. dr_id (f x) = dr_id x \<and> dr_tenant (f x) = dr_tenant x \<and> dr_status (f x) = ''RECOVERING'')"
proof -
  obtain r where r: "one_or_none (filter (\<lambda>r. dr_id r = i \<and> dr_tenant r = tenant) rs) = Inr (Some r)"
    using assms by (auto simp: claim_dag_recovery_def ebind_eq_Inr split: option.splits)
  have st: "dr_status r = ''RECOVERY_REQUIRED''"
    using assms r by (simp add: claim_dag_recovery_def split: if_splits)
  obtain d where d: "from_dict parse (now e) hex d = Inr g"
    "ds_nodes d = fst (recover_nodes (time_str e (now e)) (ds_nodes (dr_state r)))"
    using assms r by (auto simp: claim_dag_recovery_def Let_def split_def split: if_splits option.splits sum.splits)
  have "\<exists>m. validate_node parse (fst (recover_node (time_str e (now e)) m)) = Inr n" if "(k, n) \<in> set (dg_nodes g)" for k n
    using from_dict_nodes [OF d(1) that] d(2) by (auto simp: recover_nodes_def)
  moreover have "\<exists>f. rs' = update_where (\<lambda>x. dr_id x = i \<and> dr_tenant x = tenant) f rs \<and>
      (\<forall>x. dr_id (f x) = dr_id x \<and> dr_tenant (f x) = dr_tenant x \<and> dr_status (f x) = ''RECOVERING'')"
    using assms r by (auto simp: claim_dag_recovery_def Let_def split_def split: if_splits option.splits sum.splits)
  moreover have "filter (\<lambda>r. dr_id r = i \<and> dr_tenant r = tenant) rs = [r]"
    using r by (cases "filter (\<lambda>r. dr_id r = i \<and> dr_tenant r = tenant) rs" rule: one_or_none.cases) simp_all
  ultimately show thesis using that [of r] st by blast
qed

subsection \<open>Properties\<close>

text \<open>C39: a successful recovery claim finds a workflow that requires recovery, leaves pending only nodes
  that are listed as safe to retry and the other records as they were, and cannot be repeated.\<close>

theorem recovery_retries_only_safe_nodes:
  assumes "claim_dag_recovery e parse hex i tenant reviewer notes rs = Inr (g, rs')"
  shows "(\<exists>r \<in> set rs. dr_id r = i \<and> dr_tenant r = tenant \<and> dr_status r = ''RECOVERY_REQUIRED'') \<and>
    list_all (\<lambda>(k, n). tn_status n \<noteq> PENDING \<or> is_safe n) (dg_nodes g) \<and>
    filter (\<lambda>x. dr_id x \<noteq> i \<or> dr_tenant x \<noteq> tenant) rs' = filter (\<lambda>x. dr_id x \<noteq> i \<or> dr_tenant x \<noteq> tenant) rs \<and>
    claim_dag_recovery e' parse' hex' i tenant reviewer' notes' rs' =
      Inl (DAGRecoveryConflict ''Workflow cannot be recovered from status RECOVERING.'')"
proof -
  let ?P = "\<lambda>r. dr_id r = i \<and> dr_tenant r = tenant"
  from claim_cases [OF assms] obtain r f where
    r: "filter ?P rs = [r]" "dr_status r = ''RECOVERY_REQUIRED''"
    and n: "\<forall>(k, n) \<in> set (dg_nodes g). \<exists>m. validate_node parse (fst (recover_node (time_str e (now e)) m)) = Inr n"
    and f: "rs' = update_where ?P f rs"
      "\<forall>x. dr_id (f x) = dr_id x \<and> dr_tenant (f x) = dr_tenant x \<and> dr_status (f x) = ''RECOVERING''" by blast
  have pf: "?P (f x) = ?P x" for x using f(2) by simp
  have "r \<in> set (filter ?P rs)" unfolding r(1) by simp
  then have "r \<in> set rs" "dr_id r = i" "dr_tenant r = tenant" by simp_all
  moreover have "list_all (\<lambda>(k, n). tn_status n \<noteq> PENDING \<or> is_safe n) (dg_nodes g)"
    using n recovered_pending_safe by (fastforce simp: list_all_iff)
  moreover have "filter (\<lambda>x. \<not> ?P x) rs' = filter (\<lambda>x. \<not> ?P x) rs" unfolding f(1) by (rule update_where_others) (rule pf)
  moreover have "filter ?P rs' = [f r]" using filter_updated_rows [of ?P f rs, OF pf] r(1) f(1) by simp
  ultimately show ?thesis using r(2) f(2) by (auto simp: claim_dag_recovery_def)
qed

definition flow_env :: env where
  "flow_env = \<lparr>today = 739800, now = 1000, sha256 = (\<lambda>x. replicate 64 (CHR ''a'')), dec_str = (\<lambda>d. ''1''),
     time_str = (\<lambda>x. ''t''), cfg_tier1 = 0, cfg_tier2 = 0\<rparr>"

definition stopped_record :: dag_record where
  "stopped_record =
     \<lparr>dr_id = ''dag_1'', dr_tenant = 4, dr_version = 1, dr_status = ''RECOVERY_REQUIRED'',
      dr_state = \<lparr>ds_id = Some ''dag_1'', ds_tenant = Some (str_uuid 4), ds_customer = Some ''Acme'', ds_inquiry = None,
        ds_created = Some ''5'', ds_status = ''RECOVERY_REQUIRED'', ds_reason = None,
        ds_nodes =
          map (dump_node (\<lambda>t. show_int t))
            [(snd (demo_node ''a'' []))\<lparr>tn_name := ''Parse RFQ Document'', tn_status := PREEMPTED\<rparr>,
             snd (demo_node ''b'' [''a''])]\<rparr>,
      dr_reason = None, dr_requested_by = None, dr_notes = None, dr_started = None, dr_updated = 7\<rparr>"

lemma claim_stopped:
  "case claim_dag_recovery flow_env (\<lambda>x. Some 0) ''ff'' ''dag_1'' 4 9 ''ok'' [stopped_record] of
     Inr (g, rs) \<Rightarrow> map (\<lambda>(k, n). tn_status n) (dg_nodes g) = [PENDING, PREEMPTED] | Inl _ \<Rightarrow> False"
  by code_simp

theorem recovery_retries_only_safe_nodes_witness:
  "\<exists>g rs. claim_dag_recovery flow_env (\<lambda>x. Some 0) ''ff'' ''dag_1'' 4 9 ''ok'' [stopped_record] = Inr (g, rs) \<and>
    map (\<lambda>(k, n). tn_status n) (dg_nodes g) = [PENDING, PREEMPTED] \<and>
    list_all (\<lambda>(k, n). tn_status n \<noteq> PENDING \<or> is_safe n) (dg_nodes g)"
proof -
  obtain g rs where g: "claim_dag_recovery flow_env (\<lambda>x. Some 0) ''ff'' ''dag_1'' 4 9 ''ok'' [stopped_record] = Inr (g, rs)"
    "map (\<lambda>(k, n). tn_status n) (dg_nodes g) = [PENDING, PREEMPTED]"
    using claim_stopped by (auto split: sum.splits)
  from recovery_retries_only_safe_nodes [OF g(1), of flow_env "\<lambda>x. Some 0" "''ff''" 9 "''ok''"]
  have "list_all (\<lambda>(k, n). tn_status n \<noteq> PENDING \<or> is_safe n) (dg_nodes g)" by (elim conjE)
  with g show ?thesis by (intro exI [of _ g] exI [of _ rs] conjI)
qed

text \<open>The start-up sweep leaves no workflow that counts as dispatched, running or recovering, does not
  touch the others, and a second sweep finds nothing and changes nothing.\<close>

theorem quarantine_is_complete:
  "list_all (\<lambda>r. \<not> interrupted r) (snd (mark_interrupted_dags_for_recovery e rs)) \<and>
   filter (\<lambda>r. dr_status r \<noteq> ''RECOVERY_REQUIRED'') (snd (mark_interrupted_dags_for_recovery e rs)) =
     filter (\<lambda>r. dr_status r \<noteq> ''RECOVERY_REQUIRED'' \<and> \<not> interrupted r) rs \<and>
   mark_interrupted_dags_for_recovery e' (snd (mark_interrupted_dags_for_recovery e rs)) =
     (0, snd (mark_interrupted_dags_for_recovery e rs))"
proof -
  let ?rs = "snd (mark_interrupted_dags_for_recovery e rs)"
  obtain f where f: "?rs = update_where interrupted f rs" "\<And>x. dr_status (f x) = ''RECOVERY_REQUIRED''"
    by (auto simp: mark_interrupted_dags_for_recovery_def)
  have held: "\<not> interrupted x" if "dr_status x = ''RECOVERY_REQUIRED''" for x using that by (simp add: interrupted_def)
  have none: "list_all (\<lambda>r. \<not> interrupted r) ?rs"
    unfolding f(1) by (induction rs) (simp_all add: held f(2))
  then have "update_where interrupted h ?rs = ?rs" for h
    unfolding update_where_def by (intro map_idI) (simp add: list_all_iff)
  moreover have "filter interrupted ?rs = []" using none by (simp add: filter_empty_conv list_all_iff)
  ultimately have "mark_interrupted_dags_for_recovery e' ?rs = (0, ?rs)"
    by (simp add: mark_interrupted_dags_for_recovery_def [of e' ?rs])
  moreover have "filter (\<lambda>r. dr_status r \<noteq> ''RECOVERY_REQUIRED'') ?rs =
      filter (\<lambda>r. dr_status r \<noteq> ''RECOVERY_REQUIRED'' \<and> \<not> interrupted r) rs"
    unfolding f(1) by (induction rs) (simp_all add: f(2))
  ultimately show ?thesis using none by simp
qed

text \<open>Saving a workflow of one tenant never changes what another tenant can list.\<close>

theorem snapshots_are_tenant_isolated:
  assumes "distinct (map dr_id rs)" and "persist_dag_snapshot e g rs = Inr rs'" and "dg_tenant g = Some (str_uuid u)"
    and "t \<noteq> u"
  shows "list_tenant_dag_snapshots t rs' = list_tenant_dag_snapshots t rs"
proof -
  let ?P = "\<lambda>r. dr_id r = dg_id g" and ?T = "\<lambda>r. dr_tenant r = t"
  have "filter ?T rs' = filter ?T rs"
  proof (cases "find_record (dg_id g) rs")
    case None
    then show ?thesis using assms(2-4) by (auto simp: persist_dag_snapshot_def Let_def split: if_splits)
  next
    case (Some r)
    then have r: "r \<in> set rs" "?P r" by (auto simp: find_record_def dest!: first_row_Some_in)
    have tr: "dr_tenant r = u" using Some assms(2,3) by (simp add: persist_dag_snapshot_def Let_def split: if_splits)
    have "dr_tenant x = u" if "x \<in> set rs" "?P x" for x
      using assms(1) r that tr by (metis distinct_map inj_onD)
    then have own: "\<not> ?T x" if "x \<in> set rs" "?P x" for x using that assms(4) by auto
    obtain f where f: "rs' = update_where ?P f rs" "\<And>x. dr_tenant (f x) = u"
      using Some tr assms(2,3) by (auto simp: persist_dag_snapshot_def Let_def split: if_splits)
    show ?thesis using own assms(4) unfolding f(1) by (induction rs) (auto simp: f(2))
  qed
  then show ?thesis by (simp add: list_tenant_dag_snapshots_def)
qed

theorem snapshots_are_tenant_isolated_witness:
  "\<exists>rs. persist_dag_snapshot flow_env ((demo_dag diamond)\<lparr>dg_id := ''dag_2'', dg_tenant := Some (str_uuid 5)\<rparr>)
      [stopped_record] = Inr rs \<and> list_tenant_dag_snapshots 4 rs = list_tenant_dag_snapshots 4 [stopped_record]"
proof -
  let ?g = "(demo_dag diamond)\<lparr>dg_id := ''dag_2'', dg_tenant := Some (str_uuid 5)\<rparr>"
  have "is_ok (persist_dag_snapshot flow_env ?g [stopped_record])" by code_simp
  then obtain rs where rs: "persist_dag_snapshot flow_env ?g [stopped_record] = Inr rs"
    by (cases "persist_dag_snapshot flow_env ?g [stopped_record]") (simp_all add: is_ok_def)
  have "list_tenant_dag_snapshots 4 rs = list_tenant_dag_snapshots 4 [stopped_record]"
    by (rule snapshots_are_tenant_isolated [OF _ rs, where u = 5]) simp_all
  with rs show ?thesis by blast
qed

end
