(* ===== verification/Governance.thy ===== *)
theory Governance
  imports PyLib Tables
begin

section \<open>Guardrails and arbitration\<close>

text \<open>
  \<open>src/src/erp/orchestration\<close>: the proposals of the agents (\<open>state.py\<close>), the compliance guardrail
  that an action passes before it runs (\<open>guardrails.py\<close>) and the arbitration of proposals that claim
  the same resources (\<open>conflict_resolution.py\<close>).
\<close>

subsection \<open>Proposals\<close>

record action_proposal =
  ap_id :: string
  ap_task :: string
  ap_agent :: string
  ap_tenant :: uuid
  ap_policy :: string
  ap_resources :: "string list"
  ap_mutation :: "(string \<times> json) list"
  ap_value :: pyfloat
  ap_risk :: pyfloat
  ap_rationale :: string

subsection \<open>The guardrail\<close>

definition PERMITTED_AGENT_ACTIONS :: "(string \<times> string list) list" where
  "PERMITTED_AGENT_ACTIONS =
     [(''FINANCIAL_CONTROLLER'', [''stage_ledger_transaction'', ''reconcile_bank_feed'', ''query_receivables'',
         ''query_payables'']),
      (''SUPPLY_CHAIN'', [''extract_invoice'', ''execute_three_way_match'', ''submit_purchase_order'',
         ''quarantine_material'', ''calculate_landed_costs'', ''query_stock_atp'']),
      (''PRODUCTION'', [''dispatch_work_order'', ''route_machine_operation'', ''create_maintenance_ticket'',
         ''verify_production_capacity'']),
      (''REVENUE'', [''parse_rfq'', ''generate_quotation'', ''query_stock_atp'', ''create_sales_order'',
         ''send_order_confirmation'']),
      (''WORKFORCE'', [''process_shift_swap'', ''approve_expense_claim'', ''audit_receipt'']),
      (''CHIEF_ORCHESTRATOR'', [''spawn_subagent'', ''terminate_subagent'', ''arbitrate_collision'']),
      (''COMPLIANCE'', [''evaluate_statutory_rules'', ''verify_rbac'', ''sign_audit_token''])]"

definition STATUTES :: "string list" where
  "STATUTES = [''SOX_404'', ''GAAP_DOUBLE_ENTRY'', ''IFRS_15'', ''EU_LABOR_LAW_48H'']"

record guardrail_result =
  ge_compliant :: bool
  ge_agent :: string
  ge_action :: string
  ge_violations :: "string list"
  ge_token :: "string option"
  ge_statutes :: "string list"

definition verify_agent_rbac :: "string \<Rightarrow> string \<Rightarrow> bool" where
  "verify_agent_rbac agent action =
     (action \<in> set (case map_of PERMITTED_AGENT_ACTIONS (upper agent) of None \<Rightarrow> [] | Some xs \<Rightarrow> xs))"

text \<open>The hours of a mutation as a number; comparing anything else with 48 raises.\<close>

fun json_number :: "json \<Rightarrow> pyfloat option" where
  "json_number (JInt k) = Some (of_int k)"
| "json_number (JFloat x) = Some x"
| "json_number (JBool b) = Some (if b then 1 else 0)"
| "json_number j = None"

fun json_text :: "json \<Rightarrow> string" where
  "json_text (JInt k) = show_int k"
| "json_text (JFloat x) = show_float x"
| "json_text (JBool b) = (if b then ''True'' else ''False'')"
| "json_text j = []"

definition rbac_violation :: "action_proposal \<Rightarrow> string \<Rightarrow> string list" where
  "rbac_violation p action =
     (if \<not> verify_agent_rbac (ap_agent p) action
      then [''RBAC_VIOLATION: Agent '' @ quoted (ap_agent p) @ '' is not authorized to execute action '' @ quoted action]
      else [])"

definition duty_violation :: "action_proposal \<Rightarrow> string \<Rightarrow> string list" where
  "duty_violation p action =
     (if ap_agent p = ''REVENUE'' \<and> contains (lower action) ''ledger''
      then [''SOX_404_VIOLATION: Segregation of duties breached. Commercial sales cannot stage financial journal entries.'']
      else [])"

definition labor_violation :: "action_proposal \<Rightarrow> string list result" where
  "labor_violation p =
     (if ap_agent p \<noteq> ''WORKFORCE'' then Inr []
      else let hours = (case map_of (ap_mutation p) ''weekly_hours'' of None \<Rightarrow> JInt 0 | Some h \<Rightarrow> h)
        in case json_number hours of
             None \<Rightarrow> Inl TypeError
           | Some h \<Rightarrow> Inr (if h > 48 then [''STATUTORY_LABOR_VIOLATION: Weekly work hours '' @ json_text hours
                  @ '' exceeds statutory 48-hour limit.''] else []))"

definition evaluate_action_proposal :: "env \<Rightarrow> action_proposal \<Rightarrow> string \<Rightarrow> guardrail_result result" where
  "evaluate_action_proposal e p action =
     ebind (labor_violation p) (\<lambda>labor.
       let violations = rbac_violation p action @ duty_violation p action @ labor in
       if violations \<noteq> []
       then Inr \<lparr>ge_compliant = False, ge_agent = ap_agent p, ge_action = action, ge_violations = violations,
                 ge_token = None, ge_statutes = STATUTES\<rparr>
       else Inr \<lparr>ge_compliant = True, ge_agent = ap_agent p, ge_action = action, ge_violations = [],
                 ge_token = Some (sha256 e (ap_id p @ '':'' @ ap_agent p @ '':'' @ action @ '':''
                   @ dumps (JObj (ap_mutation p)))),
                 ge_statutes = STATUTES\<rparr>)"

subsection \<open>Arbitration\<close>

record preemption =
  pr_loser :: string
  pr_loser_agent :: string
  pr_winner :: string
  pr_winner_agent :: string
  pr_policy :: string
  pr_violation :: string
  pr_resource :: string
  pr_mutation :: "(string \<times> json) list"
  pr_escalate :: bool

record arbitration =
  ar_collision :: bool
  ar_staged :: "action_proposal list"
  ar_preemptions :: "preemption list"
  ar_escalations :: "action_proposal list"

definition evaluate_priority :: "string \<Rightarrow> int" where
  "evaluate_priority policy =
     (case map_of [(''STATUTORY_LEGAL'', 5), (''FINANCIAL_SOLVENCY'', 4), (''CONTRACTUAL_SLA'', 3),
        (''CAPACITY_THROUGHPUT'', 2), (''DISCRETIONARY_COST'', 1)] (upper policy) of
        None \<Rightarrow> 1 | Some r \<Rightarrow> r)"

definition needs_human :: "action_proposal \<Rightarrow> bool" where
  "needs_human p = (ap_risk p \<ge> float_of (85 / 100) \<or> ap_value p \<ge> 50000)"

text \<open>\<open>setdefault(rk, []).append(prop)\<close> for every key of every proposal.\<close>

definition claim_key :: "action_proposal \<Rightarrow> (string \<times> action_proposal list) list \<Rightarrow> string
    \<Rightarrow> (string \<times> action_proposal list) list" where
  "claim_key p m k = AList.update k ((case map_of m k of None \<Rightarrow> [] | Some ps \<Rightarrow> ps) @ [p]) m"

definition resource_claims :: "action_proposal list \<Rightarrow> (string \<times> action_proposal list) list" where
  "resource_claims ps = foldl (\<lambda>m p. foldl (claim_key p) m (ap_resources p)) [] ps"

text \<open>A stable descending sort: by rank, then by lower risk.\<close>

definition outranks :: "action_proposal \<Rightarrow> action_proposal \<Rightarrow> bool" where
  "outranks p q \<longleftrightarrow>
     evaluate_priority (ap_policy p) > evaluate_priority (ap_policy q) \<or>
     evaluate_priority (ap_policy p) = evaluate_priority (ap_policy q) \<and> ap_risk p < ap_risk q"

fun insert_claim :: "action_proposal \<Rightarrow> action_proposal list \<Rightarrow> action_proposal list" where
  "insert_claim p [] = [p]"
| "insert_claim p (q # qs) = (if outranks q p then q # insert_claim p qs else p # q # qs)"

definition sort_claims :: "action_proposal list \<Rightarrow> action_proposal list" where
  "sort_claims ps = foldr insert_claim ps []"

record arbiter =
  ab_staged :: "string list"
  ab_rejected :: "string list"
  ab_preemptions :: "preemption list"
  ab_escalations :: "action_proposal list"

definition preemption_signal :: "string \<Rightarrow> action_proposal \<Rightarrow> action_proposal \<Rightarrow> preemption" where
  "preemption_signal rk winner loser =
     \<lparr>pr_loser = ap_id loser, pr_loser_agent = ap_agent loser, pr_winner = ap_id winner,
      pr_winner_agent = ap_agent winner, pr_policy = ap_policy winner,
      pr_violation = ''CONSTRAINT_PREEMPTION: Action from '' @ ap_agent loser @ '' on resource '' @ quoted rk
        @ '' preempted by higher-priority action from '' @ ap_agent winner @ '' (Policy ''
        @ ap_policy winner @ '' > '' @ ap_policy loser @ '')'',
      pr_resource = rk, pr_mutation = ap_mutation winner, pr_escalate = needs_human loser\<rparr>"

definition reject_loser :: "string \<Rightarrow> action_proposal \<Rightarrow> arbiter \<Rightarrow> action_proposal \<Rightarrow> arbiter" where
  "reject_loser rk winner a loser =
     (if ap_id loser \<in> set (ab_staged a) then a
      else a\<lparr>ab_rejected := ap_id loser # ab_rejected a,
             ab_escalations := ab_escalations a @ (if needs_human loser then [loser] else []),
             ab_preemptions := ab_preemptions a @ [preemption_signal rk winner loser]\<rparr>)"

definition resolve_key :: "arbiter \<Rightarrow> string \<times> action_proposal list \<Rightarrow> arbiter" where
  "resolve_key a c =
     (case sort_claims (snd c) of
        [] \<Rightarrow> a
      | winner # losers \<Rightarrow>
          foldl (reject_loser (fst c) winner) (a\<lparr>ab_staged := ap_id winner # ab_staged a\<rparr>) losers)"

definition arbitrate :: "action_proposal list \<Rightarrow> arbitration" where
  "arbitrate ps =
     (let conflicted = filter (\<lambda>c. length (snd c) > 1) (resource_claims ps) in
      if conflicted = []
      then \<lparr>ar_collision = False, ar_staged = ps, ar_preemptions = [], ar_escalations = filter needs_human ps\<rparr>
      else let a = foldl resolve_key \<lparr>ab_staged = [], ab_rejected = [], ab_preemptions = [], ab_escalations = []\<rparr> conflicted
        in \<lparr>ar_collision = True, ar_staged = filter (\<lambda>p. ap_id p \<notin> set (ab_rejected a)) ps,
            ar_preemptions = ab_preemptions a, ar_escalations = ab_escalations a\<rparr>)"

subsection \<open>Claims and winners\<close>

lemma not_outranks_trans: "\<not> outranks p q \<Longrightarrow> \<not> outranks q x \<Longrightarrow> \<not> outranks p x"
  by (auto simp: outranks_def)

lemma set_insert_claim [simp]: "set (insert_claim p ps) = insert p (set ps)"
  by (induction ps) auto

lemma length_insert_claim [simp]: "length (insert_claim p ps) = Suc (length ps)"
  by (induction ps) auto

lemma distinct_insert_claim: "distinct (map f (insert_claim p ps)) = distinct (map f (p # ps))"
  by (induction ps) auto

lemma set_sort_claims [simp]: "set (sort_claims ps) = set ps"
  by (induction ps) (simp_all add: sort_claims_def)

lemma distinct_sort_claims: "distinct (map f (sort_claims ps)) = distinct (map f ps)"
proof (induction ps)
  case (Cons p ps)
  have "f p \<in> f ` set (sort_claims ps) \<longleftrightarrow> f p \<in> f ` set ps" by simp
  with Cons show ?case by (simp add: sort_claims_def distinct_insert_claim)
qed (simp add: sort_claims_def)

lemma sort_claims_Nil [simp]: "sort_claims ps = [] \<longleftrightarrow> ps = []"
  using set_sort_claims [of ps] by (metis set_empty)

lemma winner_is_maximal: "p \<in> set ps \<Longrightarrow> \<not> outranks p (hd (sort_claims ps))"
proof (induction ps arbitrary: p)
  case (Cons x ps)
  have *: "sort_claims (x # ps) = insert_claim x (sort_claims ps)" by (simp add: sort_claims_def)
  show ?case
  proof (cases "sort_claims ps")
    case Nil
    then have "ps = []" by simp
    with Cons.prems show ?thesis by (simp add: sort_claims_def outranks_def)
  next
    case (Cons q qs)
    then have q: "\<not> outranks r q" if "r \<in> set ps" for r using Cons.IH [OF that] by simp
    show ?thesis
    proof (cases "outranks q x")
      case True
      then have "\<not> outranks x q" by (auto simp: outranks_def)
      with True q Cons.prems show ?thesis by (auto simp: * local.Cons)
    next
      case False
      have "\<not> outranks x x" by (simp add: outranks_def)
      with False q not_outranks_trans Cons.prems show ?thesis by (auto simp: * local.Cons)
    qed
  qed
qed simp

lemma claim_keys_lookup:
  "distinct ks \<Longrightarrow> map_of (foldl (claim_key p) m ks) k =
     (if k \<in> set ks then Some ((case map_of m k of None \<Rightarrow> [] | Some ps \<Rightarrow> ps) @ [p]) else map_of m k)"
  by (induction ks arbitrary: m) (auto simp: claim_key_def update_conv')

lemma claims_lookup:
  "(\<And>p. p \<in> set ps \<Longrightarrow> distinct (ap_resources p)) \<Longrightarrow>
     (case map_of (foldl (\<lambda>m p. foldl (claim_key p) m (ap_resources p)) m ps) k of None \<Rightarrow> [] | Some cs \<Rightarrow> cs) =
     (case map_of m k of None \<Rightarrow> [] | Some cs \<Rightarrow> cs) @ filter (\<lambda>p. k \<in> set (ap_resources p)) ps"
  by (induction ps arbitrary: m) (auto simp: claim_keys_lookup)

lemma claims_distinct: "distinct (map fst (resource_claims ps))"
proof -
  have 1: "distinct (map fst m) \<Longrightarrow> distinct (map fst (foldl (claim_key p) m ks))" for p m ks
    by (induction ks arbitrary: m) (auto simp: claim_key_def distinct_update)
  have "distinct (map fst m) \<Longrightarrow> distinct (map fst (foldl (\<lambda>m p. foldl (claim_key p) m (ap_resources p)) m ps))" for m
    by (induction ps arbitrary: m) (auto intro: 1)
  then show ?thesis by (simp add: resource_claims_def)
qed

lemma claims_of:
  assumes "\<And>p. p \<in> set ps \<Longrightarrow> distinct (ap_resources p)" "(k, cs) \<in> set (resource_claims ps)"
  shows "cs = filter (\<lambda>p. k \<in> set (ap_resources p)) ps"
proof -
  have "map_of (resource_claims ps) k = Some cs" using assms(2) claims_distinct by simp
  with claims_lookup [OF assms(1), of ps "[]" k] show ?thesis by (simp add: resource_claims_def)
qed

lemma reject_all:
  assumes "set (map ap_id ls) \<inter> set (ab_staged a) = {}"
  shows "ab_staged (foldl (reject_loser k w) a ls) = ab_staged a \<and>
    set (ab_rejected (foldl (reject_loser k w) a ls)) = set (ab_rejected a) \<union> ap_id ` set ls"
  using assms by (induction ls arbitrary: a) (auto simp: reject_loser_def)

text \<open>Keys whose claimants are disjoint: each key rejects all its claimants but the winner.\<close>

definition losers_of :: "string \<times> action_proposal list \<Rightarrow> string set" where
  "losers_of c = ap_id ` set (tl (sort_claims (snd c)))"

definition winner_of :: "string \<times> action_proposal list \<Rightarrow> string" where
  "winner_of c = ap_id (hd (sort_claims (snd c)))"

lemma resolve_all:
  assumes "\<And>c. c \<in> set cs \<Longrightarrow> snd c \<noteq> [] \<and> distinct (map ap_id (snd c))"
    and "\<And>c. c \<in> set cs \<Longrightarrow> ap_id ` set (snd c) \<inter> set (ab_staged a) = {}"
    and "\<And>i j. i < length cs \<Longrightarrow> j < length cs \<Longrightarrow> i \<noteq> j \<Longrightarrow> ap_id ` set (snd (cs ! i)) \<inter> ap_id ` set (snd (cs ! j)) = {}"
  shows "set (ab_rejected (foldl resolve_key a cs)) = set (ab_rejected a) \<union> (\<Union>c \<in> set cs. losers_of c)"
  using assms
proof (induction cs arbitrary: a)
  case (Cons c cs)
  have c: "snd c \<noteq> []" "distinct (map ap_id (snd c))" using Cons.prems(1) by auto
  obtain w ls where wl: "sort_claims (snd c) = w # ls" using c(1) by (cases "sort_claims (snd c)") auto
  have ids: "ap_id ` set (snd c) = insert (ap_id w) (ap_id ` set ls)"
    using set_sort_claims [of "snd c"] unfolding wl by (metis image_insert list.simps(15))
  have "ap_id w \<notin> ap_id ` set ls" using distinct_sort_claims [of ap_id "snd c"] c(2) wl by simp
  then have "set (map ap_id ls) \<inter> set (ab_staged (a\<lparr>ab_staged := ap_id w # ab_staged a\<rparr>)) = {}"
    using Cons.prems(2) [of c] ids by auto
  from reject_all [OF this, of "fst c" w]
  have r: "ab_staged (resolve_key a c) = ap_id w # ab_staged a"
    "set (ab_rejected (resolve_key a c)) = set (ab_rejected a) \<union> losers_of c"
    by (simp_all add: resolve_key_def wl losers_of_def)
  have apart: "ap_id ` set (snd x) \<inter> ap_id ` set (snd c) = {}" if x: "x \<in> set cs" for x
  proof -
    obtain i where "i < length cs" "x = cs ! i" using x by (auto simp: in_set_conv_nth)
    with Cons.prems(3) [of "Suc i" 0] show ?thesis by simp
  qed
  have "set (ab_rejected (foldl resolve_key (resolve_key a c) cs)) =
      set (ab_rejected (resolve_key a c)) \<union> (\<Union>c \<in> set cs. losers_of c)"
  proof (rule Cons.IH)
    show "snd x \<noteq> [] \<and> distinct (map ap_id (snd x))" if "x \<in> set cs" for x using Cons.prems(1) that by simp
    show "ap_id ` set (snd x) \<inter> set (ab_staged (resolve_key a c)) = {}" if "x \<in> set cs" for x
      using Cons.prems(2) [of x] apart [OF that] ids that unfolding r by auto
    show "ap_id ` set (snd (cs ! i)) \<inter> ap_id ` set (snd (cs ! j)) = {}"
      if "i < length cs" "j < length cs" "i \<noteq> j" for i j using Cons.prems(3) [of "Suc i" "Suc j"] that by simp
  qed
  then show ?case using r(2) by auto
qed simp

subsection \<open>Properties\<close>

definition conflicted :: "action_proposal list \<Rightarrow> (string \<times> action_proposal list) list" where
  "conflicted ps = filter (\<lambda>c. length (snd c) > 1) (resource_claims ps)"

text \<open>Proposals with at most one resource each, under distinct identifiers.\<close>

definition single_claims :: "action_proposal list \<Rightarrow> bool" where
  "single_claims ps \<longleftrightarrow> distinct (map ap_id ps) \<and> list_all (\<lambda>p. length (ap_resources p) \<le> 1) ps"

lemma single_claimsD:
  assumes "single_claims ps" "p \<in> set ps"
  shows "distinct (ap_resources p)"
    "k \<in> set (ap_resources p) \<Longrightarrow> j \<in> set (ap_resources p) \<Longrightarrow> k = j"
    "q \<in> set ps \<Longrightarrow> ap_id p = ap_id q \<Longrightarrow> p = q"
proof -
  have one: "length (ap_resources p) \<le> 1" using assms by (simp add: single_claims_def list_all_iff)
  then show "distinct (ap_resources p)" by (cases "ap_resources p") auto
  show "k \<in> set (ap_resources p) \<Longrightarrow> j \<in> set (ap_resources p) \<Longrightarrow> k = j"
    using one by (cases "ap_resources p") auto
  show "q \<in> set ps \<Longrightarrow> ap_id p = ap_id q \<Longrightarrow> p = q"
    using assms by (auto simp: single_claims_def distinct_map inj_on_def)
qed

lemma claims_single:
  "single_claims ps \<Longrightarrow> (k, cs) \<in> set (resource_claims ps) \<Longrightarrow> cs = filter (\<lambda>p. k \<in> set (ap_resources p)) ps"
  using claims_of single_claimsD(1) by blast

lemma claim_exists:
  assumes "single_claims ps" "p \<in> set ps" "k \<in> set (ap_resources p)"
  shows "(k, filter (\<lambda>p. k \<in> set (ap_resources p)) ps) \<in> set (resource_claims ps)"
proof -
  have "p \<in> set (filter (\<lambda>p. k \<in> set (ap_resources p)) ps)" using assms(2,3) by simp
  then have "filter (\<lambda>p. k \<in> set (ap_resources p)) ps \<noteq> []" by (metis empty_iff list.set(1))
  with claims_lookup [of ps "[]" k] single_claimsD(1) [OF assms(1)] show ?thesis
    by (auto simp: resource_claims_def split: option.splits dest: map_of_SomeD)
qed

lemma conflicted_cases:
  assumes ps: "single_claims ps" and c: "(k, cs) \<in> set (conflicted ps)"
  obtains w ls where "sort_claims cs = w # ls" "ap_id w \<notin> ap_id ` set ls" "losers_of (k, cs) = ap_id ` set ls"
    "insert w (set ls) = {p \<in> set ps. k \<in> set (ap_resources p)}"
proof -
  have cs: "cs = filter (\<lambda>p. k \<in> set (ap_resources p)) ps" "cs \<noteq> []"
    using claims_single [OF ps, of k cs] c by (auto simp: conflicted_def)
  obtain w ls where wl: "sort_claims cs = w # ls" using cs(2) by (cases "sort_claims cs") auto
  have "distinct (map ap_id cs)" using ps unfolding cs(1) by (simp add: single_claims_def distinct_map_filter)
  then have "ap_id w \<notin> ap_id ` set ls" using distinct_sort_claims [of ap_id cs] wl by simp
  moreover have "insert w (set ls) = set cs" using set_sort_claims [of cs] wl by simp
  ultimately show thesis using that wl cs(1) by (auto simp: losers_of_def)
qed

lemma arbitrate_staged:
  assumes ps: "single_claims ps"
  shows "set (ar_staged (arbitrate ps)) = {p \<in> set ps. \<forall>c \<in> set (conflicted ps). ap_id p \<notin> losers_of c}"
proof (cases "conflicted ps = []")
  case True
  then show ?thesis unfolding arbitrate_def conflicted_def Let_def by simp
next
  case False
  have cs: "snd c = filter (\<lambda>p. fst c \<in> set (ap_resources p)) ps \<and> length (snd c) > 1" if "c \<in> set (conflicted ps)" for c
    using claims_single [OF ps, of "fst c" "snd c"] that by (auto simp: conflicted_def)
  have dk: "distinct (map fst (conflicted ps))"
    using claims_distinct [of ps] by (simp add: conflicted_def distinct_map_filter)
  have "set (ab_rejected (foldl resolve_key \<lparr>ab_staged = [], ab_rejected = [], ab_preemptions = [], ab_escalations = []\<rparr>
      (conflicted ps))) = {} \<union> (\<Union>c \<in> set (conflicted ps). losers_of c)"
  proof (subst resolve_all)
    show "snd c \<noteq> [] \<and> distinct (map ap_id (snd c))" if "c \<in> set (conflicted ps)" for c
    proof -
      have "distinct (map ap_id (snd c))" using cs [OF that] ps by (simp add: single_claims_def distinct_map_filter)
      moreover have "snd c \<noteq> []" using cs [OF that] by (cases "snd c") auto
      ultimately show ?thesis by blast
    qed
    show "ap_id ` set (snd (conflicted ps ! i)) \<inter> ap_id ` set (snd (conflicted ps ! j)) = {}"
      if ij: "i < length (conflicted ps)" "j < length (conflicted ps)" "i \<noteq> j" for i j
    proof -
      have "fst (conflicted ps ! i) \<noteq> fst (conflicted ps ! j)" using dk ij by (metis length_map nth_eq_iff_index_eq nth_map)
      moreover have "set (snd (conflicted ps ! i)) = {p \<in> set ps. fst (conflicted ps ! i) \<in> set (ap_resources p)}"
        "set (snd (conflicted ps ! j)) = {p \<in> set ps. fst (conflicted ps ! j) \<in> set (ap_resources p)}"
        using cs [OF nth_mem [OF ij(1)]] cs [OF nth_mem [OF ij(2)]] by (simp_all add: set_eq_iff)
      ultimately show ?thesis using single_claimsD(2,3) [OF ps] by blast
    qed
  qed simp_all
  then show ?thesis using False unfolding arbitrate_def conflicted_def Let_def by auto
qed

lemma staged_alone:
  assumes ps: "single_claims ps" and p: "p \<in> set (ar_staged (arbitrate ps))" "k \<in> set (ap_resources p)"
    and q: "q \<in> set (ar_staged (arbitrate ps))" "k \<in> set (ap_resources q)"
  shows "p = q"
proof (rule ccontr)
  assume ne: "p \<noteq> q"
  note staged = arbitrate_staged [OF ps]
  have mem: "p \<in> set ps" "q \<in> set ps" using p q staged by auto
  let ?cs = "filter (\<lambda>p. k \<in> set (ap_resources p)) ps"
  have "{p, q} \<subseteq> set ?cs" using mem p(2) q(2) by auto
  then have "card {p, q} \<le> length ?cs" using card_mono [of "set ?cs" "{p, q}"] card_length [of ?cs] by simp
  then have c: "(k, ?cs) \<in> set (conflicted ps)"
    using claim_exists [OF ps mem(1) p(2)] ne by (simp add: conflicted_def)
  obtain w ls where "sort_claims ?cs = w # ls" "ap_id w \<notin> ap_id ` set ls"
    and wl: "losers_of (k, ?cs) = ap_id ` set ls" "insert w (set ls) = {p \<in> set ps. k \<in> set (ap_resources p)}"
    by (rule conflicted_cases [OF ps c])
  have "p \<in> insert w (set ls)" "q \<in> insert w (set ls)" using wl(2) mem p(2) q(2) by auto
  then have "p \<in> set ls \<or> q \<in> set ls" using ne by auto
  moreover have "ap_id p \<notin> losers_of (k, ?cs)" "ap_id q \<notin> losers_of (k, ?cs)" using p q c staged by auto
  ultimately show False using wl(1) by auto
qed

lemma claim_granted:
  assumes ps: "single_claims ps" and p: "p \<in> set ps" "k \<in> set (ap_resources p)"
  shows "\<exists>q \<in> set (ar_staged (arbitrate ps)). k \<in> set (ap_resources q) \<and> \<not> outranks p q"
proof -
  let ?cs = "filter (\<lambda>p. k \<in> set (ap_resources p)) ps"
  define w where "w = hd (sort_claims ?cs)"
  have pc: "p \<in> set ?cs" using p by simp
  then have "sort_claims ?cs \<noteq> []" by (metis sort_claims_Nil empty_iff list.set(1))
  then have "w \<in> set ?cs" unfolding w_def using set_sort_claims [of ?cs] hd_in_set by blast
  then have w: "w \<in> set ps" "k \<in> set (ap_resources w)" by auto
  have "ap_id w \<notin> losers_of c" if c: "c \<in> set (conflicted ps)" for c
  proof
    assume l: "ap_id w \<in> losers_of c"
    obtain j ds where jd: "c = (j, ds)" by (cases c)
    obtain v ls where v: "sort_claims ds = v # ls" "ap_id v \<notin> ap_id ` set ls" "losers_of c = ap_id ` set ls"
      "insert v (set ls) = {p \<in> set ps. j \<in> set (ap_resources p)}"
      unfolding jd by (rule conflicted_cases [OF ps c [unfolded jd]])
    obtain x where x: "x \<in> set ls" "ap_id x = ap_id w" using l v(3) by auto
    then have "x = w" "j \<in> set (ap_resources x)" using v(4) single_claimsD(3) [OF ps _ w(1)] by auto
    then have "j = k" using single_claimsD(2) [OF ps w(1)] w(2) by blast
    then have "ds = ?cs" using c jd claims_single [OF ps] by (auto simp: conflicted_def)
    then have "v = w" using v(1) by (simp add: w_def)
    with x v(2) show False by (metis imageI)
  qed
  then have "w \<in> set (ar_staged (arbitrate ps))" using w(1) arbitrate_staged [OF ps] by auto
  then show ?thesis using w(2) winner_is_maximal [OF pc] unfolding w_def by blast
qed

text \<open>When every proposal claims at most one resource, arbitration leaves no two staged proposals
  on the same resource, and every claimed resource is held by a staged proposal that no claimant of it
  outranks.\<close>

theorem single_claims_are_resolved:
  assumes "single_claims ps"
  shows "(\<forall>p \<in> set (ar_staged (arbitrate ps)). \<forall>q \<in> set (ar_staged (arbitrate ps)).
      p \<noteq> q \<longrightarrow> set (ap_resources p) \<inter> set (ap_resources q) = {}) \<and>
    (\<forall>p \<in> set ps. \<forall>k \<in> set (ap_resources p). \<exists>q \<in> set (ar_staged (arbitrate ps)).
      k \<in> set (ap_resources q) \<and> \<not> outranks p q)"
  using staged_alone [OF assms] claim_granted [OF assms] by blast

text \<open>Three agents: \<open>demo_proposal i policy ks\<close> claims \<open>ks\<close>.\<close>

definition agent_proposal :: "string \<Rightarrow> string \<Rightarrow> string list \<Rightarrow> pyfloat \<Rightarrow> action_proposal" where
  "agent_proposal i policy ks v =
     \<lparr>ap_id = i, ap_task = i, ap_agent = i, ap_tenant = 0, ap_policy = policy, ap_resources = ks,
      ap_mutation = [], ap_value = v, ap_risk = 1 / 10, ap_rationale = []\<rparr>"

theorem single_claims_are_resolved_witness:
  "map ap_id (ar_staged (arbitrate [agent_proposal ''p'' ''CAPACITY_THROUGHPUT'' [''ws''] 0,
      agent_proposal ''q'' ''STATUTORY_LEGAL'' [''ws''] 0])) = [''q''] \<and>
   (\<exists>r \<in> set (ar_staged (arbitrate [agent_proposal ''p'' ''CAPACITY_THROUGHPUT'' [''ws''] 0,
      agent_proposal ''q'' ''STATUTORY_LEGAL'' [''ws''] 0])). ''ws'' \<in> set (ap_resources r))"
proof
  let ?ps = "[agent_proposal ''p'' ''CAPACITY_THROUGHPUT'' [''ws''] 0, agent_proposal ''q'' ''STATUTORY_LEGAL'' [''ws''] 0]"
  show "map ap_id (ar_staged (arbitrate ?ps)) = [''q'']" by code_simp
  have "single_claims ?ps" by (simp add: single_claims_def agent_proposal_def)
  from single_claims_are_resolved [OF this]
  show "\<exists>r \<in> set (ar_staged (arbitrate ?ps)). ''ws'' \<in> set (ap_resources r)"
    by (auto simp: agent_proposal_def)
qed

text \<open>With several resources per proposal the arbitration can leave a collision, and it can leave a
  resource to nobody: a proposal that won one resource is kept although it lost another, and a proposal
  that lost one still rejects the claimants of what it won. A winner is not escalated, whatever its
  value.\<close>

theorem several_claims_collide:
  "map ap_id (ar_staged (arbitrate [agent_proposal ''a'' ''CONTRACTUAL_SLA'' [''k1'', ''k2''] 900000,
      agent_proposal ''b'' ''DISCRETIONARY_COST'' [''k1''] 0,
      agent_proposal ''c'' ''STATUTORY_LEGAL'' [''k2''] 0])) = [''a'', ''c''] \<and>
   ar_escalations (arbitrate [agent_proposal ''a'' ''CONTRACTUAL_SLA'' [''k1'', ''k2''] 900000,
      agent_proposal ''b'' ''DISCRETIONARY_COST'' [''k1''] 0,
      agent_proposal ''c'' ''STATUTORY_LEGAL'' [''k2''] 0]) = [] \<and>
   map ap_id (ar_staged (arbitrate [agent_proposal ''a'' ''STATUTORY_LEGAL'' [''k1''] 0,
      agent_proposal ''b'' ''CONTRACTUAL_SLA'' [''k1'', ''k2''] 0,
      agent_proposal ''c'' ''DISCRETIONARY_COST'' [''k2''] 0])) = [''a'']"
  by (intro conjI; code_simp)

end
