(* ===== verification/Worker.thy ===== *)
theory Worker
  imports DagStore Governance
begin

section \<open>Execution of workflows\<close>

text \<open>
  \<open>src/src/erp/orchestration/worker.py\<close> (the executor) and \<open>orchestrator.py\<close> (the workflows it runs).
  A node passes the compliance guardrail before its agent acts; what an agent then does (models,
  documents, database work) is the parameter \<open>ag_work\<close>, and a raised exception is its text. The
  nodes of a batch run concurrently on copies of one context, so their outcomes do not depend on the
  order. The loop has fuel; the lemmas show how much is enough.
\<close>

subsection \<open>Agents and contexts\<close>

type_synonym context_map = "(string \<times> json) list"

record agents =
  ag_env :: env
  ag_proposal_id :: "string \<Rightarrow> string"
  ag_work :: "task_node \<Rightarrow> context_map \<Rightarrow> string + context_map"

text \<open>\<open>{**a, **b}\<close> and \<open>a.update(b)\<close>.\<close>

definition merge_context :: "context_map \<Rightarrow> context_map \<Rightarrow> context_map" where
  "merge_context a b = foldl (\<lambda>d p. AList.update (fst p) (snd p) d) a b"

definition NODE_GUARDRAIL_ACTIONS :: "((string \<times> string) \<times> string) list" where
  "NODE_GUARDRAIL_ACTIONS =
     [((''REVENUE'', ''parse rfq document''), ''parse_rfq''),
      ((''SUPPLY_CHAIN'', ''calculate landed material costs''), ''calculate_landed_costs''),
      ((''REVENUE'', ''generate margin-defended quote''), ''generate_quotation''),
      ((''REVENUE'', ''extract order & buyer entity''), ''parse_rfq''),
      ((''SUPPLY_CHAIN'', ''check inventory & stock availability''), ''query_stock_atp''),
      ((''FINANCIAL_CONTROLLER'', ''fulfill delivery & post invoice to ledger''), ''stage_ledger_transaction'')]"

definition node_action :: "task_node \<Rightarrow> string option" where
  "node_action n = map_of NODE_GUARDRAIL_ACTIONS (tn_agent n, lower (tn_name n))"

subsection \<open>One node\<close>

definition node_payload :: "context_map \<Rightarrow> string option \<Rightarrow> task_node \<Rightarrow> context_map" where
  "node_payload cx tenant n =
     (let p = merge_context cx (tn_input n)
      in case tenant of None \<Rightarrow> p | Some t \<Rightarrow> if t = [] then p else AList.update ''tenant_id'' (JStr t) p)"

fun payload_tenant :: "json option \<Rightarrow> string + uuid" where
  "payload_tenant None = Inl (quoted ''tenant_id'')"
| "payload_tenant (Some (JStr t)) =
     (case parse_uuid t of None \<Rightarrow> Inl ''badly formed hexadecimal UUID string'' | Some u \<Rightarrow> Inr u)"
| "payload_tenant (Some JNull) =
     Inl ''one of the hex, bytes, bytes_le, fields, or int arguments must be given''"
| "payload_tenant (Some j) = Inl ''object has no attribute replace''"

definition node_proposal :: "agents \<Rightarrow> uuid \<Rightarrow> string \<Rightarrow> task_node \<Rightarrow> action_proposal" where
  "node_proposal A tenant action n =
     \<lparr>ap_id = ag_proposal_id A (tn_id n), ap_task = tn_id n, ap_agent = tn_agent n, ap_tenant = tenant,
      ap_policy = (if action = ''stage_ledger_transaction'' then ''FINANCIAL_SOLVENCY'' else ''CAPACITY_THROUGHPUT''),
      ap_resources = [''tenant:'' @ str_uuid tenant, ''task:'' @ tn_id n],
      ap_mutation = [(''node_name'', JStr (tn_name n)), (''task_id'', JStr (tn_id n))],
      ap_value = 0, ap_risk = float_of (1 / 10),
      ap_rationale = ''Guardrail check before executing DAG node '' @ quoted (tn_name n) @ ''.''\<rparr>"

definition evidence_of :: "guardrail_result \<Rightarrow> context_map" where
  "evidence_of r =
     [(''action_name'', JStr (ge_action r)),
      (''verification_token'', case ge_token r of None \<Rightarrow> JNull | Some t \<Rightarrow> JStr t),
      (''evaluated_statutes'', JArr (map JStr (ge_statutes r)))]"

definition guardrail_check :: "agents \<Rightarrow> context_map \<Rightarrow> task_node \<Rightarrow> string + context_map" where
  "guardrail_check A payload n =
     (case node_action n of
        None \<Rightarrow> Inl (''No compliance action policy is registered for '' @ tn_agent n @ '':'' @ tn_name n @ ''.'')
      | Some action \<Rightarrow>
          ebind (payload_tenant (map_of payload ''tenant_id'')) (\<lambda>tenant.
            case evaluate_action_proposal (ag_env A) (node_proposal A tenant action n) action of
              Inl err \<Rightarrow> Inl ''unorderable types''
            | Inr r \<Rightarrow>
                if \<not> ge_compliant r
                then Inl (''Compliance guardrail rejected action: '' @ join ''; '' (ge_violations r))
                else Inr (evidence_of r)))"

definition perform :: "agents \<Rightarrow> task_node \<Rightarrow> context_map \<Rightarrow> string + context_map" where
  "perform A n payload =
     (if tn_agent n = ''PRODUCTION''
      then Inl ''Production capacity cannot be verified without tenant BOM operations and workstation data.''
      else if tn_agent n \<in> set [''REVENUE'', ''SUPPLY_CHAIN'', ''FINANCIAL_CONTROLLER'']
      then ag_work A n payload
      else Inr [(''status'', JStr ''SUCCESS''), (''node'', JStr (tn_name n))])"

text \<open>The node as the call leaves it, and what the call returned or raised.\<close>

definition execute_node ::
    "agents \<Rightarrow> context_map \<Rightarrow> string option \<Rightarrow> task_node \<Rightarrow> task_node \<times> (string + context_map)" where
  "execute_node A cx tenant n =
     (let n1 = n\<lparr>tn_status := RUNNING, tn_started := Some (now (ag_env A))\<rparr>;
          payload = node_payload cx tenant n1
      in case guardrail_check A payload n1 of
           Inl err \<Rightarrow> (n1, Inl err)
         | Inr evidence \<Rightarrow>
             let n2 = n1\<lparr>tn_evidence := Some evidence\<rparr>
             in case perform A n2 payload of
                  Inl err \<Rightarrow> (n2, Inl err)
                | Inr res \<Rightarrow> (n2\<lparr>tn_output := Some res\<rparr>, Inr res))"

subsection \<open>One batch\<close>

definition start_node :: "timestamp \<Rightarrow> task_nodes \<Rightarrow> string \<Rightarrow> task_nodes" where
  "start_node tm ns k =
     (case map_of ns k of None \<Rightarrow> ns
      | Some n \<Rightarrow> AList.update k (n\<lparr>tn_status := RUNNING, tn_started := Some tm\<rparr>) ns)"

definition run_node ::
    "agents \<Rightarrow> context_map \<Rightarrow> string option \<Rightarrow> task_nodes \<times> (string + context_map) list \<Rightarrow> string
     \<Rightarrow> task_nodes \<times> (string + context_map) list" where
  "run_node A cx tenant st k =
     (case map_of (fst st) k of
        None \<Rightarrow> st
      | Some n \<Rightarrow> let (n', out) = execute_node A cx tenant n in (AList.update k n' (fst st), snd st @ [out]))"

definition finish_node ::
    "timestamp \<Rightarrow> task_nodes \<times> context_map \<Rightarrow> string \<times> (string + context_map)
     \<Rightarrow> (task_nodes \<times> context_map) result" where
  "finish_node tm st r =
     (case snd r of
        Inl err \<Rightarrow> ebind (mark_failed tm (fst r) err (fst st)) (\<lambda>ns. Inr (ns, snd st))
      | Inr res \<Rightarrow>
          let evidence = (case map_of (fst st) (fst r) of None \<Rightarrow> None | Some n \<Rightarrow> tn_evidence n);
              result = (case evidence of
                          Some ev \<Rightarrow> if ev = [] then res else AList.update ''compliance_verification'' (JObj ev) res
                        | None \<Rightarrow> res)
          in ebind (mark_completed tm (fst r) result (fst st)) (\<lambda>ns.
               Inr (ns, merge_context (AList.update (fst r) (JObj result) (snd st)) result)))"

subsection \<open>The loop\<close>

record dag_run =
  rn_dag :: task_dag
  rn_ctx :: context_map
  rn_rows :: "dag_record list"

definition save_run :: "agents \<Rightarrow> dag_run \<Rightarrow> dag_run result" where
  "save_run A r = ebind (persist_dag_snapshot (ag_env A) (rn_dag r) (rn_rows r)) (\<lambda>rows. Inr (r\<lparr>rn_rows := rows\<rparr>))"

definition with_nodes :: "task_nodes \<Rightarrow> dag_run \<Rightarrow> dag_run" where
  "with_nodes ns r = r\<lparr>rn_dag := (rn_dag r)\<lparr>dg_nodes := ns\<rparr>\<rparr>"

text \<open>The nodes that were ready: claimed and saved, executed, and marked with their outcomes.\<close>

definition run_batch :: "agents \<Rightarrow> dag_run \<Rightarrow> string list \<Rightarrow> dag_run result" where
  "run_batch A r ready =
     (let tm = now (ag_env A);
          claimed = with_nodes (foldl (start_node tm) (dg_nodes (rn_dag r)) ready) r
      in ebind (save_run A claimed) (\<lambda>r1.
         let (ns, outs) = foldl (run_node A (rn_ctx r1) (dg_tenant (rn_dag r1))) (dg_nodes (rn_dag r1), []) ready
         in ebind (efold (finish_node tm) (ns, rn_ctx r1) (zip ready outs)) (\<lambda>(ns', cx').
            save_run A ((with_nodes ns' r1)\<lparr>rn_ctx := cx'\<rparr>))))"

definition waiting_nodes :: "task_nodes \<Rightarrow> bool" where
  "waiting_nodes ns = list_ex (\<lambda>(k, n). tn_status n = PENDING \<or> tn_status n = RUNNING) ns"

text \<open>\<open>None\<close>: the fuel was not enough.\<close>

fun run_loop :: "nat \<Rightarrow> agents \<Rightarrow> dag_run \<Rightarrow> dag_run result option" where
  "run_loop fuel A r =
     (if is_finished (dg_nodes (rn_dag r)) then Some (Inr r)
      else case fuel of
        0 \<Rightarrow> None
      | Suc f \<Rightarrow>
          (case get_ready_tasks (now (ag_env A)) (dg_nodes (rn_dag r)) of
             Inl err \<Rightarrow> Some (Inl err)
           | Inr (ns, ready) \<Rightarrow>
               if ready = []
               then (if waiting_nodes ns then run_loop f A (with_nodes ns r)
                     else Some (save_run A (with_nodes ns r)))
               else (case run_batch A (with_nodes ns r) ready of
                       Inl err \<Rightarrow> Some (Inl err)
                     | Inr r' \<Rightarrow> run_loop f A r')))"

declare run_loop.simps [simp del]

definition seed_context :: "context_map \<Rightarrow> string \<times> task_node \<Rightarrow> context_map" where
  "seed_context cx p =
     (case (tn_status (snd p), tn_output (snd p)) of
        (COMPLETED, Some out) \<Rightarrow> merge_context (AList.update (tn_id (snd p)) (JObj out) cx) out
      | _ \<Rightarrow> cx)"

definition execute_dag :: "nat \<Rightarrow> agents \<Rightarrow> task_dag \<Rightarrow> dag_record list \<Rightarrow> dag_run result option" where
  "execute_dag fuel A g rows =
     (case save_run A \<lparr>rn_dag = g, rn_ctx = foldl seed_context [] (dg_nodes g), rn_rows = rows\<rparr> of
        Inl err \<Rightarrow> Some (Inl err)
      | Inr r \<Rightarrow>
          (case run_loop fuel A r of
             None \<Rightarrow> None
           | Some (Inl err) \<Rightarrow> Some (Inl err)
           | Some (Inr r') \<Rightarrow> Some (save_run A r')))"

subsection \<open>The graph stays the same\<close>

definition alike :: "task_node \<Rightarrow> task_node \<Rightarrow> bool" where
  "alike n m \<longleftrightarrow> tn_id m = tn_id n \<and> tn_deps m = tn_deps n \<and> tn_name m = tn_name n \<and> tn_agent m = tn_agent n"

definition same_graph :: "task_nodes \<Rightarrow> task_nodes \<Rightarrow> bool" where
  "same_graph ns ms \<longleftrightarrow> map fst ms = map fst ns \<and>
     (\<forall>k n. map_of ns k = Some n \<longrightarrow> (\<exists>m. map_of ms k = Some m \<and> alike n m))"

lemma alike_refl [simp]: "alike n n"
  by (simp add: alike_def)

lemma alike_trans: "alike n m \<Longrightarrow> alike m l \<Longrightarrow> alike n l"
  by (simp add: alike_def)

lemma same_graph_refl [simp]: "same_graph ns ns"
  by (simp add: same_graph_def)

lemma same_graph_trans: "same_graph ns ms \<Longrightarrow> same_graph ms ls \<Longrightarrow> same_graph ns ls"
  unfolding same_graph_def by (metis alike_trans)

lemma same_graph_update: "map_of ns k = Some n \<Longrightarrow> alike n m \<Longrightarrow> same_graph ns (AList.update k m ns)"
  using update_same_keys [of ns k m] by (auto simp: same_graph_def update_conv')

lemma passed_same_graph: "passed tm ns ms \<Longrightarrow> same_graph ns ms"
  unfolding passed_def same_graph_def alike_def by (metis readied_simps(1-4))

lemma same_graph_dict:
  assumes "same_graph ns ms" "dict_nodes ns"
  shows "dict_nodes ms" "edges ms = edges ns" "node_keys ms = node_keys ns"
proof -
  have keys: "map fst ms = map fst ns" using assms(1) by (simp add: same_graph_def)
  have dm: "distinct (map fst ms)" using assms(2) unfolding keys by (simp add: dict_nodes_def)
  have dn: "distinct (map fst ns)" using assms(2) by (simp add: dict_nodes_def)
  have fwd: "\<exists>m. (k, m) \<in> set ms \<and> alike n m" if "(k, n) \<in> set ns" for k n
    using that assms(1) dn by (auto simp: same_graph_def dest: map_of_SomeD)
  have bwd: "\<exists>n. (k, n) \<in> set ns \<and> alike n m" if "(k, m) \<in> set ms" for k m
  proof -
    have "k \<in> set (map fst ns)" using that keys by (metis fst_conv image_eqI image_set)
    then obtain n where n: "map_of ns k = Some n" using map_of_key [of ns k] by auto
    then obtain m' where "map_of ms k = Some m'" "alike n m'" using assms(1) by (auto simp: same_graph_def)
    then show ?thesis using n that dm by (auto dest: map_of_SomeD)
  qed
  show "dict_nodes ms"
    using bwd dm assms(2) by (fastforce simp: dict_nodes_def list_all_iff alike_def)
  show "edges ms = edges ns" using fwd bwd by (fastforce simp: edges_def alike_def)
  show "node_keys ms = node_keys ns" unfolding node_keys_def using keys by (metis image_set)
qed

lemma same_graph_sound: "same_graph ns ms \<Longrightarrow> sound_nodes ns \<Longrightarrow> sound_nodes ms"
  using same_graph_dict [of ns ms] by (simp add: sound_nodes_def closed_nodes_def)

lemma same_graph_lookup: "same_graph ns ms \<Longrightarrow> map_of ns k = Some n \<Longrightarrow> \<exists>m. map_of ms k = Some m \<and> alike n m"
  by (simp add: same_graph_def)

subsection \<open>Effects of a batch\<close>

text \<open>An agent can complete a node only when an action is registered for it and it is not production.\<close>

definition runnable :: "task_node \<Rightarrow> bool" where
  "runnable n \<longleftrightarrow> tn_agent n \<noteq> ''PRODUCTION'' \<and>
     (\<exists>action. node_action n = Some action \<and> verify_agent_rbac (tn_agent n) action)"

lemma runnable_alike: "alike n m \<Longrightarrow> runnable m = runnable n"
  by (simp add: runnable_def node_action_def alike_def)

lemma compliant_permitted:
  assumes "evaluate_action_proposal e p action = Inr r" "ge_compliant r"
  shows "verify_agent_rbac (ap_agent p) action"
  using assms by (auto simp: evaluate_action_proposal_def ebind_eq_Inr rbac_violation_def Let_def split: if_splits)

lemma guardrail_registered:
  assumes "guardrail_check A payload n = Inr ev"
  shows "\<exists>action. node_action n = Some action \<and> verify_agent_rbac (tn_agent n) action"
proof -
  obtain action where a: "node_action n = Some action"
    using assms by (cases "node_action n") (simp_all add: guardrail_check_def)
  then obtain tenant where t: "payload_tenant (map_of payload ''tenant_id'') = Inr tenant"
    using assms by (auto simp: guardrail_check_def ebind_eq_Inr)
  let ?p = "node_proposal A tenant action n"
  obtain r where "evaluate_action_proposal (ag_env A) ?p action = Inr r" "ge_compliant r"
    using assms a t by (cases "evaluate_action_proposal (ag_env A) ?p action") (simp_all add: guardrail_check_def split: if_splits)
  then have "verify_agent_rbac (ap_agent ?p) action" by (rule compliant_permitted)
  with a show ?thesis by (simp add: node_proposal_def)
qed

lemma execute_node_effect:
  assumes "execute_node A cx tenant n = (m, res)"
  shows "alike n m" "tn_status m = RUNNING" "res = Inr x \<Longrightarrow> runnable n"
proof -
  let ?n = "n\<lparr>tn_status := RUNNING, tn_started := Some (now (ag_env A))\<rparr>"
  show "alike n m" "tn_status m = RUNNING"
    using assms by (auto simp: execute_node_def Let_def alike_def split: sum.splits)
  assume "res = Inr x"
  then obtain ev n2 y where g: "guardrail_check A (node_payload cx tenant ?n) ?n = Inr ev"
    and p: "perform A n2 y = Inr x" "tn_agent n2 = tn_agent n"
    using assms by (auto simp: execute_node_def Let_def split: sum.splits)
  have "tn_agent n \<noteq> ''PRODUCTION''" using p by (auto simp: perform_def)
  with guardrail_registered [OF g] show "runnable n" by (simp add: runnable_def node_action_def)
qed

lemma start_nodes:
  assumes "set ks \<subseteq> set (map fst ns)"
  shows "same_graph ns (foldl (start_node tm) ns ks)"
    "k \<notin> set ks \<Longrightarrow> map_of (foldl (start_node tm) ns ks) k = map_of ns k"
proof -
  have "same_graph ns (foldl (start_node tm) ns ks) \<and>
      (k \<notin> set ks \<longrightarrow> map_of (foldl (start_node tm) ns ks) k = map_of ns k)"
    using assms
  proof (induction ks arbitrary: ns)
    case (Cons j ks)
    then obtain n where n: "map_of ns j = Some n" using map_of_key [of ns j] by auto
    let ?ns = "start_node tm ns j"
    have u: "?ns = AList.update j (n\<lparr>tn_status := RUNNING, tn_started := Some tm\<rparr>) ns"
      using n by (simp add: start_node_def)
    have g: "same_graph ns ?ns" unfolding u by (rule same_graph_update [OF n]) (simp add: alike_def)
    then have "set ks \<subseteq> set (map fst ?ns)" using Cons.prems by (simp add: same_graph_def)
    from Cons.IH [OF this] show ?case using same_graph_trans [OF g] by (auto simp: u update_conv')
  qed simp
  then show "same_graph ns (foldl (start_node tm) ns ks)"
    "k \<notin> set ks \<Longrightarrow> map_of (foldl (start_node tm) ns ks) k = map_of ns k" by blast+
qed

text \<open>The outcomes, in the order of the batch.\<close>

definition outcome_ok :: "task_nodes \<Rightarrow> string \<times> (string + context_map) \<Rightarrow> bool" where
  "outcome_ok ns p \<longleftrightarrow>
     (\<forall>n x. map_of ns (fst p) = Some n \<longrightarrow> snd p = Inr x \<longrightarrow> runnable n)"

lemma outcome_update:
  "j \<notin> set ks \<Longrightarrow>
     list_all (outcome_ok (AList.update j m ns)) (zip ks os) = list_all (outcome_ok ns) (zip ks os)"
  by (intro list.pred_cong refl) (auto simp: outcome_ok_def update_conv' dest: set_zip_leftD)

lemma run_nodes:
  assumes "set ks \<subseteq> set (map fst ns)" "distinct ks"
  shows "\<exists>ms outs'. foldl (run_node A cx tenant) (ns, outs) ks = (ms, outs @ outs') \<and> length outs' = length ks \<and>
    same_graph ns ms \<and> (\<forall>k. k \<notin> set ks \<longrightarrow> map_of ms k = map_of ns k) \<and> list_all (outcome_ok ns) (zip ks outs')"
  using assms
proof (induction ks arbitrary: ns outs)
  case (Cons j ks)
  then obtain n where n: "map_of ns j = Some n" using map_of_key [of ns j] by auto
  obtain m res where e: "execute_node A cx tenant n = (m, res)" by (cases "execute_node A cx tenant n")
  note eff = execute_node_effect [OF e]
  let ?ns = "AList.update j m ns"
  have step: "run_node A cx tenant (ns, outs) j = (?ns, outs @ [res])" using n e by (simp add: run_node_def)
  have g: "same_graph ns ?ns" by (rule same_graph_update [OF n eff(1)])
  then have "set ks \<subseteq> set (map fst ?ns)" using Cons.prems(1) by (simp add: same_graph_def)
  from Cons.IH [OF this, of "outs @ [res]"] Cons.prems(2) obtain ms outs' where
    ih: "foldl (run_node A cx tenant) (?ns, outs @ [res]) ks = (ms, (outs @ [res]) @ outs')" "length outs' = length ks"
      "same_graph ?ns ms" "\<forall>k. k \<notin> set ks \<longrightarrow> map_of ms k = map_of ?ns k" "list_all (outcome_ok ?ns) (zip ks outs')"
    by auto
  have "outcome_ok ns (j, res)" using n eff(3) by (auto simp: outcome_ok_def)
  moreover have "list_all (outcome_ok ns) (zip ks outs')"
    using ih(5) Cons.prems(2) by (simp add: outcome_update)
  ultimately have "list_all (outcome_ok ns) (zip (j # ks) (res # outs'))" by simp
  moreover have "\<forall>k. k \<notin> set (j # ks) \<longrightarrow> map_of ms k = map_of ns k" using ih(4) by (simp add: update_conv')
  ultimately show ?case
    using step ih(1,2) same_graph_trans [OF g ih(3)] by (intro exI [of _ ms] exI [of _ "res # outs'"]) simp
qed simp

lemma finish_nodes:
  assumes "distinct ks" "set ks \<subseteq> set (map fst ns)" "length outs = length ks" "list_all (outcome_ok ns) (zip ks outs)"
  shows "\<exists>ms cx'. efold (finish_node tm) (ns, cx) (zip ks outs) = Inr (ms, cx') \<and> same_graph ns ms \<and>
    (\<forall>k. k \<notin> set ks \<longrightarrow> map_of ms k = map_of ns k) \<and>
    (\<forall>k \<in> set ks. \<exists>n. map_of ns k = Some n \<and> (status_of ms k = Some FAILED \<or> status_of ms k = Some COMPLETED \<and> runnable n))"
  using assms
proof (induction ks arbitrary: ns cx outs)
  case (Cons j ks)
  then obtain n where n: "map_of ns j = Some n" using map_of_key [of ns j] by auto
  obtain out os where o: "outs = out # os" using Cons.prems(3) by (cases outs) auto
  have "\<exists>m cx'. finish_node tm (ns, cx) (j, out) = Inr (AList.update j m ns, cx') \<and> alike n m \<and>
      (tn_status m = FAILED \<or> tn_status m = COMPLETED \<and> runnable n)"
  proof (cases out)
    case (Inl err)
    then show ?thesis using n by (simp add: finish_node_def mark_failed_def alike_def) fastforce
  next
    case (Inr res)
    then have "runnable n" using Cons.prems(4) n o by (auto simp: outcome_ok_def)
    with Inr show ?thesis using n by (simp add: finish_node_def mark_completed_def alike_def Let_def) fastforce
  qed
  then obtain m cx' where m: "finish_node tm (ns, cx) (j, out) = Inr (AList.update j m ns, cx')" "alike n m"
    "tn_status m = FAILED \<or> tn_status m = COMPLETED \<and> runnable n" by blast
  let ?ns = "AList.update j m ns"
  have g: "same_graph ns ?ns" by (rule same_graph_update [OF n m(2)])
  have "list_all (outcome_ok ?ns) (zip ks os)"
    using Cons.prems(1,4) o by (simp add: outcome_update)
  moreover have "set ks \<subseteq> set (map fst ?ns)" using Cons.prems(2) g by (simp add: same_graph_def)
  ultimately obtain ms cx'' where ih: "efold (finish_node tm) (?ns, cx') (zip ks os) = Inr (ms, cx'')"
    "same_graph ?ns ms" "\<forall>k. k \<notin> set ks \<longrightarrow> map_of ms k = map_of ?ns k"
    "\<forall>k \<in> set ks. \<exists>n. map_of ?ns k = Some n \<and> (status_of ms k = Some FAILED \<or> status_of ms k = Some COMPLETED \<and> runnable n)"
    using Cons.IH [of ?ns os cx'] Cons.prems(1,3) o by auto
  have "status_of ms j = Some (tn_status m)" using ih(3) Cons.prems(1) by (simp add: status_of_def update_conv')
  then have "\<forall>k \<in> set (j # ks). \<exists>n. map_of ns k = Some n \<and>
      (status_of ms k = Some FAILED \<or> status_of ms k = Some COMPLETED \<and> runnable n)"
    using ih(4) n m(3) Cons.prems(1) by (auto simp: update_conv' split: if_splits)
  moreover have "\<forall>k. k \<notin> set (j # ks) \<longrightarrow> map_of ms k = map_of ns k" using ih(3) by (simp add: update_conv')
  ultimately show ?case using m(1) ih(1) o same_graph_trans [OF g ih(2)] by (intro exI [of _ ms] exI [of _ cx'']) simp
qed simp

subsection \<open>Saving\<close>

text \<open>The graph names its tenant, and its identifier is not another tenant's.\<close>

definition savable :: "task_dag \<Rightarrow> dag_record list \<Rightarrow> bool" where
  "savable g rows \<longleftrightarrow> (\<exists>t u. dg_tenant g = Some t \<and> t \<noteq> [] \<and> parse_uuid t = Some u \<and>
     (\<forall>r. find_record (dg_id g) rows = Some r \<longrightarrow> dr_tenant r = u))"

lemma find_updated:
  "find_record i rs = Some r \<Longrightarrow> (\<And>x. dr_id (f x) = dr_id x) \<Longrightarrow>
     find_record i (update_where (\<lambda>x. dr_id x = i) f rs) = Some (f r)"
  by (induction rs) (auto simp: find_record_def)

lemma find_appended:
  "find_record i rs = None \<Longrightarrow> find_record i (rs @ [r]) = (if dr_id r = i then Some r else None)"
  by (cases "filter (\<lambda>x. dr_id x = i) rs") (auto simp: find_record_def)

lemma persist_savable:
  assumes "savable g rows"
  shows "\<exists>rows' r. persist_dag_snapshot e g rows = Inr rows' \<and> find_record (dg_id g) rows' = Some r \<and>
    dr_status r = workflow_status (map (\<lambda>(k, n). dump_node (time_str e) n) (dg_nodes g)) \<and> parse_uuid (the (dg_tenant g)) = Some (dr_tenant r)"
proof -
  obtain t u where t: "dg_tenant g = Some t" "t \<noteq> []" "parse_uuid t = Some u"
    and r: "\<And>r. find_record (dg_id g) rows = Some r \<Longrightarrow> dr_tenant r = u"
    using assms by (auto simp: savable_def)
  have nodes: "ds_nodes (to_dict (time_str e) g) = map (\<lambda>(k, n). dump_node (time_str e) n) (dg_nodes g)"
    by (simp add: to_dict_def)
  show ?thesis
  proof (cases "find_record (dg_id g) rows")
    case None
    with t nodes show ?thesis by (simp add: persist_dag_snapshot_def Let_def find_appended)
  next
    case (Some x)
    from find_updated [OF this] r [OF this] t nodes Some show ?thesis
      by (auto simp: persist_dag_snapshot_def Let_def)
  qed
qed

lemma save_run_savable:
  assumes "savable (rn_dag r) (rn_rows r)"
  shows "\<exists>rows. save_run A r = Inr (r\<lparr>rn_rows := rows\<rparr>) \<and>
    (\<forall>g. dg_id g = dg_id (rn_dag r) \<longrightarrow> dg_tenant g = dg_tenant (rn_dag r) \<longrightarrow> savable g rows) \<and>
    (\<exists>x. find_record (dg_id (rn_dag r)) rows = Some x \<and> dr_status x = workflow_status (map (\<lambda>(k, n). dump_node (time_str (ag_env A)) n) (dg_nodes (rn_dag r))))"
proof -
  obtain rows x where p: "persist_dag_snapshot (ag_env A) (rn_dag r) (rn_rows r) = Inr rows"
    "find_record (dg_id (rn_dag r)) rows = Some x" "dr_status x = workflow_status (map (\<lambda>(k, n). dump_node (time_str (ag_env A)) n) (dg_nodes (rn_dag r)))"
    "parse_uuid (the (dg_tenant (rn_dag r))) = Some (dr_tenant x)"
    using persist_savable [OF assms, of "ag_env A"] by blast
  then show ?thesis using assms by (auto simp: save_run_def savable_def)
qed

subsection \<open>One iteration\<close>

text \<open>What the executor may do to a graph: final nodes stay, and a node is completed only by an agent
  that may run it, after all its dependencies.\<close>

definition advances :: "task_nodes \<Rightarrow> task_nodes \<Rightarrow> bool" where
  "advances ns ms \<longleftrightarrow> same_graph ns ms \<and>
     (\<forall>k x. status_of ns k = Some x \<longrightarrow> final_status x \<longrightarrow> status_of ms k = Some x) \<and>
     (\<forall>k n. map_of ns k = Some n \<longrightarrow> status_of ms k = Some COMPLETED \<longrightarrow> status_of ns k = Some COMPLETED \<or>
        runnable n \<and> (\<forall>d \<in> set (tn_deps n). status_of ms d = Some COMPLETED))"

lemma advances_refl [simp]: "advances ns ns"
  by (simp add: advances_def)

lemma advances_trans:
  assumes "advances ns ms" "advances ms ls"
  shows "advances ns ls"
proof -
  have keep: "status_of ls k = Some COMPLETED" if "status_of ms k = Some COMPLETED" for k
    using assms(2) that unfolding advances_def final_status_def by blast
  have "status_of ns k = Some COMPLETED \<or> runnable n \<and> (\<forall>d \<in> set (tn_deps n). status_of ls d = Some COMPLETED)"
    if n: "map_of ns k = Some n" and c: "status_of ls k = Some COMPLETED" for k n
  proof -
    obtain m where m: "map_of ms k = Some m" "alike n m"
      using assms(1) n same_graph_lookup unfolding advances_def by blast
    have "status_of ms k = Some COMPLETED \<or> runnable m \<and> (\<forall>d \<in> set (tn_deps m). status_of ls d = Some COMPLETED)"
      using assms(2) m(1) c unfolding advances_def by blast
    moreover have "runnable m = runnable n" "tn_deps m = tn_deps n"
      using m(2) runnable_alike [OF m(2)] by (simp_all add: alike_def)
    ultimately show ?thesis
    proof (elim disjE)
      assume "status_of ms k = Some COMPLETED"
      then have "status_of ns k = Some COMPLETED \<or> runnable n \<and> (\<forall>d \<in> set (tn_deps n). status_of ms d = Some COMPLETED)"
        using assms(1) n unfolding advances_def by blast
      then show ?thesis using keep by blast
    qed simp
  qed
  then show ?thesis using assms same_graph_trans unfolding advances_def by blast
qed

lemma pending_count:
  assumes "map fst ms = map fst ns" "distinct (map fst ns)"
    and "\<And>k. status_of ms k = Some PENDING \<Longrightarrow> status_of ns k = Some PENDING"
    and "status_of ns j = Some PENDING" "status_of ms j \<noteq> Some PENDING"
  shows "length (pending_nodes ms) < length (pending_nodes ns)"
proof -
  have j: "j \<in> set (map fst ns)" using assms(4) map_of_key [of ns j] by (auto simp: status_of_def)
  have d: "distinct (pending_nodes ms)" "distinct (pending_nodes ns)"
    using assms(1,2) by (simp_all add: pending_nodes_def)
  have "set (pending_nodes ms) \<subset> set (pending_nodes ns)"
    using assms(1,3-5) j by (auto simp: pending_nodes_def)
  then have "card (set (pending_nodes ms)) < card (set (pending_nodes ns))" by (intro psubset_card_mono) simp_all
  then show ?thesis using d by (simp add: distinct_card)
qed

text \<open>A pass over a graph at rest with something pending.\<close>

lemma pass_advances:
  assumes s: "sound_nodes ns" and rest: "at_rest ns" and p: "pending_nodes ns \<noteq> []"
  obtains ms where
    "get_ready_tasks tm ns = Inr (ms, filter (\<lambda>k. status_of ms k = Some READY) (map fst ns))"
    "same_graph ns ms" "length (pending_nodes ms) < length (pending_nodes ns)"
    "\<forall>k x. status_of ms k = Some x \<longrightarrow> status_of ns k = Some x \<or> status_of ns k = Some PENDING \<and> (x = READY \<or> x = PREEMPTED)"
    "\<forall>k x. status_of ns k = Some x \<longrightarrow> final_status x \<longrightarrow> status_of ms k = Some x"
    "\<forall>k n. status_of ms k = Some READY \<longrightarrow> map_of ns k = Some n \<longrightarrow>
       (\<forall>d \<in> set (tn_deps n). status_of ns d = Some COMPLETED)"
proof -
  have g: "dict_nodes ns" "closed_nodes ns" "acyclic (edges ns)" using s by (simp_all add: sound_nodes_def)
  obtain ms where ms: "get_ready_tasks tm ns =
      Inr (ms, filter (\<lambda>k. status_of ns k = Some PENDING \<and> status_of ms k = Some READY) (map fst ns))"
    "passed tm ns ms"
    "\<forall>k n. map_of ns k = Some n \<longrightarrow> tn_status n = PENDING \<longrightarrow>
       (\<forall>d \<in> set (tn_deps n). \<exists>x. status_of ns d = Some x \<and> final_status x) \<longrightarrow> status_of ms k \<noteq> Some PENDING"
    by (rule get_ready_tasks_Inr [OF g(2,1), where tm = tm])
  have keys: "map fst ms = map fst ns" using ms(2) by (simp add: passed_def)
  have node: "\<exists>n m. map_of ns k = Some n \<and> map_of ms k = Some m \<and> readied tm ns n m" if "status_of ms k = Some x" for k x
  proof -
    have "k \<in> set (map fst ms)" using that map_of_key [of ms k] by (auto simp: status_of_def)
    then have "map_of ns k \<noteq> None" using map_of_key [of ns k] unfolding keys by simp
    then show ?thesis using ms(2) by (auto simp: passed_def)
  qed
  have old: "status_of ns k = Some x \<or> status_of ns k = Some PENDING \<and> (x = READY \<or> x = PREEMPTED)"
    if "status_of ms k = Some x" for k x
    using node [OF that] that by (auto simp: status_of_def readied_def preempt_def)
  have ready: "status_of ns k = Some PENDING" if "status_of ms k = Some READY" for k
    using old [OF that] at_rest_status [OF rest, of k] by (auto simp: final_status_def)
  obtain j n where j: "map_of ns j = Some n" "tn_status n = PENDING"
    "\<And>d. d \<in> set (tn_deps n) \<Longrightarrow> \<exists>x. status_of ns d = Some x \<and> x \<noteq> PENDING"
    by (rule pending_minimal [OF g p]) blast
  have "\<forall>d \<in> set (tn_deps n). \<exists>x. status_of ns d = Some x \<and> final_status x"
    using j(3) at_rest_status [OF rest] by blast
  then have "status_of ms j \<noteq> Some PENDING" using ms(3) j(1,2) by blast
  moreover have "distinct (map fst ns)" using g(1) by (simp add: dict_nodes_def)
  moreover have "status_of ns k = Some PENDING" if "status_of ms k = Some PENDING" for k using old [OF that] by simp
  moreover have "status_of ns j = Some PENDING" using j(1,2) by (simp add: status_of_def)
  ultimately have fewer: "length (pending_nodes ms) < length (pending_nodes ns)" using pending_count keys by blast
  have "filter (\<lambda>k. status_of ns k = Some PENDING \<and> status_of ms k = Some READY) (map fst ns) =
      filter (\<lambda>k. status_of ms k = Some READY) (map fst ns)"
    using ready by (intro filter_cong) auto
  then have call: "get_ready_tasks tm ns = Inr (ms, filter (\<lambda>k. status_of ms k = Some READY) (map fst ns))"
    using ms(1) by simp
  have finals: "\<forall>k x. status_of ns k = Some x \<longrightarrow> final_status x \<longrightarrow> status_of ms k = Some x"
    using passed_final [OF ms(2)] by (auto simp: final_status_def)
  have "\<forall>d \<in> set (tn_deps n). status_of ns d = Some COMPLETED"
    if r: "status_of ms k = Some READY" "map_of ns k = Some n" for k n
    using node [OF r(1)] r ready [OF r(1)] by (auto simp: readied_def status_of_def preempt_def)
  then have deps: "\<forall>k n. status_of ms k = Some READY \<longrightarrow> map_of ns k = Some n \<longrightarrow>
      (\<forall>d \<in> set (tn_deps n). status_of ns d = Some COMPLETED)" by blast
  from old have old': "\<forall>k x. status_of ms k = Some x \<longrightarrow> status_of ns k = Some x \<or>
      status_of ns k = Some PENDING \<and> (x = READY \<or> x = PREEMPTED)" by blast
  show thesis by (rule that [OF call passed_same_graph [OF ms(2)] fewer old' finals deps])
qed

text \<open>A batch of nodes that are all ready.\<close>

lemma batch_effect:
  assumes d: "dict_nodes (dg_nodes (rn_dag r))" and ks: "distinct ks" "set ks \<subseteq> set (map fst (dg_nodes (rn_dag r)))"
    and sv: "savable (rn_dag r) (rn_rows r)"
  obtains r' where "run_batch A r ks = Inr r'" "same_graph (dg_nodes (rn_dag r)) (dg_nodes (rn_dag r'))"
    "savable (rn_dag r') (rn_rows r')" "dg_id (rn_dag r') = dg_id (rn_dag r)" "dg_tenant (rn_dag r') = dg_tenant (rn_dag r)"
    "\<forall>k. k \<notin> set ks \<longrightarrow> map_of (dg_nodes (rn_dag r')) k = map_of (dg_nodes (rn_dag r)) k"
    "\<forall>k \<in> set ks. \<exists>n. map_of (dg_nodes (rn_dag r)) k = Some n \<and>
       (status_of (dg_nodes (rn_dag r')) k = Some FAILED \<or> status_of (dg_nodes (rn_dag r')) k = Some COMPLETED \<and> runnable n)"
proof -
  let ?ns = "dg_nodes (rn_dag r)"
  let ?tm = "now (ag_env A)"
  define ms where "ms = foldl (start_node ?tm) ?ns ks"
  have g1: "same_graph ?ns ms" and o1: "\<And>k. k \<notin> set ks \<Longrightarrow> map_of ms k = map_of ?ns k"
    unfolding ms_def using start_nodes [OF ks(2)] by blast+
  have m1: "set ks \<subseteq> set (map fst ms)" using ks(2) g1 by (simp add: same_graph_def)
  have "savable (rn_dag (with_nodes ms r)) (rn_rows (with_nodes ms r))" using sv by (simp add: savable_def with_nodes_def)
  from save_run_savable [OF this, of A] obtain rows where
    s1: "save_run A (with_nodes ms r) = Inr ((with_nodes ms r)\<lparr>rn_rows := rows\<rparr>)"
    "\<And>g. dg_id g = dg_id (rn_dag r) \<Longrightarrow> dg_tenant g = dg_tenant (rn_dag r) \<Longrightarrow> savable g rows"
    by (auto simp: with_nodes_def)
  obtain ls outs where run: "foldl (run_node A (rn_ctx r) (dg_tenant (rn_dag r))) (ms, []) ks = (ls, [] @ outs)"
    "length outs = length ks" "same_graph ms ls" "\<forall>k. k \<notin> set ks \<longrightarrow> map_of ls k = map_of ms k"
    "list_all (outcome_ok ms) (zip ks outs)"
    using run_nodes [OF m1 ks(1), of A "rn_ctx r" "dg_tenant (rn_dag r)" "[]"] by blast
  have m2: "set ks \<subseteq> set (map fst ls)" using m1 run(3) by (simp add: same_graph_def)
  have ok: "list_all (outcome_ok ls) (zip ks outs)"
  proof -
    have "outcome_ok ls p" if p: "p \<in> set (zip ks outs)" for p
    proof -
      have "fst p \<in> set (map fst ms)" using p m1 by (metis prod.collapse set_zip_leftD subsetD)
      then obtain n where n: "map_of ms (fst p) = Some n" using map_of_key [of ms "fst p"] by auto
      moreover have "outcome_ok ms p" using run(5) p by (simp add: list_all_iff)
      ultimately show ?thesis
        using same_graph_lookup [OF run(3) n] runnable_alike by (auto simp: outcome_ok_def)
    qed
    then show ?thesis by (simp add: list_all_iff)
  qed
  obtain fs cx' where fin: "efold (finish_node ?tm) (ls, rn_ctx r) (zip ks outs) = Inr (fs, cx')" "same_graph ls fs"
    "\<forall>k. k \<notin> set ks \<longrightarrow> map_of fs k = map_of ls k"
    "\<forall>k \<in> set ks. \<exists>n. map_of ls k = Some n \<and> (status_of fs k = Some FAILED \<or> status_of fs k = Some COMPLETED \<and> runnable n)"
    using finish_nodes [OF ks(1) m2 run(2) ok, of ?tm "rn_ctx r"] by blast
  let ?r = "(with_nodes fs ((with_nodes ms r)\<lparr>rn_rows := rows\<rparr>))\<lparr>rn_ctx := cx'\<rparr>"
  have "savable (rn_dag ?r) (rn_rows ?r)" using s1(2) by (simp add: with_nodes_def)
  from save_run_savable [OF this, of A] obtain rows' where
    s2: "save_run A ?r = Inr (?r\<lparr>rn_rows := rows'\<rparr>)"
    "\<And>g. dg_id g = dg_id (rn_dag r) \<Longrightarrow> dg_tenant g = dg_tenant (rn_dag r) \<Longrightarrow> savable g rows'"
    by (auto simp: with_nodes_def)
  let ?r' = "?r\<lparr>rn_rows := rows'\<rparr>"
  have graph: "same_graph ?ns fs" using same_graph_trans [OF same_graph_trans [OF g1 run(3)] fin(2)] .
  have call: "run_batch A r ks = Inr ?r'"
    using s1(1) run(1) fin(1) s2(1) by (simp add: run_batch_def Let_def ms_def with_nodes_def)
  have "\<exists>n. map_of ?ns k = Some n \<and> (status_of fs k = Some FAILED \<or> status_of fs k = Some COMPLETED \<and> runnable n)"
    if k: "k \<in> set ks" for k
  proof -
    obtain n where n: "map_of ?ns k = Some n" using k ks(2) map_of_key [of ?ns k] by auto
    obtain m where m: "map_of ls k = Some m" "alike n m"
      using same_graph_lookup [OF same_graph_trans [OF g1 run(3)] n] by blast
    with fin(4) k n runnable_alike [OF m(2)] show ?thesis by auto
  qed
  then show thesis
    using that [OF call] graph s2(2) o1 run(4) fin(3) by (simp add: with_nodes_def)
qed

subsection \<open>The loop finishes\<close>

abbreviation nodes_of :: "dag_run \<Rightarrow> task_nodes" where
  "nodes_of r \<equiv> dg_nodes (rn_dag r)"

definition loop_ok :: "dag_run \<Rightarrow> bool" where
  "loop_ok r \<longleftrightarrow> sound_nodes (nodes_of r) \<and> at_rest (nodes_of r) \<and> savable (rn_dag r) (rn_rows r)"

definition same_dag :: "dag_run \<Rightarrow> dag_run \<Rightarrow> bool" where
  "same_dag r r' \<longleftrightarrow> dg_id (rn_dag r') = dg_id (rn_dag r) \<and> dg_tenant (rn_dag r') = dg_tenant (rn_dag r)"

lemma at_rest_iff:
  assumes "dict_nodes ns"
  shows "at_rest ns \<longleftrightarrow> (\<forall>k x. status_of ns k = Some x \<longrightarrow> x = PENDING \<or> final_status x)"
proof
  assume "\<forall>k x. status_of ns k = Some x \<longrightarrow> x = PENDING \<or> final_status x"
  moreover have "status_of ns k = Some (tn_status n)" if "(k, n) \<in> set ns" for k n
    using assms that by (simp add: dict_nodes_def status_of_def)
  ultimately show "at_rest ns" by (auto simp: at_rest_def list_all_iff)
qed (use at_rest_status in blast)

lemma idle_pass:
  assumes ok: "loop_ok r" and ms: "same_graph (nodes_of r) ms"
    "\<forall>k x. status_of ms k = Some x \<longrightarrow> status_of (nodes_of r) k = Some x \<or>
       status_of (nodes_of r) k = Some PENDING \<and> (x = READY \<or> x = PREEMPTED)"
    "\<forall>k x. status_of (nodes_of r) k = Some x \<longrightarrow> final_status x \<longrightarrow> status_of ms k = Some x"
    and none: "\<And>k. status_of ms k \<noteq> Some READY"
  shows "loop_ok (with_nodes ms r)" "advances (nodes_of r) ms"
proof -
  have s: "sound_nodes ms" using same_graph_sound [OF ms(1)] ok by (simp add: loop_ok_def)
  have "at_rest (nodes_of r)" using ok by (simp add: loop_ok_def)
  then have "x = PENDING \<or> final_status x" if "status_of ms k = Some x" for k x
    using ms(2) none that at_rest_status unfolding final_status_def by metis
  then have "at_rest ms" using s at_rest_iff unfolding sound_nodes_def by blast
  then show "loop_ok (with_nodes ms r)" using s ok by (simp add: loop_ok_def with_nodes_def savable_def)
  show "advances (nodes_of r) ms"
    using ms unfolding advances_def by (metis task_status.distinct(13,27) task_status.simps)
qed

lemma busy_pass:
  assumes ok: "loop_ok r" and ms: "same_graph (nodes_of r) ms"
    "\<forall>k x. status_of ms k = Some x \<longrightarrow> status_of (nodes_of r) k = Some x \<or>
       status_of (nodes_of r) k = Some PENDING \<and> (x = READY \<or> x = PREEMPTED)"
    "\<forall>k x. status_of (nodes_of r) k = Some x \<longrightarrow> final_status x \<longrightarrow> status_of ms k = Some x"
    "\<forall>k n. status_of ms k = Some READY \<longrightarrow> map_of (nodes_of r) k = Some n \<longrightarrow>
       (\<forall>d \<in> set (tn_deps n). status_of (nodes_of r) d = Some COMPLETED)"
    and fs: "same_graph ms fs" "\<forall>k. status_of ms k \<noteq> Some READY \<longrightarrow> map_of fs k = map_of ms k"
    "\<And>k. status_of ms k = Some READY \<Longrightarrow> \<exists>n. map_of ms k = Some n \<and>
       (status_of fs k = Some FAILED \<or> status_of fs k = Some COMPLETED \<and> runnable n)"
  shows "sound_nodes fs" "at_rest fs" "advances (nodes_of r) fs"
    "\<And>k. status_of fs k = Some PENDING \<Longrightarrow> status_of ms k = Some PENDING"
proof -
  let ?ns = "nodes_of r"
  have rest: "at_rest ?ns" using ok by (simp add: loop_ok_def)
  have g: "same_graph ?ns fs" using same_graph_trans [OF ms(1) fs(1)] .
  show s: "sound_nodes fs" using same_graph_sound [OF g] ok by (simp add: loop_ok_def)
  have other: "status_of fs k = status_of ms k" if "status_of ms k \<noteq> Some READY" for k
    using fs(2) that by (simp add: status_of_def)
  have "x = PENDING \<or> final_status x" if x: "status_of fs k = Some x" for k x
  proof (cases "status_of ms k = Some READY")
    case True
    from fs(3) [OF True] show ?thesis using x by (auto simp: final_status_def)
  next
    case False
    then have "status_of ms k = Some x" "x \<noteq> READY" using x other by auto
    then show ?thesis using ms(2) at_rest_status [OF rest] unfolding final_status_def by metis
  qed
  then show "at_rest fs" using s at_rest_iff unfolding sound_nodes_def by blast
  show "status_of ms k = Some PENDING" if "status_of fs k = Some PENDING" for k
  proof (cases "status_of ms k = Some READY")
    case True
    from fs(3) [OF True] show ?thesis using that by auto
  qed (use that other in simp)
  have finals: "status_of fs k = Some x" if "status_of ?ns k = Some x" "final_status x" for k x
  proof -
    have "status_of ms k = Some x" using ms(3) that by blast
    then show ?thesis using other [of k] that(2) by (auto simp: final_status_def)
  qed
  moreover have "status_of ?ns k = Some COMPLETED \<or> runnable n \<and> (\<forall>d \<in> set (tn_deps n). status_of fs d = Some COMPLETED)"
    if n: "map_of ?ns k = Some n" and c: "status_of fs k = Some COMPLETED" for k n
  proof (cases "status_of ms k = Some READY")
    case True
    from fs(3) [OF True] obtain m where "map_of ms k = Some m" "runnable m" using c by auto
    then have "runnable n" using same_graph_lookup [OF ms(1) n] runnable_alike by auto
    moreover have "\<forall>d \<in> set (tn_deps n). status_of ?ns d = Some COMPLETED" using ms(4) True n by blast
    ultimately show ?thesis using finals by (auto simp: final_status_def)
  next
    case False
    then have "status_of ms k = Some COMPLETED" using c other by simp
    then show ?thesis using ms(2) by auto
  qed
  ultimately show "advances ?ns fs" using g unfolding advances_def by blast
qed

lemma loop_step:
  assumes ok: "loop_ok r" and p: "pending_nodes (nodes_of r) \<noteq> []"
  shows "\<exists>r'. loop_ok r' \<and> advances (nodes_of r) (nodes_of r') \<and> same_dag r r' \<and>
    length (pending_nodes (nodes_of r')) < length (pending_nodes (nodes_of r)) \<and>
    (\<forall>f. run_loop (Suc f) A r = run_loop f A r')"
proof -
  let ?ns = "nodes_of r"
  have s: "sound_nodes ?ns" "at_rest ?ns" "savable (rn_dag r) (rn_rows r)" using ok by (simp_all add: loop_ok_def)
  have d: "dict_nodes ?ns" using s(1) by (simp add: sound_nodes_def)
  have nf: "\<not> is_finished ?ns" using finished_no_pending [OF s(2) d] p by simp
  obtain ms where ms: "get_ready_tasks (now (ag_env A)) ?ns = Inr (ms, filter (\<lambda>k. status_of ms k = Some READY) (map fst ?ns))"
    "same_graph ?ns ms" "length (pending_nodes ms) < length (pending_nodes ?ns)"
    "\<forall>k x. status_of ms k = Some x \<longrightarrow> status_of ?ns k = Some x \<or> status_of ?ns k = Some PENDING \<and> (x = READY \<or> x = PREEMPTED)"
    "\<forall>k x. status_of ?ns k = Some x \<longrightarrow> final_status x \<longrightarrow> status_of ms k = Some x"
    "\<forall>k n. status_of ms k = Some READY \<longrightarrow> map_of ?ns k = Some n \<longrightarrow> (\<forall>d \<in> set (tn_deps n). status_of ?ns d = Some COMPLETED)"
    by (rule pass_advances [OF s(1,2) p])
  let ?ready = "filter (\<lambda>k. status_of ms k = Some READY) (map fst ?ns)"
  have keys: "map fst ms = map fst ?ns" using ms(2) by (simp add: same_graph_def)
  have ready: "k \<in> set ?ready \<longleftrightarrow> status_of ms k = Some READY" for k
    using map_of_key [of ms k] unfolding keys by (auto simp: status_of_def)
  have unfold: "run_loop (Suc f) A r =
      (if ?ready = [] then (if waiting_nodes ms then run_loop f A (with_nodes ms r) else Some (save_run A (with_nodes ms r)))
       else (case run_batch A (with_nodes ms r) ?ready of Inl err \<Rightarrow> Some (Inl err) | Inr r' \<Rightarrow> run_loop f A r'))" for f
    using nf ms(1) by (subst run_loop.simps) simp
  have nodes [simp]: "nodes_of (with_nodes ns r) = ns" for ns by (simp add: with_nodes_def)
  show ?thesis
  proof (cases "?ready = []")
    case True
    then have none: "status_of ms k \<noteq> Some READY" for k using ready [of k] by simp
    note idle = idle_pass [OF ok ms(2,4,5) none]
    show ?thesis
    proof (cases "waiting_nodes ms")
      case True
      then show ?thesis using idle ms(3) unfold \<open>?ready = []\<close>
        by (intro exI [of _ "with_nodes ms r"]) (simp add: same_dag_def with_nodes_def)
    next
      case False
      have ok': "loop_ok (with_nodes ms r)" by (rule idle(1))
      then have fin: "is_finished ms"
        using False unfolding loop_ok_def at_rest_def is_finished_def waiting_nodes_def
        by (auto simp: list_all_iff list_ex_iff)
      have sv: "savable (rn_dag (with_nodes ms r)) (rn_rows (with_nodes ms r))" using ok' by (simp add: loop_ok_def)
      from save_run_savable [OF this, of A] obtain rows where
        sr: "save_run A (with_nodes ms r) = Inr ((with_nodes ms r)\<lparr>rn_rows := rows\<rparr>)" "savable (rn_dag (with_nodes ms r)) rows"
        by blast
      let ?r' = "(with_nodes ms r)\<lparr>rn_rows := rows\<rparr>"
      have "run_loop f A ?r' = Some (Inr ?r')" for f using fin by (subst run_loop.simps) simp
      moreover have "loop_ok ?r'" using ok' sr(2) by (simp add: loop_ok_def)
      ultimately show ?thesis using idle(2) ms(3) unfold \<open>?ready = []\<close> False sr(1)
        by (intro exI [of _ ?r']) (simp add: same_dag_def with_nodes_def)
    qed
  next
    case False
    have dm: "dict_nodes (nodes_of (with_nodes ms r))" using same_graph_dict(1) [OF ms(2) d] by simp
    have "distinct ?ready" using d by (simp add: dict_nodes_def)
    moreover have "set ?ready \<subseteq> set (map fst (nodes_of (with_nodes ms r)))" unfolding nodes keys by auto
    moreover have "savable (rn_dag (with_nodes ms r)) (rn_rows (with_nodes ms r))" using s(3) by (simp add: savable_def with_nodes_def)
    ultimately obtain r' where b: "run_batch A (with_nodes ms r) ?ready = Inr r'"
      "same_graph (nodes_of (with_nodes ms r)) (nodes_of r')" "savable (rn_dag r') (rn_rows r')"
      "dg_id (rn_dag r') = dg_id (rn_dag (with_nodes ms r))" "dg_tenant (rn_dag r') = dg_tenant (rn_dag (with_nodes ms r))"
      "\<forall>k. k \<notin> set ?ready \<longrightarrow> map_of (nodes_of r') k = map_of (nodes_of (with_nodes ms r)) k"
      "\<forall>k \<in> set ?ready. \<exists>n. map_of (nodes_of (with_nodes ms r)) k = Some n \<and>
         (status_of (nodes_of r') k = Some FAILED \<or> status_of (nodes_of r') k = Some COMPLETED \<and> runnable n)"
      by (rule batch_effect [OF dm])
    have fs: "same_graph ms (nodes_of r')" using b(2) unfolding nodes .
    have others: "\<forall>k. status_of ms k \<noteq> Some READY \<longrightarrow> map_of (nodes_of r') k = map_of ms k"
      using b(6) unfolding nodes ready .
    have ran: "\<exists>n. map_of ms k = Some n \<and>
         (status_of (nodes_of r') k = Some FAILED \<or> status_of (nodes_of r') k = Some COMPLETED \<and> runnable n)"
      if "status_of ms k = Some READY" for k
    proof -
      have "k \<in> set ?ready" using that ready by simp
      with b(7) show ?thesis unfolding nodes by (rule bspec)
    qed
    note busy = busy_pass [OF ok ms(2,4-6) fs others ran]
    have "length (pending_nodes (nodes_of r')) \<le> length (pending_nodes ms)"
    proof -
      have "map fst (nodes_of r') = map fst ms" using fs by (simp add: same_graph_def)
      then have "set (pending_nodes (nodes_of r')) \<subseteq> set (pending_nodes ms)" "distinct (pending_nodes (nodes_of r'))"
        using busy(4) d keys by (auto simp: pending_nodes_def dict_nodes_def)
      then show ?thesis by (metis card_length card_mono distinct_card finite_set order_trans)
    qed
    moreover have "loop_ok r'" using busy(1,2) b(3) by (simp add: loop_ok_def)
    moreover have "same_dag r r'" using b(4,5) by (simp add: same_dag_def with_nodes_def)
    ultimately show ?thesis using busy(3) ms(3) unfold False b(1) by (intro exI [of _ r']) simp
  qed
qed

lemma run_loop_finishes:
  "loop_ok r \<Longrightarrow> length (pending_nodes (nodes_of r)) \<le> fuel \<Longrightarrow>
     \<exists>r'. run_loop fuel A r = Some (Inr r') \<and> loop_ok r' \<and> is_finished (nodes_of r') \<and>
       advances (nodes_of r) (nodes_of r') \<and> same_dag r r'"
proof (induction fuel arbitrary: r)
  case 0
  then have "is_finished (nodes_of r)"
    using finished_no_pending [of "nodes_of r"] by (simp add: loop_ok_def sound_nodes_def)
  with 0 show ?case by (subst run_loop.simps) (simp add: same_dag_def)
next
  case (Suc f)
  show ?case
  proof (cases "pending_nodes (nodes_of r) = []")
    case True
    then have "is_finished (nodes_of r)"
      using finished_no_pending [of "nodes_of r"] Suc.prems by (simp add: loop_ok_def sound_nodes_def)
    with Suc.prems show ?thesis by (subst run_loop.simps) (simp add: same_dag_def)
  next
    case False
    from loop_step [OF Suc.prems(1) this, of A] obtain r1 where
      r1: "loop_ok r1" "advances (nodes_of r) (nodes_of r1)" "same_dag r r1"
      "length (pending_nodes (nodes_of r1)) < length (pending_nodes (nodes_of r))"
      "run_loop (Suc f) A r = run_loop f A r1" by blast
    then have "length (pending_nodes (nodes_of r1)) \<le> f" using Suc.prems(2) by simp
    from Suc.IH [OF r1(1) this] obtain r2 where
      "run_loop f A r1 = Some (Inr r2)" "loop_ok r2" "is_finished (nodes_of r2)"
      "advances (nodes_of r1) (nodes_of r2)" "same_dag r1 r2" by blast
    with r1 show ?thesis using advances_trans by (intro exI [of _ r2]) (auto simp: same_dag_def)
  qed
qed

subsection \<open>The whole run\<close>

lemma status_texts [simp]:
  "status_text s = ''COMPLETED'' \<longleftrightarrow> s = COMPLETED" "status_text s = ''FAILED'' \<longleftrightarrow> s = FAILED"
  "status_text s = ''PREEMPTED'' \<longleftrightarrow> s = PREEMPTED" "status_text s = ''PENDING'' \<longleftrightarrow> s = PENDING"
  by (cases s; simp)+

lemma stored_status:
  assumes "at_rest ns" "is_finished ns" "dict_nodes ns"
  shows "workflow_status (map (\<lambda>(k, n). dump_node f n) ns) =
    (if ns = [] then ''DISPATCHED''
     else if list_all (\<lambda>(k, n). tn_status n = COMPLETED) ns then ''COMPLETED'' else ''FAILED'')"
proof -
  let ?ds = "map (\<lambda>(k, n). dump_node f n) ns"
  have "list_all (\<lambda>n. nd_status n \<in> set [''COMPLETED'', ''FAILED'', ''PREEMPTED'']) ?ds"
    using assms(2) by (auto simp: is_finished_def list_all_iff dump_node_def final_status_def)
  moreover have "list_all (\<lambda>n. nd_status n = ''COMPLETED'') ?ds = list_all (\<lambda>(k, n). tn_status n = COMPLETED) ns"
    by (auto simp: list_all_iff dump_node_def)
  ultimately show ?thesis by (cases "ns = []") (simp_all add: workflow_status_def)
qed

lemma execute_dag_run:
  assumes s: "sound_nodes (dg_nodes g)" and r: "at_rest (dg_nodes g)" and v: "savable g rows"
    and f: "length (pending_nodes (dg_nodes g)) \<le> fuel"
  shows "\<exists>r' x. execute_dag fuel A g rows = Some (Inr r') \<and> is_finished (nodes_of r') \<and>
    advances (dg_nodes g) (nodes_of r') \<and> find_record (dg_id g) (rn_rows r') = Some x \<and>
    dr_status x = (if dg_nodes g = [] then ''DISPATCHED''
      else if list_all (\<lambda>(k, n). tn_status n = COMPLETED) (nodes_of r') then ''COMPLETED'' else ''FAILED'')"
proof -
  let ?r0 = "\<lparr>rn_dag = g, rn_ctx = foldl seed_context [] (dg_nodes g), rn_rows = rows\<rparr>"
  obtain rows1 where s1: "save_run A ?r0 = Inr (?r0\<lparr>rn_rows := rows1\<rparr>)"
    "\<forall>g'. dg_id g' = dg_id g \<longrightarrow> dg_tenant g' = dg_tenant g \<longrightarrow> savable g' rows1"
    using save_run_savable [of ?r0 A] v by auto
  let ?r1 = "?r0\<lparr>rn_rows := rows1\<rparr>"
  have "loop_ok ?r1" using s r s1(2) by (simp add: loop_ok_def)
  moreover have "length (pending_nodes (nodes_of ?r1)) \<le> fuel" using f by simp
  ultimately obtain r2 where r2: "run_loop fuel A ?r1 = Some (Inr r2)" "loop_ok r2" "is_finished (nodes_of r2)"
    "advances (nodes_of ?r1) (nodes_of r2)" "same_dag ?r1 r2"
    using run_loop_finishes [of ?r1 fuel A] by blast
  have "savable (rn_dag r2) (rn_rows r2)" using r2(2) by (simp add: loop_ok_def)
  from save_run_savable [OF this, of A] obtain rows2 x where
    s2: "save_run A r2 = Inr (r2\<lparr>rn_rows := rows2\<rparr>)" "find_record (dg_id (rn_dag r2)) rows2 = Some x"
      "dr_status x = workflow_status (map (\<lambda>(k, n). dump_node (time_str (ag_env A)) n) (nodes_of r2))" by blast
  have empty: "nodes_of r2 = [] \<longleftrightarrow> dg_nodes g = []"
    using r2(4) by (auto simp: advances_def same_graph_def)
  have "dr_status x = (if dg_nodes g = [] then ''DISPATCHED''
      else if list_all (\<lambda>(k, n). tn_status n = COMPLETED) (nodes_of r2) then ''COMPLETED'' else ''FAILED'')"
    using s2(3) stored_status [of "nodes_of r2"] r2(2,3) empty by (simp add: loop_ok_def sound_nodes_def)
  moreover have "execute_dag fuel A g rows = Some (Inr (r2\<lparr>rn_rows := rows2\<rparr>))"
    using s1(1) r2(1) s2(1) by (simp add: execute_dag_def)
  ultimately show ?thesis
    using r2(3-5) s2(2) by (intro exI [of _ "r2\<lparr>rn_rows := rows2\<rparr>"] exI [of _ x]) (simp add: same_dag_def)
qed

lemma validated_sound: "dict_nodes (dg_nodes g) \<Longrightarrow> validate_dag g = Inr () \<Longrightarrow> sound_nodes (dg_nodes g)"
  using validate_nodes_iff by (simp add: validate_dag_def sound_nodes_def)

subsection \<open>Properties\<close>

definition demo_agents :: agents where
  "demo_agents =
     \<lparr>ag_env = flow_env,
      ag_proposal_id = (\<lambda>k. k), ag_work = (\<lambda>n cx. Inr [])\<rparr>"

lemma demo_run:
  "validate_dag (demo_dag diamond) = Inr ()" "dict_nodes (dg_nodes (demo_dag diamond))"
  "at_rest (dg_nodes (demo_dag diamond))" "savable (demo_dag diamond) []"
  "length (pending_nodes (dg_nodes (demo_dag diamond))) \<le> 4"
proof -
  show "savable (demo_dag diamond) []"
    using parse_str_uuid [of 0] by (simp add: savable_def demo_dag_def find_record_def parse_uuid_def digit_value_def)
qed (use demo_dict demo_validate in \<open>simp_all add: demo_dag_def diamond_def demo_node_def at_rest_def pending_nodes_def status_of_def\<close>)

text \<open>C28: the execution of a validated workflow whose nodes are pending or final always returns, within
  as many passes as it has pending nodes; then every node is final, and the stored record says whether
  all of them were completed.\<close>

theorem execution_terminates:
  assumes "dict_nodes (dg_nodes g)" and "validate_dag g = Inr ()" and "at_rest (dg_nodes g)" and "savable g rows"
    and "length (pending_nodes (dg_nodes g)) \<le> fuel" and "dg_nodes g \<noteq> []"
  shows "\<exists>r x. execute_dag fuel A g rows = Some (Inr r) \<and> is_finished (dg_nodes (rn_dag r)) \<and>
    find_record (dg_id g) (rn_rows r) = Some x \<and>
    dr_status x = (if list_all (\<lambda>(k, n). tn_status n = COMPLETED) (dg_nodes (rn_dag r)) then ''COMPLETED'' else ''FAILED'')"
  using execute_dag_run [OF validated_sound [OF assms(1,2)] assms(3-5), of A] assms(6) by auto

theorem execution_terminates_witness:
  "\<exists>r x. execute_dag 4 demo_agents (demo_dag diamond) [] = Some (Inr r) \<and> is_finished (dg_nodes (rn_dag r)) \<and>
    find_record ''dag_1'' (rn_rows r) = Some x \<and> dr_status x \<in> {''COMPLETED'', ''FAILED''}"
proof -
  have ne: "dg_nodes (demo_dag diamond) \<noteq> []" "dg_id (demo_dag diamond) = ''dag_1''"
    by (simp_all add: demo_dag_def diamond_def)
  from execution_terminates [OF demo_run(2,1,3-5) ne(1), of demo_agents] ne(2) show ?thesis by auto
qed

text \<open>C29: after the execution of such a workflow, a node is completed only if it was before, or its agent
  is permitted the action registered for it, is not the production agent, and all nodes it depends on are
  completed.\<close>

theorem completed_nodes_were_authorized:
  assumes "dict_nodes (dg_nodes g)" and "validate_dag g = Inr ()" and "at_rest (dg_nodes g)" and "savable g rows"
    and "length (pending_nodes (dg_nodes g)) \<le> fuel"
    and "execute_dag fuel A g rows = Some (Inr r)"
    and "map_of (dg_nodes g) k = Some n" and "status_of (dg_nodes (rn_dag r)) k = Some COMPLETED"
  shows "status_of (dg_nodes g) k = Some COMPLETED \<or>
    (\<exists>action. node_action n = Some action \<and> verify_agent_rbac (tn_agent n) action) \<and> tn_agent n \<noteq> ''PRODUCTION'' \<and>
    (\<forall>d \<in> set (tn_deps n). status_of (dg_nodes (rn_dag r)) d = Some COMPLETED)"
proof -
  have "advances (dg_nodes g) (nodes_of r)"
    using execute_dag_run [OF validated_sound [OF assms(1,2)] assms(3-5), of A] assms(6) by auto
  then show ?thesis using assms(7,8) unfolding advances_def runnable_def by blast
qed

theorem completed_nodes_were_authorized_witness:
  "\<exists>r. execute_dag 4 demo_agents (demo_dag diamond) [] = Some (Inr r) \<and>
    status_of (dg_nodes (rn_dag r)) ''a'' \<noteq> Some COMPLETED"
proof -
  obtain r where r: "execute_dag 4 demo_agents (demo_dag diamond) [] = Some (Inr r)"
    using execute_dag_run [OF validated_sound [OF demo_run(2,1)] demo_run(3-5), of demo_agents] by auto
  have n: "map_of (dg_nodes (demo_dag diamond)) ''a'' = Some (snd (demo_node ''a'' []))"
    "node_action (snd (demo_node ''a'' [])) = None" "status_of (dg_nodes (demo_dag diamond)) ''a'' = Some PENDING"
    by (simp_all add: demo_dag_def diamond_def demo_node_def status_of_def node_action_def NODE_GUARDRAIL_ACTIONS_def lower_def
        chr_lower_def)
  from completed_nodes_were_authorized [OF demo_run(2,1,3-5) r n(1)] n(2,3) r show ?thesis by auto
qed

end
