(* ===== verification/Orchestrator.thy ===== *)
theory Orchestrator
  imports Worker
begin

section \<open>The workflows of the orchestrator\<close>

text \<open>
  \<open>src/src/erp/orchestration/orchestrator.py\<close>: the two workflows that inbound events start, the graphs
  the process keeps in memory, and the context of a subagent. The random suffixes of the identifiers
  are the parameter \<open>h\<close>. The properties say what becomes of the two workflows in the executor of
  \<open>Worker\<close>: each has a node that no agent may run.
\<close>

subsection \<open>Building\<close>

record orchestrator =
  or_dags :: "(string \<times> task_dag) list"

text \<open>The texts of a payload, \<open>None\<close> where the key is missing or null.\<close>

definition payload_text :: "context_map \<Rightarrow> string \<Rightarrow> string option" where
  "payload_text p k = (case map_of p k of Some (JStr t) \<Rightarrow> Some t | _ \<Rightarrow> None)"

text \<open>\<open>dag.add_node\<close>, which raises or returns the node.\<close>

definition add_task ::
    "timestamp \<Rightarrow> string \<Rightarrow> string \<Rightarrow> string \<Rightarrow> string list \<Rightarrow> context_map \<Rightarrow> task_dag \<Rightarrow> (string \<times> task_dag) result" where
  "add_task tm hex name agent deps payload g =
     (case add_node tm hex name agent deps payload None g of
        (Inl err, _) \<Rightarrow> Inl err
      | (Inr n, g') \<Rightarrow> Inr (tn_id n, g'))"

definition register_dag :: "task_dag \<Rightarrow> orchestrator \<Rightarrow> task_dag \<times> orchestrator" where
  "register_dag g c = (g, c\<lparr>or_dags := AList.update (dg_id g) g (or_dags c)\<rparr>)"

definition build_rfq_workflow_dag ::
    "timestamp \<Rightarrow> (nat \<Rightarrow> string) \<Rightarrow> uuid \<Rightarrow> context_map \<Rightarrow> orchestrator \<Rightarrow> (task_dag \<times> orchestrator) result" where
  "build_rfq_workflow_dag tm h tenant payload c =
     (let own = [(''tenant_id'', JStr (str_uuid tenant))];
          g = new_dag tm [] (Some (''dag_rfq_'' @ h 0)) (Some (str_uuid tenant))
                (Some (nonempty_or (payload_text payload ''customer_name'') ''Enterprise Customer''))
                (Some (nonempty_or (payload_text payload ''inquiry_text'') []))
      in ebind (add_task tm (h 1) ''Parse RFQ Document'' ''REVENUE'' [] payload g) (\<lambda>(t1, g1).
         ebind (add_task tm (h 2) ''Calculate Landed Material Costs'' ''SUPPLY_CHAIN'' [t1] own g1) (\<lambda>(t2, g2).
         ebind (add_task tm (h 3) ''Verify Production Makespan Capacity'' ''PRODUCTION'' [t1] own g2) (\<lambda>(t3, g3).
         ebind (add_task tm (h 4) ''Generate Margin-Defended Quote'' ''REVENUE'' [t2, t3]
                  [(''margin_floor'', JFloat (float_of (22 / 100)))] g3) (\<lambda>(t4, g4).
         Inr (register_dag g4 c))))))"

definition build_order_fulfillment_workflow_dag ::
    "timestamp \<Rightarrow> (nat \<Rightarrow> string) \<Rightarrow> uuid \<Rightarrow> context_map \<Rightarrow> orchestrator \<Rightarrow> (task_dag \<times> orchestrator) result" where
  "build_order_fulfillment_workflow_dag tm h tenant payload c =
     (let own = [(''tenant_id'', JStr (str_uuid tenant))];
          name = payload_text payload ''customer_name'';
          g = new_dag tm [] (Some (''dag_order_'' @ h 0)) (Some (str_uuid tenant))
                (Some (nonempty_or name ''Commercial Customer''))
                (Some (nonempty_or (payload_text payload ''inquiry_text'')
                   (''Inbound Order from '' @ (case name of None \<Rightarrow> ''None'' | Some x \<Rightarrow> x))))
      in ebind (add_task tm (h 1) ''Extract Order & Buyer Entity'' ''REVENUE'' []
                  (AList.update ''tenant_id'' (JStr (str_uuid tenant)) payload) g) (\<lambda>(t1, g1).
         ebind (add_task tm (h 2) ''Check Inventory & Stock Availability'' ''SUPPLY_CHAIN'' [t1] own g1) (\<lambda>(t2, g2).
         ebind (add_task tm (h 3) ''Auto-Provision Customer & Sales Order'' ''REVENUE'' [t1, t2] own g2) (\<lambda>(t3, g3).
         ebind (add_task tm (h 4) ''Fulfill Delivery & Post Invoice to Ledger'' ''FINANCIAL_CONTROLLER'' [t3] own g3) (\<lambda>(t4, g4).
         ebind (add_task tm (h 5) ''Dispatch Order Confirmation & Invoice'' ''REVENUE'' [t4] own g4) (\<lambda>(t5, g5).
         Inr (register_dag g5 c)))))))"

text \<open>Without a tenant nothing is listed; otherwise its graphs, newest first.\<close>

definition get_dags :: "string option \<Rightarrow> orchestrator \<Rightarrow> task_dag list" where
  "get_dags tenant c =
     (case tenant of
        None \<Rightarrow> []
      | Some t \<Rightarrow> sort_key (\<lambda>g. - dg_created g) (filter (\<lambda>g. dg_tenant g = Some t) (map snd (or_dags c))))"

definition get_dag :: "string \<Rightarrow> orchestrator \<Rightarrow> task_dag option" where
  "get_dag i c = map_of (or_dags c) i"

record subagent_context =
  sc_task :: string
  sc_agent :: string
  sc_tenant :: uuid
  sc_subtask :: string
  sc_input :: context_map
  sc_schemas :: "string list"
  sc_chunks :: "string list"
  sc_constraints :: "string list"
  sc_created :: timestamp

definition create_subagent_context :: "timestamp \<Rightarrow> task_node \<Rightarrow> uuid \<Rightarrow> subagent_context" where
  "create_subagent_context tm n tenant =
     \<lparr>sc_task = tn_id n, sc_agent = tn_agent n, sc_tenant = tenant, sc_subtask = tn_name n, sc_input = tn_input n,
      sc_schemas = [''table_'' @ lower (tn_agent n)], sc_chunks = [], sc_constraints = [], sc_created = tm\<rparr>"

definition arbitrate_agent_proposals :: "action_proposal list \<Rightarrow> arbitration" where
  "arbitrate_agent_proposals ps = arbitrate ps"

subsection \<open>Growing a graph\<close>

lemma acyclic_new_sink:
  assumes "acyclic r" "k \<notin> Domain r" "k \<notin> D"
  shows "acyclic (r \<union> D \<times> {k})"
proof -
  have "(x, y) \<in> (r \<union> D \<times> {k})\<^sup>+ \<Longrightarrow> y \<noteq> k \<Longrightarrow> (x, y) \<in> r\<^sup>+" for x y
  proof (induction rule: trancl_induct)
    case (step y z)
    then have "(y, z) \<in> r" "y \<noteq> k" using assms(2) by auto
    with step show ?case by (meson trancl.trancl_into_trancl)
  qed auto
  moreover have "(k, k) \<notin> (r \<union> D \<times> {k})\<^sup>+"
    using assms(2,3) by (auto dest!: tranclD)
  ultimately show ?thesis using assms(1) unfolding acyclic_def by metis
qed

lemma sound_snoc:
  assumes s: "sound_nodes ns" and k: "k \<notin> set (map fst ns)" "tn_id n = k"
    and d: "distinct (tn_deps n)" "set (tn_deps n) \<subseteq> set (map fst ns)"
  shows "sound_nodes (ns @ [(k, n)])"
proof -
  have e: "edges (ns @ [(k, n)]) = edges ns \<union> set (tn_deps n) \<times> {k}" by (auto simp: edges_def)
  have closed: "closed_nodes ns" using s by (simp add: sound_nodes_def)
  have "k \<notin> Domain (edges ns)" using closed k(1) by (auto simp: closed_nodes_def node_keys_def)
  moreover have "k \<notin> set (tn_deps n)" using k(1) d(2) by auto
  ultimately have "acyclic (edges (ns @ [(k, n)]))"
    unfolding e using s by (intro acyclic_new_sink) (simp_all add: sound_nodes_def)
  moreover have "closed_nodes (ns @ [(k, n)])"
    using closed d(2) unfolding closed_nodes_def e by (auto simp: node_keys_def)
  moreover have "dict_nodes (ns @ [(k, n)])" using s k d(1) by (simp add: sound_nodes_def dict_nodes_def)
  ultimately show ?thesis by (simp add: sound_nodes_def)
qed

definition task_key :: "string \<Rightarrow> string \<Rightarrow> string" where
  "task_key name hex = ''task_'' @ replace_char (CHR '' '') (CHR ''_'') (lower name) @ ''_'' @ hex"

definition fresh_task :: "timestamp \<Rightarrow> string \<Rightarrow> string \<Rightarrow> string \<Rightarrow> string list \<Rightarrow> context_map \<Rightarrow> task_node" where
  "fresh_task tm k name agent deps payload =
     \<lparr>tn_id = k, tn_name = name, tn_agent = agent, tn_deps = remdups deps, tn_input = payload, tn_output = None,
      tn_evidence = None, tn_status = PENDING, tn_created = tm, tn_started = None, tn_completed = None, tn_error = None\<rparr>"

lemma update_new: "k \<notin> set (map fst ns) \<Longrightarrow> AList.update k n ns = ns @ [(k, n)]"
  by (induction ns) auto

lemma add_task_grows:
  assumes s: "sound_nodes (dg_nodes g)" and k: "task_key name hex \<notin> set (map fst (dg_nodes g))"
    and d: "set deps \<subseteq> set (map fst (dg_nodes g))"
  shows "add_task tm hex name agent deps payload g =
      Inr (task_key name hex, g\<lparr>dg_nodes := dg_nodes g @ [(task_key name hex,
        fresh_task tm (task_key name hex) name agent deps payload)]\<rparr>)"
    "sound_nodes (dg_nodes g @ [(task_key name hex, fresh_task tm (task_key name hex) name agent deps payload)])"
proof -
  let ?k = "task_key name hex"
  let ?n = "fresh_task tm ?k name agent deps payload"
  show sound: "sound_nodes (dg_nodes g @ [(?k, ?n)])"
    by (rule sound_snoc [OF s k]) (use d in \<open>simp_all add: fresh_task_def\<close>)
  have g': "set_node ?k ?n g = g\<lparr>dg_nodes := dg_nodes g @ [(?k, ?n)]\<rparr>"
    using update_new [OF k] by (simp add: set_node_def)
  have "validate_dag (g\<lparr>dg_nodes := dg_nodes g @ [(?k, ?n)]\<rparr>) = Inr ()"
    using sound validate_nodes_iff by (simp add: validate_dag_def sound_nodes_def)
  then show "add_task tm hex name agent deps payload g = Inr (?k, g\<lparr>dg_nodes := dg_nodes g @ [(?k, ?n)]\<rparr>)"
    using g' unfolding add_task_def add_node_def nonempty_or_def task_key_def fresh_task_def by (simp add: Let_def)
qed

subsection \<open>The two graphs\<close>

lemma task_keys:
  "task_key ''Parse RFQ Document'' x = ''task_parse_rfq_document_'' @ x"
  "task_key ''Calculate Landed Material Costs'' x = ''task_calculate_landed_material_costs_'' @ x"
  "task_key ''Verify Production Makespan Capacity'' x = ''task_verify_production_makespan_capacity_'' @ x"
  "task_key ''Generate Margin-Defended Quote'' x = ''task_generate_margin-defended_quote_'' @ x"
  "task_key ''Extract Order & Buyer Entity'' x = ''task_extract_order_&_buyer_entity_'' @ x"
  "task_key ''Check Inventory & Stock Availability'' x = ''task_check_inventory_&_stock_availability_'' @ x"
  "task_key ''Auto-Provision Customer & Sales Order'' x = ''task_auto-provision_customer_&_sales_order_'' @ x"
  "task_key ''Fulfill Delivery & Post Invoice to Ledger'' x = ''task_fulfill_delivery_&_post_invoice_to_ledger_'' @ x"
  "task_key ''Dispatch Order Confirmation & Invoice'' x = ''task_dispatch_order_confirmation_&_invoice_'' @ x"
proof -
  have key: "replace_char (CHR '' '') (CHR ''_'') (lower name) = y \<Longrightarrow> task_key name x = ''task_'' @ y @ ''_'' @ x" for name y
    by (simp add: task_key_def)
  show "task_key ''Parse RFQ Document'' x = ''task_parse_rfq_document_'' @ x"
    by (subst key [of _ "''parse_rfq_document''"]) (code_simp, simp)
  show "task_key ''Calculate Landed Material Costs'' x = ''task_calculate_landed_material_costs_'' @ x"
    by (subst key [of _ "''calculate_landed_material_costs''"]) (code_simp, simp)
  show "task_key ''Verify Production Makespan Capacity'' x = ''task_verify_production_makespan_capacity_'' @ x"
    by (subst key [of _ "''verify_production_makespan_capacity''"]) (code_simp, simp)
  show "task_key ''Generate Margin-Defended Quote'' x = ''task_generate_margin-defended_quote_'' @ x"
    by (subst key [of _ "''generate_margin-defended_quote''"]) (code_simp, simp)
  show "task_key ''Extract Order & Buyer Entity'' x = ''task_extract_order_&_buyer_entity_'' @ x"
    by (subst key [of _ "''extract_order_&_buyer_entity''"]) (code_simp, simp)
  show "task_key ''Check Inventory & Stock Availability'' x = ''task_check_inventory_&_stock_availability_'' @ x"
    by (subst key [of _ "''check_inventory_&_stock_availability''"]) (code_simp, simp)
  show "task_key ''Auto-Provision Customer & Sales Order'' x = ''task_auto-provision_customer_&_sales_order_'' @ x"
    by (subst key [of _ "''auto-provision_customer_&_sales_order''"]) (code_simp, simp)
  show "task_key ''Fulfill Delivery & Post Invoice to Ledger'' x = ''task_fulfill_delivery_&_post_invoice_to_ledger_'' @ x"
    by (subst key [of _ "''fulfill_delivery_&_post_invoice_to_ledger''"]) (code_simp, simp)
  show "task_key ''Dispatch Order Confirmation & Invoice'' x = ''task_dispatch_order_confirmation_&_invoice_'' @ x"
    by (subst key [of _ "''dispatch_order_confirmation_&_invoice''"]) (code_simp, simp)
qed

text \<open>The nodes a builder adds, from their names, agents, dependencies and suffixes.\<close>

fun grown :: "timestamp \<Rightarrow> task_nodes \<Rightarrow> (string \<times> string \<times> string \<times> string list \<times> context_map) list \<Rightarrow> task_nodes" where
  "grown tm ns [] = ns"
| "grown tm ns ((hex, name, agent, deps, payload) # ts) =
     grown tm (ns @ [(task_key name hex, fresh_task tm (task_key name hex) name agent deps payload)]) ts"

definition own_payload :: "uuid \<Rightarrow> context_map" where
  "own_payload tenant = [(''tenant_id'', JStr (str_uuid tenant))]"

definition rfq_tasks :: "(nat \<Rightarrow> string) \<Rightarrow> uuid \<Rightarrow> context_map \<Rightarrow> (string \<times> string \<times> string \<times> string list \<times> context_map) list" where
  "rfq_tasks h tenant payload =
     [(h 1, ''Parse RFQ Document'', ''REVENUE'', [], payload),
      (h 2, ''Calculate Landed Material Costs'', ''SUPPLY_CHAIN'', [task_key ''Parse RFQ Document'' (h 1)], own_payload tenant),
      (h 3, ''Verify Production Makespan Capacity'', ''PRODUCTION'', [task_key ''Parse RFQ Document'' (h 1)], own_payload tenant),
      (h 4, ''Generate Margin-Defended Quote'', ''REVENUE'',
         [task_key ''Calculate Landed Material Costs'' (h 2), task_key ''Verify Production Makespan Capacity'' (h 3)],
         [(''margin_floor'', JFloat (float_of (22 / 100)))])]"

definition order_tasks :: "(nat \<Rightarrow> string) \<Rightarrow> uuid \<Rightarrow> context_map \<Rightarrow> (string \<times> string \<times> string \<times> string list \<times> context_map) list" where
  "order_tasks h tenant payload =
     [(h 1, ''Extract Order & Buyer Entity'', ''REVENUE'', [], AList.update ''tenant_id'' (JStr (str_uuid tenant)) payload),
      (h 2, ''Check Inventory & Stock Availability'', ''SUPPLY_CHAIN'', [task_key ''Extract Order & Buyer Entity'' (h 1)],
         own_payload tenant),
      (h 3, ''Auto-Provision Customer & Sales Order'', ''REVENUE'',
         [task_key ''Extract Order & Buyer Entity'' (h 1), task_key ''Check Inventory & Stock Availability'' (h 2)],
         own_payload tenant),
      (h 4, ''Fulfill Delivery & Post Invoice to Ledger'', ''FINANCIAL_CONTROLLER'',
         [task_key ''Auto-Provision Customer & Sales Order'' (h 3)], own_payload tenant),
      (h 5, ''Dispatch Order Confirmation & Invoice'', ''REVENUE'',
         [task_key ''Fulfill Delivery & Post Invoice to Ledger'' (h 4)], own_payload tenant)]"

lemma add_task_step:
  assumes "sound_nodes (dg_nodes g)" "task_key name hex \<notin> set (map fst (dg_nodes g))" "set deps \<subseteq> set (map fst (dg_nodes g))"
  shows "ebind (add_task tm hex name agent deps payload g) f =
    f (task_key name hex, g\<lparr>dg_nodes := dg_nodes g @ [(task_key name hex,
        fresh_task tm (task_key name hex) name agent deps payload)]\<rparr>)"
  unfolding add_task_grows(1) [OF assms] by simp

text \<open>The keys of a list of tasks are new and its dependencies name earlier nodes.\<close>

fun well_formed_tasks :: "string list \<Rightarrow> (string \<times> string \<times> string \<times> string list \<times> context_map) list \<Rightarrow> bool" where
  "well_formed_tasks ks [] = True"
| "well_formed_tasks ks ((hex, name, agent, deps, payload) # ts) =
     (task_key name hex \<notin> set ks \<and> list_all (\<lambda>d. d \<in> set ks) deps \<and> well_formed_tasks (ks @ [task_key name hex]) ts)"

lemma grown_sound: "sound_nodes ns \<Longrightarrow> well_formed_tasks (map fst ns) ts \<Longrightarrow> sound_nodes (grown tm ns ts)"
proof (induction ts arbitrary: ns)
  case (Cons t ts)
  obtain hex name agent deps payload where t: "t = (hex, name, agent, deps, payload)" by (cases t)
  let ?g = "\<lparr>dg_id = [], dg_tenant = None, dg_customer = [], dg_inquiry = [], dg_created = tm, dg_nodes = ns\<rparr>"
  have "set deps \<subseteq> set (map fst (dg_nodes ?g))" using Cons.prems(2) t by (auto simp: list_all_iff)
  with add_task_grows(2) [of ?g name hex deps tm agent payload] Cons.prems t
  have "sound_nodes (ns @ [(task_key name hex, fresh_task tm (task_key name hex) name agent deps payload)])" by simp
  then show ?case using Cons t by simp
qed simp

lemma order_well_formed: "well_formed_tasks [] (order_tasks h tenant payload)"
  by (simp add: order_tasks_def task_keys)

lemma rfq_well_formed: "well_formed_tasks [] (rfq_tasks h tenant payload)"
  by (simp add: rfq_tasks_def task_keys)

lemma well_formed_take: "well_formed_tasks ks ts \<Longrightarrow> well_formed_tasks ks (take i ts)"
proof (induction ts arbitrary: ks i)
  case (Cons t ts)
  then show ?case by (cases t; cases i) auto
qed simp

lemma empty_sound: "sound_nodes []"
  by (simp add: sound_nodes_def dict_nodes_def closed_nodes_def edges_def acyclic_def)

lemma grown_prefix_sound: "well_formed_tasks [] ts \<Longrightarrow> sound_nodes (grown tm [] (take i ts))"
  using grown_sound [OF empty_sound, of "take i ts"] well_formed_take [of "[]" ts i] by simp

lemma new_dag_nodes [simp]: "dg_nodes (new_dag tm hex i t cu inq) = []" "dg_created (new_dag tm hex i t cu inq) = tm"
  by (simp_all add: new_dag_def)

lemma build_order:
  "\<exists>g c'. build_order_fulfillment_workflow_dag tm h tenant payload c = Inr (g, c') \<and>
     dg_nodes g = grown tm [] (order_tasks h tenant payload) \<and> dg_id g = ''dag_order_'' @ h 0 \<and>
     dg_tenant g = Some (str_uuid tenant)"
proof -
  note s = grown_prefix_sound [OF order_well_formed [of h tenant payload], of tm, unfolded order_tasks_def own_payload_def]
  note s1 = s [of 1, simplified] and s2 = s [of 2, simplified] and s3 = s [of 3, simplified] and s4 = s [of 4, simplified]
  have "str_uuid tenant \<noteq> []" using parse_str_uuid [of tenant] by (auto simp: parse_uuid_def)
  then show ?thesis
    using s1 s2 s3 s4 empty_sound
    by (simp add: build_order_fulfillment_workflow_dag_def add_task_step task_keys register_dag_def order_tasks_def
        own_payload_def Let_def new_dag_def nonempty_or_def)
qed

lemma build_rfq:
  "\<exists>g c'. build_rfq_workflow_dag tm h tenant payload c = Inr (g, c') \<and>
     dg_nodes g = grown tm [] (rfq_tasks h tenant payload) \<and> dg_id g = ''dag_rfq_'' @ h 0 \<and>
     dg_tenant g = Some (str_uuid tenant)"
proof -
  note s = grown_prefix_sound [OF rfq_well_formed [of h tenant payload], of tm, unfolded rfq_tasks_def own_payload_def]
  note s1 = s [of 1, simplified] and s2 = s [of 2, simplified] and s3 = s [of 3, simplified]
  have "str_uuid tenant \<noteq> []" using parse_str_uuid [of tenant] by (auto simp: parse_uuid_def)
  then show ?thesis
    using s1 s2 s3 empty_sound
    by (simp add: build_rfq_workflow_dag_def add_task_step task_keys register_dag_def rfq_tasks_def
        own_payload_def Let_def new_dag_def nonempty_or_def)
qed

lemma fresh_task_simps [simp]:
  "tn_name (fresh_task tm k name agent deps payload) = name"
  "tn_agent (fresh_task tm k name agent deps payload) = agent"
  "tn_deps (fresh_task tm k name agent deps payload) = remdups deps"
  "tn_status (fresh_task tm k name agent deps payload) = PENDING"
  by (simp_all add: fresh_task_def)

lemma grown_pending: "list_all (\<lambda>(k, n). tn_status n = PENDING) (grown tm ns ts) = list_all (\<lambda>(k, n). tn_status n = PENDING) ns"
proof (induction ts arbitrary: ns)
  case (Cons t ts)
  then show ?case by (cases t) simp
qed simp

lemma length_grown: "length (grown tm ns ts) = length ns + length ts"
proof (induction ts arbitrary: ns)
  case (Cons t ts)
  then show ?case by (cases t) simp
qed simp

lemma grown_run:
  assumes w: "well_formed_tasks [] ts" and g: "dg_nodes g = grown tm [] ts" "dg_tenant g = Some (str_uuid tenant)"
    and new: "find_record (dg_id g) rows = None" and f: "length ts \<le> fuel"
  shows "\<exists>r x. execute_dag fuel A g rows = Some (Inr r) \<and> is_finished (nodes_of r) \<and>
    advances (dg_nodes g) (nodes_of r) \<and> find_record (dg_id g) (rn_rows r) = Some x \<and>
    dr_status x = (if dg_nodes g = [] then ''DISPATCHED''
      else if list_all (\<lambda>(k, n). tn_status n = COMPLETED) (nodes_of r) then ''COMPLETED'' else ''FAILED'')"
proof (rule execute_dag_run)
  show s: "sound_nodes (dg_nodes g)" using grown_sound [OF empty_sound, of ts] w g(1) by simp
  have pend: "list_all (\<lambda>(k, n). tn_status n = PENDING) (dg_nodes g)" unfolding g(1) grown_pending by simp
  then show "at_rest (dg_nodes g)" by (auto simp: at_rest_def list_all_iff)
  have "str_uuid tenant \<noteq> []" using parse_str_uuid [of tenant] by (auto simp: parse_uuid_def)
  then show "savable g rows" using g(2) new by (simp add: savable_def)
  have "length (pending_nodes (dg_nodes g)) \<le> length (dg_nodes g)"
    unfolding pending_nodes_def using length_filter_le [of _ "map fst (dg_nodes g)"] by simp
  then show "length (pending_nodes (dg_nodes g)) \<le> fuel" using g(1) length_grown [of tm "[]" ts] f by simp
qed

text \<open>A pending node that no agent may run is never completed, nor is anything that depends on it.\<close>

lemma unregistered_never_completes:
  assumes "advances ns ms" and "map_of ns k = Some n" and "tn_status n = PENDING" and "\<not> runnable n"
  shows "status_of ms k \<noteq> Some COMPLETED"
  using assms unfolding advances_def status_of_def by fastforce

lemma dependent_never_completes:
  assumes "advances ns ms" and "map_of ns k = Some n" and "tn_status n = PENDING" and "j \<in> set (tn_deps n)"
    and "status_of ms j \<noteq> Some COMPLETED"
  shows "status_of ms k \<noteq> Some COMPLETED"
proof
  assume "status_of ms k = Some COMPLETED"
  with assms(1,2) have "status_of ns k = Some COMPLETED \<or> (\<forall>d \<in> set (tn_deps n). status_of ms d = Some COMPLETED)"
    unfolding advances_def by blast
  then show False using assms(2-5) by (auto simp: status_of_def)
qed

lemma not_all_completed:
  assumes "dict_nodes ns" "advances ns ms" "map_of ns k = Some n" "status_of ms k \<noteq> Some COMPLETED"
  shows "\<not> list_all (\<lambda>(k, n). tn_status n = COMPLETED) ms"
proof -
  obtain m where "map_of ms k = Some m" using assms(2,3) same_graph_lookup unfolding advances_def by blast
  then show ?thesis using assms(4) by (auto simp: list_all_iff status_of_def dest!: map_of_SomeD)
qed

lemma unregistered_actions:
  "map_of NODE_GUARDRAIL_ACTIONS (''REVENUE'', lower ''Auto-Provision Customer & Sales Order'') = None"
  "map_of NODE_GUARDRAIL_ACTIONS (''PRODUCTION'', lower ''Verify Production Makespan Capacity'') = None"
  by code_simp+

subsection \<open>Properties\<close>

text \<open>C35: the order workflow is always built, its execution returns and the stored workflow has failed: its
  third node has no registered action, so that the ledger posting that depends on it and the confirmation
  that depends on the posting are never completed, whatever the agents do.\<close>

theorem order_workflow_never_completes:
  assumes "find_record (''dag_order_'' @ h 0) rows = None" and "5 \<le> fuel"
  shows "\<exists>g c' r x. build_order_fulfillment_workflow_dag tm h tenant payload c = Inr (g, c') \<and>
    execute_dag fuel A g rows = Some (Inr r) \<and> find_record (dg_id g) (rn_rows r) = Some x \<and>
    dr_status x = ''FAILED'' \<and>
    status_of (dg_nodes (rn_dag r)) (''task_fulfill_delivery_&_post_invoice_to_ledger_'' @ h 4) \<noteq> Some COMPLETED \<and>
    status_of (dg_nodes (rn_dag r)) (''task_dispatch_order_confirmation_&_invoice_'' @ h 5) \<noteq> Some COMPLETED"
proof -
  let ?ts = "order_tasks h tenant payload"
  let ?k3 = "''task_auto-provision_customer_&_sales_order_'' @ h 3"
  let ?k4 = "''task_fulfill_delivery_&_post_invoice_to_ledger_'' @ h 4"
  let ?k5 = "''task_dispatch_order_confirmation_&_invoice_'' @ h 5"
  obtain g c' where g: "build_order_fulfillment_workflow_dag tm h tenant payload c = Inr (g, c')"
    "dg_nodes g = grown tm [] ?ts" "dg_id g = ''dag_order_'' @ h 0" "dg_tenant g = Some (str_uuid tenant)"
    using build_order [of tm h tenant payload c] by blast
  have len: "length ?ts = 5" by (simp add: order_tasks_def)
  obtain r x where r: "execute_dag fuel A g rows = Some (Inr r)" "advances (dg_nodes g) (nodes_of r)"
    "find_record (dg_id g) (rn_rows r) = Some x"
    "dr_status x = (if dg_nodes g = [] then ''DISPATCHED''
      else if list_all (\<lambda>(k, n). tn_status n = COMPLETED) (nodes_of r) then ''COMPLETED'' else ''FAILED'')"
    using grown_run [OF order_well_formed g(2,4), of rows fuel A] assms g(3) len by auto
  obtain n3 n4 n5 where n: "map_of (dg_nodes g) ?k3 = Some n3" "tn_status n3 = PENDING" "node_action n3 = None"
    "map_of (dg_nodes g) ?k4 = Some n4" "tn_status n4 = PENDING" "tn_deps n4 = [?k3]"
    "map_of (dg_nodes g) ?k5 = Some n5" "tn_status n5 = PENDING" "tn_deps n5 = [?k4]"
    unfolding g(2) by (simp add: order_tasks_def task_keys node_action_def unregistered_actions)
  have d: "dict_nodes (dg_nodes g)"
    using grown_sound [OF empty_sound, of ?ts tm] order_well_formed g(2) by (simp add: sound_nodes_def)
  have k3: "status_of (nodes_of r) ?k3 \<noteq> Some COMPLETED"
    by (rule unregistered_never_completes [OF r(2) n(1,2)]) (simp add: runnable_def n(3))
  have k4: "status_of (nodes_of r) ?k4 \<noteq> Some COMPLETED"
    by (rule dependent_never_completes [OF r(2) n(4,5) _ k3]) (simp add: n(6))
  have k5: "status_of (nodes_of r) ?k5 \<noteq> Some COMPLETED"
    by (rule dependent_never_completes [OF r(2) n(7,8) _ k4]) (simp add: n(9))
  have "dr_status x = ''FAILED''" using r(4) not_all_completed [OF d r(2) n(1) k3] n(1) by auto
  then show ?thesis using g(1) r(1,3) k4 k5 by blast
qed

theorem order_workflow_never_completes_witness:
  "\<exists>g c' r x. build_order_fulfillment_workflow_dag 5 (\<lambda>i. ''ab'') 3 [] \<lparr>or_dags = []\<rparr> = Inr (g, c') \<and>
    execute_dag 5 demo_agents g [] = Some (Inr r) \<and> find_record (dg_id g) (rn_rows r) = Some x \<and> dr_status x = ''FAILED''"
proof -
  have "find_record (''dag_order_'' @ (\<lambda>i. ''ab'') (0 :: nat)) [] = None" by (simp add: find_record_def)
  from order_workflow_never_completes [OF this, of 5 5 3 "[]" "\<lparr>or_dags = []\<rparr>" demo_agents] show ?thesis by blast
qed

text \<open>The quotation workflow is always built, its execution returns and the stored workflow has failed:
  the production agent is never permitted its node, and the quote depends on it.\<close>

theorem quotation_workflow_never_completes:
  assumes "find_record (''dag_rfq_'' @ h 0) rows = None" and "4 \<le> fuel"
  shows "\<exists>g c' r x. build_rfq_workflow_dag tm h tenant payload c = Inr (g, c') \<and>
    execute_dag fuel A g rows = Some (Inr r) \<and> find_record (dg_id g) (rn_rows r) = Some x \<and>
    dr_status x = ''FAILED'' \<and>
    status_of (dg_nodes (rn_dag r)) (''task_generate_margin-defended_quote_'' @ h 4) \<noteq> Some COMPLETED"
proof -
  let ?ts = "rfq_tasks h tenant payload"
  let ?k3 = "''task_verify_production_makespan_capacity_'' @ h 3"
  let ?k4 = "''task_generate_margin-defended_quote_'' @ h 4"
  obtain g c' where g: "build_rfq_workflow_dag tm h tenant payload c = Inr (g, c')"
    "dg_nodes g = grown tm [] ?ts" "dg_id g = ''dag_rfq_'' @ h 0" "dg_tenant g = Some (str_uuid tenant)"
    using build_rfq [of tm h tenant payload c] by blast
  have len: "length ?ts = 4" by (simp add: rfq_tasks_def)
  obtain r x where r: "execute_dag fuel A g rows = Some (Inr r)" "advances (dg_nodes g) (nodes_of r)"
    "find_record (dg_id g) (rn_rows r) = Some x"
    "dr_status x = (if dg_nodes g = [] then ''DISPATCHED''
      else if list_all (\<lambda>(k, n). tn_status n = COMPLETED) (nodes_of r) then ''COMPLETED'' else ''FAILED'')"
    using grown_run [OF rfq_well_formed g(2,4), of rows fuel A] assms g(3) len by auto
  obtain n3 n4 where n: "map_of (dg_nodes g) ?k3 = Some n3" "tn_status n3 = PENDING" "node_action n3 = None"
    "map_of (dg_nodes g) ?k4 = Some n4" "tn_status n4 = PENDING" "?k3 \<in> set (tn_deps n4)"
    unfolding g(2) by (simp add: rfq_tasks_def task_keys node_action_def unregistered_actions)
  have d: "dict_nodes (dg_nodes g)"
    using grown_sound [OF empty_sound, of ?ts tm] rfq_well_formed g(2) by (simp add: sound_nodes_def)
  have k3: "status_of (nodes_of r) ?k3 \<noteq> Some COMPLETED"
    by (rule unregistered_never_completes [OF r(2) n(1,2)]) (simp add: runnable_def n(3))
  have k4: "status_of (nodes_of r) ?k4 \<noteq> Some COMPLETED"
    by (rule dependent_never_completes [OF r(2) n(4-6) k3])
  have "dr_status x = ''FAILED''" using r(4) not_all_completed [OF d r(2) n(1) k3] n(1) by auto
  then show ?thesis using g(1) r(1,3) k4 by blast
qed

theorem quotation_workflow_never_completes_witness:
  "\<exists>g c' r x. build_rfq_workflow_dag 5 (\<lambda>i. ''ab'') 3 [] \<lparr>or_dags = []\<rparr> = Inr (g, c') \<and>
    execute_dag 4 demo_agents g [] = Some (Inr r) \<and> find_record (dg_id g) (rn_rows r) = Some x \<and> dr_status x = ''FAILED''"
proof -
  have "find_record (''dag_rfq_'' @ (\<lambda>i. ''ab'') (0 :: nat)) [] = None" by (simp add: find_record_def)
  from quotation_workflow_never_completes [OF this, of 4 5 3 "[]" "\<lparr>or_dags = []\<rparr>" demo_agents] show ?thesis by blast
qed

end
