(* ===== verification/Blanket.thy ===== *)
theory Blanket
  imports LedgerEngine
begin

section \<open>Blanket orders\<close>

text \<open>
  \<open>src/src/erp/workflows/procurement/blanket_order_service.py\<close>: purchasing contracts with agreed
  quantities and prices, and the purchase orders drawn from them. The lines of a contract are kept in the
  contract. The lemmas: a drawdown without repeated items stays within the contract and closes it exactly
  when nothing is left; one that repeats an item does not.
\<close>

subsection \<open>Contracts\<close>

definition blanket_line :: "uuid \<times> dec \<times> dec \<Rightarrow> blanket_item" where
  "blanket_line x =
     (let (i, q, p) = x in \<lparr>bl_item = i, bl_qty = q, bl_price = p, bl_ordered = 0, bl_total = dmul q p\<rparr>)"

definition blanket_columns :: "blanket_item \<Rightarrow> blanket_item result" where
  "blanket_columns l =
     ebind (numeric 18 4 (bl_qty l)) (\<lambda>q. ebind (numeric 18 4 (bl_price l)) (\<lambda>p.
     ebind (numeric 18 4 (bl_ordered l)) (\<lambda>d. ebind (numeric 18 4 (bl_total l)) (\<lambda>v.
       Inr (l\<lparr>bl_qty := q, bl_price := p, bl_ordered := d, bl_total := v\<rparr>)))))"

definition create_blanket_order ::
    "uuid \<Rightarrow> string \<Rightarrow> uuid \<Rightarrow> date \<Rightarrow> date \<Rightarrow> (uuid \<times> dec \<times> dec) list \<Rightarrow> db \<Rightarrow> (blanket_order \<times> db) result" where
  "create_blanket_order t number vendor d1 d2 xs s =
     (if d1 > d2
      then Inl (ValueError (''from_date ('' @ iso_date d1 @ '') cannot be after to_date ('' @ iso_date d2 @ '').''))
      else
        let (i, s1) = uuid4 s; ls = map blanket_line xs; total = foldl (\<lambda>a l. dadd a (bl_total l)) 0 ls;
            b = \<lparr>bk_tenant = t, bk_id = i, bk_number = number, bk_supplier = vendor, bk_from = d1, bk_to = d2,
                 bk_total = total, bk_status = ''ACTIVE'', bk_items = ls\<rparr>
        in if list_ex (\<lambda>x. bk_tenant x = t \<and> bk_number x = number) (blanket_orders s1) \<or>
              \<not> list_ex (\<lambda>x. su_id x = vendor) (suppliers s1) \<or>
              \<not> list_all (\<lambda>l. list_ex (\<lambda>x. it_id x = bl_item l) (items s1)) ls
           then Inl IntegrityError
           else ebind (emap blanket_columns ls) (\<lambda>cols. ebind (numeric 18 4 total) (\<lambda>v.
             Inr (b, s1\<lparr>blanket_orders := blanket_orders s1 @ [b\<lparr>bk_total := v, bk_items := cols\<rparr>]\<rparr>))))"

definition get_blanket_order :: "uuid \<Rightarrow> uuid \<Rightarrow> db \<Rightarrow> blanket_order option result" where
  "get_blanket_order t i s = one_or_none (filter (\<lambda>b. bk_tenant b = t \<and> bk_id b = i) (blanket_orders s))"

definition list_blanket_orders :: "uuid \<Rightarrow> uuid option \<Rightarrow> string option \<Rightarrow> db \<Rightarrow> blanket_order list" where
  "list_blanket_orders t vendor status s =
     rev (filter (\<lambda>b. bk_tenant b = t \<and> (case vendor of None \<Rightarrow> True | Some x \<Rightarrow> bk_supplier b = x) \<and>
            (case status of None \<Rightarrow> True | Some st \<Rightarrow> st = [] \<or> bk_status b = upper st)) (blanket_orders s))"

subsection \<open>Drawdowns\<close>

text \<open>\<open>items_by_id\<close>: of several lines for one item, the last one is found.\<close>

definition line_of :: "blanket_item list \<Rightarrow> uuid \<Rightarrow> nat option" where
  "line_of ls i =
     (case rev (filter (\<lambda>k. bl_item (ls ! k) = i) [0..<length ls]) of [] \<Rightarrow> None | k # _ \<Rightarrow> Some k)"

definition contract_code :: "db \<Rightarrow> uuid \<Rightarrow> string" where
  "contract_code s i = (case first_row (filter (\<lambda>x. it_id x = i) (items s)) of None \<Rightarrow> [] | Some x \<Rightarrow> it_code x)"

text \<open>The first loop checks every requested line against the contract, without booking it.\<close>

definition check_drawdown ::
    "env \<Rightarrow> blanket_order \<Rightarrow> db \<Rightarrow> dec \<times> (nat \<times> dec) list \<Rightarrow> uuid \<times> dec \<Rightarrow> (dec \<times> (nat \<times> dec) list) result" where
  "check_drawdown e b s acc x =
     (let (subtotal, ok) = acc; (i, q) = x
      in case line_of (bk_items b) i of
           None \<Rightarrow> Inl (ValueError (''Item '' @ str_uuid i @ '' is not part of Blanket Order '' @ bk_number b @ ''.''))
         | Some k \<Rightarrow>
             let l = bk_items b ! k; rest = dsub (bl_qty l) (bl_ordered l)
             in if q \<le> 0
                then Inl (ValueError (''Drawdown quantity must be positive, got '' @ dec_str e q @ ''.''))
                else if q > rest
                then Inl (ValueError (''Drawdown quantity '' @ dec_str e q @ '' exceeds remaining contract balance ''
                       @ dec_str e rest @ '' for item '' @ contract_code s i @ ''.''))
                else Inr (dadd subtotal (dmul q (bl_price l)), ok @ [(k, q)]))"

text \<open>The second loop books the checked lines.\<close>

definition book_drawdown :: "blanket_item list \<Rightarrow> nat \<times> dec \<Rightarrow> blanket_item list" where
  "book_drawdown ls x = (let (k, q) = x; l = ls ! k in ls[k := l\<lparr>bl_ordered := dadd (bl_ordered l) q\<rparr>])"

definition drawdown_item :: "uuid \<Rightarrow> uuid \<Rightarrow> blanket_item list \<Rightarrow> nat \<times> dec \<Rightarrow> po_item result" where
  "drawdown_item t po ls x =
     (let (k, q) = x; l = ls ! k
      in ebind (numeric 18 4 q) (\<lambda>a. ebind (numeric 18 4 (bl_price l)) (\<lambda>p. ebind (numeric 18 4 (dmul q (bl_price l))) (\<lambda>v.
           Inr \<lparr>pi_tenant = t, pi_po = po, pi_item = bl_item l, pi_qty = a, pi_price = p, pi_total = v\<rparr>))))"

definition create_po_from_blanket_order ::
    "env \<Rightarrow> uuid \<Rightarrow> uuid \<Rightarrow> string \<Rightarrow> (uuid \<times> dec) list \<Rightarrow> date option \<Rightarrow> db \<Rightarrow> (po_row \<times> db) result" where
  "create_po_from_blanket_order e t i number xs d s =
     ebind (get_blanket_order t i s) (\<lambda>r.
       case r of
         None \<Rightarrow> Inl (ValueError (''Blanket Order '' @ str_uuid i @ '' not found.''))
       | Some b \<Rightarrow>
           if bk_status b \<noteq> ''ACTIVE''
           then Inl (ValueError (''Blanket order status is '' @ quoted (bk_status b)
                  @ ''. Only ACTIVE contracts can be drawn down.''))
           else
             let day = or_else d (today e)
             in if day < bk_from b \<or> day > bk_to b
                then Inl (ValueError (''Order date '' @ iso_date day @ '' is outside active contract validity period (''
                       @ iso_date (bk_from b) @ '' to '' @ iso_date (bk_to b) @ '').''))
                else
                  ebind (efold (check_drawdown e b s) (0, []) xs) (\<lambda>(subtotal, ok).
                  let (po, s1) = uuid4 s;
                      p = \<lparr>po_tenant = t, po_id = po, po_number = number, po_supplier = bk_supplier b, po_date = day,
                           po_currency = ''USD'', po_subtotal = subtotal, po_tax = 0, po_total = subtotal,
                           po_status = PO_SUBMITTED\<rparr>;
                      ls = foldl book_drawdown (bk_items b) ok;
                      status = (if list_all (\<lambda>l. bl_ordered l \<ge> bl_qty l) ls then ''CLOSED'' else bk_status b)
                  in if list_ex (\<lambda>x. po_tenant x = t \<and> po_number x = number) (pos s1) then Inl IntegrityError
                     else ebind (numeric 18 4 subtotal) (\<lambda>v.
                       ebind (emap (drawdown_item t po (bk_items b)) ok) (\<lambda>rows.
                       ebind (emap blanket_columns ls) (\<lambda>cols.
                         Inr (p, s1\<lparr>pos := pos s1 @ [p\<lparr>po_subtotal := v, po_total := v\<rparr>],
                           po_items := po_items s1 @ rows,
                           blanket_orders := update_where (\<lambda>x. bk_id x = i)
                             (\<lambda>_. b\<lparr>bk_status := status, bk_items := cols\<rparr>) (blanket_orders s1)\<rparr>))))))"

subsection \<open>The checks\<close>

definition line_ok :: "blanket_item \<Rightarrow> bool" where
  "line_ok l \<longleftrightarrow>
     column_amount (bl_qty l) \<and> column_amount (bl_price l) \<and> column_amount (bl_ordered l) \<and>
     0 \<le> bl_ordered l \<and> bl_ordered l \<le> bl_qty l"

definition contracts_ok :: "db \<Rightarrow> bool" where
  "contracts_ok s \<longleftrightarrow> list_all (\<lambda>b. list_all line_ok (bk_items b)) (blanket_orders s)"

lemma line_of_Some: "line_of ls i = Some k \<Longrightarrow> k < length ls \<and> bl_item (ls ! k) = i"
proof -
  let ?F = "rev (filter (\<lambda>k. bl_item (ls ! k) = i) [0..<length ls])"
  assume "line_of ls i = Some k"
  then obtain ks where "?F = k # ks" unfolding line_of_def by (cases ?F) simp_all
  then have "k \<in> set ?F" by (simp only: list.set_intros)
  then show ?thesis by simp
qed

definition checked :: "blanket_item list \<Rightarrow> nat \<times> dec \<Rightarrow> bool" where
  "checked ls x \<longleftrightarrow>
     fst x < length ls \<and> 0 < snd x \<and> snd x \<le> dsub (bl_qty (ls ! fst x)) (bl_ordered (ls ! fst x))"

lemma check_drawdown_Inr:
  assumes "check_drawdown e b s (v, ok) x = Inr (v', ok')"
  shows "\<exists>k. ok' = ok @ [(k, snd x)] \<and> checked (bk_items b) (k, snd x) \<and> bl_item (bk_items b ! k) = fst x"
proof (cases x)
  case (Pair i q)
  obtain k where k: "line_of (bk_items b) i = Some k"
    using assms Pair by (cases "line_of (bk_items b) i") (auto simp: check_drawdown_def)
  with assms Pair line_of_Some [OF k] show ?thesis
    by (auto simp: check_drawdown_def checked_def Let_def split: if_splits)
qed

lemma check_drawdowns_Inr:
  "efold (check_drawdown e b s) (v, ok) xs = Inr (v', ok') \<Longrightarrow>
     \<exists>zs. ok' = ok @ zs \<and> list_all (checked (bk_items b)) zs \<and> map (\<lambda>z. (bl_item (bk_items b ! fst z), snd z)) zs = xs"
proof (induction xs arbitrary: v ok)
  case (Cons x xs)
  then obtain w u where u: "check_drawdown e b s (v, ok) x = Inr (w, u)"
    "efold (check_drawdown e b s) (w, u) xs = Inr (v', ok')" by (auto simp: ebind_eq_Inr)
  from check_drawdown_Inr [OF u(1)] obtain k where
    k: "u = ok @ [(k, snd x)]" "checked (bk_items b) (k, snd x)" "bl_item (bk_items b ! k) = fst x" by blast
  from Cons.IH [OF u(2)] obtain zs where
    z: "ok' = u @ zs" "list_all (checked (bk_items b)) zs" "map (\<lambda>z. (bl_item (bk_items b ! fst z), snd z)) zs = xs" by blast
  show ?case by (rule exI [of _ "(k, snd x) # zs"]) (use k z in auto)
qed simp

subsection \<open>The bookings\<close>

lemma length_book [simp]: "length (book_drawdown ls x) = length ls"
  by (cases x) (simp add: book_drawdown_def Let_def)

lemma book_nth: "k < length ls \<Longrightarrow> book_drawdown ls (k, q) ! j =
    (if j = k then (ls ! k)\<lparr>bl_ordered := dadd (bl_ordered (ls ! k)) q\<rparr> else ls ! j)"
  by (simp add: book_drawdown_def Let_def nth_list_update)

text \<open>Distinct lines are booked independently of each other, each once.\<close>

lemma book_all:
  "list_all (checked ls) zs \<Longrightarrow> distinct (map fst zs) \<Longrightarrow> foldl book_drawdown ls zs =
     map (\<lambda>j. case map_of zs j of None \<Rightarrow> ls ! j | Some q \<Rightarrow> (ls ! j)\<lparr>bl_ordered := dadd (bl_ordered (ls ! j)) q\<rparr>) [0..<length ls]"
proof (induction zs arbitrary: ls)
  case Nil
  then show ?case by (simp add: map_nth)
next
  case (Cons z zs)
  obtain k q where z: "z = (k, q)" by (cases z)
  have k: "k < length ls" "k \<notin> fst ` set zs" using Cons.prems z by (auto simp: checked_def)
  have "list_all (checked (book_drawdown ls z)) zs"
  proof (unfold list_all_iff, intro ballI)
    fix x assume x: "x \<in> set zs"
    then have "fst x \<noteq> k" using k(2) by auto
    with x Cons.prems(1) show "checked (book_drawdown ls z) x" by (simp add: checked_def z book_nth k(1) list_all_iff)
  qed
  from Cons.IH [OF this] Cons.prems(2) have "foldl book_drawdown ls (z # zs) =
      map (\<lambda>j. case map_of zs j of None \<Rightarrow> book_drawdown ls z ! j | Some q \<Rightarrow>
        (book_drawdown ls z ! j)\<lparr>bl_ordered := dadd (bl_ordered (book_drawdown ls z ! j)) q\<rparr>) [0..<length ls]" by simp
  also have "\<dots> = map (\<lambda>j. case map_of (z # zs) j of None \<Rightarrow> ls ! j |
      Some q \<Rightarrow> (ls ! j)\<lparr>bl_ordered := dadd (bl_ordered (ls ! j)) q\<rparr>) [0..<length ls]"
  proof (rule map_cong [OF refl])
    fix j
    have "map_of zs k = None" using k(2) by (simp add: map_of_eq_None_iff)
    then show "(case map_of zs j of None \<Rightarrow> book_drawdown ls z ! j | Some q \<Rightarrow>
        (book_drawdown ls z ! j)\<lparr>bl_ordered := dadd (bl_ordered (book_drawdown ls z ! j)) q\<rparr>) =
      (case map_of (z # zs) j of None \<Rightarrow> ls ! j | Some q \<Rightarrow> (ls ! j)\<lparr>bl_ordered := dadd (bl_ordered (ls ! j)) q\<rparr>)"
      by (simp add: z book_nth k(1) split: option.split)
  qed
  finally show ?case .
qed

subsection \<open>A drawdown as a whole\<close>

lemma drawdown_Inr:
  assumes "create_po_from_blanket_order e t i number xs d s = Inr (p, s')"
  obtains b zs cols where "get_blanket_order t i s = Inr (Some b)" "bk_status b = ''ACTIVE''"
    "list_all (checked (bk_items b)) zs" "map (\<lambda>z. (bl_item (bk_items b ! fst z), snd z)) zs = xs"
    "emap blanket_columns (foldl book_drawdown (bk_items b) zs) = Inr cols"
    "blanket_orders s' = update_where (\<lambda>x. bk_id x = i)
       (\<lambda>_. b\<lparr>bk_status := (if list_all (\<lambda>l. bl_ordered l \<ge> bl_qty l) (foldl book_drawdown (bk_items b) zs)
                              then ''CLOSED'' else bk_status b), bk_items := cols\<rparr>) (blanket_orders s)"
proof -
  obtain b where b: "get_blanket_order t i s = Inr (Some b)"
    using assms unfolding create_po_from_blanket_order_def found_eq_Inr by blast
  have st: "bk_status b = ''ACTIVE''"
    using assms b by (cases "bk_status b = ''ACTIVE''") (simp_all add: create_po_from_blanket_order_def)
  let ?day = "or_else d (today e)"
  have dy: "\<not> (?day < bk_from b \<or> ?day > bk_to b)"
    using assms b st by (cases "?day < bk_from b \<or> ?day > bk_to b") (simp_all add: create_po_from_blanket_order_def Let_def)
  obtain v zs where z: "efold (check_drawdown e b s) (0, []) xs = Inr (v, zs)"
    using assms b st dy by (cases "efold (check_drawdown e b s) (0, []) xs")
      (auto simp: create_po_from_blanket_order_def Let_def)
  obtain cols where c: "emap blanket_columns (foldl book_drawdown (bk_items b) zs) = Inr cols"
    "blanket_orders s' = update_where (\<lambda>x. bk_id x = i)
       (\<lambda>_. b\<lparr>bk_status := (if list_all (\<lambda>l. bl_ordered l \<ge> bl_qty l) (foldl book_drawdown (bk_items b) zs)
                              then ''CLOSED'' else bk_status b), bk_items := cols\<rparr>) (blanket_orders s)"
    using assms b st dy z
    by (auto simp: create_po_from_blanket_order_def uuid4_def Let_def ebind_eq_Inr split del: if_split split: if_split_asm)
  from check_drawdowns_Inr [OF z] show thesis using that [OF b st _ _ c] by simp
qed

lemma blanket_columns_Inr:
  "blanket_columns l = Inr m \<Longrightarrow>
     m = l\<lparr>bl_qty := cents (bl_qty l), bl_price := cents (bl_price l), bl_ordered := cents (bl_ordered l),
       bl_total := cents (bl_total l)\<rparr> \<and>
     column_amount (bl_qty m) \<and> column_amount (bl_price m) \<and> column_amount (bl_ordered m)"
  by (auto simp: blanket_columns_def ebind_eq_Inr numeric_Inr column_amount_def)

text \<open>Booking what is left of a line, or less, keeps the line within its quantity; rounding is monotone.\<close>

lemma booked_line_ok:
  assumes "line_ok l" "0 < q" "q \<le> dsub (bl_qty l) (bl_ordered l)"
    and "blanket_columns (l\<lparr>bl_ordered := dadd (bl_ordered l) q\<rparr>) = Inr m"
  shows "line_ok m \<and> dadd (bl_ordered l) q \<le> bl_qty l"
proof -
  have c: "column_amount (bl_qty l)" "column_amount (bl_ordered l)" "0 \<le> bl_ordered l" using assms(1) by (simp_all add: line_ok_def)
  then have "q \<le> bl_qty l - bl_ordered l" using assms(3) by (simp add: dsub_column)
  then have le: "bl_ordered l + q \<le> bl_qty l" "0 \<le> bl_ordered l + q" using c assms(2) by simp_all
  have "ctx (bl_qty l) = bl_qty l" using c(1) by (intro small_ctx [of "10 ^ 14"]) (auto simp: small_def column_amount_def)
  then have d: "dadd (bl_ordered l) q \<le> bl_qty l" "0 \<le> dadd (bl_ordered l) q"
    unfolding dadd_def using ctx.le_exact [OF _ le(1)] ctx.rnd_nonneg [OF le(2)] by blast+
  moreover have "cents (bl_qty l) = bl_qty l" "cents (bl_price l) = bl_price l"
    using assms(1) by (auto simp: line_ok_def column_amount_def quant_places)
  ultimately show ?thesis
    using blanket_columns_Inr [OF assms(4)] quant_up.le_exact [of 4 "bl_qty l" "dadd (bl_ordered l) q"]
      quant_up.rnd_nonneg [of "dadd (bl_ordered l) q" 4] by (auto simp: line_ok_def)
qed

lemma unbooked_line_ok:
  assumes "line_ok l" "blanket_columns l = Inr m"
  shows "line_ok m \<and> bl_ordered m = bl_ordered l \<and> bl_qty m = bl_qty l"
  using blanket_columns_Inr [OF assms(2)] assms(1) by (auto simp: line_ok_def column_amount_def quant_places)

text \<open>The lines of a contract after a drawdown, one by one.\<close>

lemma booked_lines:
  assumes "list_all line_ok ls" "list_all (checked ls) zs" "distinct (map fst zs)"
    and "emap blanket_columns (foldl book_drawdown ls zs) = Inr cols"
  shows "length cols = length ls"
    and "j < length ls \<Longrightarrow> line_ok (cols ! j) \<and> bl_qty (cols ! j) = bl_qty (ls ! j) \<and>
      bl_ordered (foldl book_drawdown ls zs ! j) \<le> bl_qty (ls ! j) \<and>
      bl_qty (foldl book_drawdown ls zs ! j) = bl_qty (ls ! j) \<and>
      (list_all (\<lambda>z. places 4 (snd z)) zs \<longrightarrow>
         bl_ordered (cols ! j) = bl_ordered (ls ! j) + or_else (map_of zs j) 0 \<and>
         bl_ordered (foldl book_drawdown ls zs ! j) = bl_ordered (cols ! j))"
proof -
  note all = book_all [OF assms(2,3)]
  show len: "length cols = length ls" using emap_length [OF assms(4)] by (simp add: all)
  assume j: "j < length ls"
  let ?l = "ls ! j"
  have ok: "line_ok ?l" using assms(1) j by (simp add: list_all_length)
  have col: "blanket_columns (foldl book_drawdown ls zs ! j) = Inr (cols ! j)"
    by (rule emap_nth [OF assms(4)]) (simp add: all j)
  show "line_ok (cols ! j) \<and> bl_qty (cols ! j) = bl_qty ?l \<and> bl_ordered (foldl book_drawdown ls zs ! j) \<le> bl_qty ?l \<and>
      bl_qty (foldl book_drawdown ls zs ! j) = bl_qty ?l \<and>
      (list_all (\<lambda>z. places 4 (snd z)) zs \<longrightarrow>
         bl_ordered (cols ! j) = bl_ordered ?l + or_else (map_of zs j) 0 \<and>
         bl_ordered (foldl book_drawdown ls zs ! j) = bl_ordered (cols ! j))"
  proof (cases "map_of zs j")
    case None
    then have f: "foldl book_drawdown ls zs ! j = ?l" by (simp add: all j)
    show ?thesis
      using unbooked_line_ok [OF ok col [unfolded f]] ok None unfolding f by (simp add: line_ok_def or_else_def)
  next
    case (Some q)
    then have f: "foldl book_drawdown ls zs ! j = ?l\<lparr>bl_ordered := dadd (bl_ordered ?l) q\<rparr>" by (simp add: all j)
    have z: "(j, q) \<in> set zs" using Some by (rule map_of_SomeD)
    then have q: "0 < q" "q \<le> dsub (bl_qty ?l) (bl_ordered ?l)" using assms(2) by (auto simp: list_all_iff checked_def)
    note b = booked_line_ok [OF ok q col [unfolded f]]
    have c: "column_amount (bl_qty ?l)" "column_amount (bl_ordered ?l)" using ok by (simp_all add: line_ok_def)
    have e: "dadd (bl_ordered ?l) q = bl_ordered ?l + q" if "places 4 q"
    proof (rule dadd_small [of "10 ^ 14" _ "10 ^ 15"])
      show "small (10 ^ 15) q"
        using that q dsub_column [OF c] c by (auto simp: small_def column_amount_def abs_if split: if_splits)
    qed (use c in \<open>auto simp: small_def column_amount_def\<close>)
    have e': "cents (bl_ordered ?l + q) = bl_ordered ?l + q" if "places 4 q"
      using that c(2) by (intro quant_places) (auto simp: column_amount_def)
    have "places 4 q" if "list_all (\<lambda>z. places 4 (snd z)) zs" using that z by (auto simp: list_all_iff)
    then show ?thesis
      using b blanket_columns_Inr [OF col [unfolded f]] e e' c Some
      by (auto simp: f or_else_def quant_places column_amount_def [of "bl_qty ?l"] column_amount_def [of "bl_ordered ?l"])
  qed
qed

lemma sum_booked:
  assumes "distinct (map fst zs)" "list_all (\<lambda>z. fst z < n) zs"
  shows "(\<Sum>j\<leftarrow>[0..<n]. or_else (map_of zs j) 0) = (\<Sum>z\<leftarrow>zs. snd z :: rat)"
  using assms
proof (induction zs)
  case Nil
  then show ?case by (simp add: or_else_def sum_list_triv)
next
  case (Cons z zs)
  obtain k q where z: "z = (k, q)" by (cases z)
  have "map_of zs k = None" using Cons.prems(1) z by (simp add: map_of_eq_None_iff)
  then have "or_else (map_of (z # zs) j) 0 = or_else (map_of zs j) 0 + (if j = k then q else 0)" for j
    by (simp add: z or_else_def)
  then have "(\<Sum>j\<leftarrow>[0..<n]. or_else (map_of (z # zs) j) 0) =
      (\<Sum>j\<leftarrow>[0..<n]. or_else (map_of zs j) 0) + (\<Sum>j\<leftarrow>[0..<n]. if j = k then q else 0)"
    by (simp only: sum_list_addf)
  moreover have "(\<Sum>j\<leftarrow>[0..<n]. if j = k then q else 0) = q"
    using Cons.prems(2) by (simp add: z interv_sum_list_conv_sum_set_nat sum.delta)
  ultimately show ?case using Cons z by simp
qed

lemma sum_by_index: "(\<Sum>x\<leftarrow>xs. f x) = (\<Sum>j\<leftarrow>[0..<length xs]. f (xs ! j))"
  by (intro arg_cong [of _ _ sum_list] nth_equalityI) simp_all

lemma booked_sum:
  assumes "list_all line_ok ls" "list_all (checked ls) zs" "distinct (map fst zs)"
    and "emap blanket_columns (foldl book_drawdown ls zs) = Inr cols" "list_all (\<lambda>z. places 4 (snd z)) zs"
  shows "(\<Sum>l\<leftarrow>cols. bl_ordered l) = (\<Sum>l\<leftarrow>ls. bl_ordered l) + (\<Sum>z\<leftarrow>zs. snd z) \<and>
    list_all (\<lambda>l. bl_ordered l \<ge> bl_qty l) (foldl book_drawdown ls zs) = list_all (\<lambda>l. bl_ordered l = bl_qty l) cols"
proof
  note lines = booked_lines [OF assms(1-4)]
  have lt: "list_all (\<lambda>z. fst z < length ls) zs" using assms(2) by (auto simp: list_all_iff checked_def)
  have "(\<Sum>l\<leftarrow>cols. bl_ordered l) = (\<Sum>j\<leftarrow>[0..<length ls]. bl_ordered (cols ! j))"
    using lines(1) by (simp add: sum_by_index [of bl_ordered cols])
  also have "\<dots> = (\<Sum>j\<leftarrow>[0..<length ls]. bl_ordered (ls ! j) + or_else (map_of zs j) 0)"
    using lines(2) assms(5) by (intro arg_cong [of _ _ sum_list] map_cong) auto
  also have "\<dots> = (\<Sum>j\<leftarrow>[0..<length ls]. bl_ordered (ls ! j)) + (\<Sum>z\<leftarrow>zs. snd z)"
    by (simp only: sum_list_addf sum_booked [OF assms(3) lt])
  also have "(\<Sum>j\<leftarrow>[0..<length ls]. bl_ordered (ls ! j)) = (\<Sum>l\<leftarrow>ls. bl_ordered l)"
    by (rule sum_by_index [symmetric])
  finally show "(\<Sum>l\<leftarrow>cols. bl_ordered l) = (\<Sum>l\<leftarrow>ls. bl_ordered l) + (\<Sum>z\<leftarrow>zs. snd z)" .
  have "length (foldl book_drawdown ls zs) = length ls" by (simp add: book_all [OF assms(2,3)])
  then show "list_all (\<lambda>l. bl_ordered l \<ge> bl_qty l) (foldl book_drawdown ls zs) = list_all (\<lambda>l. bl_ordered l = bl_qty l) cols"
    using lines assms(5) by (force simp: list_all_length)
qed

subsection \<open>Properties\<close>

text \<open>C31: a drawdown stays within its contract. A drawdown that names every item once leaves every line of
  every contract ordered to at most its agreed quantity, whatever the precision of the request; when the
  quantities have four places, exactly what was asked for is booked, and the contract is closed exactly
  when nothing is left of any of its lines.\<close>

theorem drawdowns_stay_within_contract:
  assumes "create_po_from_blanket_order e t i number xs d s = Inr (p, s')" and "contracts_ok s" and "distinct (map fst xs)"
  shows "contracts_ok s' \<and> (\<exists>b. get_blanket_order t i s = Inr (Some b) \<and>
    (\<exists>b' \<in> set (blanket_orders s'). bk_id b' = i \<and> bk_tenant b' = t \<and>
      (list_all (\<lambda>x. places 4 (snd x)) xs \<longrightarrow>
         (\<Sum>l\<leftarrow>bk_items b'. bl_ordered l) = (\<Sum>l\<leftarrow>bk_items b. bl_ordered l) + (\<Sum>x\<leftarrow>xs. snd x) \<and>
         (bk_status b' = ''CLOSED'' \<longleftrightarrow> list_all (\<lambda>l. bl_ordered l = bl_qty l) (bk_items b')))))"
proof (rule drawdown_Inr [OF assms(1)])
  fix b :: blanket_order and zs cols
  let ?ls = "bk_items b" and ?us = "foldl book_drawdown (bk_items b) zs"
  let ?b = "b\<lparr>bk_status := (if list_all (\<lambda>l. bl_ordered l \<ge> bl_qty l) ?us then ''CLOSED'' else bk_status b), bk_items := cols\<rparr>"
  assume b: "get_blanket_order t i s = Inr (Some b)" "bk_status b = ''ACTIVE''"
    and z: "list_all (checked ?ls) zs" "map (\<lambda>z. (bl_item (?ls ! fst z), snd z)) zs = xs"
    and c: "emap blanket_columns ?us = Inr cols"
    and s': "blanket_orders s' = update_where (\<lambda>x. bk_id x = i) (\<lambda>_. ?b) (blanket_orders s)"
  have in_s: "b \<in> set (blanket_orders s)" "bk_tenant b = t" "bk_id b = i"
    using one_or_none_filter [OF b(1) [unfolded get_blanket_order_def]] by simp_all
  then have ok: "list_all line_ok ?ls" using assms(2) by (simp add: contracts_ok_def list_all_iff)
  have d: "distinct (map fst zs)"
  proof (rule distinct_map [THEN iffD1, THEN conjunct1])
    show "distinct (map (\<lambda>k. bl_item (?ls ! k)) (map fst zs))" using assms(3) z(2) by (auto simp: comp_def)
  qed
  note lines = booked_lines [OF ok z(1) d c]
  have cols: "list_all line_ok cols" using lines by (simp add: list_all_length)
  have "list_all (\<lambda>b. list_all line_ok (bk_items b)) (blanket_orders s')"
    using assms(2) cols unfolding s' contracts_ok_def by (auto simp: list_all_iff set_update_where)
  moreover have "?b \<in> set (blanket_orders s')" using in_s unfolding s' by (auto simp: set_update_where)
  moreover have "(\<Sum>l\<leftarrow>cols. bl_ordered l) = (\<Sum>l\<leftarrow>?ls. bl_ordered l) + (\<Sum>x\<leftarrow>xs. snd x) \<and>
      (bk_status ?b = ''CLOSED'' \<longleftrightarrow> list_all (\<lambda>l. bl_ordered l = bl_qty l) cols)"
    if p: "list_all (\<lambda>x. places 4 (snd x)) xs"
  proof -
    have p: "list_all (\<lambda>z. places 4 (snd z)) zs" using p unfolding z(2) [symmetric] by (simp add: list_all_iff)
    have "(\<Sum>z\<leftarrow>zs. snd z) = (\<Sum>x\<leftarrow>xs. snd x)" unfolding z(2) [symmetric] by (simp add: comp_def)
    with booked_sum [OF ok z(1) d c p] b(2) show ?thesis by simp
  qed
  ultimately show ?thesis
    using b(1) in_s unfolding contracts_ok_def by (intro conjI exI [of _ b] bexI [of _ ?b]) simp_all
qed

definition demo_contract :: db where
  "demo_contract = empty_db\<lparr>next_id := 9, items := [\<lparr>it_tenant = 0, it_id = 5, it_code = ''I'', it_name = ''I'', it_uom = ''EA'',
     it_rate = 1, it_group = None, it_weight = 0, it_purchase = True, it_sales = True, it_active = True\<rparr>],
     blanket_orders := [\<lparr>bk_tenant = 0, bk_id = 1, bk_number = ''B'', bk_supplier = 2, bk_from = 0, bk_to = 999999,
       bk_total = 30, bk_status = ''ACTIVE'',
       bk_items = [\<lparr>bl_item = 5, bl_qty = 10, bl_price = 3, bl_ordered = 0, bl_total = 30\<rparr>]\<rparr>]\<rparr>"

theorem drawdowns_stay_within_contract_witness:
  "\<exists>p s b. create_po_from_blanket_order demo_env 0 1 ''P'' [(5, 10)] None demo_contract = Inr (p, s) \<and> contracts_ok s \<and>
     b \<in> set (blanket_orders s) \<and> bk_status b = ''CLOSED'' \<and> (\<Sum>l\<leftarrow>bk_items b. bl_ordered l) = 10"
proof -
  have "(case create_po_from_blanket_order demo_env 0 1 ''P'' [(5, 10)] None demo_contract of
      Inl _ \<Rightarrow> False | Inr (p, s) \<Rightarrow> map (\<lambda>b. (bk_status b, map bl_qty (bk_items b))) (blanket_orders s) = [(''CLOSED'', [10])])"
    by code_simp
  then obtain p s where c: "create_po_from_blanket_order demo_env 0 1 ''P'' [(5, 10)] None demo_contract = Inr (p, s)"
    and l: "map (\<lambda>b. (bk_status b, map bl_qty (bk_items b))) (blanket_orders s) = [(''CLOSED'', [10])]"
    by (auto split: sum.splits)
  have "contracts_ok demo_contract"
    by (simp add: contracts_ok_def demo_contract_def line_ok_def column_amount_def places_def)
  from drawdowns_stay_within_contract [OF c this] obtain b b' where "contracts_ok s"
    "get_blanket_order 0 1 demo_contract = Inr (Some b)" "b' \<in> set (blanket_orders s)"
    "(\<Sum>l\<leftarrow>bk_items b'. bl_ordered l) = (\<Sum>l\<leftarrow>bk_items b. bl_ordered l) + 10"
    by (auto simp: places_def)
  moreover from this have "bk_status b' = ''CLOSED''" using l by auto
  moreover have "(\<Sum>l\<leftarrow>bk_items b. bl_ordered l) = 0"
    using calculation(2) by (auto simp: get_blanket_order_def demo_contract_def)
  ultimately show ?thesis using c by auto
qed

text \<open>The checks read the contract, not what earlier lines of the same request take from it: a request that
  names an item twice orders more than was agreed.\<close>

theorem repeated_item_exceeds_contract:
  "\<exists>p s b. create_po_from_blanket_order demo_env 0 1 ''P'' [(5, 8), (5, 8)] None demo_contract = Inr (p, s) \<and>
     b \<in> set (blanket_orders s) \<and> map (\<lambda>l. (bl_qty l, bl_ordered l)) (bk_items b) = [(10, 16)]"
proof -
  have "(case create_po_from_blanket_order demo_env 0 1 ''P'' [(5, 8), (5, 8)] None demo_contract of
      Inl _ \<Rightarrow> False | Inr (p, s) \<Rightarrow> map (\<lambda>b. map (\<lambda>l. (bl_qty l, bl_ordered l)) (bk_items b)) (blanket_orders s) = [[(10, 16)]])"
    by code_simp
  then show ?thesis by (auto split: sum.splits)
qed

end
