(* ===== verification/LandedCost.thy ===== *)
theory LandedCost
  imports LedgerEngine
begin

section \<open>Landed cost\<close>

text \<open>
  \<open>src/src/erp/workflows/procurement/landed_cost_service.py\<close>: vouchers that spread freight and customs over
  received goods, and their submission, which revalues the items and posts through the ledger engine. The
  lemmas: the charges are distributed completely, to the last place; a submission that the ledger rejects
  is reported as done all the same.
\<close>

subsection \<open>Vouchers\<close>

text \<open>The quantity and the rate that a line of a receipt counts with.\<close>

definition receipt_qty :: "grn_item \<Rightarrow> dec" where
  "receipt_qty g = (if gi_accepted g > 0 then gi_accepted g else gi_qty g)"

definition receipt_rate :: "db \<Rightarrow> grn_item \<Rightarrow> dec result" where
  "receipt_rate s g =
     (if gi_price g > 0 then Inr (gi_price g)
      else case first_row (filter (\<lambda>x. it_id x = gi_item g) (items s)) of
             None \<Rightarrow> Inl AttributeError
           | Some x \<Rightarrow> Inr (if it_rate x = 0 then 1 else it_rate x))"

text \<open>A line of a receipt with its quantity, rate and amount.\<close>

type_synonym receipt = "grn_item \<times> dec \<times> dec \<times> dec"

definition receipt_of :: "db \<Rightarrow> grn_item \<Rightarrow> receipt result" where
  "receipt_of s g = ebind (receipt_rate s g) (\<lambda>r. Inr (g, receipt_qty g, r, dmul (receipt_qty g) r))"

definition receipt_lines :: "uuid \<Rightarrow> uuid list \<Rightarrow> db \<Rightarrow> grn_item list" where
  "receipt_lines t ids s =
     concat (map (\<lambda>r. filter (\<lambda>g. gi_grn g = gr_id r) (grn_items s))
       (filter (\<lambda>r. gr_tenant r = t \<and> gr_id r \<in> set ids) (grns s)))"

text \<open>The share of one line; the last one takes what is left.\<close>

definition charge_fraction :: "string \<Rightarrow> dec \<Rightarrow> dec \<Rightarrow> nat \<Rightarrow> receipt \<Rightarrow> dec result" where
  "charge_fraction basis value qty n x =
     (let (_, q, _, amount) = x
      in if basis = ''VALUATION'' \<and> value > 0 then ddiv amount value
         else if basis = ''QUANTITY'' \<and> qty > 0 then ddiv q qty
         else ddiv 1 (of_nat n))"

definition apportion ::
    "string \<Rightarrow> dec \<Rightarrow> dec \<Rightarrow> dec \<Rightarrow> nat \<Rightarrow> dec \<times> landed_item list \<Rightarrow> nat \<times> receipt \<Rightarrow> (dec \<times> landed_item list) result" where
  "apportion basis cost value qty n acc p =
     (let (rest, rows) = acc; (k, x) = p; (g, q, r, amount) = x
      in ebind (if k = n - 1 then Inr (rest, rest)
                else ebind (charge_fraction basis value qty n x) (\<lambda>f.
                     ebind (quantize round_even 4 (dmul cost f)) (\<lambda>a. Inr (a, dsub rest a)))) (\<lambda>(a, rest').
         ebind (ddiv a (max q 1)) (\<lambda>per. ebind (quantize round_even 4 (dadd r per)) (\<lambda>rate.
           Inr (rest', rows @ [\<lparr>li_grn = gi_grn g, li_grn_item = gi_id g, li_item = gi_item g, li_qty = q, li_rate = r,
             li_amount = amount, li_charges = a, li_new_rate = rate\<rparr>])))))"

definition charge_columns :: "landed_charge \<Rightarrow> landed_charge result" where
  "charge_columns c = ebind (numeric 18 4 (lc_amount c)) (\<lambda>a. Inr (c\<lparr>lc_amount := a\<rparr>))"

definition landed_columns :: "landed_item \<Rightarrow> landed_item result" where
  "landed_columns i =
     ebind (numeric 18 4 (li_qty i)) (\<lambda>q. ebind (numeric 18 4 (li_rate i)) (\<lambda>r.
     ebind (numeric 18 4 (li_amount i)) (\<lambda>v. ebind (numeric 18 4 (li_charges i)) (\<lambda>a.
     ebind (numeric 18 4 (li_new_rate i)) (\<lambda>w.
       Inr (i\<lparr>li_qty := q, li_rate := r, li_amount := v, li_charges := a, li_new_rate := w\<rparr>))))))"

definition get_landed_cost_voucher :: "uuid \<Rightarrow> uuid \<Rightarrow> db \<Rightarrow> landed_voucher option result" where
  "get_landed_cost_voucher t i s = one_or_none (filter (\<lambda>v. lv_tenant v = t \<and> lv_id v = i) (landed_vouchers s))"

definition landed_charge_of :: "string option \<times> string \<times> dec \<Rightarrow> landed_charge" where
  "landed_charge_of c =
     (let (acct, txt, a) = c
      in \<lparr>lc_account = or_else acct ''5100-FREIGHT-CUSTOMS-CLEARING'', lc_text = txt, lc_amount = a\<rparr>)"

definition create_landed_cost_voucher ::
    "env \<Rightarrow> uuid \<Rightarrow> string \<Rightarrow> uuid list \<Rightarrow> (string option \<times> string \<times> dec) list \<Rightarrow> string \<Rightarrow> date option \<Rightarrow> string \<Rightarrow>
     string option \<Rightarrow> db \<Rightarrow> (landed_voucher \<times> db) result" where
  "create_landed_cost_voucher e t number ids cs basis d company notes s =
     (let day = or_else d (today e); basis' = upper basis; cost = foldl dadd 0 (map (\<lambda>c. snd (snd c)) cs)
      in if basis' \<noteq> ''VALUATION'' \<and> basis' \<noteq> ''QUANTITY''
         then Inl (ValueError (''distribute_charges_based_on must be '' @ quoted ''VALUATION'' @ '' or '' @ quoted ''QUANTITY''
                @ '', got '' @ quoted basis))
         else if ids = [] then Inl (ValueError ''At least one Goods Receipt Note (GRN) must be selected.'')
         else if cs = [] then Inl (ValueError ''At least one charge line (freight, customs, duty) must be specified.'')
         else if cost \<le> 0
         then Inl (ValueError (''Total landed charges must be positive, got '' @ dec_str e cost @ ''.''))
         else if \<not> list_ex (\<lambda>r. gr_tenant r = t \<and> gr_id r \<in> set ids) (grns s)
         then Inl (ValueError ''No matching Goods Receipt Notes found.'')
         else
           ebind (emap (receipt_of s) (receipt_lines t ids s)) (\<lambda>xs.
             let value = foldl dadd 0 (map (\<lambda>(g, q, r, a). a) xs);
                 qty = foldl dadd 0 (map (\<lambda>(g, q, r, a). q) xs);
                 (i, s1) = uuid4 s;
                 v = \<lparr>lv_tenant = t, lv_id = i, lv_number = number, lv_date = day, lv_company = company,
                      lv_basis = basis', lv_total = cost, lv_status = ''DRAFT'', lv_notes = notes,
                      lv_charges = map landed_charge_of cs, lv_items = []\<rparr>
             in if xs = []
                then Inl (ValueError ''Selected GRNs have no receipt items to allocate charges to.'')
                else if list_ex (\<lambda>w. lv_tenant w = t \<and> lv_number w = number) (landed_vouchers s1) then Inl IntegrityError
                else
                  ebind (numeric 18 4 cost) (\<lambda>tot.
                  ebind (efold (apportion basis' cost value qty (length xs)) (cost, []) (enumerate 0 xs)) (\<lambda>(_, rows).
                  ebind (emap charge_columns (lv_charges v)) (\<lambda>charges.
                  ebind (emap landed_columns rows) (\<lambda>cols.
                    Inr (v\<lparr>lv_items := rows\<rparr>, s1\<lparr>landed_vouchers := landed_vouchers s1 @
                      [v\<lparr>lv_total := tot, lv_charges := charges, lv_items := cols\<rparr>]\<rparr>)))))))"

definition list_landed_cost_vouchers :: "uuid \<Rightarrow> string option \<Rightarrow> db \<Rightarrow> landed_voucher list" where
  "list_landed_cost_vouchers t status s =
     rev (filter (\<lambda>v. lv_tenant v = t \<and> (case status of None \<Rightarrow> True | Some st \<Rightarrow> st = [] \<or> lv_status v = upper st))
            (landed_vouchers s))"

subsection \<open>Submission\<close>

definition revalue_item :: "uuid \<Rightarrow> db \<Rightarrow> landed_item \<Rightarrow> db result" where
  "revalue_item t s l =
     ebind (one_or_none (filter (\<lambda>x. it_id x = li_item l \<and> it_tenant x = t) (items s))) (\<lambda>r.
       Inr (if r = None then s
            else s\<lparr>items := update_where (\<lambda>x. it_id x = li_item l \<and> it_tenant x = t)
                   (\<lambda>x. x\<lparr>it_rate := li_new_rate l\<rparr>) (items s)\<rparr>))"

definition landed_lines :: "landed_voucher \<Rightarrow> ledger_line list" where
  "landed_lines v =
     plain_line ''1300-STOCK-IN-HAND'' ''PLANT-01'' (lv_total v) 0 ''USD'' #
     map (\<lambda>c. plain_line (if lc_account c = [] then ''5100-FREIGHT-CUSTOMS-CLEARING'' else lc_account c) ''LOGISTICS'' 0
                (lc_amount c) ''USD'') (lv_charges v)"

definition landed_proposal :: "uuid \<Rightarrow> landed_voucher \<Rightarrow> uuid \<Rightarrow> proposal" where
  "landed_proposal t v trace =
     \<lparr>pp_tenant = t, pp_date = lv_date v, pp_source_type = ''LANDED_COST_VOUCHER'', pp_source_id = lv_id v,
      pp_entries = landed_lines v, pp_human = True, pp_approved_by = None, pp_agent = ''PROCUREMENT_AGENT'',
      pp_trace = str_uuid trace, pp_prompt = ''hash_system_default'', pp_model = ''gemini-3.1-pro''\<rparr>"

text \<open>
  Every exception of the commit is caught. The engine raises its own before it writes anything; after an
  error of the database the session is unusable, and the flush that follows raises.
\<close>

definition is_db_error :: "exn \<Rightarrow> bool" where
  "is_db_error x \<longleftrightarrow> x = IntegrityError \<or> x = DataError"

definition submit_landed_cost_voucher :: "env \<Rightarrow> uuid \<Rightarrow> uuid \<Rightarrow> db \<Rightarrow> (landed_voucher \<times> db) result" where
  "submit_landed_cost_voucher e t i s =
     ebind (get_landed_cost_voucher t i s) (\<lambda>r.
       case r of
         None \<Rightarrow> Inl (ValueError (''Landed Cost Voucher '' @ str_uuid i @ '' not found.''))
       | Some v \<Rightarrow>
           if lv_status v \<noteq> ''DRAFT''
           then Inl (ValueError (''Cannot submit voucher with status '' @ quoted (lv_status v) @ ''. Must be DRAFT.''))
           else
             ebind (efold (revalue_item t) s (lv_items v)) (\<lambda>s1.
               let (trace, s2) = uuid4 s1
               in ebind (case commit_transaction e True (landed_proposal t v trace) s2 of
                           Inr (_, s3) \<Rightarrow> Inr s3
                         | Inl x \<Rightarrow> if is_db_error x then Inl (RuntimeError ''PendingRollbackError'') else Inr s2) (\<lambda>s4.
                  let w = v\<lparr>lv_status := ''SUBMITTED''\<rparr>
                  in Inr (w, s4\<lparr>landed_vouchers :=
                       update_where (\<lambda>x. lv_id x = i) (\<lambda>_. w) (landed_vouchers s4)\<rparr>))))"

subsection \<open>Distribution\<close>

lemma apportion_Inr:
  assumes "apportion basis cost value qty n (rest, rows) (k, x) = Inr (rest', rows')"
  shows "\<exists>r. rows' = rows @ [r] \<and>
    (if k = n - 1 then li_charges r = rest \<and> rest' = rest
     else places 4 (li_charges r) \<and> rest' = dsub rest (li_charges r))"
proof -
  obtain g q r amount where x: "x = (g, q, r, amount)" by (cases x)
  show ?thesis
  proof (cases "k = n - 1")
    case True
    then show ?thesis using assms by (auto simp: apportion_def x ebind_eq_Inr)
  next
    case False
    then obtain f a per rate where a: "quantize round_even 4 (dmul cost f) = Inr a" "rest' = dsub rest a"
      "rows' = rows @ [\<lparr>li_grn = gi_grn g, li_grn_item = gi_id g, li_item = gi_item g, li_qty = q, li_rate = r,
         li_amount = amount, li_charges = a, li_new_rate = rate\<rparr>]"
      using assms by (auto simp: apportion_def x ebind_eq_Inr)
    with False quantize_places [OF a(1)] show ?thesis by simp
  qed
qed

text \<open>Whatever the shares are rounded to, together they are what was to be distributed.\<close>

lemma apportion_all:
  "efold (apportion basis cost value qty n) (rest, rows) (enumerate k xs) = Inr (rest', rows') \<Longrightarrow>
     xs \<noteq> [] \<Longrightarrow> k + length xs = n \<Longrightarrow>
     \<exists>new. rows' = rows @ new \<and> length new = length xs \<and>
       (places 4 rest \<and> \<bar>rest\<bar> \<le> of_nat m * 10 ^ 14 \<and> m + length xs < 10 ^ 9 \<and>
        list_all (\<lambda>r. \<bar>li_charges r\<bar> \<le> 10 ^ 14) new \<longrightarrow>
          (\<Sum>r\<leftarrow>new. li_charges r) = rest \<and> list_all (\<lambda>r. places 4 (li_charges r)) new)"
proof (induction xs arbitrary: rest rows k m)
  case (Cons x xs)
  obtain u w where u: "apportion basis cost value qty n (rest, rows) (k, x) = Inr (u, w)"
    "efold (apportion basis cost value qty n) (u, w) (enumerate (Suc k) xs) = Inr (rest', rows')"
    using Cons.prems(1) by (auto simp: ebind_eq_Inr)
  from apportion_Inr [OF u(1)] obtain r where r: "w = rows @ [r]"
    "if k = n - 1 then li_charges r = rest \<and> u = rest else places 4 (li_charges r) \<and> u = dsub rest (li_charges r)"
    by blast
  show ?case
  proof (cases "xs = []")
    case True
    then show ?thesis using u(2) r Cons.prems(3) by (intro exI [of _ "[r]"]) auto
  next
    case False
    then have ne: "k \<noteq> n - 1" using Cons.prems(3) by (cases xs) auto
    from Cons.IH [OF u(2) False, of "Suc m"] Cons.prems(3) obtain new where
      new: "rows' = w @ new" "length new = length xs"
      "places 4 u \<and> \<bar>u\<bar> \<le> of_nat (Suc m) * 10 ^ 14 \<and> Suc m + length xs < 10 ^ 9 \<and>
        list_all (\<lambda>r. \<bar>li_charges r\<bar> \<le> 10 ^ 14) new \<longrightarrow>
          (\<Sum>r\<leftarrow>new. li_charges r) = u \<and> list_all (\<lambda>r. places 4 (li_charges r)) new" by auto
    have "(\<Sum>r\<leftarrow>r # new. li_charges r) = rest \<and> list_all (\<lambda>r. places 4 (li_charges r)) (r # new)"
      if p: "places 4 rest" "\<bar>rest\<bar> \<le> of_nat m * 10 ^ 14" "m + length (x # xs) < 10 ^ 9"
        "list_all (\<lambda>r. \<bar>li_charges r\<bar> \<le> 10 ^ 14) (r # new)"
    proof -
      have "(of_nat m :: rat) * 10 ^ 14 \<le> 10 ^ 9 * 10 ^ 14"
        using p(3) of_nat_mono [of m "10 ^ 9", where 'a = rat] by (intro mult_right_mono) simp_all
      then have "dsub rest (li_charges r) = rest - li_charges r"
        using p r(2) ne by (intro dsub_small [of "10 ^ 23" _ "10 ^ 14"]) (auto simp: small_def)
      moreover have "\<bar>rest - li_charges r\<bar> \<le> of_nat (Suc m) * 10 ^ 14"
        using p(2,4) by (simp add: abs_if algebra_simps split: if_splits)
      ultimately show ?thesis using new(3) p r(2) ne by auto
    qed
    then show ?thesis using r(1) new(1,2) by (intro exI [of _ "r # new"]) auto
  qed
qed simp

lemma landed_columns_Inr:
  "landed_columns r = Inr w \<Longrightarrow> \<bar>cents (li_charges r)\<bar> < 10 ^ 14 \<and> li_charges w = cents (li_charges r)"
  by (auto simp: landed_columns_def ebind_eq_Inr numeric_Inr)

lemma cents_bounded: "\<bar>cents x\<bar> < 10 ^ 14 \<Longrightarrow> \<bar>x\<bar> \<le> 10 ^ 14"
proof (rule ccontr)
  assume "\<bar>cents x\<bar> < 10 ^ 14" "\<not> \<bar>x\<bar> \<le> 10 ^ 14"
  moreover have "cents (10 ^ 14) = 10 ^ 14" by (rule quant_places) (simp add: places_def)
  ultimately show False using quant_up.ge_exact [of 4 "10 ^ 14" "\<bar>x\<bar>"] by (simp add: quant_up.rnd_abs)
qed

lemma stored_charges:
  assumes "emap landed_columns rows = Inr cols"
  shows "list_all (\<lambda>r. \<bar>li_charges r\<bar> \<le> 10 ^ 14) rows"
    and "list_all (\<lambda>r. places 4 (li_charges r)) rows \<Longrightarrow> map li_charges cols = map li_charges rows"
proof -
  have n: "landed_columns (rows ! j) = Inr (cols ! j)" if "j < length rows" for j using emap_nth [OF assms that] .
  show "list_all (\<lambda>r. \<bar>li_charges r\<bar> \<le> 10 ^ 14) rows"
    using landed_columns_Inr [OF n] cents_bounded by (auto simp: list_all_length)
  assume "list_all (\<lambda>r. places 4 (li_charges r)) rows"
  then show "map li_charges cols = map li_charges rows"
    using landed_columns_Inr [OF n] emap_length [OF assms]
    by (intro nth_equalityI) (auto simp: list_all_length quant_places)
qed

text \<open>What a successful creation has computed and stored.\<close>

lemma created_voucher:
  assumes "create_landed_cost_voucher e t number ids cs basis d company notes s = Inr (v, s')"
    and "\<And>xs rows charges cols tot rest value qty basis' w. length xs = length (receipt_lines t ids s) \<Longrightarrow> xs \<noteq> [] \<Longrightarrow>
      numeric 18 4 (foldl dadd 0 (map (\<lambda>c. snd (snd c)) cs)) = Inr tot \<Longrightarrow>
      efold (apportion basis' (foldl dadd 0 (map (\<lambda>c. snd (snd c)) cs)) value qty (length xs))
        (foldl dadd 0 (map (\<lambda>c. snd (snd c)) cs), []) (enumerate 0 xs) = Inr (rest, rows) \<Longrightarrow>
      emap charge_columns (map landed_charge_of cs) = Inr charges \<Longrightarrow> emap landed_columns rows = Inr cols \<Longrightarrow>
      w \<in> set (landed_vouchers s') \<Longrightarrow> lv_id w = lv_id v \<Longrightarrow> lv_total w = tot \<Longrightarrow> lv_charges w = charges \<Longrightarrow>
      lv_items w = cols \<Longrightarrow> P"
  shows P
proof -
  let ?T = "foldl dadd 0 (map (\<lambda>c. snd (snd c)) cs)"
  from assms(1) obtain xs where xs: "emap (receipt_of s) (receipt_lines t ids s) = Inr xs"
    by (cases "emap (receipt_of s) (receipt_lines t ids s)")
      (auto simp: create_landed_cost_voucher_def Let_def split: if_splits)
  from assms(1) obtain tot where tot: "numeric 18 4 ?T = Inr tot"
    by (cases "numeric 18 4 ?T") (auto simp: create_landed_cost_voucher_def Let_def xs split: if_splits prod.splits)
  let ?f = "apportion (upper basis) ?T (foldl dadd 0 (map (\<lambda>(g, q, r, a). a) xs))
    (foldl dadd 0 (map (\<lambda>(g, q, r, a). q) xs)) (length xs)"
  from assms(1) obtain rest rows where rows: "efold ?f (?T, []) (enumerate 0 xs) = Inr (rest, rows)"
    by (cases "efold ?f (?T, []) (enumerate 0 xs)")
      (auto simp: create_landed_cost_voucher_def Let_def xs tot split: if_splits prod.splits)
  from assms(1) obtain charges where charges: "emap charge_columns (map landed_charge_of cs) = Inr charges"
    by (cases "emap charge_columns (map landed_charge_of cs)")
      (auto simp: create_landed_cost_voucher_def Let_def xs tot rows split: if_splits prod.splits)
  from assms(1) obtain cols where cols: "emap landed_columns rows = Inr cols"
    by (cases "emap landed_columns rows")
      (auto simp: create_landed_cost_voucher_def Let_def xs tot rows charges split: if_splits prod.splits)
  show P
    by (rule assms(2) [OF emap_length [OF xs] _ tot rows charges cols, of "last (landed_vouchers s')"])
      (use assms(1) in \<open>auto simp: create_landed_cost_voucher_def Let_def xs tot rows charges cols split: if_splits prod.splits\<close>)
qed

lemma charges_kept:
  assumes "emap charge_columns (map landed_charge_of cs) = Inr charges" "list_all (\<lambda>c. column_amount (snd (snd c))) cs"
  shows "map lc_amount charges = map (\<lambda>c. snd (snd c)) cs"
  using assms
  by (induction cs arbitrary: charges)
    (auto simp: ebind_eq_Inr charge_columns_def landed_charge_of_def numeric_column_id)

subsection \<open>Properties\<close>

text \<open>C30: landed cost is distributed completely. When the charges are amounts with four places, the charges of
  the lines of a new voucher add up to its total, and both to the sum of its charge lines, whatever the
  basis and however the shares are rounded; nothing is lost or added by the rounding.\<close>

theorem charges_are_distributed:
  assumes "create_landed_cost_voucher e t number ids cs basis d company notes s = Inr (v, s')"
    and "list_all (\<lambda>c. column_amount (snd (snd c))) cs" and "length cs < 10 ^ 9"
    and "length (receipt_lines t ids s) < 10 ^ 8"
  shows "\<exists>w \<in> set (landed_vouchers s'). lv_id w = lv_id v \<and> (\<Sum>l\<leftarrow>lv_items w. li_charges l) = lv_total w \<and>
    lv_total w = (\<Sum>c\<leftarrow>lv_charges w. lc_amount c) \<and> lv_total w = (\<Sum>c\<leftarrow>cs. snd (snd c)) \<and>
    length (lv_items w) = length (receipt_lines t ids s)"
proof -
  let ?T = "foldl dadd 0 (map (\<lambda>c. snd (snd c)) cs)" and ?ls = "receipt_lines t ids s"
  have T: "?T = (\<Sum>c\<leftarrow>cs. snd (snd c))"
    using foldl_dadd_columns [of "map (\<lambda>c. snd (snd c)) cs" 0 0] assms(2,3) by (simp add: list_all_iff)
  have pT: "places 4 ?T" unfolding T using assms(2) by (intro places_sum_list) (auto simp: list_all_iff column_amount_def)
  from assms(1) show ?thesis
  proof (rule created_voucher)
    fix xs rows charges cols tot rest val qty basis' and w :: landed_voucher
    assume xs: "length xs = length ?ls" "xs \<noteq> []" and tot: "numeric 18 4 ?T = Inr tot"
      and rows: "efold (apportion basis' ?T val qty (length xs)) (?T, []) (enumerate 0 xs) = Inr (rest, rows)"
      and charges: "emap charge_columns (map landed_charge_of cs) = Inr charges"
      and cols: "emap landed_columns rows = Inr cols"
      and w: "w \<in> set (landed_vouchers s')" "lv_id w = lv_id v" "lv_total w = tot" "lv_charges w = charges" "lv_items w = cols"
    have t: "tot = ?T" "\<bar>?T\<bar> < 10 ^ 14" using numeric_keeps [OF pT tot] by (simp_all add: column_amount_def)
    from apportion_all [OF rows xs(2), of 1] have len: "length rows = length xs"
      and all: "list_all (\<lambda>r. \<bar>li_charges r\<bar> \<le> 10 ^ 14) rows \<Longrightarrow>
        (\<Sum>r\<leftarrow>rows. li_charges r) = ?T \<and> list_all (\<lambda>r. places 4 (li_charges r)) rows"
      using pT t(2) assms(4) xs(1) by auto
    have sum: "(\<Sum>r\<leftarrow>cols. li_charges r) = ?T"
      using all [OF stored_charges(1) [OF cols]] stored_charges(2) [OF cols] by simp
    have "map lc_amount charges = map (\<lambda>c. snd (snd c)) cs" by (rule charges_kept [OF charges assms(2)])
    then show ?thesis using w t sum T len xs(1) emap_length [OF cols] by (intro bexI [of _ w]) simp_all
  qed
qed

definition demo_receipts :: db where
  "demo_receipts = empty_db\<lparr>next_id := 9,
     fiscal_periods := [\<lparr>fp_tenant = 0, fp_year = 2026, fp_period = 7, fp_start = 739600, fp_end = 739900, fp_locked = True\<rparr>],
     items := [\<lparr>it_tenant = 0, it_id = 5, it_code = ''I'', it_name = ''I'', it_uom = ''EA'', it_rate = 1, it_group = None,
       it_weight = 0, it_purchase = True, it_sales = True, it_active = True\<rparr>],
     grns := [\<lparr>gr_tenant = 0, gr_id = 4, gr_po = None, gr_number = ''G'', gr_created = 0\<rparr>],
     grn_items := map (\<lambda>k. \<lparr>gi_tenant = 0, gi_id = k, gi_grn = 4, gi_item = 5, gi_qty = 2, gi_accepted = 2, gi_price = 10\<rparr>)
       [6]\<rparr>"

text \<open>A charge of \<open>100\<close> on the line of a receipt.\<close>

theorem charges_are_distributed_witness:
  "\<exists>v s w. create_landed_cost_voucher demo_env 0 ''L'' [4] [(None, ''freight'', 100)] ''quantity'' None ''C'' None demo_receipts =
       Inr (v, s) \<and> w \<in> set (landed_vouchers s) \<and> length (lv_items w) = 1 \<and> (\<Sum>l\<leftarrow>lv_items w. li_charges l) = 100"
proof -
  let ?c = "create_landed_cost_voucher demo_env 0 ''L'' [4] [(None, ''freight'', 100)] ''quantity'' None
    ''C'' None demo_receipts"
  have "case ?c of Inl _ \<Rightarrow> False | Inr _ \<Rightarrow> True" by code_simp
  then obtain v s where c: "?c = Inr (v, s)" by (auto split: sum.splits)
  have n: "length (receipt_lines 0 [4] demo_receipts) = 1" by code_simp
  from charges_are_distributed [OF c] n obtain w where "w \<in> set (landed_vouchers s)"
    "(\<Sum>l\<leftarrow>lv_items w. li_charges l) = lv_total w" "lv_total w = 100" "length (lv_items w) = 1"
    by (auto simp: column_amount_def places_def)
  then show ?thesis using c by (intro exI conjI) simp_all
qed

text \<open>The submission reports success whatever the ledger says: with the period of the voucher locked, the voucher
  is SUBMITTED and the item is revalued, but nothing is posted.\<close>

definition demo_voucher :: db where
  "demo_voucher = demo_receipts\<lparr>landed_vouchers := [\<lparr>lv_tenant = 0, lv_id = 3, lv_number = ''L'', lv_date = 739800,
     lv_company = ''C'', lv_basis = ''QUANTITY'', lv_total = 10, lv_status = ''DRAFT'', lv_notes = None,
     lv_charges = [\<lparr>lc_account = ''5100'', lc_text = ''freight'', lc_amount = 10\<rparr>],
     lv_items = [\<lparr>li_grn = 4, li_grn_item = 6, li_item = 5, li_qty = 2, li_rate = 10, li_amount = 20, li_charges = 10,
       li_new_rate = 15\<rparr>]\<rparr>]\<rparr>"

theorem rejected_landed_cost_is_submitted:
  "\<exists>w s. submit_landed_cost_voucher demo_env 0 3 demo_voucher = Inr (w, s) \<and> lv_status w = ''SUBMITTED'' \<and>
     map it_rate (items demo_voucher) = [1] \<and> map it_rate (items s) = [15] \<and> gl_entries s = [] \<and> outbox s = []"
proof -
  have "case submit_landed_cost_voucher demo_env 0 3 demo_voucher of Inl _ \<Rightarrow> False | Inr (w, s) \<Rightarrow>
      lv_status w = ''SUBMITTED'' \<and> map it_rate (items s) = [15] \<and> length (gl_entries s) = 0 \<and> length (outbox s) = 0"
    by code_simp
  moreover have "map it_rate (items demo_voucher) = [1]" by code_simp
  ultimately show ?thesis by (auto split: sum.splits)
qed

end
