(* ===== verification/Dunning.thy ===== *)
theory Dunning
  imports LedgerEngine
begin

section \<open>Dunning\<close>

text \<open>
  \<open>src/src/erp/workflows/billing/dunning_service.py\<close>: the dunning levels of a tenant, and the run that sends
  notices for overdue invoices with a fee and interest. The lemmas: a run picks the highest level that an
  invoice has reached, sends each level at most once per invoice, and a second run on the same day does
  nothing.
\<close>

subsection \<open>Levels\<close>

definition create_dunning_type ::
    "uuid \<Rightarrow> string \<Rightarrow> int \<Rightarrow> dec \<Rightarrow> dec \<Rightarrow> string \<Rightarrow> db \<Rightarrow> (dunning_type \<times> db) result" where
  "create_dunning_type t name days fee rate body s =
     (let (i, s1) = uuid4 s;
          x = \<lparr>dt_tenant = t, dt_id = i, dt_name = name, dt_days = days, dt_fee = fee, dt_rate = rate, dt_text = body\<rparr>
      in if list_ex (\<lambda>y. dt_tenant y = t \<and> dt_name y = name) (dunning_types s1) then Inl IntegrityError
         else ebind (numeric 18 4 fee) (\<lambda>a. ebind (numeric 5 2 rate) (\<lambda>r.
           Inr (x, s1\<lparr>dunning_types := dunning_types s1 @ [x\<lparr>dt_fee := a, dt_rate := r\<rparr>]\<rparr>))))"

definition own_levels :: "uuid \<Rightarrow> db \<Rightarrow> dunning_type list" where
  "own_levels t s = sort_key (\<lambda>x. - dt_days x) (filter (\<lambda>x. dt_tenant x = t) (dunning_types s))"

definition dunning_levels :: "uuid \<Rightarrow> db \<Rightarrow> (dunning_type list \<times> db) result" where
  "dunning_levels t s =
     (if own_levels t s \<noteq> [] then Inr (own_levels t s, s)
      else ebind (create_dunning_type t ''First Reminder'' 15 25 5
             ''Your invoice is overdue. Please remit payment immediately to avoid service interruption.'' s)
             (\<lambda>(x, s1). Inr ([x], s1)))"

definition applicable_level :: "dunning_type list \<Rightarrow> int \<Rightarrow> dunning_type option" where
  "applicable_level ls days = first_row (filter (\<lambda>l. dt_days l \<le> days) ls)"

subsection \<open>The run\<close>

definition has_notice :: "uuid \<Rightarrow> uuid \<Rightarrow> uuid \<Rightarrow> db \<Rightarrow> bool" where
  "has_notice t v l s \<longleftrightarrow>
     list_ex (\<lambda>n. du_tenant n = t \<and> du_invoice n = v \<and> du_type n = l) (dunning_notices s)"

definition late_interest :: "dec \<Rightarrow> dec \<Rightarrow> int \<Rightarrow> dec result" where
  "late_interest out rate days =
     ebind (ddiv rate 100) (\<lambda>p. ebind (ddiv (of_int days) 365) (\<lambda>y.
       quantize round_even 4 (dmul (dmul out p) y)))"

definition notice_columns :: "dunning_notice \<Rightarrow> dunning_notice result" where
  "notice_columns n =
     ebind (numeric 18 4 (du_outstanding n)) (\<lambda>a. ebind (numeric 18 4 (du_fee n)) (\<lambda>b.
     ebind (numeric 18 4 (du_interest n)) (\<lambda>c. ebind (numeric 18 4 (du_total n)) (\<lambda>d.
       Inr (n\<lparr>du_outstanding := a, du_fee := b, du_interest := c, du_total := d\<rparr>)))))"

text \<open>A line of the result: the notice, the number of its invoice and the name of its level, with the amounts as floats.\<close>

record dunning_line =
  dw_notice :: uuid
  dw_number :: string
  dw_invoice :: string
  dw_customer :: uuid
  dw_days :: int
  dw_level :: string
  dw_fee :: pyfloat
  dw_interest :: pyfloat
  dw_total :: pyfloat

definition line_of_notice :: "sales_invoice_row \<Rightarrow> dunning_type \<Rightarrow> dunning_notice \<Rightarrow> dunning_line" where
  "line_of_notice v l n =
     \<lparr>dw_notice = du_id n, dw_number = du_number n, dw_invoice = si_number v, dw_customer = si_customer v,
      dw_days = du_days n, dw_level = dt_name l, dw_fee = float_of (du_fee n), dw_interest = float_of (du_interest n),
      dw_total = float_of (du_total n)\<rparr>"

definition fresh_notice ::
    "string \<Rightarrow> uuid \<Rightarrow> date \<Rightarrow> sales_invoice_row \<Rightarrow> dunning_type \<Rightarrow> uuid \<Rightarrow> dec \<Rightarrow> dunning_notice" where
  "fresh_notice number t d v l i interest =
     \<lparr>du_id = i, du_tenant = t, du_number = number, du_invoice = si_id v, du_customer = si_customer v, du_type = dt_id l,
      du_date = d, du_days = d - si_due v, du_outstanding = si_total v, du_fee = dt_fee l, du_interest = interest,
      du_total = dadd (dadd (si_total v) (dt_fee l)) interest\<rparr>"

text \<open>
  The number of a notice has the month and six digits of a random UUID: \<open>month\<close> is the text of the one, \<open>hex\<close>
  that of the other.
\<close>

definition dun_invoice ::
    "string \<Rightarrow> (uuid \<Rightarrow> string) \<Rightarrow> uuid \<Rightarrow> date \<Rightarrow> dunning_type list \<Rightarrow> dunning_line list \<times> db \<Rightarrow> sales_invoice_row \<Rightarrow>
     (dunning_line list \<times> db) result" where
  "dun_invoice month hex t d ls acc v =
     (let (rows, s) = acc; days = d - si_due v
      in if days \<le> 0 then Inr acc
         else case applicable_level ls days of
                None \<Rightarrow> Inr acc
              | Some l \<Rightarrow>
                  if has_notice t (si_id v) (dt_id l) s then Inr acc
                  else
                    ebind (late_interest (si_total v) (dt_rate l) days) (\<lambda>interest.
                      let (r, s1) = uuid4 s; (i, s2) = uuid4 s1;
                          n = fresh_notice (''DUN-'' @ month @ ''-'' @ hex r) t d v l i interest
                      in if list_ex (\<lambda>x. du_tenant x = t \<and> du_number x = du_number n) (dunning_notices s2)
                         then Inl IntegrityError
                         else ebind (notice_columns n) (\<lambda>m.
                           Inr (rows @ [line_of_notice v l n], s2\<lparr>dunning_notices := dunning_notices s2 @ [m]\<rparr>))))"

definition overdue_invoices :: "uuid \<Rightarrow> date \<Rightarrow> db \<Rightarrow> sales_invoice_row list" where
  "overdue_invoices t d s =
     filter (\<lambda>v. si_tenant v = t \<and> si_status v = ''ISSUED'' \<and> si_due v < d) (sales_invoices s)"

definition evaluate_overdue_invoices ::
    "env \<Rightarrow> string \<Rightarrow> (uuid \<Rightarrow> string) \<Rightarrow> uuid \<Rightarrow> date option \<Rightarrow> db \<Rightarrow> (dunning_line list \<times> db) result" where
  "evaluate_overdue_invoices e month hex t d s =
     (let day = or_else d (today e)
      in ebind (dunning_levels t s) (\<lambda>(ls, s1).
           efold (dun_invoice month hex t day ls) ([], s1) (overdue_invoices t day s1)))"

subsection \<open>One invoice\<close>

text \<open>A notice that a run on day \<open>d\<close> makes for an invoice: its level is the highest one that the invoice has reached, and
  its total is what the invoice, the fee and the interest amount to.\<close>

definition notice_for :: "uuid \<Rightarrow> date \<Rightarrow> dunning_type list \<Rightarrow> sales_invoice_row \<Rightarrow> dunning_notice \<Rightarrow> bool" where
  "notice_for t d ls v n \<longleftrightarrow> du_tenant n = t \<and> du_invoice n = si_id v \<and> du_customer n = si_customer v \<and>
     du_date n = d \<and> du_days n = d - si_due v \<and> 0 < du_days n \<and>
     list_ex (\<lambda>l. du_type n = dt_id l \<and> dt_days l \<le> du_days n \<and>
       list_all (\<lambda>k. dt_days k \<le> du_days n \<longrightarrow> dt_days k \<le> dt_days l) ls \<and>
       (column_amount (si_total v) \<and> column_amount (dt_fee l) \<longrightarrow>
          du_total n = si_total v + dt_fee l + du_interest n)) ls"

definition notice_key :: "dunning_notice \<Rightarrow> uuid \<times> uuid \<times> uuid" where
  "notice_key n = (du_tenant n, du_invoice n, du_type n)"

text \<open>Nothing is left to do for an invoice.\<close>

definition settled :: "uuid \<Rightarrow> date \<Rightarrow> dunning_type list \<Rightarrow> db \<Rightarrow> sales_invoice_row \<Rightarrow> bool" where
  "settled t d ls s v \<longleftrightarrow> d - si_due v \<le> 0 \<or>
     (case applicable_level ls (d - si_due v) of None \<Rightarrow> True | Some l \<Rightarrow> has_notice t (si_id v) (dt_id l) s)"

lemma settled_skips: "settled t d ls s v \<Longrightarrow> dun_invoice month hex t d ls (rows, s) v = Inr (rows, s)"
  by (auto simp: settled_def dun_invoice_def Let_def split: option.splits)

lemma applicable_level_Some:
  assumes "applicable_level ls days = Some l" "sorted (map (\<lambda>x. - dt_days x) ls)"
  shows "l \<in> set ls \<and> dt_days l \<le> days \<and> list_all (\<lambda>k. dt_days k \<le> days \<longrightarrow> dt_days k \<le> dt_days l) ls"
  using assms by (induction ls) (auto simp: applicable_level_def list_all_iff split: if_splits)

lemma late_interest_places: "late_interest out rate days = Inr i \<Longrightarrow> places 4 i"
  by (auto simp: late_interest_def ebind_eq_Inr intro: quantize_places)

lemma notice_columns_Inr:
  assumes "notice_columns n = Inr m"
  shows "notice_key m = notice_key n \<and> du_customer m = du_customer n \<and> du_date m = du_date n \<and> du_days m = du_days n"
    and "places 4 (du_interest n) \<Longrightarrow> du_interest m = du_interest n \<and> column_amount (du_interest n)"
    and "places 4 (du_total n) \<Longrightarrow> du_total m = du_total n"
  using assms by (auto simp: notice_columns_def ebind_eq_Inr notice_key_def dest: numeric_keeps)

text \<open>The amounts of a notice are added without rounding.\<close>

lemma notice_total:
  assumes "column_amount a" "column_amount b" "column_amount c"
  shows "dadd (dadd a b) c = a + b + c \<and> places 4 (a + b + c)"
proof -
  have "small (10 ^ 14) a" "small (10 ^ 14) b" "small (10 ^ 14) c"
    using assms by (simp_all add: small_def column_amount_def)
  then have "dadd (a + b) c = a + b + c" using dadd_small [OF small_plus, of "10 ^ 14" a "10 ^ 14" b "10 ^ 14" c] by simp
  moreover have "places 4 (a + b + c)" using assms by (intro places_add) (simp_all add: column_amount_def)
  ultimately show ?thesis using assms by (simp add: dadd_column)
qed

lemma dun_invoice_Inr:
  assumes "dun_invoice month hex t d ls (rows, s) v = Inr (rows', s')" "sorted (map (\<lambda>x. - dt_days x) ls)"
  shows "settled t d ls s' v \<and> sales_invoices s' = sales_invoices s \<and> dunning_types s' = dunning_types s \<and>
    (\<exists>new. dunning_notices s' = dunning_notices s @ new \<and> length rows' = length rows + length new \<and>
       (new = [] \<or> (\<exists>n. new = [n] \<and> notice_for t d ls v n \<and> notice_key n \<notin> notice_key ` set (dunning_notices s))))"
proof (cases "settled t d ls s v")
  case True
  then show ?thesis using assms(1) by (simp add: settled_skips)
next
  case False
  then obtain l where l: "applicable_level ls (d - si_due v) = Some l" "\<not> has_notice t (si_id v) (dt_id l) s" "0 < d - si_due v"
    by (auto simp: settled_def split: option.splits)
  define key where "key = (\<lambda>n. notice_key n = (t, si_id v, dt_id l) \<and> du_customer n = si_customer v \<and> du_date n = d \<and>
    du_days n = d - si_due v)"
  from assms(1) l obtain number i x m where x: "late_interest (si_total v) (dt_rate l) (d - si_due v) = Inr x"
    and m: "notice_columns (fresh_notice number t d v l i x) = Inr m"
    and s': "dunning_notices s' = dunning_notices s @ [m]" "sales_invoices s' = sales_invoices s"
      "dunning_types s' = dunning_types s" "length rows' = Suc (length rows)"
    by (auto simp: dun_invoice_def Let_def uuid4_def ebind_eq_Inr simp del: append_Cons split: if_splits)
  define n where "n = fresh_notice number t d v l i x"
  have n: "key n" "places 4 (du_interest n)" "du_total n = dadd (dadd (si_total v) (dt_fee l)) (du_interest n)"
    using late_interest_places [OF x] by (simp_all add: n_def fresh_notice_def key_def notice_key_def)
  note m = m [folded n_def]
  have "key m" using n(1) notice_columns_Inr(1) [OF m] by (simp add: key_def)
  moreover have "du_total m = si_total v + dt_fee l + du_interest m"
    if "column_amount (si_total v)" "column_amount (dt_fee l)"
    using notice_columns_Inr(2,3) [OF m] n(2,3) notice_total [OF that] by simp
  ultimately have "notice_for t d ls v m"
    using l applicable_level_Some [OF l(1) assms(2)]
    by (auto simp: notice_for_def key_def notice_key_def list_ex_iff)
  moreover have "notice_key m \<notin> notice_key ` set (dunning_notices s)"
    using l(2) \<open>key m\<close> by (auto simp: key_def has_notice_def notice_key_def list_ex_iff)
  moreover have "settled t d ls s' v"
    using l(1) s'(1) \<open>key m\<close> by (simp add: settled_def has_notice_def key_def notice_key_def)
  ultimately show ?thesis using s' by simp
qed

subsection \<open>A whole run\<close>

lemma settled_mono: "settled t d ls s v \<Longrightarrow> set (dunning_notices s) \<subseteq> set (dunning_notices s') \<Longrightarrow> settled t d ls s' v"
  by (auto simp: settled_def has_notice_def list_ex_iff split: option.splits)

lemma run_Inr:
  assumes "efold (dun_invoice month hex t d ls) (rows, s) vs = Inr (rows', s')" "sorted (map (\<lambda>x. - dt_days x) ls)"
  shows "sales_invoices s' = sales_invoices s \<and> dunning_types s' = dunning_types s \<and> list_all (settled t d ls s') vs \<and>
    (\<exists>new. dunning_notices s' = dunning_notices s @ new \<and> length rows' = length rows + length new \<and>
       list_all (\<lambda>n. list_ex (\<lambda>v. notice_for t d ls v n) vs) new \<and> distinct (map notice_key new) \<and>
       notice_key ` set new \<inter> notice_key ` set (dunning_notices s) = {})"
  using assms(1)
proof (induction vs arbitrary: rows s)
  case (Cons v vs)
  then obtain r u where u: "dun_invoice month hex t d ls (rows, s) v = Inr (r, u)"
    "efold (dun_invoice month hex t d ls) (r, u) vs = Inr (rows', s')" by (auto simp: ebind_eq_Inr)
  from dun_invoice_Inr [OF u(1) assms(2)] obtain ns where one: "settled t d ls u v" "sales_invoices u = sales_invoices s"
    "dunning_types u = dunning_types s" "dunning_notices u = dunning_notices s @ ns" "length r = length rows + length ns"
    and ns: "ns = [] \<or> (\<exists>n. ns = [n] \<and> notice_for t d ls v n \<and> notice_key n \<notin> notice_key ` set (dunning_notices s))"
    by blast
  from Cons.IH [OF u(2)] obtain new where rest: "sales_invoices s' = sales_invoices u" "dunning_types s' = dunning_types u"
    "list_all (settled t d ls s') vs" "dunning_notices s' = dunning_notices u @ new" "length rows' = length r + length new"
    "list_all (\<lambda>n. list_ex (\<lambda>v. notice_for t d ls v n) vs) new" "distinct (map notice_key new)"
    "notice_key ` set new \<inter> notice_key ` set (dunning_notices u) = {}" by blast
  have "settled t d ls s' v" using settled_mono [OF one(1)] rest(4) by simp
  moreover have "distinct (map notice_key (ns @ new)) \<and> notice_key ` set (ns @ new) \<inter> notice_key ` set (dunning_notices s) = {}"
    using ns rest(7,8) one(4) by (elim disjE exE conjE) (simp_all add: image_Un Int_Un_distrib)
  ultimately show ?case using one rest ns by (intro conjI exI [of _ "ns @ new"]) (auto simp: list_all_iff)
qed simp

lemma own_levels_sorted: "sorted (map (\<lambda>x. - dt_days x) (own_levels t s))"
  by (simp add: own_levels_def)

text \<open>The levels of a run are those that a later run reads.\<close>

lemma dunning_levels_Inr:
  assumes "dunning_levels t s = Inr (ls, s')"
  shows "ls = own_levels t s' \<and> ls \<noteq> [] \<and> sales_invoices s' = sales_invoices s \<and> dunning_notices s' = dunning_notices s"
proof (cases "own_levels t s = []")
  case True
  moreover from this have "filter (\<lambda>x. dt_tenant x = t) (dunning_types s) = []"
    by (metis own_levels_def length_sort list.size(3) length_0_conv)
  moreover have "numeric 18 4 25 = Inr 25" "numeric 5 2 5 = Inr 5" by code_simp+
  ultimately show ?thesis
    using assms by (auto simp: dunning_levels_def create_dunning_type_def own_levels_def uuid4_def Let_def split: if_splits)
qed (use assms in \<open>auto simp: dunning_levels_def\<close>)

subsection \<open>Properties\<close>

text \<open>C32: reminders are sent once. After a run, a second run for the same day sends nothing and changes nothing, whatever
  the first one did. The notices that a run adds are one per line of its result; each is for an overdue invoice of the
  tenant, at the highest level that the invoice has reached, with the invoice, the fee and the interest added
  up exactly; and no invoice ever has two notices of a level.\<close>

theorem reminders_are_sent_once:
  assumes "evaluate_overdue_invoices e month hex t d s = Inr (rows, s')"
  shows "evaluate_overdue_invoices e month' hex' t d s' = Inr ([], s') \<and>
    (\<exists>new. dunning_notices s' = dunning_notices s @ new \<and> length rows = length new \<and>
       list_all (\<lambda>n. list_ex (\<lambda>v. notice_for t (or_else d (today e)) (own_levels t s') v n)
         (overdue_invoices t (or_else d (today e)) s)) new) \<and>
    (distinct (map notice_key (dunning_notices s)) \<longrightarrow> distinct (map notice_key (dunning_notices s')))"
proof -
  let ?d = "or_else d (today e)"
  from assms obtain ls s1 where l: "dunning_levels t s = Inr (ls, s1)"
    "efold (dun_invoice month hex t ?d ls) ([], s1) (overdue_invoices t ?d s1) = Inr (rows, s')"
    by (auto simp: evaluate_overdue_invoices_def Let_def ebind_eq_Inr)
  note start = dunning_levels_Inr [OF l(1)]
  have "sorted (map (\<lambda>x. - dt_days x) ls)" using start own_levels_sorted by simp
  note run = run_Inr [OF l(2) this]
  have ls: "own_levels t s' = ls" using start run by (simp add: own_levels_def)
  have vs: "overdue_invoices t ?d s' = overdue_invoices t ?d s1" "overdue_invoices t ?d s1 = overdue_invoices t ?d s"
    using start run by (simp_all add: overdue_invoices_def)
  have "efold (dun_invoice month' hex' t ?d ls) ([], s') vs = Inr ([], s')" if "list_all (settled t ?d ls s') vs" for vs
    using that by (induction vs) (simp_all add: settled_skips)
  then have "evaluate_overdue_invoices e month' hex' t d s' = Inr ([], s')"
    using start run ls vs by (auto simp: evaluate_overdue_invoices_def dunning_levels_def Let_def)
  moreover from run start obtain new where n: "dunning_notices s' = dunning_notices s @ new" "length rows = length new"
    "list_all (\<lambda>n. list_ex (\<lambda>v. notice_for t ?d ls v n) (overdue_invoices t ?d s1)) new" "distinct (map notice_key new)"
    "notice_key ` set new \<inter> notice_key ` set (dunning_notices s) = {}" by auto
  moreover have "distinct (map notice_key (dunning_notices s)) \<longrightarrow> distinct (map notice_key (dunning_notices s'))"
    unfolding n(1) map_append distinct_append using n(4,5) by (simp add: Int_commute)
  ultimately show ?thesis using ls vs by (intro conjI exI [of _ new]) simp_all
qed

definition demo_overdue :: db where
  "demo_overdue = empty_db\<lparr>next_id := 5, sales_invoices := [\<lparr>si_tenant = 0, si_id = 2, si_number = ''SI-1'', si_customer = 1,
     si_due = 739727, si_currency = ''USD'', si_total = 365, si_status = ''ISSUED''\<rparr>]\<rparr>"

theorem reminders_are_sent_once_witness:
  "\<exists>rows s. evaluate_overdue_invoices demo_env ''202506'' (\<lambda>i. ''A'') 0 None demo_overdue = Inr (rows, s) \<and>
     length rows = 1 \<and> evaluate_overdue_invoices demo_env ''202507'' (\<lambda>i. ''B'') 0 None s = Inr ([], s)"
proof -
  let ?run = "evaluate_overdue_invoices demo_env ''202506'' (\<lambda>i. ''A'') 0 None demo_overdue"
  have "case ?run of Inl _ \<Rightarrow> False | Inr (rows, s) \<Rightarrow> length rows = 1" by code_simp
  then obtain rows s where r: "?run = Inr (rows, s)" "length rows = 1" by (auto split: sum.splits)
  from reminders_are_sent_once [OF r(1)] r show ?thesis by blast
qed

end
