(* ===== verification/Leave.thy ===== *)
theory Leave
  imports LedgerEngine "HOL-Library.List_Lexorder" "HOL-Library.Char_ord"
begin

section \<open>Leave\<close>

text \<open>
  \<open>src/src/erp/workflows/hr/leave_service.py\<close>: leave types, yearly allocations, balances and applications.
  The lemmas: an application that is approved while it still fits the balance keeps the approved days of a
  year within the allocation; the service does not check this on approval, so two applications overdraw it.
\<close>

subsection \<open>Types and allocations\<close>

definition find_leave_type :: "uuid \<Rightarrow> string \<Rightarrow> db \<Rightarrow> leave_type option result" where
  "find_leave_type t name s = one_or_none (filter (\<lambda>x. lt_tenant x = t \<and> lt_name x = name) (leave_types s))"

definition add_leave_type :: "uuid \<Rightarrow> string \<Rightarrow> int \<Rightarrow> bool \<Rightarrow> bool \<Rightarrow> db \<Rightarrow> leave_type \<times> db" where
  "add_leave_type t name days carry lwp s =
     (let (i, s1) = uuid4 s;
          x = \<lparr>lt_tenant = t, lt_id = i, lt_name = name, lt_max = days, lt_carry = carry, lt_lwp = lwp\<rparr>
      in (x, s1\<lparr>leave_types := leave_types s1 @ [x]\<rparr>))"

definition create_leave_type :: "uuid \<Rightarrow> string \<Rightarrow> int \<Rightarrow> bool \<Rightarrow> bool \<Rightarrow> db \<Rightarrow> (leave_type \<times> db) result" where
  "create_leave_type t name days carry lwp s =
     ebind (find_leave_type t (strip name) s) (\<lambda>r.
       if r \<noteq> None then Inl (ValueError (''Leave type '' @ quoted (strip name) @ '' already exists.''))
       else Inr (add_leave_type t (strip name) days carry lwp s))"

definition default_leave_types :: "(string \<times> int \<times> bool \<times> bool) list" where
  "default_leave_types =
     [(''Annual Privilege Leave'', 14, True, False), (''Casual Leave'', 10, False, False),
      (''Sick Leave'', 10, False, False), (''Leave Without Pay (LWP)'', 0, False, True)]"

text \<open>Listing the types of a tenant without any creates the four defaults.\<close>

definition own_leave_types :: "uuid \<Rightarrow> db \<Rightarrow> leave_type list" where
  "own_leave_types t s = sort_key lt_name (filter (\<lambda>x. lt_tenant x = t) (leave_types s))"

definition list_leave_types :: "uuid \<Rightarrow> db \<Rightarrow> leave_type list \<times> db" where
  "list_leave_types t s =
     (if own_leave_types t s \<noteq> [] then (own_leave_types t s, s)
      else let s1 = foldl (\<lambda>u (name, days, carry, lwp). snd (add_leave_type t name days carry lwp u)) s default_leave_types
           in (own_leave_types t s1, s1))"

definition is_allocation :: "uuid \<Rightarrow> uuid \<Rightarrow> uuid \<Rightarrow> int \<Rightarrow> leave_allocation \<Rightarrow> bool" where
  "is_allocation t emp i y a \<longleftrightarrow> lq_tenant a = t \<and> lq_employee a = emp \<and> lq_type a = i \<and> lq_year a = y"

definition year_bounds :: "int \<Rightarrow> (date \<times> date) result" where
  "year_bounds y =
     (if 1 \<le> y \<and> y \<le> 9999 then Inr (date_of y 1 1, date_of y 12 31)
      else Inl (ValueError ''year is out of range''))"

definition allocate_leaves ::
    "uuid \<Rightarrow> uuid \<Rightarrow> uuid \<Rightarrow> int \<Rightarrow> dec \<Rightarrow> dec \<Rightarrow> date option \<Rightarrow> date option \<Rightarrow> db \<Rightarrow> (leave_allocation \<times> db) result" where
  "allocate_leaves t emp i y days carry d1 d2 s =
     ebind (if d1 \<noteq> None \<and> d2 \<noteq> None then Inr (the d1, the d2)
            else ebind (year_bounds y) (\<lambda>(a, b). Inr (or_else d1 a, or_else d2 b))) (\<lambda>(a, b).
     ebind (one_or_none (filter (is_allocation t emp i y) (leave_allocations s))) (\<lambda>existing.
     ebind (numeric 6 2 days) (\<lambda>x. ebind (numeric 6 2 carry) (\<lambda>z.
       let q = \<lparr>lq_tenant = t, lq_employee = emp, lq_type = i, lq_year = y, lq_days = days, lq_carry = carry,
                lq_from = a, lq_to = b\<rparr>;
           stored = q\<lparr>lq_days := x, lq_carry := z\<rparr>
       in if existing = None \<and> \<not> list_ex (\<lambda>l. lt_id l = i) (leave_types s) then Inl IntegrityError
          else Inr (q, s\<lparr>leave_allocations :=
            (if existing = None then leave_allocations s @ [stored]
             else update_where (is_allocation t emp i y) (\<lambda>_. stored) (leave_allocations s))\<rparr>)))))"

subsection \<open>Balances\<close>

record leave_balance =
  lb_name :: string
  lb_lwp :: bool
  lb_allocated :: dec
  lb_used :: dec
  lb_remaining :: dec

text \<open>The approved days that start within a year.\<close>

definition counts_for :: "uuid \<Rightarrow> uuid \<Rightarrow> uuid \<Rightarrow> date \<times> date \<Rightarrow> leave_application \<Rightarrow> bool" where
  "counts_for t emp i d a \<longleftrightarrow>
     la_tenant a = t \<and> la_employee a = emp \<and> la_type a = i \<and> la_status a = ''APPROVED'' \<and>
     fst d \<le> la_from a \<and> la_from a \<le> snd d"

definition used_days :: "uuid \<Rightarrow> uuid \<Rightarrow> uuid \<Rightarrow> date \<times> date \<Rightarrow> db \<Rightarrow> dec" where
  "used_days t emp i d s = (\<Sum>a\<leftarrow>filter (counts_for t emp i d) (leave_applications s). la_days a)"

definition get_leave_balance :: "env \<Rightarrow> uuid \<Rightarrow> uuid \<Rightarrow> uuid \<Rightarrow> int option \<Rightarrow> db \<Rightarrow> leave_balance result" where
  "get_leave_balance e t emp i y s =
     (let y = (case y of None \<Rightarrow> year_of (today e) | Some v \<Rightarrow> if v = 0 then year_of (today e) else v)
      in ebind (one_or_none (filter (\<lambda>x. lt_tenant x = t \<and> lt_id x = i) (leave_types s))) (\<lambda>r.
         case r of
           None \<Rightarrow> Inl (ValueError (''LeaveType '' @ str_uuid i @ '' not found.''))
         | Some x \<Rightarrow>
             if lt_lwp x
             then Inr \<lparr>lb_name = lt_name x, lb_lwp = True, lb_allocated = 9999, lb_used = 0, lb_remaining = 9999\<rparr>
             else
               ebind (one_or_none (filter (is_allocation t emp i y) (leave_allocations s))) (\<lambda>q.
               ebind (year_bounds y) (\<lambda>d.
                 let allocated = (case q of None \<Rightarrow> 0 | Some a \<Rightarrow> dadd (lq_days a) (lq_carry a));
                     used = used_days t emp i d s
                 in Inr \<lparr>lb_name = lt_name x, lb_lwp = False, lb_allocated = allocated, lb_used = used,
                         lb_remaining = max 0 (dsub allocated used)\<rparr>))))"

subsection \<open>Applications\<close>

definition submit_leave_application ::
    "env \<Rightarrow> uuid \<Rightarrow> string \<Rightarrow> uuid \<Rightarrow> uuid \<Rightarrow> date \<Rightarrow> date \<Rightarrow> dec \<Rightarrow> bool \<Rightarrow> string \<Rightarrow> db \<Rightarrow>
     (leave_application \<times> db) result" where
  "submit_leave_application e t number emp i d1 d2 days half reason s =
     ebind (get_leave_balance e t emp i (Some (year_of d1)) s) (\<lambda>b.
       if \<not> lb_lwp b \<and> days > lb_remaining b
       then Inl (ValueError (''Insufficient leave balance for '' @ lb_name b @ ''. Requested: '' @ dec_str e days
              @ '' days, Available: '' @ dec_str e (lb_remaining b) @ '' days.''))
       else
         let (aid, s1) = uuid4 s;
             a = \<lparr>la_tenant = t, la_id = aid, la_number = number, la_employee = emp, la_type = i, la_from = d1,
                  la_to = d2, la_days = days, la_half = half, la_reason = reason, la_status = ''SUBMITTED'',
                  la_approver = None\<rparr>
         in if list_ex (\<lambda>x. la_tenant x = t \<and> la_number x = number) (leave_applications s1) then Inl IntegrityError
            else ebind (numeric 5 2 days) (\<lambda>v.
              Inr (a, s1\<lparr>leave_applications := leave_applications s1 @ [a\<lparr>la_days := v\<rparr>]\<rparr>)))"

definition decide_leave ::
    "uuid \<Rightarrow> uuid \<Rightarrow> (leave_application \<Rightarrow> leave_application) \<Rightarrow> db \<Rightarrow> (leave_application \<times> db) result" where
  "decide_leave t i f s =
     ebind (one_or_none (filter (\<lambda>a. la_tenant a = t \<and> la_id a = i) (leave_applications s))) (\<lambda>r.
       case r of
         None \<Rightarrow> Inl (ValueError (''LeaveApplication '' @ str_uuid i @ '' not found.''))
       | Some a \<Rightarrow> Inr (f a, s\<lparr>leave_applications :=
           update_where (\<lambda>x. la_tenant x = t \<and> la_id x = i) (\<lambda>_. f a) (leave_applications s)\<rparr>))"

definition approve_leave_application ::
    "uuid \<Rightarrow> uuid \<Rightarrow> uuid option \<Rightarrow> db \<Rightarrow> (leave_application \<times> db) result" where
  "approve_leave_application t i approver s =
     decide_leave t i (\<lambda>a. a\<lparr>la_status := ''APPROVED'', la_approver := approver\<rparr>) s"

definition reject_leave_application ::
    "uuid \<Rightarrow> uuid \<Rightarrow> string option \<Rightarrow> db \<Rightarrow> (leave_application \<times> db) result" where
  "reject_leave_application t i reason s =
     decide_leave t i (\<lambda>a. a\<lparr>la_status := ''REJECTED'',
       la_reason := (if reason = None \<or> reason = Some [] then la_reason a
                     else la_reason a @ '' (Rejected: '' @ the reason @ '')'')\<rparr>) s"

definition list_leave_applications :: "uuid \<Rightarrow> uuid option \<Rightarrow> string option \<Rightarrow> db \<Rightarrow> leave_application list" where
  "list_leave_applications t emp status s =
     rev (filter (\<lambda>a. la_tenant a = t \<and> (case emp of None \<Rightarrow> True | Some x \<Rightarrow> la_employee a = x) \<and>
            (case status of None \<Rightarrow> True | Some st \<Rightarrow> st = [] \<or> la_status a = st)) (leave_applications s))"

subsection \<open>What a decision changes\<close>

lemma sum_update_one:
  fixes f :: "'a \<Rightarrow> rat"
  assumes "filter P xs = [a]"
  shows "(\<Sum>x\<leftarrow>filter Q (update_where P (\<lambda>_. b) xs). f x) =
    (\<Sum>x\<leftarrow>filter Q xs. f x) - (if Q a then f a else 0) + (if Q b then f b else 0)"
  using assms
proof (induction xs)
  case (Cons x xs)
  show ?case
  proof (cases "P x")
    case True
    then have "x = a" "filter P xs = []" using Cons.prems by simp_all
    moreover from this have "update_where P (\<lambda>_. b) xs = xs" by (intro update_where_none) (auto simp: filter_empty_conv)
    ultimately show ?thesis using True by simp
  qed (use Cons in simp)
qed simp

lemma decide_leave_Inr:
  assumes "decide_leave t i f s = Inr (b, s')"
  obtains a where "filter (\<lambda>a. la_tenant a = t \<and> la_id a = i) (leave_applications s) = [a]" "b = f a"
    "s' = s\<lparr>leave_applications := update_where (\<lambda>x. la_tenant x = t \<and> la_id x = i) (\<lambda>_. f a) (leave_applications s)\<rparr>"
proof -
  obtain a where "one_or_none (filter (\<lambda>a. la_tenant a = t \<and> la_id a = i) (leave_applications s)) = Inr (Some a)"
    using assms unfolding decide_leave_def found_eq_Inr by blast
  moreover from this have "filter (\<lambda>a. la_tenant a = t \<and> la_id a = i) (leave_applications s) = [a]"
    by (simp add: one_or_none_Some)
  ultimately show thesis using assms by (intro that [of a]) (auto simp: decide_leave_def)
qed

lemma balance_eq:
  assumes "get_leave_balance e t emp i (Some y) s = Inr b" "\<not> lb_lwp b" "y \<noteq> 0"
  obtains d where "year_bounds y = Inr d" "lb_used b = used_days t emp i d s"
    "lb_remaining b = max 0 (dsub (lb_allocated b) (lb_used b))"
    "\<And>s'. leave_types s' = leave_types s \<Longrightarrow> leave_allocations s' = leave_allocations s \<Longrightarrow>
       get_leave_balance e t emp i (Some y) s' = Inr (b\<lparr>lb_used := used_days t emp i d s',
         lb_remaining := max 0 (dsub (lb_allocated b) (used_days t emp i d s'))\<rparr>)"
proof -
  obtain x where x: "one_or_none (filter (\<lambda>x. lt_tenant x = t \<and> lt_id x = i) (leave_types s)) = Inr (Some x)"
    using assms(1) unfolding get_leave_balance_def Let_def found_eq_Inr by blast
  have l: "\<not> lt_lwp x" using assms x by (auto simp: get_leave_balance_def)
  obtain q d where q: "one_or_none (filter (is_allocation t emp i y) (leave_allocations s)) = Inr q" "year_bounds y = Inr d"
    using assms(1,3) x l by (auto simp: get_leave_balance_def ebind_eq_Inr)
  show thesis
    by (rule that [OF q(2)]) (use assms(1,3) x l q in \<open>auto simp: get_leave_balance_def Let_def\<close>)
qed

text \<open>Approving an application while it still fits keeps the approved days within the allocation.\<close>

theorem fitting_approval_stays_within_balance:
  assumes "get_leave_balance e t emp i (Some y) s = Inr b" and "\<not> lb_lwp b" and "year_bounds y = Inr d"
    and "places 4 (lb_allocated b)" and "\<bar>lb_allocated b\<bar> \<le> 10 ^ 14" and "places 4 (lb_used b)" and "\<bar>lb_used b\<bar> \<le> 10 ^ 14"
    and "approve_leave_application t aid approver s = Inr (a', s')" and "a \<in> set (leave_applications s)"
    and "la_tenant a = t" and "la_id a = aid" and "la_employee a = emp" and "la_type a = i" and "la_status a \<noteq> ''APPROVED''"
    and "fst d \<le> la_from a" and "la_from a \<le> snd d" and "0 < la_days a" and "la_days a \<le> lb_remaining b"
  shows "\<exists>b'. get_leave_balance e t emp i (Some y) s' = Inr b' \<and> lb_allocated b' = lb_allocated b \<and>
    lb_used b' = lb_used b + la_days a \<and> lb_used b' \<le> lb_allocated b'"
proof -
  have y: "y \<noteq> 0" using assms(3) by (auto simp: year_bounds_def)
  obtain c where c: "filter (\<lambda>a. la_tenant a = t \<and> la_id a = aid) (leave_applications s) = [c]"
    and s': "s' = s\<lparr>leave_applications := update_where (\<lambda>x. la_tenant x = t \<and> la_id x = aid)
      (\<lambda>_. c\<lparr>la_status := ''APPROVED'', la_approver := approver\<rparr>) (leave_applications s)\<rparr>"
    using assms(8) unfolding approve_leave_application_def by (rule decide_leave_Inr)
  have "a \<in> set (filter (\<lambda>a. la_tenant a = t \<and> la_id a = aid) (leave_applications s))" using assms(9-11) by simp
  then have "c = a" using c by simp
  then have u: "used_days t emp i d s' = used_days t emp i d s + la_days a"
    using sum_update_one [OF c, of la_days "counts_for t emp i d" "c\<lparr>la_status := ''APPROVED'', la_approver := approver\<rparr>"]
      assms(10-16) by (simp add: used_days_def s' counts_for_def)
  obtain d' where d': "year_bounds y = Inr d'" "lb_used b = used_days t emp i d' s"
    "lb_remaining b = max 0 (dsub (lb_allocated b) (lb_used b))"
    "\<And>s'. leave_types s' = leave_types s \<Longrightarrow> leave_allocations s' = leave_allocations s \<Longrightarrow>
       get_leave_balance e t emp i (Some y) s' = Inr (b\<lparr>lb_used := used_days t emp i d' s',
         lb_remaining := max 0 (dsub (lb_allocated b) (used_days t emp i d' s'))\<rparr>)"
    using balance_eq [OF assms(1,2) y] by blast
  have "dsub (lb_allocated b) (lb_used b) = lb_allocated b - lb_used b"
    using assms(4-7) by (intro dsub_small [of "10 ^ 14" _ "10 ^ 14"]) (auto simp: small_def)
  then have "lb_used b + la_days a \<le> lb_allocated b" using assms(17,18) d'(3) by (simp add: max_def split: if_splits)
  then show ?thesis using d' u assms(3) by (simp add: s')
qed

subsection \<open>What the service does not check\<close>

definition demo_leave :: db where
  "demo_leave = empty_db\<lparr>next_id := 10,
     leave_types := [\<lparr>lt_tenant = 0, lt_id = 1, lt_name = ''A'', lt_max = 14, lt_carry = True, lt_lwp = False\<rparr>],
     leave_allocations := [\<lparr>lq_tenant = 0, lq_employee = 2, lq_type = 1, lq_year = 2026, lq_days = 5, lq_carry = 0,
       lq_from = date_of 2026 1 1, lq_to = date_of 2026 12 31\<rparr>]\<rparr>"

definition demo_request :: "string \<Rightarrow> dec \<Rightarrow> db \<Rightarrow> (leave_application \<times> db) result" where
  "demo_request number days = submit_leave_application demo_env 0 number 2 1 (date_of 2026 3 2) (date_of 2026 3 6) days False ''R''"

text \<open>Applications that wait for a decision do not count, and approving does not look at the balance: two
  applications for the whole allocation are both accepted and both approved.\<close>

theorem two_approvals_overdraw:
  "\<exists>s b. ebind (demo_request ''1'' 5 demo_leave) (\<lambda>(_, u). ebind (demo_request ''2'' 5 u) (\<lambda>(_, v).
       ebind (approve_leave_application 0 10 None v) (\<lambda>(_, w). ebind (approve_leave_application 0 11 None w) (\<lambda>(_, x). Inr x)))) =
       Inr s \<and>
     get_leave_balance demo_env 0 2 1 (Some 2026) s = Inr b \<and> lb_allocated b = 5 \<and> lb_used b = 10"
proof -
  have "(case ebind (demo_request ''1'' 5 demo_leave) (\<lambda>(_, u). ebind (demo_request ''2'' 5 u) (\<lambda>(_, v).
       ebind (approve_leave_application 0 10 None v) (\<lambda>(_, w). ebind (approve_leave_application 0 11 None w) (\<lambda>(_, x). Inr x)))) of
      Inl _ \<Rightarrow> False | Inr s \<Rightarrow> (case get_leave_balance demo_env 0 2 1 (Some 2026) s of
        Inl _ \<Rightarrow> False | Inr b \<Rightarrow> lb_allocated b = 5 \<and> lb_used b = 10))"
    by code_simp
  then show ?thesis by (auto split: sum.splits)
qed

text \<open>A negative number of days is accepted, and adds to the balance once it is approved.\<close>

theorem negative_request_adds_days:
  "\<exists>s b. ebind (demo_request ''1'' (- 3) demo_leave) (\<lambda>(_, u). ebind (approve_leave_application 0 10 None u) (\<lambda>(_, x). Inr x)) = Inr s \<and>
     get_leave_balance demo_env 0 2 1 (Some 2026) s = Inr b \<and> lb_allocated b = 5 \<and> lb_remaining b = 8"
proof -
  have "(case ebind (demo_request ''1'' (- 3) demo_leave) (\<lambda>(_, u). ebind (approve_leave_application 0 10 None u) (\<lambda>(_, x). Inr x)) of
      Inl _ \<Rightarrow> False | Inr s \<Rightarrow> (case get_leave_balance demo_env 0 2 1 (Some 2026) s of
        Inl _ \<Rightarrow> False | Inr b \<Rightarrow> lb_allocated b = 5 \<and> lb_remaining b = 8))"
    by code_simp
  then show ?thesis by (auto split: sum.splits)
qed

end
