(* ===== verification/Spec2Isabelle.thy ===== *)
theory Spec2Isabelle
  imports Reports Matching Reservation StockCount Pricing WorkOrder Orchestrator Blanket LandedCost Dunning Leave
begin

text \<open>
  A verification library for the AI-native ERP (\<open>src/src/erp\<close>, Python, SQLAlchemy over PostgreSQL).

  \<^bold>\<open>The program.\<close> A multi-tenant ERP whose documents are worked on by agents. Every agent action that
  moves money goes through the ledger engine, which validates a proposal, appends rows to the general
  ledger, writes an event to the transactional outbox and an entry to a hash-chained audit log, all in
  one database transaction. Purchasing matches supplier invoices against orders and receipts and posts
  them through the engine; stock entries move quantities between warehouses and post on their own;
  reservations lock stock for vouchers. Revaluations of foreign balances and the depreciation, repair,
  adjustment and scrapping of fixed assets post on their own as well; the financial reports are sums over
  the general ledger. Quotations are priced by price lists, rules and chained taxes.
  Manufacturing explodes a production plan along its bills of materials, orders what has to be made and
  tracks the time on job cards. Inbound mail starts workflows: graphs of tasks that an executor
  runs in the order of their dependencies, each behind a compliance guardrail, with snapshots that
  survive a restart and an arbiter for proposals that claim the same resource. Smaller services book orders
  under purchasing contracts, spread landed cost over receipts, send reminders for overdue invoices and
  keep leave balances.

  \<^bold>\<open>How the code is modelled.\<close>
  \<^item> A database session is a record \<open>db\<close> of tables (lists of rows in insertion order, \<open>Tables\<close>) that a
    function takes and returns; a query is a filter, \<open>scalar_one_or_none\<close> and its relatives are the
    functions of \<open>Prelude\<close>, which raise when several rows match. An exception is a value: a function
    that can raise returns \<open>exn + 'a\<close>, sequenced with \<open>ebind\<close> and, in loops, \<open>efold\<close>. A caller that gets
    an error keeps its old database, as a rolled back session does. The sessions neither flush nor
    expire objects on their own (\<open>db/session.py\<close>), so within a service an object keeps what was assigned to it,
    and the columns round it when the service ends.
  \<^item> A \<open>Decimal\<close> is an exact rational (\<open>Decimals\<close>); arithmetic rounds to 28 digits as the default context
    does, \<open>quantize\<close> fails where the result would need more, and a \<open>Numeric(p, s)\<close> column rounds and
    rejects what does not fit. A \<open>float\<close> (\<open>Floats\<close>) is a rational that arithmetic rounds to 53 bits.
    Python's texts, JSON and the printing of numbers are in \<open>PyLib\<close>, and so is what a \<open>JSONB\<close> column of
    PostgreSQL does to a value: members ordered by the length and the bytes of their keys, the last of equal
    keys, integral floats from \<open>1e16\<close> on as integers. Texts have no NUL. The lengths of \<open>String\<close> columns are
    checked in the audit log only.
  \<^item> The clock, the thresholds of the settings, SHA-256 and the printing of decimals are the fields of the
    parameter \<open>env\<close>; fresh UUIDs are a counter of the database. Kafka is the state of a producer whose
    answers are an input; what a language model or a document service answers is a parameter of the
    executor (\<open>ag_work\<close>).

  \<^bold>\<open>Theories, in the order of their imports.\<close>
  \<^item> \<open>Prelude\<close>: results, loops that may raise, queries, the collections of the simplifier.
  \<^item> \<open>Decimals\<close>, \<open>Floats\<close>, \<open>PyLib\<close>, \<open>Tables\<close>: numbers, texts, JSON, the tables of \<open>db/models\<close>.
  \<^item> \<open>AuditChain\<close> (\<open>audit/\<close>): the hash of a record, the logger and the auditor, and the entry that the set-up
    of a tenant writes. The hash is taken from the payload in memory and recomputed from its \<open>JSONB\<close> form. What
    the logger appends keeps every tenant's chain accepted (interface \<open>audit_writer\<close>), unless \<open>JSONB\<close> changes
    the text of a payload; two accepted chains with one root have the same contents unless SHA-256 collides.
  \<^item> \<open>Outbox\<close> (\<open>events/outbox.py\<close>, \<open>producer.py\<close>, \<open>dispatcher.py\<close>): the dispatcher marks what it sent.
  \<^item> \<open>LedgerRules\<close> (\<open>ledger/invariants.py\<close>, \<open>rust_bridge.py\<close>): zero sum, ceilings and the duplicate of
    both; \<open>LedgerEngine\<close> (\<open>ledger/engine.py\<close>, \<open>sales_posting.py\<close>): the commit. The interface \<open>ledger_poster\<close>
    states what a writer of the general ledger owes (a balanced block, one audit record, one event), and
    is discharged for the engine.
  \<^item> \<open>Currency\<close> (\<open>workflows/currency/\<close>): rates and the revaluation of foreign balances.
  \<^item> \<open>Assets\<close> (\<open>workflows/assets/\<close>): categories, depreciation schedules and everything that happens to an
    asset. A schedule writes off exactly what the asset loses, although every amount is rounded;
    \<open>relativedelta\<close> is a parameter that may refuse a date. \<open>AssetLedger\<close>: whatever is done to the assets in any
    state, also to disposed ones, the book value of an asset outside the set \<open>D\<close> (those disposed of, or given
    an amount of more than four places) stays gross less accumulated.
  \<^item> \<open>LedgerHistory\<close> runs the engine, the logger, the services that post without the engine (interface
    \<open>direct_poster\<close> of \<open>StockEntry\<close>: they append balanced rows and leave the audit log), disposals of assets in
    any state and whatever else appends rows, in any order, and proves that the books balance and the audit log
    verifies. Nothing is excluded: the run \<open>ledger_run h X T s\<close> records the transactions \<open>X\<close> that the code posts
    unbalanced and the tenants \<open>T\<close> whose log got a record late or with a payload that \<open>JSONB\<close> changes.
  \<^item> \<open>Reports\<close> (\<open>workflows/reports/financial_reports_service.py\<close>): trial balance, balance sheet, profit and
    loss, cash flow, ageing and drilldown, related to each other and to the rows of any ledger that the table
    can hold (\<open>ledger_row\<close>), and balanced on the reachable ledgers without irregular transactions.
  \<^item> \<open>Tolerance\<close>, \<open>Matching\<close> (\<open>workflows/accounts_payable/\<close>): the tolerance evaluator, shown to decide the
    exact comparison although it computes with 28 digits, and the three-way match.
  \<^item> \<open>Stock\<close>, \<open>StockEntry\<close>, \<open>Reservation\<close>, \<open>StockCount\<close> (\<open>workflows/stock/\<close>): levels, the stock ledger, stock
    entries with the foreign keys of their lines, reservations and physical counts. The invariant \<open>stock_ok\<close> (levels agree with the stock ledger and with what is reserved) is
    an interface, \<open>stock_service\<close>, discharged for the entries, for the reservations and for both together.
  \<^item> \<open>Blanket\<close>, \<open>LandedCost\<close> (\<open>workflows/procurement/\<close>): contracts and the orders drawn from them, which stay
    within the agreed quantities; vouchers whose charges are distributed to the last place.
  \<^item> \<open>Dunning\<close> (\<open>workflows/billing/dunning_service.py\<close>), \<open>Leave\<close> (\<open>workflows/hr/leave_service.py\<close>): reminders,
    sent once per level; leave types, allocations, balances and applications.
  \<^item> \<open>Taxes\<close>, \<open>Pricing\<close> (\<open>workflows/commercial/calculation_service.py\<close>): chained tax rows and the totals of
    stored rows; price lists, pricing rules, promotions and the whole calculation of a document.
  \<^item> \<open>Bom\<close>, \<open>Mrp\<close>, \<open>WorkOrder\<close>, \<open>JobCard\<close> (\<open>workflows/manufacturing/\<close>): bills of materials and their
    trees, production plans and their explosion (it returns exactly when no bill contains itself, and then
    counts every path), work orders generated from a plan, job cards and their time logs, with what the
    completion of a work order does to its cards.
  \<^item> \<open>TaskDag\<close>, \<open>DagStore\<close>, \<open>Governance\<close>, \<open>Worker\<close>, \<open>Orchestrator\<close> (\<open>orchestration/\<close>): graphs and their
    validation by Kahn's algorithm, snapshots (nodes as their JSON dump, validated when they are read) and
    recovery, guardrail and arbitration, the executor, and the two workflows that it runs.

  \<^bold>\<open>Loops and fuel.\<close> All loops over data are structural. Kahn's queue terminates by a measure: the queue
  and the nodes that still wait. The executor polls, so \<open>run_loop\<close> has fuel; \<open>execution_terminates\<close> shows
  that as many passes as there are pending nodes are enough. The dispatcher runs as many iterations as
  its list of inputs has. The explosion of a plan recurses in the code without a guard: the model passes
  the bills on the stack and raises \<open>RecursionError\<close> when one of them comes back, as the interpreter does
  later. The tree of a bill stops at the depth the code names.

  \<^bold>\<open>Bounds.\<close> Sums of columns stay exact while a proposal has at most \<open>10 ^ 10\<close> lines, which the
  lemmas on commits assume where they need it; the reports add fewer than \<open>10 ^ 9\<close> rows of the
  general ledger, so that their sums, too, are exact in 28 digits.

  \<^bold>\<open>Not modelled.\<close> Concurrency inside PostgreSQL beyond what the interleaving of whole transactions gives
  (advisory locks, \<open>FOR UPDATE\<close>); rows of tables that no modelled function reads or writes; the HTTP routes,
  authentication, mail, storage and language-model clients; what the agents do inside a workflow node; the
  hash of a priced document; of work orders, the staging and the completion (but for its job cards), whose stock
  entries read quantities that the session has not rounded to their columns yet; the other writers of the
  ledger (payroll, expense advances, subcontracting), which the runs of \<open>LedgerHistory\<close> let append anything;
  Python values in the payloads of workflows and audit records that are not JSON; and the further packages and
  workflows, which are listed with their reasons among the components of the manifest.
\<close>

end
